(* ===== verification/Prelude.thy ===== *)
theory Prelude
  imports Main "HOL-Library.Word" "HOL-Library.Sublist"
begin

section \<open>Shared vocabulary: machine integers, errors, call context, tables, strings\<close>

text \<open>
  What every component of the model shares.
  \<^item> Go's \<open>int64\<close> is an \<open>int\<close> kept in range by \<open>wrap64\<close>; Postgres' \<open>bigint\<close> raises an error
    (\<open>SqlRange\<close>) where Go wraps.  \<open>wrap64_sint\<close> ties \<open>wrap64\<close> to the 64-bit words of the library.
  \<^item> Go has one \<open>error\<close> type; callers compare with \<open>errors.Is\<close>, which looks through the
    \<open>fmt.Errorf("...: %w", err)\<close> wrappers.  \<open>gerror\<close> is therefore one datatype holding the
    sentinel errors, and a wrapped error is the sentinel it wraps.
  \<^item> \<open>ctx\<close> is what a call reads from its environment: the clock, the values
    \<open>gen_random_uuid()\<close> returns, and SHA-256.  None of them is fixed by the model.
  \<^item> A table is the list of its rows in insertion order; \<open>find_row\<close> and \<open>update_row\<close> are
    \<open>SELECT ... WHERE id = $1\<close> and \<open>UPDATE ... WHERE id = $1\<close>.
\<close>

named_theorems goint \<open>int64 arithmetic that does not overflow\<close>
named_theorems frame \<open>fields an operation leaves alone\<close>

subsection \<open>64-bit integers\<close>

definition min64 :: int where "min64 = -9223372036854775808"
definition max64 :: int where "max64 = 9223372036854775807"

definition in64 :: "int \<Rightarrow> bool" where
  "in64 x \<longleftrightarrow> min64 \<le> x \<and> x \<le> max64"

definition wrap64 :: "int \<Rightarrow> int" where
  "wrap64 x = (x + 9223372036854775808) mod 18446744073709551616 - 9223372036854775808"

lemma wrap64_id [goint]: "in64 x \<Longrightarrow> wrap64 x = x"
  by (simp add: wrap64_def in64_def min64_def max64_def)

lemma in64_wrap64 [simp]: "in64 (wrap64 x)"
proof -
  have "0 \<le> (x + 9223372036854775808) mod 18446744073709551616"
    and "(x + 9223372036854775808) mod 18446744073709551616 < 18446744073709551616"
    by simp_all
  then show ?thesis by (simp add: wrap64_def in64_def min64_def max64_def)
qed

text \<open>\<open>wrap64\<close> is the signed reading of the 64-bit word: what a Go \<open>int64\<close> holds.\<close>

lemma wrap64_sint: "wrap64 x = sint (word_of_int x :: 64 word)"
proof -
  have "sint (word_of_int x :: 64 word) = signed_take_bit 63 x"
    by transfer simp
  also have "\<dots> = wrap64 x"
    by (simp add: wrap64_def signed_take_bit_eq_take_bit_shift take_bit_eq_mod)
  finally show ?thesis by simp
qed

text \<open>Go's \<open>/\<close> truncates towards zero.\<close>

definition go_quot :: "int \<Rightarrow> int \<Rightarrow> int" where
  "go_quot a b = wrap64 (sgn a * sgn b * (\<bar>a\<bar> div \<bar>b\<bar>))"

lemma go_quot_nonneg: "0 \<le> a \<Longrightarrow> 0 < b \<Longrightarrow> in64 a \<Longrightarrow> go_quot a b = a div b"
proof -
  assume a: "0 \<le> a" and b: "0 < b" and r: "in64 a"
  have "0 \<le> a div b" using a b by (simp add: pos_imp_zdiv_nonneg_iff)
  moreover have "a div b \<le> a" using a b zdiv_mono2 [of a 1 b] by simp
  ultimately have "in64 (a div b)" using r by (auto simp: in64_def min64_def)
  then show ?thesis using a b
    by (cases "a = 0") (simp_all add: go_quot_def wrap64_id)
qed

lemma in64_between: "in64 a \<Longrightarrow> in64 b \<Longrightarrow> a \<le> x \<Longrightarrow> x \<le> b \<Longrightarrow> in64 x"
  by (simp add: in64_def)

lemma in64_uminus: "0 \<le> a \<Longrightarrow> in64 a \<Longrightarrow> in64 (- a)"
  by (simp add: in64_def min64_def max64_def)

lemma wrap64_uminus [goint]: "in64 a \<Longrightarrow> a \<noteq> min64 \<Longrightarrow> wrap64 (- a) = - a"
  by (rule wrap64_id) (auto simp: in64_def min64_def max64_def)

text \<open>A \<open>numeric\<close> scanned into an \<open>int64\<close>, or assigned to a \<open>bigint\<close>, must be in range.\<close>

subsection \<open>Errors\<close>

datatype gerror =
    SqlUnique | SqlForeignKey | SqlCheck | SqlRange | SqlUnbalanced | SqlScan | ErrNoRows
  | ErrInvalidTransition | ErrAccountNotFound | ErrHoldNotFound | ErrHoldNotActive
  | ErrInsufficientBalance | ErrTransactionNotFound | ErrNotReversible
  | ErrNoSystemAccount | ErrBadCurrency
  | ErrKeyReused | ErrKeyInProgress
  | ErrIdentityNotFound | ErrIdentityTransition | ErrEmailTaken
  | ErrReadOnly | ErrKillSwitchTripped string
  | ErrLimitExceeded | ErrNoTierLimits | ErrRecipientNotFound
  | ErrCoolingRecipientNotFound | ErrPayeeMismatchNotConfirmed | ErrNotPending
  | ErrUnknownRail | ErrDeadlineExceeded | ErrNotHeld | ErrNoHold
  | ErrCardNotFound | ErrNotAuthorized
  | ErrDisputeTransition
  | ErrNoSettlementAccount | ErrUnknownStatus | ErrUnknownInterval | ErrInvalidCardNumber
  | ErrInvalidReference | ErrBillerNotFound | ErrInvalidKey | ErrApiKeyNotFound | ErrConsentNotFound
  | ErrCheckoutNotFound | ErrInvalidCredentials | ErrIdentityNotActive | ErrSessionNotFound
  | ErrMFANotEnrolled | ErrInvalidCode | ErrInvalidPassword | ErrMalformed | ErrUnseal | ErrDeviceNotFound
  | ErrKYCFailed | ErrNotEligible | ErrEndpointNotFound
  | ErrKeyConfig | GoPanic

definition scan64 :: "int \<Rightarrow> gerror + int" where
  "scan64 x = (if in64 x then Inr x else Inl SqlRange)"

lemma scan64_Inr [simp]: "scan64 x = Inr y \<longleftrightarrow> in64 x \<and> y = x"
  by (auto simp: scan64_def)

lemma scan64_Inl [simp]: "scan64 x = Inl e \<longleftrightarrow> \<not> in64 x \<and> e = SqlRange"
  by (auto simp: scan64_def)

subsection \<open>The environment of a call\<close>

type_synonym uuid = string

text \<open>
  \<open>now\<close> is the time in microseconds (Postgres' resolution) since the epoch; \<open>gen i\<close> is the
  \<open>i\<close>-th value \<open>gen_random_uuid()\<close> returns during the call; \<open>sha256\<close> is the hash in hex.
\<close>

record ctx =
  now :: int
  gen :: "nat \<Rightarrow> uuid"
  sha256 :: "string \<Rightarrow> string"

definition second :: int where "second = 1000000"
definition minute :: int where "minute = 60 * second"
definition hour :: int where "hour = 60 * minute"
definition day :: int where "day = 24 * hour"

text \<open>\<open>date_trunc('day', now())\<close>, for a session whose time zone is UTC.\<close>

definition day_start :: "int \<Rightarrow> int" where
  "day_start t = t - t mod day"

lemma day_pos [simp]: "0 < day"
  by (simp add: day_def hour_def minute_def second_def)

lemma day_start_le: "day_start t \<le> t"
  by (simp add: day_start_def)

lemma day_start_mono: "t \<le> u \<Longrightarrow> day_start t \<le> day_start u"
  unfolding day_start_def minus_mod_eq_mult_div
  by (rule mult_left_mono [OF zdiv_mono1]) (simp_all add: less_imp_le)

subsection \<open>Tables\<close>

definition find_row :: "('r \<Rightarrow> 'k) \<Rightarrow> 'k \<Rightarrow> 'r list \<Rightarrow> 'r option" where
  "find_row key k rows = find (\<lambda>r. key r = k) rows"

definition update_row :: "('r \<Rightarrow> 'k) \<Rightarrow> 'k \<Rightarrow> ('r \<Rightarrow> 'r) \<Rightarrow> 'r list \<Rightarrow> 'r list" where
  "update_row key k f rows = map (\<lambda>r. if key r = k then f r else r) rows"

text \<open>A primary-key or unique constraint admits a new row only under a key not yet taken.\<close>

definition key_taken :: "('r \<Rightarrow> 'k) \<Rightarrow> 'k \<Rightarrow> 'r list \<Rightarrow> bool" where
  "key_taken key k rows \<longleftrightarrow> k \<in> set (map key rows)"

lemma find_row_Nil [simp]: "find_row key k [] = None"
  by (simp add: find_row_def)

lemma find_row_Cons: "find_row key k (r # rs) = (if key r = k then Some r else find_row key k rs)"
  by (simp add: find_row_def)

lemma find_row_append:
  "find_row key k (rs @ ss) = (case find_row key k rs of Some r \<Rightarrow> Some r | None \<Rightarrow> find_row key k ss)"
  by (induction rs) (auto simp: find_row_Cons)

lemma find_row_None: "find_row key k rows = None \<longleftrightarrow> \<not> key_taken key k rows"
  by (induction rows) (auto simp: find_row_Cons key_taken_def)

lemma find_row_Some: "find_row key k rows = Some r \<Longrightarrow> r \<in> set rows \<and> key r = k"
  by (induction rows) (auto simp: find_row_Cons split: if_splits)

lemma find_row_key: "find_row key k rows = Some r \<Longrightarrow> key r = k"
  by (drule find_row_Some) simp

lemma find_row_taken: "find_row key k rows = Some r \<Longrightarrow> key_taken key k rows"
  by (metis find_row_None option.distinct(1))

lemma key_taken_find: "key_taken key k rows \<Longrightarrow> \<exists>r. find_row key k rows = Some r"
  by (metis find_row_None not_None_eq)

lemma find_row_distinct:
  "distinct (map key rows) \<Longrightarrow> r \<in> set rows \<Longrightarrow> find_row key (key r) rows = Some r"
  by (induction rows) (force simp: find_row_Cons)+

lemma key_taken_append [simp]:
  "key_taken key k (rs @ ss) \<longleftrightarrow> key_taken key k rs \<or> key_taken key k ss"
  by (auto simp: key_taken_def)

lemma key_taken_single [simp]: "key_taken key k [r] \<longleftrightarrow> k = key r"
  by (auto simp: key_taken_def)

lemma key_taken_map: "map key xs = map key ys \<Longrightarrow> key_taken key k xs = key_taken key k ys"
  by (simp add: key_taken_def flip: set_map)

lemma ball_map_eq: "map f xs = map f ys \<Longrightarrow> (\<forall>x\<in>set xs. P (f x)) \<longleftrightarrow> (\<forall>y\<in>set ys. P (f y))"
  by (induction xs ys rule: list_induct2') auto

lemma distinct_snoc_key:
  "distinct (map key (rows @ [r])) \<longleftrightarrow> distinct (map key rows) \<and> \<not> key_taken key (key r) rows"
  by (auto simp: key_taken_def)

lemma set_update_row: "set (update_row key k f rows) = (\<lambda>r. if key r = k then f r else r) ` set rows"
  by (simp add: update_row_def)

lemma update_row_other: "\<not> key_taken key k rows \<Longrightarrow> update_row key k f rows = rows"
  by (induction rows) (auto simp: update_row_def key_taken_def)

text \<open>
  What an \<open>UPDATE\<close> that leaves the key column alone promises its callers: the same keys in
  the same order, the row it names changed, and every other row as it was.
\<close>

locale row_update =
  fixes key :: "'r \<Rightarrow> 'k" and f :: "'r \<Rightarrow> 'r"
  assumes key_kept: "key (f r) = key r"
begin

lemma keys: "map key (update_row key k f rows) = map key rows"
  by (simp add: update_row_def key_kept)

lemma taken: "key_taken key k' (update_row key k f rows) \<longleftrightarrow> key_taken key k' rows"
  unfolding key_taken_def keys ..

lemma find: "find_row key k' (update_row key k f rows) =
    map_option (\<lambda>r. if k' = k then f r else r) (find_row key k' rows)"
  by (induction rows) (auto simp: find_row_Cons update_row_def key_kept)

lemma find_same: "find_row key k rows = Some r \<Longrightarrow>
    find_row key k (update_row key k f rows) = Some (f r)"
  by (simp add: find)

lemma find_other: "k' \<noteq> k \<Longrightarrow> find_row key k' (update_row key k f rows) = find_row key k' rows"
  by (simp add: find option.map_ident)

text \<open>Summing a column over a table in which one row changed.\<close>

lemma sum_update:
  fixes g :: "'r \<Rightarrow> int"
  assumes "distinct (map key rows)" and "find_row key k rows = Some r"
  shows "sum_list (map g (update_row key k f rows)) = sum_list (map g rows) - g r + g (f r)"
  using assms
proof (induction rows)
  case (Cons x xs)
  show ?case
  proof (cases "key x = k")
    case True
    then have "\<not> key_taken key k xs" using Cons.prems by (auto simp: key_taken_def)
    then have "update_row key k f xs = xs" by (rule update_row_other)
    with True Cons.prems show ?thesis by (simp add: update_row_def find_row_Cons)
  next
    case False
    with Cons show ?thesis by (simp add: update_row_def find_row_Cons)
  qed
qed simp

end

subsection \<open>Strings\<close>

text \<open>Go's \<open>strings.Contains s sub\<close>.\<close>

fun str_contains :: "string \<Rightarrow> string \<Rightarrow> bool" where
  "str_contains [] sub \<longleftrightarrow> sub = []"
| "str_contains (c # cs) sub \<longleftrightarrow> prefix sub (c # cs) \<or> str_contains cs sub"

lemma str_contains_sublist: "str_contains s sub \<longleftrightarrow> sublist sub s"
  by (induction s) (auto simp: sublist_Cons_right)

text \<open>\<open>%d\<close> of a non-negative number, and of any \<open>int64\<close>.\<close>

fun dec_nat :: "nat \<Rightarrow> string" where
  "dec_nat n = (if n < 10 then [char_of (48 + n)] else dec_nat (n div 10) @ [char_of (48 + n mod 10)])"

declare dec_nat.simps [simp del]

definition dec_int :: "int \<Rightarrow> string" where
  "dec_int i = (if i < 0 then ''-'' @ dec_nat (nat (- i)) else dec_nat (nat i))"

end
