(* ===== verification/Kyc.thy ===== *)
theory Kyc
  imports Prelude
begin

section \<open>KYC checks and sanctions screening\<close>

text \<open>
  \<open>internal/kyc\<close> (kyc.go, service.go) and \<open>internal/compliance\<close>: the check outcomes, the
  stub provider and the stub screener, and \<open>Evaluate\<close>, which rolls outcomes up into an
  overall result and a verification tier.  The overall result is shown to be the worst of
  the outcomes in the order pass < review < fail.
\<close>

subsection \<open>kyc.go\<close>

datatype check_type = CheckIDDocument | CheckLiveness | CheckAddress | CheckSanctions | CheckPEP

datatype kyc_result = ResultPass | ResultReview | ResultFail

text \<open>The \<open>map[string]any\<close> values the code stores as JSON.\<close>

datatype json = JStr string | JInt int | JBool bool

record applicant =
  legal_name :: string
  address :: string

record check_outcome =
  o_check :: check_type
  o_provider :: string
  o_result :: kyc_result
  o_raw :: "(string \<times> json) list"

definition failMarker :: string where "failMarker = ''KYCFAIL''"

definition stub_verify :: "applicant \<Rightarrow> check_outcome list" where
  "stub_verify a =
    (let docResult = (if str_contains (legal_name a) failMarker then ResultFail else ResultPass);
         addrResult = (if str_contains (address a) failMarker then ResultFail else ResultPass)
     in [\<lparr>o_check = CheckIDDocument, o_provider = ''stub'', o_result = docResult,
          o_raw = [(''legal_name'', JStr (legal_name a))]\<rparr>,
         \<lparr>o_check = CheckLiveness, o_provider = ''stub'', o_result = ResultPass, o_raw = []\<rparr>,
         \<lparr>o_check = CheckAddress, o_provider = ''stub'', o_result = addrResult,
          o_raw = [(''address'', JStr (address a))]\<rparr>])"

subsection \<open>compliance.go\<close>

definition sanctionedMarker :: string where "sanctionedMarker = ''SANCTIONED''"

definition stub_screen :: "string \<Rightarrow> check_outcome list" where
  "stub_screen name =
    [\<lparr>o_check = CheckSanctions, o_provider = ''stub'',
      o_result = (if str_contains name sanctionedMarker then ResultFail else ResultPass),
      o_raw = [(''legal_name'', JStr name)]\<rparr>,
     \<lparr>o_check = CheckPEP, o_provider = ''stub'', o_result = ResultPass, o_raw = []\<rparr>]"

subsection \<open>service.go: Evaluate\<close>

text \<open>The five flags the loop of \<open>Evaluate\<close> carries, and one turn of the loop.\<close>

record eval_flags =
  hasFail :: bool
  hasReview :: bool
  idPass :: bool
  livenessPass :: bool
  addressPass :: bool

definition eval_step :: "check_outcome \<Rightarrow> eval_flags \<Rightarrow> eval_flags" where
  "eval_step oc fl =
    (let fl1 = (case o_result oc of
          ResultFail \<Rightarrow> fl\<lparr>hasFail := True\<rparr>
        | ResultReview \<Rightarrow> fl\<lparr>hasReview := True\<rparr>
        | ResultPass \<Rightarrow> fl)
     in (case o_check oc of
          CheckIDDocument \<Rightarrow> fl1\<lparr>idPass := (o_result oc = ResultPass)\<rparr>
        | CheckLiveness \<Rightarrow> fl1\<lparr>livenessPass := (o_result oc = ResultPass)\<rparr>
        | CheckAddress \<Rightarrow> fl1\<lparr>addressPass := (o_result oc = ResultPass)\<rparr>
        | _ \<Rightarrow> fl1))"

definition evaluate_kyc :: "check_outcome list \<Rightarrow> int \<times> kyc_result" where
  "evaluate_kyc outcomes =
    (let fl = fold eval_step outcomes
          \<lparr>hasFail = False, hasReview = False, idPass = False, livenessPass = False, addressPass = False\<rparr>;
         tier = (if idPass fl \<and> livenessPass fl \<and> addressPass fl then 2
                 else if idPass fl \<and> livenessPass fl then 1 else 0);
         overall = (if hasFail fl then ResultFail else if hasReview fl then ResultReview else ResultPass)
     in (tier, overall))"

subsection \<open>The severity order of results\<close>

fun severity :: "kyc_result \<Rightarrow> nat" where
  "severity ResultPass = 0"
| "severity ResultReview = 1"
| "severity ResultFail = 2"

lemma severity_inj: "severity a = severity b \<Longrightarrow> a = b"
  by (cases a; cases b) simp_all

instantiation kyc_result :: linorder
begin
definition less_eq_kyc_result :: "kyc_result \<Rightarrow> kyc_result \<Rightarrow> bool" where
  "less_eq_kyc_result a b \<longleftrightarrow> severity a \<le> severity b"
definition less_kyc_result :: "kyc_result \<Rightarrow> kyc_result \<Rightarrow> bool" where
  "less_kyc_result a b \<longleftrightarrow> severity a < severity b"
instance
  by standard (auto simp: less_eq_kyc_result_def less_kyc_result_def intro: severity_inj)
end

lemma kyc_fail_top [simp]: "r \<le> ResultFail"
  by (cases r) (simp_all add: less_eq_kyc_result_def)

lemma kyc_pass_bot [simp]: "ResultPass \<le> r"
  by (cases r) (simp_all add: less_eq_kyc_result_def)

subsection \<open>What Evaluate computes\<close>

lemma fold_hasFail: "hasFail (fold eval_step ocs fl) \<longleftrightarrow> hasFail fl \<or> ResultFail \<in> o_result ` set ocs"
proof (induction ocs arbitrary: fl)
  case (Cons oc ocs)
  have "hasFail (eval_step oc fl) \<longleftrightarrow> hasFail fl \<or> o_result oc = ResultFail"
    by (simp add: eval_step_def Let_def split: kyc_result.split check_type.split)
  then show ?case by (auto simp: Cons.IH)
qed simp

lemma fold_hasReview:
  "hasReview (fold eval_step ocs fl) \<longleftrightarrow> hasReview fl \<or> ResultReview \<in> o_result ` set ocs"
proof (induction ocs arbitrary: fl)
  case (Cons oc ocs)
  have "hasReview (eval_step oc fl) \<longleftrightarrow> hasReview fl \<or> o_result oc = ResultReview"
    by (simp add: eval_step_def Let_def split: kyc_result.split check_type.split)
  then show ?case by (auto simp: Cons.IH)
qed simp

lemma overall_cases:
  "snd (evaluate_kyc ocs) =
    (if ResultFail \<in> o_result ` set ocs then ResultFail
     else if ResultReview \<in> o_result ` set ocs then ResultReview else ResultPass)"
  by (simp add: evaluate_kyc_def Let_def fold_hasFail fold_hasReview)

lemma in_o_result: "r \<in> o_result ` set ocs \<longleftrightarrow> (\<exists>oc\<in>set ocs. o_result oc = r)"
  by force

lemma overall_pass_iff: "snd (evaluate_kyc ocs) = ResultPass \<longleftrightarrow> (\<forall>oc\<in>set ocs. o_result oc = ResultPass)"
proof -
  have "snd (evaluate_kyc ocs) = ResultPass \<longleftrightarrow> (\<forall>oc\<in>set ocs. o_result oc \<noteq> ResultFail \<and> o_result oc \<noteq> ResultReview)"
    unfolding overall_cases in_o_result by auto
  also have "\<dots> \<longleftrightarrow> (\<forall>oc\<in>set ocs. o_result oc = ResultPass)"
    by (rule ball_cong [OF refl]) (metis kyc_result.exhaust kyc_result.distinct(1,3))
  finally show ?thesis .
qed

lemma tier_range: "fst (evaluate_kyc ocs) \<in> {0, 1, 2}"
  by (simp add: evaluate_kyc_def Let_def)

end
