(* ===== verification/Identity.thy ===== *)
theory Identity
  imports Kyc
begin

section \<open>Identities, the audit log\<close>

text \<open>
  \<open>internal/identity\<close> (identity.go, service.go), \<open>internal/audit\<close> and \<open>kyc.RecordChecks\<close>: the
  identity record, its status machine, the role scopes, and the writes onboarding composes.
  A write that runs inside the caller's transaction takes the state of that transaction and
  returns an error or the value with the new state; the caller rolls back on an error.
\<close>

subsection \<open>identity.go\<close>

datatype kind = KindIndividual | KindBusiness | KindSystem

datatype id_status = IdPending | IdActive | IdRejected | IdSuspended | IdClosed

fun statusTransitions :: "id_status \<Rightarrow> id_status list" where
  "statusTransitions IdPending = [IdActive, IdRejected]"
| "statusTransitions IdActive = [IdSuspended, IdClosed]"
| "statusTransitions IdSuspended = [IdActive, IdClosed]"
| "statusTransitions IdRejected = []"
| "statusTransitions IdClosed = []"

definition id_CanTransitionTo :: "id_status \<Rightarrow> id_status \<Rightarrow> bool" where
  "id_CanTransitionTo s target \<longleftrightarrow> target \<in> set (statusTransitions s)"

datatype role = RoleCustomer | RoleSupportAgent | RoleAdmin

fun roleScopes :: "role \<Rightarrow> string list" where
  "roleScopes RoleCustomer = [''accounts:read'', ''accounts:transact'']"
| "roleScopes RoleSupportAgent = [''accounts:read'', ''identities:read'']"
| "roleScopes RoleAdmin = [''accounts:read'', ''accounts:transact'', ''identities:read'',
     ''identities:write'', ''kyc:review'']"

definition HasScope :: "role \<Rightarrow> string \<Rightarrow> bool" where
  "HasScope r scope \<longleftrightarrow> scope \<in> set (roleScopes r)"

record identity =
  id_id :: uuid
  id_kind :: kind
  id_stat :: id_status
  id_tier :: int
  id_email :: string
  id_phone :: "string option"
  id_password_hash :: string
  id_legal_name :: string
  id_role :: role

text \<open>\<open>ownership_percent\<close> is \<open>NUMERIC(5,2)\<close>: the column's value in hundredths.\<close>

record beneficial_owner =
  bo_business :: uuid
  bo_name :: string
  bo_percent :: int

record kyc_check =
  kc_identity :: uuid
  kc_outcome :: check_outcome

record audit_row =
  au_actor :: "uuid option"
  au_action :: string
  au_target_type :: string
  au_target :: string
  au_meta :: "(string \<times> json) list"

record identity_db =
  identities :: "identity list"
  beneficial_owners :: "beneficial_owner list"
  kyc_checks :: "kyc_check list"
  audit_log :: "audit_row list"

subsection \<open>service.go\<close>

text \<open>
  \<open>INSERT INTO identities\<close>: the columns not given take the defaults of migration 00008
  (status pending, tier 0, role customer).  A duplicate e-mail is a unique violation, which
  \<open>isUniqueViolation\<close> turns into \<open>ErrEmailTaken\<close>; so is, to this code, a duplicate id.
\<close>

definition insert_identity ::
  "uuid \<Rightarrow> kind \<Rightarrow> string \<Rightarrow> string option \<Rightarrow> string \<Rightarrow> string \<Rightarrow> 'z identity_db_scheme
    \<Rightarrow> gerror + (identity \<times> 'z identity_db_scheme)" where
  "insert_identity uid k email phone passwordHash legalName s =
    (if key_taken id_id uid (identities s) \<or> key_taken id_email email (identities s)
     then Inl ErrEmailTaken
     else let r = \<lparr>id_id = uid, id_kind = k, id_stat = IdPending, id_tier = 0, id_email = email,
                   id_phone = phone, id_password_hash = passwordHash, id_legal_name = legalName,
                   id_role = RoleCustomer\<rparr>
          in Inr (r, s\<lparr>identities := identities s @ [r]\<rparr>))"

definition InsertBeneficialOwner ::
  "uuid \<Rightarrow> string \<Rightarrow> int \<Rightarrow> 'z identity_db_scheme \<Rightarrow> gerror + 'z identity_db_scheme" where
  "InsertBeneficialOwner biz name pct s =
    (if \<not> (- 99999 \<le> pct \<and> pct \<le> 99999) then Inl SqlRange
     else if \<not> (0 < pct \<and> pct \<le> 10000) then Inl SqlCheck
     else if \<not> key_taken id_id biz (identities s) then Inl SqlForeignKey
     else Inr (s\<lparr>beneficial_owners := beneficial_owners s @
                 [\<lparr>bo_business = biz, bo_name = name, bo_percent = pct\<rparr>]\<rparr>))"

definition SetStatusAndTier ::
  "uuid \<Rightarrow> id_status \<Rightarrow> int \<Rightarrow> 'z identity_db_scheme \<Rightarrow> gerror + 'z identity_db_scheme" where
  "SetStatusAndTier identityID target kycTier s =
    (case find_row id_id identityID (identities s) of
       None \<Rightarrow> Inl ErrIdentityNotFound
     | Some r \<Rightarrow>
        if id_stat r \<noteq> target \<and> \<not> id_CanTransitionTo (id_stat r) target then Inl ErrIdentityTransition
        else if kycTier \<notin> {0, 1, 2} then Inl SqlCheck
        else Inr (s\<lparr>identities := update_row id_id identityID
                    (\<lambda>r. r\<lparr>id_stat := target, id_tier := kycTier\<rparr>) (identities s)\<rparr>))"

definition GetByID :: "uuid \<Rightarrow> 'z identity_db_scheme \<Rightarrow> gerror + identity" where
  "GetByID i s = (case find_row id_id i (identities s) of None \<Rightarrow> Inl ErrIdentityNotFound | Some r \<Rightarrow> Inr r)"

definition GetByEmail :: "string \<Rightarrow> 'z identity_db_scheme \<Rightarrow> gerror + identity" where
  "GetByEmail e s = (case find_row id_email e (identities s) of None \<Rightarrow> Inl ErrIdentityNotFound | Some r \<Rightarrow> Inr r)"

definition PasswordHash :: "string \<Rightarrow> 'z identity_db_scheme \<Rightarrow> gerror + (uuid \<times> string)" where
  "PasswordHash e s = (case find_row id_email e (identities s) of
     None \<Rightarrow> Inl ErrIdentityNotFound | Some r \<Rightarrow> Inr (id_id r, id_password_hash r))"

subsection \<open>audit.go and kyc.RecordChecks\<close>

definition audit_Record ::
  "uuid option \<Rightarrow> string \<Rightarrow> string \<Rightarrow> string \<Rightarrow> (string \<times> json) list \<Rightarrow> 'z identity_db_scheme
    \<Rightarrow> gerror + 'z identity_db_scheme" where
  "audit_Record actor action ttype target meta s =
    (if (case actor of None \<Rightarrow> False | Some a \<Rightarrow> \<not> key_taken id_id a (identities s)) then Inl SqlForeignKey
     else Inr (s\<lparr>audit_log := audit_log s @
       [\<lparr>au_actor = actor, au_action = action, au_target_type = ttype, au_target = target, au_meta = meta\<rparr>]\<rparr>))"

fun RecordChecks ::
  "uuid \<Rightarrow> check_outcome list \<Rightarrow> 'z identity_db_scheme \<Rightarrow> gerror + 'z identity_db_scheme" where
  "RecordChecks identityID [] s = Inr s"
| "RecordChecks identityID (oc # ocs) s =
    (if \<not> key_taken id_id identityID (identities s) then Inl SqlForeignKey
     else RecordChecks identityID ocs
       (s\<lparr>kyc_checks := kyc_checks s @ [\<lparr>kc_identity = identityID, kc_outcome = oc\<rparr>]\<rparr>))"

subsection \<open>Lemmas\<close>

interpretation set_status: row_update id_id "\<lambda>r. r\<lparr>id_stat := t, id_tier := k\<rparr>" for t k
  by unfold_locales simp

lemma RecordChecks_ok:
  "key_taken id_id i (identities s) \<Longrightarrow>
   RecordChecks i ocs s = Inr (s\<lparr>kyc_checks := kyc_checks s @
     map (\<lambda>oc. \<lparr>kc_identity = i, kc_outcome = oc\<rparr>) ocs\<rparr>)"
  by (induction ocs arbitrary: s) simp_all

lemma audit_Record_ok:
  "key_taken id_id i (identities s) \<Longrightarrow>
   audit_Record (Some i) a t g m s = Inr (s\<lparr>audit_log := audit_log s @
     [\<lparr>au_actor = Some i, au_action = a, au_target_type = t, au_target = g, au_meta = m\<rparr>]\<rparr>)"
  by (simp add: audit_Record_def)

text \<open>A terminal status has no way out.\<close>

lemma terminal_status: "id_CanTransitionTo IdRejected t = False" "id_CanTransitionTo IdClosed t = False"
  by (simp_all add: id_CanTransitionTo_def)

end
