(* ===== verification/Idempotency.thy ===== *)
theory Idempotency
  imports Identity
begin

section \<open>At-most-once execution under an idempotency key\<close>

text \<open>
  \<open>internal/idempotency\<close>: \<open>Execute\<close> reserves the key, runs the caller's function in the same
  database transaction, records the response and commits; a key already taken answers from
  the stored row.  The response bytes are a type parameter \<open>'r\<close> (the caller marshals and
  unmarshals one and the same struct).  \<open>commit\<close> is the work Postgres does at COMMIT: the
  deferred constraint triggers, given the state at BEGIN and the state to commit.  A race on
  the key is decided by its primary key: the loser's INSERT waits and then finds the row,
  which is the \<open>Some\<close> branch here.

  The locale \<open>idempotent_call\<close> states what \<open>Execute\<close> asks of the function it runs; its lemmas
  are the guarantees of the package, and the ledger interprets it for each of its operations.
\<close>

datatype idem_status = InProgress | Completed

record 'r idem_row =
  ik_key :: string
  ik_hash :: string
  ik_status :: idem_status
  ik_response :: "'r option"
  ik_expires :: int

record 'r idem_db = identity_db +
  idem_keys :: "'r idem_row list"

definition fetchCompleted :: "string \<Rightarrow> string \<Rightarrow> ('r, 'z) idem_db_scheme \<Rightarrow> gerror + 'r" where
  "fetchCompleted key requestHash s =
    (case find_row ik_key key (idem_keys s) of
       None \<Rightarrow> Inl ErrNoRows
     | Some r \<Rightarrow>
        if ik_hash r \<noteq> requestHash then Inl ErrKeyReused
        else if ik_status r \<noteq> Completed then Inl ErrKeyInProgress
        else (case ik_response r of None \<Rightarrow> Inl ErrNoRows | Some resp \<Rightarrow> Inr resp))"

definition Execute ::
  "ctx \<Rightarrow> (('r, 'z) idem_db_scheme \<Rightarrow> ('r, 'z) idem_db_scheme \<Rightarrow> gerror option) \<Rightarrow> string \<Rightarrow> string \<Rightarrow> int
    \<Rightarrow> (('r, 'z) idem_db_scheme \<Rightarrow> gerror + ('r \<times> ('r, 'z) idem_db_scheme))
    \<Rightarrow> ('r, 'z) idem_db_scheme \<Rightarrow> (gerror + 'r) \<times> ('r, 'z) idem_db_scheme" where
  "Execute c commit key requestHash ttl fn s =
    (if key_taken ik_key key (idem_keys s) then (fetchCompleted key requestHash s, s)
     else
      let s1 = s\<lparr>idem_keys := idem_keys s @
            [\<lparr>ik_key = key, ik_hash = requestHash, ik_status = InProgress,
              ik_response = None, ik_expires = now c + ttl\<rparr>]\<rparr>
      in case fn s1 of
           Inl e \<Rightarrow> (Inl e, s)
         | Inr (resp, s2) \<Rightarrow>
            let s3 = s2\<lparr>idem_keys := update_row ik_key key
                  (\<lambda>r. r\<lparr>ik_status := Completed, ik_response := Some resp\<rparr>) (idem_keys s2)\<rparr>
            in case commit s s3 of
                 Some e \<Rightarrow> (Inl e, s)
               | None \<Rightarrow> (Inr resp, s3))"

interpretation complete_key: row_update ik_key "\<lambda>r. r\<lparr>ik_status := Completed, ik_response := Some resp\<rparr>"
  for resp
  by unfold_locales simp

subsection \<open>The contract\<close>

text \<open>
  \<open>fn\<close> is a transaction body that leaves the table of keys alone: it runs the business writes
  only.  That is all \<open>Execute\<close> needs for its guarantees.
\<close>

locale idempotent_call =
  fixes fn :: "('r, 'z) idem_db_scheme \<Rightarrow> gerror + ('r \<times> ('r, 'z) idem_db_scheme)"
  assumes fn_keys: "fn s = Inr (resp, s') \<Longrightarrow> idem_keys s' = idem_keys s"
begin

lemma error_rolls_back: "Execute c commit key h ttl fn s = (Inl e, s') \<Longrightarrow> s' = s"
  by (auto simp: Execute_def Let_def split: if_splits sum.splits option.splits)

text \<open>After a success the key holds the completed row with the response.\<close>

lemma success_row:
  assumes "Execute c commit key h ttl fn s = (Inr resp, s')"
  shows "\<exists>r. find_row ik_key key (idem_keys s') = Some r \<and> ik_hash r = h
           \<and> ik_status r = Completed \<and> ik_response r = Some resp"
proof (cases "key_taken ik_key key (idem_keys s)")
  case True
  with assms show ?thesis
    by (auto simp: Execute_def fetchCompleted_def split: option.splits if_splits)
next
  case False
  let ?row = "\<lparr>ik_key = key, ik_hash = h, ik_status = InProgress, ik_response = None, ik_expires = now c + ttl\<rparr>"
  let ?s1 = "s\<lparr>idem_keys := idem_keys s @ [?row]\<rparr>"
  from False assms obtain s2 where s2: "fn ?s1 = Inr (resp, s2)"
    and s': "s' = s2\<lparr>idem_keys := update_row ik_key key
                  (\<lambda>r. r\<lparr>ik_status := Completed, ik_response := Some resp\<rparr>) (idem_keys s2)\<rparr>"
    by (auto simp: Execute_def Let_def split: sum.splits option.splits)
  from False have "find_row ik_key key (idem_keys s @ [?row]) = Some ?row"
    by (simp add: find_row_append find_row_Cons find_row_None [symmetric])
  with fn_keys [OF s2] show ?thesis
    by (simp add: s' complete_key.find_same)
qed

text \<open>A retry under the same key and hash returns the first response and writes nothing.\<close>

lemma retry_replays:
  assumes "Execute c commit key h ttl fn s = (Inr resp, s')"
  shows "Execute c' commit' key h ttl' fn' s' = (Inr resp, s')"
  using success_row [OF assms]
  by (auto simp: Execute_def fetchCompleted_def dest: find_row_taken)

text \<open>A retry under the same key with another payload is refused and writes nothing.\<close>

lemma reuse_refused:
  assumes "Execute c commit key h ttl fn s = (Inr resp, s')" and "h' \<noteq> h"
  shows "Execute c' commit' key h' ttl' fn' s' = (Inl ErrKeyReused, s')"
  using success_row [OF assms(1)] assms(2)
  by (auto simp: Execute_def fetchCompleted_def dest: find_row_taken)

text \<open>After a failure the key is as free as before, so a retry executes.\<close>

lemma failure_keeps_key_free:
  assumes "Execute c commit key h ttl fn s = (Inl e, s')" and "\<not> key_taken ik_key key (idem_keys s)"
  shows "\<not> key_taken ik_key key (idem_keys s')"
  using error_rolls_back [OF assms(1)] assms(2) by simp

lemma fresh_success:
  assumes "Execute c commit key h ttl fn s = (Inr resp, s')" and "\<not> key_taken ik_key key (idem_keys s)"
  shows "\<exists>s2. fn (s\<lparr>idem_keys := idem_keys s @ [\<lparr>ik_key = key, ik_hash = h, ik_status = InProgress,
              ik_response = None, ik_expires = now c + ttl\<rparr>]\<rparr>) = Inr (resp, s2)
           \<and> s' = s2\<lparr>idem_keys := update_row ik_key key
                  (\<lambda>r. r\<lparr>ik_status := Completed, ik_response := Some resp\<rparr>) (idem_keys s2)\<rparr>
           \<and> commit s s' = None"
  using assms by (auto simp: Execute_def Let_def split: sum.splits option.splits)

lemma taken_unchanged:
  assumes "Execute c commit key h ttl fn s = (res, s')" and "key_taken ik_key key (idem_keys s)"
  shows "s' = s"
  using assms by (simp add: Execute_def)

text \<open>The only request hash a call can add is its own.\<close>

lemma new_hashes:
  assumes "Execute c commit key h ttl fn s = (res, s')" and "k \<in> set (idem_keys s')"
  shows "ik_hash k = h \<or> (\<exists>k0\<in>set (idem_keys s). ik_hash k0 = ik_hash k)"
proof (cases "s' = s")
  case False
  with assms(1) obtain resp where res: "res = Inr resp" and fresh: "\<not> key_taken ik_key key (idem_keys s)"
    by (cases res) (auto dest: error_rolls_back taken_unchanged)
  from fresh_success [OF assms(1) [unfolded res] fresh] obtain s2
    where body: "fn (s\<lparr>idem_keys := idem_keys s @ [\<lparr>ik_key = key, ik_hash = h, ik_status = InProgress,
              ik_response = None, ik_expires = now c + ttl\<rparr>]\<rparr>) = Inr (resp, s2)"
      and s': "s' = s2\<lparr>idem_keys := update_row ik_key key
                  (\<lambda>r. r\<lparr>ik_status := Completed, ik_response := Some resp\<rparr>) (idem_keys s2)\<rparr>"
    by blast
  have "idem_keys s2 = idem_keys s @ [\<lparr>ik_key = key, ik_hash = h, ik_status = InProgress,
              ik_response = None, ik_expires = now c + ttl\<rparr>]"
    using fn_keys [OF body] by simp
  then show ?thesis using assms(2) by (fastforce simp: s' set_update_row)
qed (use assms in auto)

end

end
