(* ===== verification/Ledger.thy ===== *)
theory Ledger
  imports Idempotency
begin

section \<open>The ledger: tables, triggers and service\<close>

text \<open>
  \<open>internal/ledger\<close>: the data model (money.go, account.go, transaction.go, hold.go), the tables
  of migrations 00001 to 00006 with their triggers, and the service (service.go, holds.go,
  reversal.go).  Every \<open>BEGIN ... COMMIT\<close> of the code is one function on the state here: an
  error leaves the state as it was (rollback), a success returns the committed state.
\<close>

subsection \<open>money.go\<close>

record money =
  minor :: int
  currency :: string

definition NewMoney :: "int \<Rightarrow> string \<Rightarrow> gerror + money" where
  "NewMoney m cur = (if length cur \<noteq> 3 then Inl ErrBadCurrency else Inr \<lparr>minor = m, currency = cur\<rparr>)"

definition Negate :: "money \<Rightarrow> money" where
  "Negate m = \<lparr>minor = wrap64 (- minor m), currency = currency m\<rparr>"

definition IsPositive :: "money \<Rightarrow> bool" where
  "IsPositive m \<longleftrightarrow> 0 < minor m"

subsection \<open>account.go, transaction.go, hold.go\<close>

datatype account_type = AccountTypeCurrent | AccountTypeSavings | AccountTypeWallet
  | AccountTypeSubAccount | AccountTypeVirtual | AccountTypeSystem

datatype account_state = AccountStateOpen | AccountStateFrozen | AccountStateDormant | AccountStateClosed

fun accountTransitions :: "account_state \<Rightarrow> account_state list" where
  "accountTransitions AccountStateOpen = [AccountStateFrozen, AccountStateDormant, AccountStateClosed]"
| "accountTransitions AccountStateFrozen = [AccountStateOpen, AccountStateClosed]"
| "accountTransitions AccountStateDormant = [AccountStateOpen, AccountStateClosed]"
| "accountTransitions AccountStateClosed = []"

definition acc_CanTransitionTo :: "account_state \<Rightarrow> account_state \<Rightarrow> bool" where
  "acc_CanTransitionTo s target \<longleftrightarrow> target \<in> set (accountTransitions s)"

record account =
  a_id :: uuid
  a_owner :: uuid
  a_type :: account_type
  a_currency :: string
  a_state :: account_state
  a_overdraft :: int
  a_created :: int

datatype txn_type = TransactionTypeCredit | TransactionTypeDebit | TransactionTypeTransfer
  | TransactionTypeReversal

datatype txn_state = TransactionStatePending | TransactionStatePosted | TransactionStateFailed
  | TransactionStateReversed

fun transactionTransitions :: "txn_state \<Rightarrow> txn_state list" where
  "transactionTransitions TransactionStatePending = [TransactionStatePosted, TransactionStateFailed]"
| "transactionTransitions TransactionStatePosted = [TransactionStateReversed]"
| "transactionTransitions TransactionStateFailed = []"
| "transactionTransitions TransactionStateReversed = []"

definition txn_CanTransitionTo :: "txn_state \<Rightarrow> txn_state \<Rightarrow> bool" where
  "txn_CanTransitionTo s target \<longleftrightarrow> target \<in> set (transactionTransitions s)"

record transaction =
  t_id :: uuid
  t_key :: string
  t_type :: txn_type
  t_state :: txn_state

datatype hold_status = HoldStatusActive | HoldStatusReleased | HoldStatusCaptured

record hold_row =
  h_id :: uuid
  h_account :: uuid
  h_amount :: int
  h_status :: hold_status

text \<open>Go's \<open>Hold\<close>, as \<open>PlaceHold\<close> returns it: the row with the currency of the request.\<close>

record hold =
  hv_id :: uuid
  hv_account :: uuid
  hv_amount :: money
  hv_status :: hold_status

record balance =
  b_ledger :: money
  b_pending :: money
  b_available :: money

subsection \<open>The tables\<close>

record entry =
  e_txn :: uuid
  e_account :: uuid
  e_amount :: int
  e_currency :: string
  e_created :: int

record txn_result =
  res_txn :: uuid
  res_state :: txn_state

record ledger_db = "txn_result idem_db" +
  accounts :: "account list"
  txns :: "transaction list"
  entries :: "entry list"
  holds :: "hold_row list"

text \<open>Updates of the table of keys come before updates of the ledger's own tables.\<close>

lemma idem_keys_first [simp]:
  "idem_keys_update f (accounts_update g s) = accounts_update g (idem_keys_update f s)"
  "idem_keys_update f (txns_update h s) = txns_update h (idem_keys_update f s)"
  "idem_keys_update f (entries_update k s) = entries_update k (idem_keys_update f s)"
  "idem_keys_update f (holds_update l s) = holds_update l (idem_keys_update f s)"
  for s :: "'z ledger_db_scheme"
  by (cases s, simp)+

lemma ledger_order [simp]:
  "txns_update g (entries_update k s) = entries_update k (txns_update g s)"
  "txns_update g (holds_update l s) = holds_update l (txns_update g s)"
  "entries_update k (holds_update l s) = holds_update l (entries_update k s)"
  for s :: "'z ledger_db_scheme"
  by (cases s, simp)+

text \<open>\<open>SUM(amount_minor)\<close> over the entries of an account, the active holds of an account, and
  the entries of a transaction.\<close>

definition sum_entries :: "uuid \<Rightarrow> entry list \<Rightarrow> int" where
  "sum_entries a es = sum_list (map (\<lambda>e. if e_account e = a then e_amount e else 0) es)"

definition sum_held :: "uuid \<Rightarrow> hold_row list \<Rightarrow> int" where
  "sum_held a hs = sum_list (map (\<lambda>h. if h_account h = a \<and> h_status h = HoldStatusActive
                                      then h_amount h else 0) hs)"

definition sum_txn :: "uuid \<Rightarrow> entry list \<Rightarrow> int" where
  "sum_txn t es = sum_list (map (\<lambda>e. if e_txn e = t then e_amount e else 0) es)"

definition available :: "uuid \<Rightarrow> 'z ledger_db_scheme \<Rightarrow> int" where
  "available a s = sum_entries a (entries s) - sum_held a (holds s)"

text \<open>Storing text in a \<open>CHAR(3)\<close> column: too long is an error, too short is blank-padded.\<close>

definition char3 :: "string \<Rightarrow> gerror + string" where
  "char3 t = (if \<exists>ch\<in>set (drop 3 t). ch \<noteq> CHR '' '' then Inl SqlRange
              else Inr (take 3 t @ replicate (3 - length t) (CHR '' '')))"

subsection \<open>Migration 00006: the triggers\<close>

text \<open>\<open>ledger_check_available_balance\<close>, before each insert into \<open>ledger_entries\<close>.\<close>

definition ledger_check_available_balance :: "uuid \<Rightarrow> int \<Rightarrow> 'z ledger_db_scheme \<Rightarrow> gerror option" where
  "ledger_check_available_balance a amt s =
    (if 0 < amt then None
     else case find_row a_id a (accounts s) of
            None \<Rightarrow> Some ErrAccountNotFound
          | Some acc \<Rightarrow>
             let ledger_balance = sum_entries a (entries s);
                 held = sum_held a (holds s);
                 resulting = ledger_balance + amt
             in if \<not> in64 ledger_balance \<or> \<not> in64 held \<or> \<not> in64 resulting \<or> \<not> in64 (resulting - held)
                then Some SqlRange
                else if resulting - held < - a_overdraft acc then Some ErrInsufficientBalance
                else None)"

text \<open>\<open>ledger_check_balanced\<close>, deferred: run at COMMIT for each entry inserted since BEGIN.\<close>

fun ledger_check_balanced :: "entry list \<Rightarrow> entry list \<Rightarrow> gerror option" where
  "ledger_check_balanced all_entries [] = None"
| "ledger_check_balanced all_entries (e # es) =
    (let total = sum_txn (e_txn e) all_entries
     in if \<not> in64 total then Some SqlRange
        else if total \<noteq> 0 then Some SqlUnbalanced
        else ledger_check_balanced all_entries es)"

definition ledger_commit :: "'z ledger_db_scheme \<Rightarrow> 'z ledger_db_scheme \<Rightarrow> gerror option" where
  "ledger_commit s0 s = ledger_check_balanced (entries s) (drop (length (entries s0)) (entries s))"

subsection \<open>service.go: accounts\<close>

definition SystemAccountNGN :: uuid where
  "SystemAccountNGN = ''00000000-0000-0000-0000-000000000001''"

definition idempotencyTTL :: int where "idempotencyTTL = 24 * hour"

record leg =
  l_account :: uuid
  l_amount :: money

definition OpenAccount :: "ctx \<Rightarrow> uuid \<Rightarrow> account_type \<Rightarrow> string \<Rightarrow> int \<Rightarrow> 'z ledger_db_scheme
    \<Rightarrow> (gerror + account) \<times> 'z ledger_db_scheme" where
  "OpenAccount c ownerID accType cur overdraftLimitMinor s =
    (case char3 cur of
       Inl e \<Rightarrow> (Inl e, s)
     | Inr cur3 \<Rightarrow>
        if \<not> in64 overdraftLimitMinor then (Inl SqlRange, s)
        else if overdraftLimitMinor < 0 then (Inl SqlCheck, s)
        else if key_taken a_id (gen c 0) (accounts s) then (Inl SqlUnique, s)
        else if \<not> key_taken id_id ownerID (identities s) then (Inl SqlForeignKey, s)
        else let a = \<lparr>a_id = gen c 0, a_owner = ownerID, a_type = accType, a_currency = cur3,
                      a_state = AccountStateOpen, a_overdraft = overdraftLimitMinor, a_created = now c\<rparr>
             in (Inr a, s\<lparr>accounts := accounts s @ [a]\<rparr>))"

definition GetAccount :: "uuid \<Rightarrow> 'z ledger_db_scheme \<Rightarrow> gerror + account" where
  "GetAccount a s = (case find_row a_id a (accounts s) of None \<Rightarrow> Inl ErrAccountNotFound | Some acc \<Rightarrow> Inr acc)"

definition TransitionAccountState :: "uuid \<Rightarrow> account_state \<Rightarrow> 'z ledger_db_scheme
    \<Rightarrow> (gerror + unit) \<times> 'z ledger_db_scheme" where
  "TransitionAccountState a target s =
    (case find_row a_id a (accounts s) of
       None \<Rightarrow> (Inl ErrAccountNotFound, s)
     | Some acc \<Rightarrow>
        if \<not> acc_CanTransitionTo (a_state acc) target then (Inl ErrInvalidTransition, s)
        else (Inr (), s\<lparr>accounts := update_row a_id a (\<lambda>r. r\<lparr>a_state := target\<rparr>) (accounts s)\<rparr>))"

definition GetBalance :: "uuid \<Rightarrow> 'z ledger_db_scheme \<Rightarrow> gerror + balance" where
  "GetBalance a s =
    (case GetAccount a s of
       Inl e \<Rightarrow> Inl e
     | Inr acc \<Rightarrow>
        (case scan64 (sum_entries a (entries s)) of
           Inl e \<Rightarrow> Inl e
         | Inr ledgerMinor \<Rightarrow>
            (case scan64 (sum_held a (holds s)) of
               Inl e \<Rightarrow> Inl e
             | Inr pendingMinor \<Rightarrow>
                Inr \<lparr>b_ledger = \<lparr>minor = ledgerMinor, currency = a_currency acc\<rparr>,
                     b_pending = \<lparr>minor = pendingMinor, currency = a_currency acc\<rparr>,
                     b_available = \<lparr>minor = wrap64 (ledgerMinor - pendingMinor), currency = a_currency acc\<rparr>\<rparr>)))"

subsection \<open>service.go and holds.go: posting\<close>

definition systemAccountFor :: "string \<Rightarrow> gerror + uuid" where
  "systemAccountFor cur = (if cur = ''NGN'' then Inr SystemAccountNGN else Inl ErrNoSystemAccount)"

fun txn_type_str :: "txn_type \<Rightarrow> string" where
  "txn_type_str TransactionTypeCredit = ''credit''"
| "txn_type_str TransactionTypeDebit = ''debit''"
| "txn_type_str TransactionTypeTransfer = ''transfer''"
| "txn_type_str TransactionTypeReversal = ''reversal''"

definition leg_text :: "leg \<Rightarrow> string" where
  "leg_text l = l_account l @ '':'' @ dec_int (minor (l_amount l)) @ '':'' @ currency (l_amount l) @ '';''"

definition hashLegs :: "ctx \<Rightarrow> txn_type \<Rightarrow> leg list \<Rightarrow> string" where
  "hashLegs c ty legs = sha256 c (txn_type_str ty @ concat (map leg_text legs))"

text \<open>
  One \<open>INSERT INTO ledger_entries\<close>: the value coerced to \<open>CHAR(3)\<close>, the trigger, the check
  constraint, the foreign key on the account.  (A Go \<open>int64\<close> always fits a \<open>BIGINT\<close> column;
  the range tests say so where \<open>minor\<close>, an \<open>int\<close> here, is stored.)  (The foreign key on the transaction holds: the
  caller has just inserted that row.)
\<close>

definition insert_entry :: "ctx \<Rightarrow> uuid \<Rightarrow> leg \<Rightarrow> 'z ledger_db_scheme \<Rightarrow> gerror + 'z ledger_db_scheme" where
  "insert_entry c tid l s =
    (case char3 (currency (l_amount l)) of
       Inl e \<Rightarrow> Inl e
     | Inr cur3 \<Rightarrow>
        (case ledger_check_available_balance (l_account l) (minor (l_amount l)) s of
           Some e \<Rightarrow> Inl e
         | None \<Rightarrow>
            if \<not> in64 (minor (l_amount l)) then Inl SqlRange
            else if minor (l_amount l) = 0 then Inl SqlCheck
            else if \<not> key_taken a_id (l_account l) (accounts s) then Inl SqlForeignKey
            else Inr (s\<lparr>entries := entries s @
              [\<lparr>e_txn = tid, e_account = l_account l, e_amount = minor (l_amount l),
                e_currency = cur3, e_created = now c\<rparr>]\<rparr>)))"

fun insert_legs :: "ctx \<Rightarrow> uuid \<Rightarrow> leg list \<Rightarrow> 'z ledger_db_scheme \<Rightarrow> gerror + 'z ledger_db_scheme" where
  "insert_legs c tid [] s = Inr s"
| "insert_legs c tid (l # ls) s =
    (case insert_entry c tid l s of Inl e \<Rightarrow> Inl e | Inr s' \<Rightarrow> insert_legs c tid ls s')"

definition insertPostedTransaction :: "ctx \<Rightarrow> txn_type \<Rightarrow> string \<Rightarrow> leg list \<Rightarrow> 'z ledger_db_scheme
    \<Rightarrow> gerror + (uuid \<times> 'z ledger_db_scheme)" where
  "insertPostedTransaction c ty key legs s =
    (if key_taken t_id (gen c 0) (txns s) \<or> key_taken t_key key (txns s) then Inl SqlUnique
     else case insert_legs c (gen c 0) legs
                (s\<lparr>txns := txns s @ [\<lparr>t_id = gen c 0, t_key = key, t_type = ty,
                                       t_state = TransactionStatePosted\<rparr>]\<rparr>) of
            Inl e \<Rightarrow> Inl e
          | Inr s' \<Rightarrow> Inr (gen c 0, s'))"

definition post_body :: "ctx \<Rightarrow> txn_type \<Rightarrow> string \<Rightarrow> leg list \<Rightarrow> 'z ledger_db_scheme
    \<Rightarrow> gerror + (txn_result \<times> 'z ledger_db_scheme)" where
  "post_body c ty key legs s =
    (case insertPostedTransaction c ty key legs s of
       Inl e \<Rightarrow> Inl e
     | Inr (tid, s') \<Rightarrow> Inr (\<lparr>res_txn = tid, res_state = TransactionStatePosted\<rparr>, s'))"

text \<open>The \<open>Transaction\<close> value each operation builds from the stored response.\<close>

definition as_transaction :: "string \<Rightarrow> txn_type \<Rightarrow> (gerror + txn_result) \<Rightarrow> gerror + transaction" where
  "as_transaction key ty r = (case r of Inl e \<Rightarrow> Inl e
     | Inr res \<Rightarrow> Inr \<lparr>t_id = res_txn res, t_key = key, t_type = ty, t_state = res_state res\<rparr>)"

definition postTransaction :: "ctx \<Rightarrow> txn_type \<Rightarrow> string \<Rightarrow> leg list \<Rightarrow> 'z ledger_db_scheme
    \<Rightarrow> (gerror + transaction) \<times> 'z ledger_db_scheme" where
  "postTransaction c ty key legs s =
    (case Execute c ledger_commit key (hashLegs c ty legs) idempotencyTTL (post_body c ty key legs) s of
       (r, s') \<Rightarrow> (as_transaction key ty r, s'))"

definition Credit :: "ctx \<Rightarrow> uuid \<Rightarrow> money \<Rightarrow> string \<Rightarrow> 'z ledger_db_scheme
    \<Rightarrow> (gerror + transaction) \<times> 'z ledger_db_scheme" where
  "Credit c accountID amount key s =
    (case systemAccountFor (currency amount) of
       Inl e \<Rightarrow> (Inl e, s)
     | Inr sys \<Rightarrow> postTransaction c TransactionTypeCredit key
         [\<lparr>l_account = accountID, l_amount = amount\<rparr>, \<lparr>l_account = sys, l_amount = Negate amount\<rparr>] s)"

definition Debit :: "ctx \<Rightarrow> uuid \<Rightarrow> money \<Rightarrow> string \<Rightarrow> 'z ledger_db_scheme
    \<Rightarrow> (gerror + transaction) \<times> 'z ledger_db_scheme" where
  "Debit c accountID amount key s =
    (case systemAccountFor (currency amount) of
       Inl e \<Rightarrow> (Inl e, s)
     | Inr sys \<Rightarrow> postTransaction c TransactionTypeDebit key
         [\<lparr>l_account = accountID, l_amount = Negate amount\<rparr>, \<lparr>l_account = sys, l_amount = amount\<rparr>] s)"

definition transfer_legs :: "uuid \<Rightarrow> uuid \<Rightarrow> money \<Rightarrow> leg list" where
  "transfer_legs fromID toID amount =
    [\<lparr>l_account = fromID, l_amount = Negate amount\<rparr>, \<lparr>l_account = toID, l_amount = amount\<rparr>]"

definition Transfer :: "ctx \<Rightarrow> uuid \<Rightarrow> uuid \<Rightarrow> money \<Rightarrow> string \<Rightarrow> 'z ledger_db_scheme
    \<Rightarrow> (gerror + transaction) \<times> 'z ledger_db_scheme" where
  "Transfer c fromID toID amount key s =
    postTransaction c TransactionTypeTransfer key (transfer_legs fromID toID amount) s"

subsection \<open>holds.go\<close>

definition PlaceHold :: "ctx \<Rightarrow> uuid \<Rightarrow> money \<Rightarrow> 'z ledger_db_scheme
    \<Rightarrow> (gerror + hold) \<times> 'z ledger_db_scheme" where
  "PlaceHold c accountID amount s =
    (case find_row a_id accountID (accounts s) of
       None \<Rightarrow> (Inl ErrAccountNotFound, s)
     | Some acc \<Rightarrow>
        (case scan64 (sum_entries accountID (entries s)) of
           Inl e \<Rightarrow> (Inl e, s)
         | Inr ledgerMinor \<Rightarrow>
            (case scan64 (sum_held accountID (holds s)) of
               Inl e \<Rightarrow> (Inl e, s)
             | Inr heldMinor \<Rightarrow>
                let avail = wrap64 (ledgerMinor - heldMinor)
                in if wrap64 (avail - minor amount) < wrap64 (- a_overdraft acc)
                   then (Inl ErrInsufficientBalance, s)
                   else if \<not> in64 (minor amount) then (Inl SqlRange, s)
                   else if \<not> 0 < minor amount then (Inl SqlCheck, s)
                   else if key_taken h_id (gen c 1) (holds s) then (Inl SqlUnique, s)
                   else (Inr \<lparr>hv_id = gen c 1, hv_account = accountID, hv_amount = amount,
                              hv_status = HoldStatusActive\<rparr>,
                         s\<lparr>holds := holds s @ [\<lparr>h_id = gen c 1, h_account = accountID,
                              h_amount = minor amount, h_status = HoldStatusActive\<rparr>]\<rparr>))))"

definition resolveHold :: "uuid \<Rightarrow> hold_status \<Rightarrow> 'z ledger_db_scheme
    \<Rightarrow> (gerror + unit) \<times> 'z ledger_db_scheme" where
  "resolveHold holdID target s =
    (case find_row h_id holdID (holds s) of
       None \<Rightarrow> (Inl ErrHoldNotFound, s)
     | Some h \<Rightarrow>
        if h_status h \<noteq> HoldStatusActive then (Inl ErrHoldNotActive, s)
        else (Inr (), s\<lparr>holds := update_row h_id holdID (\<lambda>r. r\<lparr>h_status := target\<rparr>) (holds s)\<rparr>))"

definition ReleaseHold :: "uuid \<Rightarrow> 'z ledger_db_scheme \<Rightarrow> (gerror + unit) \<times> 'z ledger_db_scheme" where
  "ReleaseHold holdID s = resolveHold holdID HoldStatusReleased s"

definition hashHoldCapture :: "uuid \<Rightarrow> string" where
  "hashHoldCapture holdID = ''capture:'' @ holdID"

definition capture_legs :: "uuid \<Rightarrow> uuid \<Rightarrow> money \<Rightarrow> leg list" where
  "capture_legs a sys amount =
    [\<lparr>l_account = a, l_amount = Negate amount\<rparr>, \<lparr>l_account = sys, l_amount = amount\<rparr>]"

definition capture_body :: "ctx \<Rightarrow> uuid \<Rightarrow> string \<Rightarrow> 'z ledger_db_scheme
    \<Rightarrow> gerror + (txn_result \<times> 'z ledger_db_scheme)" where
  "capture_body c holdID key s =
    (case find_row h_id holdID (holds s) of
       None \<Rightarrow> Inl ErrHoldNotFound
     | Some h \<Rightarrow>
        if h_status h \<noteq> HoldStatusActive then Inl ErrHoldNotActive
        else (case find_row a_id (h_account h) (accounts s) of
                None \<Rightarrow> Inl ErrNoRows
              | Some acc \<Rightarrow>
                 (case systemAccountFor (a_currency acc) of
                    Inl e \<Rightarrow> Inl e
                  | Inr sys \<Rightarrow>
                     (case insertPostedTransaction c TransactionTypeDebit key
                             (capture_legs (h_account h) sys
                               \<lparr>minor = h_amount h, currency = a_currency acc\<rparr>) s of
                        Inl e \<Rightarrow> Inl e
                      | Inr (tid, s') \<Rightarrow>
                         Inr (\<lparr>res_txn = tid, res_state = TransactionStatePosted\<rparr>,
                              s'\<lparr>holds := update_row h_id holdID
                                   (\<lambda>r. r\<lparr>h_status := HoldStatusCaptured\<rparr>) (holds s')\<rparr>)))))"

definition CaptureHold :: "ctx \<Rightarrow> uuid \<Rightarrow> string \<Rightarrow> 'z ledger_db_scheme
    \<Rightarrow> (gerror + transaction) \<times> 'z ledger_db_scheme" where
  "CaptureHold c holdID key s =
    (case Execute c ledger_commit key (hashHoldCapture holdID) idempotencyTTL (capture_body c holdID key) s of
       (r, s') \<Rightarrow> (as_transaction key TransactionTypeDebit r, s'))"

subsection \<open>reversal.go\<close>

definition hashReversal :: "uuid \<Rightarrow> string" where
  "hashReversal tid = ''reversal:'' @ tid"

definition reversal_legs :: "uuid \<Rightarrow> entry list \<Rightarrow> leg list" where
  "reversal_legs tid es =
    map (\<lambda>e. \<lparr>l_account = e_account e,
              l_amount = Negate \<lparr>minor = e_amount e, currency = e_currency e\<rparr>\<rparr>)
        (filter (\<lambda>e. e_txn e = tid) es)"

definition reverse_body :: "ctx \<Rightarrow> uuid \<Rightarrow> string \<Rightarrow> 'z ledger_db_scheme
    \<Rightarrow> gerror + (txn_result \<times> 'z ledger_db_scheme)" where
  "reverse_body c origID key s =
    (case find_row t_id origID (txns s) of
       None \<Rightarrow> Inl ErrTransactionNotFound
     | Some t \<Rightarrow>
        if \<not> txn_CanTransitionTo (t_state t) TransactionStateReversed then Inl ErrNotReversible
        else let legs = reversal_legs origID (entries s)
             in if legs = [] then Inl ErrTransactionNotFound
                else (case insertPostedTransaction c TransactionTypeReversal key legs s of
                        Inl e \<Rightarrow> Inl e
                      | Inr (tid, s') \<Rightarrow>
                         Inr (\<lparr>res_txn = tid, res_state = TransactionStatePosted\<rparr>,
                              s'\<lparr>txns := update_row t_id origID
                                   (\<lambda>r. r\<lparr>t_state := TransactionStateReversed\<rparr>) (txns s')\<rparr>)))"

definition ReverseTransaction :: "ctx \<Rightarrow> uuid \<Rightarrow> string \<Rightarrow> 'z ledger_db_scheme
    \<Rightarrow> (gerror + transaction) \<times> 'z ledger_db_scheme" where
  "ReverseTransaction c origID key s =
    (case Execute c ledger_commit key (hashReversal origID) idempotencyTTL (reverse_body c origID key) s of
       (r, s') \<Rightarrow> (as_transaction key TransactionTypeReversal r, s'))"

end
