(* ===== verification/LedgerPost.thy ===== *)
theory LedgerPost
  imports LedgerInv
begin

section \<open>Posting: what the three posting operations have in common\<close>

text \<open>
  The effect of \<open>insertPostedTransaction\<close> on the tables, and the locale \<open>posting\<close>: the contract
  of a transaction body that posts one transaction and afterwards at most resolves holds or
  updates transaction states.  Its lemmas are the invariant and the balance effect of a run
  under \<open>idempotency.Execute\<close>; \<open>post_body\<close>, \<open>capture_body\<close> and \<open>reverse_body\<close> meet it.
\<close>

subsection \<open>Inserting the legs\<close>

definition sum_legs :: "uuid \<Rightarrow> leg list \<Rightarrow> int" where
  "sum_legs a legs = sum_list (map (\<lambda>l. if l_account l = a then minor (l_amount l) else 0) legs)"

lemma sum_legs_Nil [simp]: "sum_legs a [] = 0"
  by (simp add: sum_legs_def)

lemma sum_legs_Cons [simp]:
  "sum_legs a (l # ls) = (if l_account l = a then minor (l_amount l) else 0) + sum_legs a ls"
  by (simp add: sum_legs_def)

definition entries_of :: "ctx \<Rightarrow> uuid \<Rightarrow> leg list \<Rightarrow> entry list \<Rightarrow> bool" where
  "entries_of c tid legs es \<longleftrightarrow> list_all2 (\<lambda>l e. e_txn e = tid \<and> e_created e = now c \<and> e_account e = l_account l
     \<and> e_amount e = minor (l_amount l)) legs es"

lemma entries_of_sum: "entries_of c tid legs es \<Longrightarrow> sum_entries a es = sum_legs a legs"
  unfolding entries_of_def by (induction legs es rule: list_all2_induct) auto

lemma entries_of_total: "entries_of c tid legs es \<Longrightarrow> sum_txn tid es = sum_list (map (\<lambda>l. minor (l_amount l)) legs)"
  unfolding entries_of_def by (induction legs es rule: list_all2_induct) auto

lemma entries_of_txn: "entries_of c tid legs es \<Longrightarrow> e \<in> set es \<Longrightarrow> e_txn e = tid"
  unfolding entries_of_def by (auto simp: list_all2_conv_all_nth in_set_conv_nth)

lemma entries_of_leg: "entries_of c tid legs es \<Longrightarrow> e \<in> set es \<Longrightarrow>
    \<exists>l\<in>set legs. e_account e = l_account l \<and> e_amount e = minor (l_amount l)"
  unfolding entries_of_def by (fastforce simp: list_all2_conv_all_nth in_set_conv_nth)

lemma insert_entry_ok:
  assumes "insert_entry c tid l s = Inr s'"
  obtains e where "s' = s\<lparr>entries := entries s @ [e]\<rparr>" and "entries_of c tid [l] [e]"
    and "minor (l_amount l) \<noteq> 0 \<and> in64 (minor (l_amount l))" and "key_taken a_id (l_account l) (accounts s)"
    and "ledger_check_available_balance (l_account l) (minor (l_amount l)) s = None"
  using assms by (fastforce simp: insert_entry_def entries_of_def split: sum.splits option.splits if_splits)

lemma solvent_insert:
  assumes "solvent s" and "distinct (map a_id (accounts s))"
    and "ledger_check_available_balance a amt s = None"
    and "e_account e = a" "e_amount e = amt"
  shows "solvent (s\<lparr>entries := entries s @ [e]\<rparr>)"
  unfolding solvent_def
proof
  fix acc assume acc: "acc \<in> set (accounts (s\<lparr>entries := entries s @ [e]\<rparr>))"
  then have old: "- a_overdraft acc \<le> available (a_id acc) s"
    using assms(1) by (simp add: solvent_def)
  show "- a_overdraft acc \<le> available (a_id acc) (s\<lparr>entries := entries s @ [e]\<rparr>)"
  proof (cases "a_id acc = a \<and> amt \<le> 0")
    case True
    with acc assms(2) have "find_row a_id a (accounts s) = Some acc"
      by (auto intro: find_row_distinct)
    with assms(3-5) True show ?thesis
      by (auto simp: ledger_check_available_balance_def Let_def available_def split: if_splits)
  qed (use old assms(4,5) in \<open>auto simp: available_append\<close>)
qed

lemma insert_legs_ok:
  assumes "insert_legs c tid legs s = Inr s'"
  shows "\<exists>es. s' = s\<lparr>entries := entries s @ es\<rparr> \<and> entries_of c tid legs es
     \<and> (\<forall>l\<in>set legs. key_taken a_id (l_account l) (accounts s) \<and> minor (l_amount l) \<noteq> 0 \<and> in64 (minor (l_amount l)))
     \<and> (solvent s \<and> distinct (map a_id (accounts s)) \<longrightarrow> solvent s')"
  using assms
proof (induction legs arbitrary: s)
  case Nil
  then show ?case by (auto simp: entries_of_def)
next
  case (Cons l ls)
  then obtain s1 where s1: "insert_entry c tid l s = Inr s1" and rest: "insert_legs c tid ls s1 = Inr s'"
    by (auto split: sum.splits)
  from s1 obtain e where e: "s1 = s\<lparr>entries := entries s @ [e]\<rparr>" "entries_of c tid [l] [e]"
    "minor (l_amount l) \<noteq> 0 \<and> in64 (minor (l_amount l))" "key_taken a_id (l_account l) (accounts s)"
    "ledger_check_available_balance (l_account l) (minor (l_amount l)) s = None"
    by (rule insert_entry_ok)
  from Cons.IH [OF rest] obtain es where es: "s' = s1\<lparr>entries := entries s1 @ es\<rparr>"
    "entries_of c tid ls es" "\<forall>l\<in>set ls. key_taken a_id (l_account l) (accounts s1) \<and> minor (l_amount l) \<noteq> 0 \<and> in64 (minor (l_amount l))"
    "solvent s1 \<and> distinct (map a_id (accounts s1)) \<longrightarrow> solvent s'" by blast
  have "solvent s \<and> distinct (map a_id (accounts s)) \<longrightarrow> solvent s1"
    using solvent_insert [OF _ _ e(5)] e(1,2) by (simp add: entries_of_def)
  with e es show ?case
    by (intro exI [of _ "e # es"]) (auto simp: entries_of_def)
qed

lemma insertPosted_ok:
  assumes "insertPostedTransaction c ty key legs s = Inr (tid, s')"
  obtains es where "tid = gen c 0" and "entries_of c tid legs es"
    and "s' = s\<lparr>txns := txns s @ [\<lparr>t_id = tid, t_key = key, t_type = ty, t_state = TransactionStatePosted\<rparr>],
               entries := entries s @ es\<rparr>"
    and "\<not> key_taken t_id tid (txns s)" and "\<not> key_taken t_key key (txns s)"
    and "\<And>l. l \<in> set legs \<Longrightarrow> key_taken a_id (l_account l) (accounts s) \<and> minor (l_amount l) \<noteq> 0 \<and> in64 (minor (l_amount l))"
    and "solvent s \<Longrightarrow> distinct (map a_id (accounts s)) \<Longrightarrow> solvent s'"
proof -
  let ?t = "\<lparr>t_id = gen c 0, t_key = key, t_type = ty, t_state = TransactionStatePosted\<rparr>"
  let ?s0 = "s\<lparr>txns := txns s @ [?t]\<rparr>"
  from assms have fresh: "\<not> key_taken t_id (gen c 0) (txns s)" "\<not> key_taken t_key key (txns s)"
    and tid: "tid = gen c 0" and ins: "insert_legs c (gen c 0) legs ?s0 = Inr s'"
    by (auto simp: insertPostedTransaction_def split: if_splits sum.splits)
  from insert_legs_ok [OF ins] obtain es where es: "s' = ?s0\<lparr>entries := entries ?s0 @ es\<rparr>"
    "entries_of c (gen c 0) legs es"
    "\<forall>l\<in>set legs. key_taken a_id (l_account l) (accounts s) \<and> minor (l_amount l) \<noteq> 0 \<and> in64 (minor (l_amount l))"
    "solvent ?s0 \<and> distinct (map a_id (accounts s)) \<longrightarrow> solvent s'" by auto
  have "solvent ?s0 = solvent s" by (simp add: solvent_def available_def)
  with es fresh tid show thesis by (intro that [of es]) simp_all
qed

subsection \<open>Resolving holds, updating states\<close>

text \<open>The hold table after holds have been released or captured: no active hold appears, none grows.\<close>

definition holds_resolved :: "hold_row list \<Rightarrow> hold_row list \<Rightarrow> bool" where
  "holds_resolved hs hs' \<longleftrightarrow> list_all2 (\<lambda>h h'. h_id h' = h_id h \<and> h_account h' = h_account h
     \<and> h_amount h' = h_amount h \<and> (h_status h' = HoldStatusActive \<longrightarrow> h_status h = HoldStatusActive)) hs hs'"

lemma holds_resolved_refl [simp]: "holds_resolved hs hs"
  by (simp add: holds_resolved_def list_all2_refl)

lemma holds_resolved_sum:
  "holds_resolved hs hs' \<Longrightarrow> (\<And>h. h \<in> set hs \<Longrightarrow> 0 < h_amount h) \<Longrightarrow> sum_held a hs' \<le> sum_held a hs"
  unfolding holds_resolved_def
proof (induction hs hs' rule: list_all2_induct)
  case (Cons h hs h' hs')
  then have "sum_held a hs' \<le> sum_held a hs" and "0 < h_amount h" by simp_all
  with Cons.hyps show ?case by auto
qed simp

lemma holds_resolved_ids: "holds_resolved hs hs' \<Longrightarrow> map h_id hs' = map h_id hs"
  unfolding holds_resolved_def by (induction hs hs' rule: list_all2_induct) auto

lemma holds_resolved_in: "holds_resolved hs hs' \<Longrightarrow> h' \<in> set hs' \<Longrightarrow>
    \<exists>h\<in>set hs. h_account h' = h_account h \<and> h_amount h' = h_amount h"
  unfolding holds_resolved_def by (fastforce simp: list_all2_conv_all_nth in_set_conv_nth)

lemma holds_resolved_update:
  "st \<noteq> HoldStatusActive \<Longrightarrow> holds_resolved hs (update_row h_id k (\<lambda>r. r\<lparr>h_status := st\<rparr>) hs)"
  by (simp add: holds_resolved_def update_row_def list_all2_conv_all_nth)

definition same_txns :: "transaction list \<Rightarrow> transaction list \<Rightarrow> bool" where
  "same_txns ts ts' \<longleftrightarrow> map t_id ts' = map t_id ts \<and> map t_key ts' = map t_key ts"

interpretation account_state_col: row_update a_id "\<lambda>r. r\<lparr>a_state := st\<rparr>" for st
  by unfold_locales simp

interpretation hold_status_col: row_update h_id "\<lambda>r. r\<lparr>h_status := st\<rparr>" for st
  by unfold_locales simp

interpretation txn_state_col: row_update t_id "\<lambda>r. r\<lparr>t_state := st\<rparr>" for st
  by unfold_locales simp

lemma same_txns_update: "same_txns ts (update_row t_id k (\<lambda>r. r\<lparr>t_state := st\<rparr>) ts)"
  by (simp add: same_txns_def txn_state_col.keys) (simp add: update_row_def)

text \<open>Resolving holds and updating transaction states keep the invariant.\<close>

definition closes :: "'z ledger_db_scheme \<Rightarrow> 'z ledger_db_scheme \<Rightarrow> bool" where
  "closes s s' \<longleftrightarrow> (\<exists>ts hs. s' = s\<lparr>txns := ts, holds := hs\<rparr> \<and> same_txns (txns s) ts \<and> holds_resolved (holds s) hs)"

lemma closes_fields:
  assumes "closes s s'"
  shows "accounts s' = accounts s" "entries s' = entries s" "idem_keys s' = idem_keys s"
    "same_txns (txns s) (txns s')" "holds_resolved (holds s) (holds s')"
  using assms by (auto simp: closes_def)

lemma closes_schema:
  assumes "schema_ok s" and "closes s s'"
  shows "schema_ok s'"
proof -
  note eqs = closes_fields(1-3) [OF assms(2)] and h = closes_fields(5) [OF assms(2)]
  have tx: "map t_id (txns s') = map t_id (txns s)" "map t_key (txns s') = map t_key (txns s)"
    using closes_fields(4) [OF assms(2)] by (simp_all add: same_txns_def)
  have "key_taken a_id (h_account h') (accounts s) \<and> 0 < h_amount h' \<and> in64 (h_amount h')" if "h' \<in> set (holds s')" for h'
    using holds_resolved_in [OF h that] assms(1) by (auto simp: schema_ok_def)
  moreover have "\<forall>t\<in>set (txns s'). key_taken ik_key (t_key t) (idem_keys s)"
    using ball_map_eq [OF tx(2), where P = "\<lambda>k. key_taken ik_key k (idem_keys s)"] assms(1)
    by (simp add: schema_ok_def)
  ultimately show ?thesis using assms(1)
    unfolding schema_ok_def eqs tx holds_resolved_ids [OF h] key_taken_map [OF tx(1)] by simp
qed

lemma closes_inv:
  assumes "ledger_inv s" and "closes s s'"
  shows "ledger_inv s'"
proof -
  note eqs = closes_fields(1,2) [OF assms(2)] and h = closes_fields(5) [OF assms(2)]
  have "available a s \<le> available a s'" for a
    using holds_resolved_sum [OF h ledger_invD(8) [OF assms(1)]] by (simp add: available_def eqs)
  then have "solvent s'"
    using ledger_invD(3) [OF assms(1)] unfolding solvent_def eqs by (meson order_trans)
  moreover have "balanced s'" using ledger_invD(2) [OF assms(1)] by (simp add: balanced_def eqs)
  ultimately show ?thesis
    using closes_schema [OF ledger_invD(1) [OF assms(1)] assms(2)] by (simp add: ledger_inv_def)
qed

text \<open>So does posting, under a key already in the table of keys, if the new transaction balances.\<close>

lemma insertPosted_inv:
  assumes inv: "ledger_inv s" and key: "key_taken ik_key key (idem_keys s)"
    and ins: "insertPostedTransaction c ty key legs s = Inr (tid, s')"
    and bal: "sum_txn tid (entries s') = 0"
  shows "ledger_inv s'"
proof -
  from ins obtain es where es: "entries_of c tid legs es"
    and s': "s' = s\<lparr>txns := txns s @ [\<lparr>t_id = tid, t_key = key, t_type = ty, t_state = TransactionStatePosted\<rparr>],
               entries := entries s @ es\<rparr>"
    and fresh: "\<not> key_taken t_id tid (txns s)" "\<not> key_taken t_key key (txns s)"
    and legs: "\<And>l. l \<in> set legs \<Longrightarrow> key_taken a_id (l_account l) (accounts s) \<and> minor (l_amount l) \<noteq> 0 \<and> in64 (minor (l_amount l))"
    and solv: "solvent s \<Longrightarrow> distinct (map a_id (accounts s)) \<Longrightarrow> solvent s'"
    by (rule insertPosted_ok) (rule that, assumption+)
  have new: "e_txn e = tid \<and> key_taken a_id (e_account e) (accounts s) \<and> e_amount e \<noteq> 0 \<and> in64 (e_amount e)" if "e \<in> set es" for e
    using entries_of_txn [OF es that] entries_of_leg [OF es that] legs by auto
  have "schema_ok s'"
    using ledger_invD(1) [OF inv] fresh key new unfolding schema_ok_def s'
    by (auto simp: distinct_snoc_key simp del: map_append)
  moreover have "balanced s'"
    unfolding balanced_def
  proof
    fix e assume "e \<in> set (entries s')"
    then consider "e_txn e = tid" | "e \<in> set (entries s)" "e_txn e \<noteq> tid" using new by (auto simp: s')
    then show "sum_txn (e_txn e) (entries s') = 0"
    proof cases
      case 2
      then have "sum_txn (e_txn e) es = 0" using new by (metis sum_txn_zero)
      with balanced_all [OF ledger_invD(2) [OF inv], of "e_txn e"] show ?thesis by (simp add: s')
    qed (use bal in simp)
  qed
  ultimately show ?thesis using solv ledger_invD(3,4) [OF inv] by (simp add: ledger_inv_def)
qed

subsection \<open>The contract of a posting body\<close>

lemma check_balanced_None:
  "ledger_check_balanced all_es es = None \<Longrightarrow> e \<in> set es \<Longrightarrow> sum_txn (e_txn e) all_es = 0"
  by (induction es) (auto simp: Let_def split: if_splits)

lemma check_balanced_ok:
  "(\<And>e. e \<in> set es \<Longrightarrow> sum_txn (e_txn e) all_es = 0) \<Longrightarrow> ledger_check_balanced all_es es = None"
  by (induction es) (auto simp: Let_def in64_def min64_def max64_def)

lemma ledger_inv_keys:
  "ledger_inv s \<Longrightarrow> \<forall>k. key_taken ik_key k (idem_keys s) \<longrightarrow> key_taken ik_key k ks \<Longrightarrow>
   ledger_inv (s\<lparr>idem_keys := ks\<rparr>)"
  by (simp add: ledger_inv_def schema_ok_def balanced_def solvent_def available_def)

locale posting =
  fixes c :: ctx and key :: string
    and fn :: "'z ledger_db_scheme \<Rightarrow> gerror + (txn_result \<times> 'z ledger_db_scheme)"
  assumes posts: "fn s = Inr (r, s2) \<Longrightarrow>
    \<exists>ty legs s1. insertPostedTransaction c ty key legs s = Inr (res_txn r, s1) \<and> closes s1 s2"
begin

lemma body_keys:
  assumes "fn s = Inr (r, s2)"
  shows "idem_keys s2 = idem_keys s"
proof -
  from posts [OF assms] obtain ty legs s1
    where ins: "insertPostedTransaction c ty key legs s = Inr (res_txn r, s1)" and cl: "closes s1 s2" by blast
  from ins have "idem_keys s1 = idem_keys s" by (rule insertPosted_ok) simp
  with closes_fields(3) [OF cl] show ?thesis by simp
qed

text \<open>What a run under a fresh key did, when it succeeded: posted legs that sum to zero.\<close>

lemma fresh_run:
  assumes run: "Execute c ledger_commit key h ttl fn s = (Inr r, s')"
    and fresh: "\<not> key_taken ik_key key (idem_keys s)" and inv: "ledger_inv s"
  shows "\<exists>es. entries s' = entries s @ es \<and> sum_list (map e_amount es) = 0
    \<and> (\<forall>e\<in>set es. e_txn e = res_txn r) \<and> ledger_inv s'"
proof -
  let ?row = "\<lparr>ik_key = key, ik_hash = h, ik_status = InProgress, ik_response = None, ik_expires = now c + ttl\<rparr>"
  let ?s1 = "s\<lparr>idem_keys := idem_keys s @ [?row]\<rparr>"
  from fresh run obtain s2 where body: "fn ?s1 = Inr (r, s2)"
    and s': "s' = s2\<lparr>idem_keys := update_row ik_key key
                (\<lambda>r'. r'\<lparr>ik_status := Completed, ik_response := Some r\<rparr>) (idem_keys s2)\<rparr>"
    and commit: "ledger_commit s s' = None"
    by (auto simp: Execute_def Let_def split: sum.splits option.splits)
  from posts [OF body] obtain ty legs s1
    where ins: "insertPostedTransaction c ty key legs ?s1 = Inr (res_txn r, s1)" and cl: "closes s1 s2" by blast
  from ins obtain es where es: "entries_of c (res_txn r) legs es" and s1: "entries s1 = entries s @ es"
    and new: "\<not> key_taken t_id (res_txn r) (txns s)" and k1: "idem_keys s1 = idem_keys ?s1"
    by (rule insertPosted_ok) simp
  have inv1: "ledger_inv ?s1" by (rule ledger_inv_keys [OF inv]) simp
  have old: "sum_txn (res_txn r) (entries s) = 0"
    by (rule balanced_all [OF ledger_invD(2) [OF inv]])
  have e2: "entries s' = entries s @ es" using closes_fields(2) [OF cl] s1 by (simp add: s')
  have total: "sum_txn (res_txn r) (entries s1) = 0"
  proof (cases es)
    case (Cons e es')
    then have "e_txn e = res_txn r" using entries_of_txn [OF es] by simp
    moreover have "sum_txn (e_txn e) (entries s') = 0"
      using commit Cons by (intro check_balanced_None [where es = es]) (simp_all add: ledger_commit_def e2)
    ultimately show ?thesis by (simp add: e2 s1)
  qed (simp add: s1 old)
  have "ledger_inv s2"
    by (rule closes_inv [OF insertPosted_inv [OF inv1 _ ins total] cl]) simp
  then have "ledger_inv s'"
    unfolding s' by (rule ledger_inv_keys) (simp add: complete_key.taken)
  moreover have "sum_list (map e_amount es) = 0"
    using total old s1 entries_of_txn [OF es] sum_txn_own [of es "res_txn r"] by simp
  ultimately show ?thesis using e2 entries_of_txn [OF es] by blast
qed

end

sublocale posting \<subseteq> idempotent_call fn
  by unfold_locales (rule body_keys)

context posting begin

lemma run_inv:
  assumes "Execute c ledger_commit key h ttl fn s = (res, s')" and "ledger_inv s"
  shows "ledger_inv s'"
proof (cases res)
  case (Inl e)
  with assms show ?thesis by (auto dest: error_rolls_back)
next
  case (Inr r)
  with assms fresh_run [of h ttl s r s'] show ?thesis
    by (cases "key_taken ik_key key (idem_keys s)") (auto dest: taken_unchanged)
qed

text \<open>Reads of the journal see old entries unchanged: it is append-only.\<close>

lemma run_append_only:
  assumes "Execute c ledger_commit key h ttl fn s = (res, s')" and "ledger_inv s"
  shows "\<exists>es. entries s' = entries s @ es \<and> sum_list (map e_amount es) = 0"
proof (cases res)
  case (Inl e)
  with assms show ?thesis by (auto dest: error_rolls_back)
next
  case (Inr r)
  with assms fresh_run [of h ttl s r s'] show ?thesis
    by (cases "key_taken ik_key key (idem_keys s)") (auto dest: taken_unchanged)
qed

end

end
