(* ===== verification/LedgerOps.thy ===== *)
theory LedgerOps
  imports LedgerPost
begin

section \<open>The ledger service keeps its invariant\<close>

text \<open>
  Each operation of \<open>ledger.Service\<close> as a step of the ledger, the invariant over every
  reachable state, and what the operations do to balances.
\<close>

subsection \<open>The posting operations meet the contract\<close>

interpretation post: posting c key "post_body c ty key legs" for c ty key legs
proof
  fix s :: "'a ledger_db_scheme" and r s2
  assume "post_body c ty key legs s = Inr (r, s2)"
  then have "insertPostedTransaction c ty key legs s = Inr (res_txn r, s2)"
    by (auto simp: post_body_def split: sum.splits)
  moreover have "closes s2 s2" by (auto simp: closes_def same_txns_def intro!: exI [of _ "txns s2"] exI [of _ "holds s2"])
  ultimately show "\<exists>ty legs s1. insertPostedTransaction c ty key legs s = Inr (res_txn r, s1) \<and> closes s1 s2"
    by blast
qed

interpretation capture: posting c key "capture_body c holdID key" for c holdID key
proof
  fix s :: "'a ledger_db_scheme" and r s2
  assume "capture_body c holdID key s = Inr (r, s2)"
  then obtain legs s1 where "insertPostedTransaction c TransactionTypeDebit key legs s = Inr (res_txn r, s1)"
    and s2: "s2 = s1\<lparr>holds := update_row h_id holdID (\<lambda>r. r\<lparr>h_status := HoldStatusCaptured\<rparr>) (holds s1)\<rparr>"
    by (auto simp: capture_body_def split: option.splits if_splits sum.splits)
  moreover have "closes s1 s2"
    unfolding closes_def s2
    by (intro exI [of _ "txns s1"]
        exI [of _ "update_row h_id holdID (\<lambda>r. r\<lparr>h_status := HoldStatusCaptured\<rparr>) (holds s1)"])
       (simp add: same_txns_def holds_resolved_update)
  ultimately show "\<exists>ty legs s1. insertPostedTransaction c ty key legs s = Inr (res_txn r, s1) \<and> closes s1 s2"
    by blast
qed

interpretation reverse: posting c key "reverse_body c origID key" for c origID key
proof
  fix s :: "'a ledger_db_scheme" and r s2
  assume "reverse_body c origID key s = Inr (r, s2)"
  then obtain legs s1 where "insertPostedTransaction c TransactionTypeReversal key legs s = Inr (res_txn r, s1)"
    and s2: "s2 = s1\<lparr>txns := update_row t_id origID (\<lambda>r. r\<lparr>t_state := TransactionStateReversed\<rparr>) (txns s1)\<rparr>"
    by (auto simp: reverse_body_def Let_def split: option.splits if_splits sum.splits)
  moreover have "closes s1 s2"
    unfolding closes_def s2
    by (intro exI [of _ "update_row t_id origID (\<lambda>r. r\<lparr>t_state := TransactionStateReversed\<rparr>) (txns s1)"]
        exI [of _ "holds s1"]) (simp add: same_txns_update)
  ultimately show "\<exists>ty legs s1. insertPostedTransaction c ty key legs s = Inr (res_txn r, s1) \<and> closes s1 s2"
    by blast
qed

subsection \<open>Each operation keeps the invariant\<close>

lemma as_transaction_Inr [simp]:
  "as_transaction key ty r = Inr t \<longleftrightarrow>
   (\<exists>res. r = Inr res \<and> t = \<lparr>t_id = res_txn res, t_key = key, t_type = ty, t_state = res_state res\<rparr>)"
  by (auto simp: as_transaction_def split: sum.splits)

lemma as_transaction_Inl [simp]: "as_transaction key ty r = Inl e \<longleftrightarrow> r = Inl e"
  by (auto simp: as_transaction_def split: sum.splits)

lemma postTransaction_inv:
  "postTransaction c ty key legs s = (res, s') \<Longrightarrow> ledger_inv s \<Longrightarrow> ledger_inv s'"
  by (auto simp: postTransaction_def split: prod.splits dest: post.run_inv)

lemma Credit_inv: "Credit c a amt key s = (res, s') \<Longrightarrow> ledger_inv s \<Longrightarrow> ledger_inv s'"
  by (auto simp: Credit_def split: sum.splits dest: postTransaction_inv)

lemma Debit_inv: "Debit c a amt key s = (res, s') \<Longrightarrow> ledger_inv s \<Longrightarrow> ledger_inv s'"
  by (auto simp: Debit_def split: sum.splits dest: postTransaction_inv)

lemma Transfer_inv: "Transfer c f t amt key s = (res, s') \<Longrightarrow> ledger_inv s \<Longrightarrow> ledger_inv s'"
  unfolding Transfer_def by (rule postTransaction_inv)

lemma CaptureHold_inv: "CaptureHold c h key s = (res, s') \<Longrightarrow> ledger_inv s \<Longrightarrow> ledger_inv s'"
  by (auto simp: CaptureHold_def split: prod.splits dest: capture.run_inv)

lemma ReverseTransaction_inv:
  "ReverseTransaction c t key s = (res, s') \<Longrightarrow> ledger_inv s \<Longrightarrow> ledger_inv s'"
  by (auto simp: ReverseTransaction_def split: prod.splits dest: reverse.run_inv)

lemma resolveHold_inv:
  assumes "resolveHold h st s = (res, s')" and "ledger_inv s" and "st \<noteq> HoldStatusActive"
  shows "ledger_inv s'"
proof (cases "s' = s")
  case False
  with assms(1) have s': "s' = s\<lparr>holds := update_row h_id h (\<lambda>r. r\<lparr>h_status := st\<rparr>) (holds s)\<rparr>"
    by (auto simp: resolveHold_def split: option.splits if_splits)
  have "closes s s'"
    unfolding closes_def s' using assms(3)
    by (intro exI [of _ "txns s"] exI [of _ "update_row h_id h (\<lambda>r. r\<lparr>h_status := st\<rparr>) (holds s)"])
       (simp add: same_txns_def holds_resolved_update)
  then show ?thesis by (rule closes_inv [OF assms(2)])
qed (use assms in simp)

lemma ReleaseHold_inv: "ReleaseHold h s = (res, s') \<Longrightarrow> ledger_inv s \<Longrightarrow> ledger_inv s'"
  unfolding ReleaseHold_def by (erule (1) resolveHold_inv) simp

lemma OpenAccount_inv:
  assumes "OpenAccount c ow ty cur od s = (res, s')" and inv: "ledger_inv s"
  shows "ledger_inv s'"
proof (cases "s' = s")
  case False
  with assms(1) obtain a where s': "s' = s\<lparr>accounts := accounts s @ [a]\<rparr>"
    and a: "0 \<le> a_overdraft a" "in64 (a_overdraft a)" and fresh: "\<not> key_taken a_id (a_id a) (accounts s)"
    by (auto simp: OpenAccount_def Let_def split: sum.splits if_splits)
  have none: "sum_entries (a_id a) (entries s) = 0" "sum_held (a_id a) (holds s) = 0"
  proof -
    have "\<forall>e\<in>set (entries s). e_account e \<noteq> a_id a" and "\<forall>h\<in>set (holds s). h_account h \<noteq> a_id a"
      using ledger_invD(1) [OF inv] fresh by (auto simp: schema_ok_def)
    then show "sum_entries (a_id a) (entries s) = 0" "sum_held (a_id a) (holds s) = 0"
      by (simp_all add: sum_entries_def sum_held_def sum_list_0 cong: map_cong)
  qed
  have "schema_ok s'" using ledger_invD(1) [OF inv] a fresh
    by (auto simp: schema_ok_def s' distinct_snoc_key simp del: map_append)
  moreover have "solvent s'" using ledger_invD(3) [OF inv] a none
    by (auto simp: solvent_def s' available_def)
  moreover have "balanced s'" using ledger_invD(2) [OF inv] by (simp add: balanced_def s')
  ultimately show ?thesis by (simp add: ledger_inv_def)
qed (use assms in simp)

lemma TransitionAccountState_inv:
  assumes "TransitionAccountState a t s = (res, s')" and inv: "ledger_inv s"
  shows "ledger_inv s'"
proof (cases "s' = s")
  case False
  with assms(1) have s': "s' = s\<lparr>accounts := update_row a_id a (\<lambda>r. r\<lparr>a_state := t\<rparr>) (accounts s)\<rparr>"
    by (auto simp: TransitionAccountState_def split: option.splits if_splits)
  have "schema_ok s'" using ledger_invD(1) [OF inv]
    by (auto simp: schema_ok_def s' account_state_col.keys account_state_col.taken set_update_row)
  moreover have "solvent s'" using ledger_invD(3) [OF inv]
    by (auto simp: solvent_def s' set_update_row available_def)
  moreover have "balanced s'" using ledger_invD(2) [OF inv] by (simp add: balanced_def s')
  ultimately show ?thesis by (simp add: ledger_inv_def)
qed (use assms in simp)

text \<open>\<open>PlaceHold\<close> compares with Go's wrapping subtraction; where it does not wrap, it is safe.\<close>

lemma PlaceHold_result:
  assumes "PlaceHold c a amt s = (res, s')"
  shows "(s' = s \<and> (\<exists>e. res = Inl e)) \<or>
    (\<exists>acc. find_row a_id a (accounts s) = Some acc \<and> in64 (sum_entries a (entries s))
      \<and> in64 (sum_held a (holds s)) \<and> 0 < minor amt \<and> in64 (minor amt)
      \<and> wrap64 (- a_overdraft acc) \<le> wrap64 (wrap64 (available a s) - minor amt)
      \<and> \<not> key_taken h_id (gen c 1) (holds s)
      \<and> res = Inr \<lparr>hv_id = gen c 1, hv_account = a, hv_amount = amt, hv_status = HoldStatusActive\<rparr>
      \<and> s' = s\<lparr>holds := holds s @ [\<lparr>h_id = gen c 1, h_account = a, h_amount = minor amt,
                                    h_status = HoldStatusActive\<rparr>]\<rparr>)"
  using assms
  by (auto simp: PlaceHold_def Let_def available_def not_less split: option.splits sum.splits if_splits)

lemma available_in64:
  assumes "ledger_inv s" and "find_row a_id a (accounts s) = Some acc"
    and "in64 (sum_entries a (entries s))"
  shows "in64 (available a s)"
proof -
  have "- a_overdraft acc \<le> available a s" by (rule solventD [OF assms(1,2)])
  moreover have "in64 (a_overdraft acc)" and "0 \<le> a_overdraft acc"
    using ledger_invD(1) [OF assms(1)] find_row_Some [OF assms(2)] by (auto simp: schema_ok_def)
  moreover have "available a s \<le> sum_entries a (entries s)"
    using sum_held_nonneg [OF ledger_invD(8) [OF assms(1)]] by (simp add: available_def)
  ultimately show ?thesis using assms(3) by (simp add: in64_def min64_def max64_def)
qed

lemma overdraft_wrap:
  assumes "ledger_inv s" and "find_row a_id a (accounts s) = Some acc"
  shows "wrap64 (- a_overdraft acc) = - a_overdraft acc"
  using ledger_invD(1) [OF assms(1)] find_row_Some [OF assms(2)]
  by (intro wrap64_id in64_uminus) (auto simp: schema_ok_def)

lemma PlaceHold_accepted:
  assumes "PlaceHold c a amt s = (Inr h, s')" and inv: "ledger_inv s"
    and nowrap: "in64 (available a s - minor amt)"
  obtains acc where "find_row a_id a (accounts s) = Some acc"
    and "- a_overdraft acc \<le> available a s - minor amt" and "0 < minor amt" and "in64 (minor amt)"
    and "\<not> key_taken h_id (hv_id h) (holds s)"
    and "h = \<lparr>hv_id = gen c 1, hv_account = a, hv_amount = amt, hv_status = HoldStatusActive\<rparr>"
    and "s' = s\<lparr>holds := holds s @ [\<lparr>h_id = hv_id h, h_account = a, h_amount = minor amt,
                                    h_status = HoldStatusActive\<rparr>]\<rparr>"
proof -
  from PlaceHold_result [OF assms(1)] obtain acc where acc: "find_row a_id a (accounts s) = Some acc"
    and le: "wrap64 (- a_overdraft acc) \<le> wrap64 (wrap64 (available a s) - minor amt)"
    and es: "in64 (sum_entries a (entries s))"
    and rest: "0 < minor amt" "in64 (minor amt)" "\<not> key_taken h_id (gen c 1) (holds s)"
      "h = \<lparr>hv_id = gen c 1, hv_account = a, hv_amount = amt, hv_status = HoldStatusActive\<rparr>"
      "s' = s\<lparr>holds := holds s @ [\<lparr>h_id = gen c 1, h_account = a, h_amount = minor amt,
                                    h_status = HoldStatusActive\<rparr>]\<rparr>" by auto
  have "- a_overdraft acc \<le> available a s - minor amt"
    using le by (simp add: wrap64_id [OF available_in64 [OF inv acc es]] wrap64_id [OF nowrap]
      overdraft_wrap [OF inv acc])
  with acc rest show thesis by (intro that [of acc]) simp_all
qed

lemma PlaceHold_inv:
  assumes place: "PlaceHold c a amt s = (res, s')" and inv: "ledger_inv s"
    and nowrap: "in64 (available a s - minor amt)"
  shows "ledger_inv s'"
proof (cases res)
  case (Inl e)
  with PlaceHold_result [OF place] show ?thesis using inv by auto
next
  case (Inr h)
  from PlaceHold_accepted [OF place [unfolded Inr] inv nowrap] obtain acc where
    acc: "find_row a_id a (accounts s) = Some acc" "- a_overdraft acc \<le> available a s - minor amt"
    and amt: "0 < minor amt" "in64 (minor amt)" and fresh: "\<not> key_taken h_id (hv_id h) (holds s)"
    and s': "s' = s\<lparr>holds := holds s @ [\<lparr>h_id = hv_id h, h_account = a, h_amount = minor amt,
                                    h_status = HoldStatusActive\<rparr>]\<rparr>" by metis
  have "schema_ok s'" using ledger_invD(1) [OF inv] amt fresh find_row_taken [OF acc(1)]
    by (auto simp: schema_ok_def s' distinct_snoc_key simp del: map_append)
  moreover have "solvent s'"
  proof -
    have "x = acc" if "x \<in> set (accounts s)" "a_id x = a" for x
      using find_row_distinct [OF ledger_invD(4) [OF inv] that(1)] acc(1) that(2) by simp
    with ledger_invD(3) [OF inv] acc(2) show ?thesis by (auto simp: solvent_def s' available_def)
  qed
  moreover have "balanced s'" using ledger_invD(2) [OF inv] by (simp add: balanced_def s')
  ultimately show ?thesis by (simp add: ledger_inv_def)
qed

text \<open>An account whose overdraft limit is at most 1 never reaches the wrap.\<close>

lemma PlaceHold_nowrap:
  assumes inv: "ledger_inv s" and acc: "find_row a_id a (accounts s) = Some acc" "a_overdraft acc \<le> 1"
    and amt: "0 < minor amt" "in64 (minor amt)" and es: "in64 (sum_entries a (entries s))"
  shows "in64 (available a s - minor amt)"
  using available_in64 [OF inv acc(1) es] solventD [OF inv acc(1)] acc(2) amt
  by (simp add: in64_def min64_def max64_def)

subsection \<open>Steps and reachable states\<close>

inductive ledger_step :: "'z ledger_db_scheme \<Rightarrow> 'z ledger_db_scheme \<Rightarrow> bool" where
  step_open: "OpenAccount c ow ty cur od s = (r, s') \<Longrightarrow> ledger_step s s'"
| step_state: "TransitionAccountState a t s = (r, s') \<Longrightarrow> ledger_step s s'"
| step_credit: "Credit c a amt key s = (r, s') \<Longrightarrow> ledger_step s s'"
| step_debit: "Debit c a amt key s = (r, s') \<Longrightarrow> ledger_step s s'"
| step_transfer: "Transfer c a b amt key s = (r, s') \<Longrightarrow> ledger_step s s'"
| step_hold: "PlaceHold c a amt s = (r, s') \<Longrightarrow> in64 (available a s - minor amt) \<Longrightarrow> ledger_step s s'"
| step_release: "ReleaseHold h s = (r, s') \<Longrightarrow> ledger_step s s'"
| step_capture: "CaptureHold c h key s = (r, s') \<Longrightarrow> ledger_step s s'"
| step_reverse: "ReverseTransaction c t key s = (r, s') \<Longrightarrow> ledger_step s s'"

lemma ledger_step_inv: "ledger_step s s' \<Longrightarrow> ledger_inv s \<Longrightarrow> ledger_inv s'"
  by (induction rule: ledger_step.induct)
     (auto intro: OpenAccount_inv TransitionAccountState_inv Credit_inv Debit_inv Transfer_inv
        PlaceHold_inv ReleaseHold_inv CaptureHold_inv ReverseTransaction_inv)

text \<open>Migration 00007: one account, the system account of the outside world.\<close>

definition ledger_seed :: "'z ledger_db_scheme \<Rightarrow> bool" where
  "ledger_seed s \<longleftrightarrow> (\<exists>t. accounts s =
      [\<lparr>a_id = SystemAccountNGN, a_owner = ''00000000-0000-0000-0000-000000000000'',
        a_type = AccountTypeSystem, a_currency = ''NGN'', a_state = AccountStateOpen,
        a_overdraft = 9223372036854775807, a_created = t\<rparr>])
    \<and> txns s = [] \<and> entries s = [] \<and> holds s = []"

inductive ledger_reachable :: "'z ledger_db_scheme \<Rightarrow> bool" where
  start: "ledger_seed s \<Longrightarrow> ledger_reachable s"
| step: "ledger_reachable s \<Longrightarrow> ledger_step s s' \<Longrightarrow> ledger_reachable s'"

lemma ledger_seed_inv: "ledger_seed s \<Longrightarrow> ledger_inv s"
  by (auto simp: ledger_seed_def ledger_inv_def schema_ok_def balanced_def solvent_def available_def
      in64_def min64_def max64_def)

lemma ledger_reachable_inv: "ledger_reachable s \<Longrightarrow> ledger_inv s"
  by (induction rule: ledger_reachable.induct) (auto intro: ledger_seed_inv ledger_step_inv)

end
