(* ===== verification/LedgerEffect.thy ===== *)
theory LedgerEffect
  imports LedgerOps
begin

section \<open>What the ledger's operations do\<close>

text \<open>
  The functional behaviour of the posting operations: what a success writes (as an equation
  between states, so that every other field is seen to be left alone), when a posting is
  refused, and what it does to the balances.
\<close>

subsection \<open>Successful postings\<close>

lemma post_success:
  assumes "postTransaction c ty key legs s = (Inr t, s')" and "\<not> key_taken ik_key key (idem_keys s)"
  obtains es ks where "entries_of c (t_id t) legs es"
    and "s' = s\<lparr>idem_keys := ks, txns := txns s @ [t], entries := entries s @ es\<rparr>"
    and "t = \<lparr>t_id = gen c 0, t_key = key, t_type = ty, t_state = TransactionStatePosted\<rparr>"
    and "\<not> key_taken t_id (t_id t) (txns s)" and "key_taken ik_key key ks"
    and "\<And>l. l \<in> set legs \<Longrightarrow> key_taken a_id (l_account l) (accounts s)
           \<and> minor (l_amount l) \<noteq> 0 \<and> in64 (minor (l_amount l))"
proof -
  from assms(1) obtain r where
    run: "Execute c ledger_commit key (hashLegs c ty legs) idempotencyTTL (post_body c ty key legs) s = (Inr r, s')"
    and t: "t = \<lparr>t_id = res_txn r, t_key = key, t_type = ty, t_state = res_state r\<rparr>"
    by (auto simp: postTransaction_def split: prod.splits)
  let ?row = "\<lparr>ik_key = key, ik_hash = hashLegs c ty legs, ik_status = InProgress, ik_response = None,
               ik_expires = now c + idempotencyTTL\<rparr>"
  from post.fresh_success [OF run assms(2)] obtain s2 where
    body: "post_body c ty key legs (s\<lparr>idem_keys := idem_keys s @ [?row]\<rparr>) = Inr (r, s2)"
    and s': "s' = s2\<lparr>idem_keys := update_row ik_key key
                  (\<lambda>x. x\<lparr>ik_status := Completed, ik_response := Some r\<rparr>) (idem_keys s2)\<rparr>" by blast
  from body have r: "res_state r = TransactionStatePosted"
    and ins: "insertPostedTransaction c ty key legs (s\<lparr>idem_keys := idem_keys s @ [?row]\<rparr>) = Inr (res_txn r, s2)"
    by (auto simp: post_body_def split: sum.splits)
  from ins show thesis
    by (rule insertPosted_ok)
       (rule that [of _ "update_row ik_key key (\<lambda>x. x\<lparr>ik_status := Completed, ik_response := Some r\<rparr>) (idem_keys s2)"],
        use r t s' in \<open>simp_all add: complete_key.taken\<close>)
qed

lemma capture_success:
  assumes "CaptureHold c holdID key s = (Inr t, s')" and "\<not> key_taken ik_key key (idem_keys s)"
  obtains h acc es ks where "find_row h_id holdID (holds s) = Some h" and "h_status h = HoldStatusActive"
    and "find_row a_id (h_account h) (accounts s) = Some acc" and "a_currency acc = ''NGN''"
    and "entries_of c (t_id t) (capture_legs (h_account h) SystemAccountNGN
            \<lparr>minor = h_amount h, currency = a_currency acc\<rparr>) es"
    and "s' = s\<lparr>idem_keys := ks, txns := txns s @ [t], entries := entries s @ es,
               holds := update_row h_id holdID (\<lambda>r. r\<lparr>h_status := HoldStatusCaptured\<rparr>) (holds s)\<rparr>"
    and "t = \<lparr>t_id = gen c 0, t_key = key, t_type = TransactionTypeDebit, t_state = TransactionStatePosted\<rparr>"
proof -
  from assms(1) obtain r where
    run: "Execute c ledger_commit key (hashHoldCapture holdID) idempotencyTTL (capture_body c holdID key) s = (Inr r, s')"
    and t: "t = \<lparr>t_id = res_txn r, t_key = key, t_type = TransactionTypeDebit, t_state = res_state r\<rparr>"
    by (auto simp: CaptureHold_def split: prod.splits)
  let ?row = "\<lparr>ik_key = key, ik_hash = hashHoldCapture holdID, ik_status = InProgress, ik_response = None,
               ik_expires = now c + idempotencyTTL\<rparr>"
  from capture.fresh_success [OF run assms(2)] obtain s2 where
    body: "capture_body c holdID key (s\<lparr>idem_keys := idem_keys s @ [?row]\<rparr>) = Inr (r, s2)"
    and s': "s' = s2\<lparr>idem_keys := update_row ik_key key
                  (\<lambda>x. x\<lparr>ik_status := Completed, ik_response := Some r\<rparr>) (idem_keys s2)\<rparr>" by blast
  from body obtain h acc s1 where h: "find_row h_id holdID (holds s) = Some h" "h_status h = HoldStatusActive"
    and acc: "find_row a_id (h_account h) (accounts s) = Some acc" "a_currency acc = ''NGN''"
    and r: "res_state r = TransactionStatePosted"
    and ins: "insertPostedTransaction c TransactionTypeDebit key (capture_legs (h_account h) SystemAccountNGN
            \<lparr>minor = h_amount h, currency = a_currency acc\<rparr>)
            (s\<lparr>idem_keys := idem_keys s @ [?row]\<rparr>) = Inr (res_txn r, s1)"
    and s2: "s2 = s1\<lparr>holds := update_row h_id holdID (\<lambda>r. r\<lparr>h_status := HoldStatusCaptured\<rparr>) (holds s1)\<rparr>"
    by (auto simp: capture_body_def systemAccountFor_def split: option.splits if_splits sum.splits)
  from ins show thesis
    by (rule insertPosted_ok)
       (rule that [of h acc _ "update_row ik_key key (\<lambda>x. x\<lparr>ik_status := Completed, ik_response := Some r\<rparr>) (idem_keys s2)"],
        use h acc r t s' s2 in simp_all)
qed

lemma reverse_success:
  assumes "ReverseTransaction c tid key s = (Inr t, s')" and "\<not> key_taken ik_key key (idem_keys s)"
  obtains t0 es ks where "find_row t_id tid (txns s) = Some t0" and "t_state t0 = TransactionStatePosted"
    and "entries_of c (t_id t) (reversal_legs tid (entries s)) es"
    and "s' = s\<lparr>idem_keys := ks, entries := entries s @ es,
               txns := update_row t_id tid (\<lambda>r. r\<lparr>t_state := TransactionStateReversed\<rparr>) (txns s @ [t])\<rparr>"
    and "t = \<lparr>t_id = gen c 0, t_key = key, t_type = TransactionTypeReversal, t_state = TransactionStatePosted\<rparr>"
    and "\<not> key_taken t_id (t_id t) (txns s)"
proof -
  from assms(1) obtain r where
    run: "Execute c ledger_commit key (hashReversal tid) idempotencyTTL (reverse_body c tid key) s = (Inr r, s')"
    and t: "t = \<lparr>t_id = res_txn r, t_key = key, t_type = TransactionTypeReversal, t_state = res_state r\<rparr>"
    by (auto simp: ReverseTransaction_def split: prod.splits)
  let ?row = "\<lparr>ik_key = key, ik_hash = hashReversal tid, ik_status = InProgress, ik_response = None,
               ik_expires = now c + idempotencyTTL\<rparr>"
  from reverse.fresh_success [OF run assms(2)] obtain s2 where
    body: "reverse_body c tid key (s\<lparr>idem_keys := idem_keys s @ [?row]\<rparr>) = Inr (r, s2)"
    and s': "s' = s2\<lparr>idem_keys := update_row ik_key key
                  (\<lambda>x. x\<lparr>ik_status := Completed, ik_response := Some r\<rparr>) (idem_keys s2)\<rparr>" by blast
  from body obtain t0 s1 where t0: "find_row t_id tid (txns s) = Some t0"
      "txn_CanTransitionTo (t_state t0) TransactionStateReversed"
    and r: "res_state r = TransactionStatePosted"
    and ins: "insertPostedTransaction c TransactionTypeReversal key (reversal_legs tid (entries s))
            (s\<lparr>idem_keys := idem_keys s @ [?row]\<rparr>) = Inr (res_txn r, s1)"
    and s2: "s2 = s1\<lparr>txns := update_row t_id tid (\<lambda>r. r\<lparr>t_state := TransactionStateReversed\<rparr>) (txns s1)\<rparr>"
    by (auto simp: reverse_body_def Let_def split: option.splits if_splits sum.splits)
  have posted: "t_state t0 = TransactionStatePosted"
    using t0(2) by (cases "t_state t0") (simp_all add: txn_CanTransitionTo_def)
  from ins show thesis
    by (rule insertPosted_ok)
       (rule that [of t0 _ "update_row ik_key key (\<lambda>x. x\<lparr>ik_status := Completed, ik_response := Some r\<rparr>) (idem_keys s2)"],
        use t0(1) posted r t s' s2 in simp_all)
qed

subsection \<open>The posting decision\<close>

text \<open>The sums \<open>ledger_check_available_balance\<close> reads fit a \<open>BIGINT\<close>, before and after \<open>amt\<close>.\<close>

definition in_bigint :: "uuid \<Rightarrow> int \<Rightarrow> 'z ledger_db_scheme \<Rightarrow> bool" where
  "in_bigint a amt s \<longleftrightarrow> in64 (sum_entries a (entries s)) \<and> in64 (sum_held a (holds s))
     \<and> in64 (sum_entries a (entries s) + amt) \<and> in64 (available a s + amt)"

lemma check_available:
  assumes "find_row a_id a (accounts s) = Some acc" and "amt \<le> 0" and "in_bigint a amt s"
  shows "ledger_check_available_balance a amt s =
    (if available a s + amt < - a_overdraft acc then Some ErrInsufficientBalance else None)"
proof -
  have eq: "sum_entries a (entries s) + amt - sum_held a (holds s) = available a s + amt"
    by (simp add: available_def)
  from assms show ?thesis unfolding ledger_check_available_balance_def in_bigint_def Let_def eq by simp
qed

lemma check_available_pos: "0 < amt \<Longrightarrow> ledger_check_available_balance a amt s = None"
  by (simp add: ledger_check_available_balance_def)

lemma char3_ok: "length cur = 3 \<Longrightarrow> char3 cur = Inr cur"
  by (simp add: char3_def)

text \<open>A debit leg and its credit leg: the posting of \<open>Transfer\<close>, \<open>Debit\<close> and \<open>CaptureHold\<close>.\<close>

definition move_legs :: "uuid \<Rightarrow> uuid \<Rightarrow> money \<Rightarrow> leg list" where
  "move_legs f t amt = [\<lparr>l_account = f, l_amount = Negate amt\<rparr>, \<lparr>l_account = t, l_amount = amt\<rparr>]"

lemma move_legs_eq: "transfer_legs f t amt = move_legs f t amt" "capture_legs f t amt = move_legs f t amt"
  by (simp_all add: transfer_legs_def capture_legs_def move_legs_def)

lemma insert_move:
  assumes acc: "find_row a_id f (accounts s) = Some acc" and t: "key_taken a_id t (accounts s)"
    and cur: "length (currency amt) = 3" and pos: "0 < minor amt" "in64 (minor amt)"
    and fits: "in_bigint f (- minor amt) s"
    and fresh: "\<not> key_taken t_id (gen c 0) (txns s)" "\<not> key_taken t_key key (txns s)"
  shows "insertPostedTransaction c ty key (move_legs f t amt) s =
    (if available f s - minor amt < - a_overdraft acc then Inl ErrInsufficientBalance
     else Inr (gen c 0, s\<lparr>txns := txns s @ [\<lparr>t_id = gen c 0, t_key = key, t_type = ty, t_state = TransactionStatePosted\<rparr>],
            entries := entries s @
              [\<lparr>e_txn = gen c 0, e_account = f, e_amount = - minor amt, e_currency = currency amt, e_created = now c\<rparr>,
               \<lparr>e_txn = gen c 0, e_account = t, e_amount = minor amt, e_currency = currency amt, e_created = now c\<rparr>]\<rparr>))"
proof -
  let ?s0 = "s\<lparr>txns := txns s @ [\<lparr>t_id = gen c 0, t_key = key, t_type = ty, t_state = TransactionStatePosted\<rparr>]\<rparr>"
  have neg: "Negate amt = \<lparr>minor = - minor amt, currency = currency amt\<rparr>"
    using pos by (simp add: Negate_def goint min64_def)
  have av: "available f ?s0 = available f s" by (simp add: available_def)
  have "in_bigint f (- minor amt) ?s0" using fits by (simp add: in_bigint_def available_def)
  then have chk: "ledger_check_available_balance f (- minor amt) ?s0 =
    (if available f s - minor amt < - a_overdraft acc then Some ErrInsufficientBalance else None)"
    using check_available [of f ?s0 acc "- minor amt"] acc pos by (simp add: av)
  have n64: "in64 (- minor amt)" using pos by (simp add: in64_uminus)
  show ?thesis
    using fresh pos n64 t find_row_taken [OF acc]
    by (simp add: insertPostedTransaction_def move_legs_def neg insert_entry_def char3_ok cur chk check_available_pos)
qed

lemma commit_move:
  assumes "sum_txn tid (entries s0) = 0" and "entries s = entries s0 @ es" and "sum_txn tid es = 0"
    and "\<forall>e\<in>set es. e_txn e = tid"
  shows "ledger_commit s0 s = None"
  unfolding ledger_commit_def assms(2) using assms by (intro check_balanced_ok) auto

lemma fresh_key_txn: "ledger_inv s \<Longrightarrow> \<not> key_taken ik_key key (idem_keys s) \<Longrightarrow> \<not> key_taken t_key key (txns s)"
  by (auto simp: ledger_inv_def schema_ok_def key_taken_def)

text \<open>
  The whole of a move under a fresh key: refused exactly when the available balance does not
  cover it, otherwise posted.
\<close>

lemma post_move:
  assumes inv: "ledger_inv s" and key: "\<not> key_taken ik_key key (idem_keys s)"
    and uid: "\<not> key_taken t_id (gen c 0) (txns s)"
    and acc: "find_row a_id f (accounts s) = Some acc" and t: "key_taken a_id t (accounts s)"
    and cur: "length (currency amt) = 3" and pos: "0 < minor amt" "in64 (minor amt)"
    and fits: "in_bigint f (- minor amt) s"
  shows "if available f s - minor amt < - a_overdraft acc
    then postTransaction c ty key (move_legs f t amt) s = (Inl ErrInsufficientBalance, s)
    else \<exists>s'. postTransaction c ty key (move_legs f t amt) s =
      (Inr \<lparr>t_id = gen c 0, t_key = key, t_type = ty, t_state = TransactionStatePosted\<rparr>, s')"
proof -
  let ?h = "hashLegs c ty (move_legs f t amt)"
  let ?row = "\<lparr>ik_key = key, ik_hash = ?h, ik_status = InProgress, ik_response = None,
               ik_expires = now c + idempotencyTTL\<rparr>"
  let ?s1 = "s\<lparr>idem_keys := idem_keys s @ [?row]\<rparr>"
  have av: "available f ?s1 = available f s" by (simp add: available_def)
  have "in_bigint f (- minor amt) ?s1" using fits by (simp add: in_bigint_def available_def)
  then have ins: "insertPostedTransaction c ty key (move_legs f t amt) ?s1 =
    (if available f s - minor amt < - a_overdraft acc then Inl ErrInsufficientBalance
     else Inr (gen c 0, ?s1\<lparr>txns := txns s @ [\<lparr>t_id = gen c 0, t_key = key, t_type = ty, t_state = TransactionStatePosted\<rparr>],
            entries := entries s @
              [\<lparr>e_txn = gen c 0, e_account = f, e_amount = - minor amt, e_currency = currency amt, e_created = now c\<rparr>,
               \<lparr>e_txn = gen c 0, e_account = t, e_amount = minor amt, e_currency = currency amt, e_created = now c\<rparr>]\<rparr>))"
    using insert_move [of f ?s1 acc t amt c key ty] acc t cur pos uid fresh_key_txn [OF inv key]
    by (simp add: av)
  have bal: "sum_txn (gen c 0) (entries s) = 0" by (rule balanced_all [OF ledger_invD(2) [OF inv]])
  show ?thesis
  proof (cases "available f s - minor amt < - a_overdraft acc")
    case True
    then show ?thesis using key ins
      by (simp add: postTransaction_def Execute_def Let_def post_body_def as_transaction_def)
  next
    case False
    then show ?thesis using key ins
      by (simp add: postTransaction_def Execute_def Let_def post_body_def as_transaction_def
          commit_move [OF bal] split: option.split)
  qed
qed

subsection \<open>Balances\<close>

lemma sum_legs_move: "in64 (minor amt) \<Longrightarrow> minor amt \<noteq> min64 \<Longrightarrow>
    sum_legs a (move_legs f t amt) = (if a = t then minor amt else 0) - (if a = f then minor amt else 0)"
  by (auto simp: move_legs_def Negate_def goint)

text \<open>
  A successful posting has balanced legs, so its negated leg did not wrap: what it moves is
  what it was asked to move.
\<close>

lemma post_effect:
  assumes run: "postTransaction c ty key legs s = (Inr t, s')" and key: "\<not> key_taken ik_key key (idem_keys s)"
    and inv: "ledger_inv s"
  shows "sum_entries a (entries s') = sum_entries a (entries s) + sum_legs a legs"
    and "sum_list (map (\<lambda>l. minor (l_amount l)) legs) = 0"
proof -
  from run key obtain es ks where es: "entries_of c (t_id t) legs es"
    and s': "s' = s\<lparr>idem_keys := ks, txns := txns s @ [t], entries := entries s @ es\<rparr>"
    by (rule post_success)
  show "sum_entries a (entries s') = sum_entries a (entries s) + sum_legs a legs"
    by (simp add: s' entries_of_sum [OF es])
  have "ledger_inv s'" by (rule postTransaction_inv [OF run inv])
  then have "sum_txn (t_id t) (entries s @ es) = 0"
    using balanced_all [OF ledger_invD(2), of s'] by (simp add: s')
  then show "sum_list (map (\<lambda>l. minor (l_amount l)) legs) = 0"
    using balanced_all [OF ledger_invD(2) [OF inv]] entries_of_total [OF es] by simp
qed

lemma wrap_balanced: "wrap64 (- m) + m = 0 \<Longrightarrow> wrap64 (- m) = - m"
  by simp

lemma move_effect:
  assumes run: "postTransaction c ty key (move_legs f t amt) s = (Inr tx, s')"
    and key: "\<not> key_taken ik_key key (idem_keys s)" and inv: "ledger_inv s"
  shows "sum_entries a (entries s') = sum_entries a (entries s)
    + (if a = t then minor amt else 0) - (if a = f then minor amt else 0)"
proof -
  have "wrap64 (- minor amt) = - minor amt"
    using post_effect(2) [OF run key inv] by (intro wrap_balanced) (simp add: move_legs_def Negate_def)
  then show ?thesis
    using post_effect(1) [OF run key inv] by (simp add: move_legs_def Negate_def)
qed

text \<open>A posting leaves every table but the keys, the transactions and the journal alone.\<close>

lemma posting_frame:
  assumes "postTransaction c ty key legs s = (res, s')"
  shows "\<exists>ks ts es. s' = s\<lparr>idem_keys := ks, txns := ts, entries := es\<rparr>"
proof (cases res)
  case (Inl e)
  then have "s' = s" using assms
    by (auto simp: postTransaction_def split: prod.splits dest: post.error_rolls_back)
  then show ?thesis by (intro exI [of _ "idem_keys s"] exI [of _ "txns s"] exI [of _ "entries s"]) simp
next
  case (Inr t)
  show ?thesis
  proof (cases "key_taken ik_key key (idem_keys s)")
    case True
    then have "s' = s" using assms
      by (auto simp: postTransaction_def split: prod.splits dest: post.taken_unchanged)
    then show ?thesis by (intro exI [of _ "idem_keys s"] exI [of _ "txns s"] exI [of _ "entries s"]) simp
  next
    case False
    with assms Inr show ?thesis by (metis post_success)
  qed
qed

text \<open>The same transfer under the same key, at any later time, returns the first and writes nothing.\<close>

lemma Transfer_replays:
  assumes run: "Transfer c f t amt key s = (Inr tx, s1)" and sha: "sha256 c' = sha256 c"
  shows "Transfer c' f t amt key s1 = (Inr tx, s1)"
proof -
  from run obtain x where ex: "Execute c ledger_commit key
        (hashLegs c TransactionTypeTransfer (transfer_legs f t amt)) idempotencyTTL
        (post_body c TransactionTypeTransfer key (transfer_legs f t amt)) s = (Inr x, s1)"
      and t: "tx = \<lparr>t_id = res_txn x, t_key = key, t_type = TransactionTypeTransfer, t_state = res_state x\<rparr>"
    by (auto simp: Transfer_def postTransaction_def split: prod.splits)
  show ?thesis
    using post.retry_replays [OF ex]
    by (simp add: Transfer_def postTransaction_def hashLegs_def sha as_transaction_def t)
qed

subsection \<open>Reversal\<close>

lemma sum_legs_reversal:
  "sum_legs a (reversal_legs t es) =
   sum_list (map (\<lambda>e. if e_account e = a then wrap64 (- e_amount e) else 0) (filter (\<lambda>e. e_txn e = t) es))"
  unfolding sum_legs_def reversal_legs_def by (induction es) (simp_all add: Negate_def)

lemma sum_negated: "\<forall>e\<in>set es. wrap64 (- e_amount e) = - e_amount e \<Longrightarrow>
    sum_list (map (\<lambda>e. if e_account e = a then wrap64 (- e_amount e) else 0) es) = - sum_entries a es"
  by (induction es) auto

lemma wrap64_neg_le: "in64 x \<Longrightarrow> wrap64 (- x) \<le> - x"
  by (cases "x = min64") (auto simp: goint, simp add: wrap64_def min64_def)

text \<open>Negating the amounts of a balanced list keeps it balanced only if none of them wraps.\<close>

lemma neg_balanced:
  assumes "\<forall>x\<in>set xs. in64 x" and "sum_list xs = 0" and "sum_list (map (\<lambda>x. wrap64 (- x)) xs) = 0"
  shows "\<forall>x\<in>set xs. wrap64 (- x) = - x"
proof -
  have "sum_list (map (\<lambda>x. - x - wrap64 (- x)) xs) = - sum_list xs - sum_list (map (\<lambda>x. wrap64 (- x)) xs)"
    by (induction xs) simp_all
  then have "sum_list (map (\<lambda>x. - x - wrap64 (- x)) xs) = 0" using assms(2,3) by simp
  moreover have "\<And>x. x \<in> set xs \<Longrightarrow> 0 \<le> - x - wrap64 (- x)"
    using assms(1) wrap64_neg_le by fastforce
  ultimately have "\<forall>y\<in>set (map (\<lambda>x. - x - wrap64 (- x)) xs). y = 0"
    by (subst sum_list_nonneg_eq_0_iff [symmetric]) auto
  then show ?thesis by simp
qed

lemma reverse_effect:
  assumes run: "ReverseTransaction c tid key s = (Inr t, s')" and key: "\<not> key_taken ik_key key (idem_keys s)"
    and inv: "ledger_inv s"
  shows "sum_entries a (entries s') =
    sum_entries a (entries s) - sum_entries a (filter (\<lambda>e. e_txn e = tid) (entries s))"
proof -
  from run key obtain es ks where es: "entries_of c (t_id t) (reversal_legs tid (entries s)) es"
    and s': "entries s' = entries s @ es" by (rule reverse_success) simp
  let ?xs = "map e_amount (filter (\<lambda>e. e_txn e = tid) (entries s))"
  have inv': "ledger_inv s'" by (rule ReverseTransaction_inv [OF run inv])
  have "sum_txn (t_id t) (entries s @ es) = 0"
    using balanced_all [OF ledger_invD(2) [OF inv'], of "t_id t"] by (simp add: s')
  then have "sum_list (map (\<lambda>l. minor (l_amount l)) (reversal_legs tid (entries s))) = 0"
    using balanced_all [OF ledger_invD(2) [OF inv], of "t_id t"] entries_of_total [OF es] by simp
  then have "sum_list (map (\<lambda>x. wrap64 (- x)) ?xs) = 0"
    by (simp add: reversal_legs_def Negate_def comp_def)
  moreover have "sum_list ?xs = 0"
    using balanced_all [OF ledger_invD(2) [OF inv]] by (simp add: sum_filter_entries)
  moreover have "\<forall>x\<in>set ?xs. in64 x"
    using ledger_invD(1) [OF inv] by (auto simp: schema_ok_def)
  ultimately have "\<forall>x\<in>set ?xs. wrap64 (- x) = - x" by (intro neg_balanced)
  then have "\<forall>e\<in>set (filter (\<lambda>e. e_txn e = tid) (entries s)). wrap64 (- e_amount e) = - e_amount e" by simp
  then have "sum_legs a (reversal_legs tid (entries s)) = - sum_entries a (filter (\<lambda>e. e_txn e = tid) (entries s))"
    unfolding sum_legs_reversal by (rule sum_negated)
  with entries_of_sum [OF es, of a] show ?thesis by (simp add: s')
qed

end
