(* ===== verification/LedgerHolds.thy ===== *)
theory LedgerHolds
  imports LedgerEffect
begin

section \<open>Holds: placing, releasing, capturing\<close>

text \<open>
  The decision each hold operation takes and what it does to the three balance views.
  \<open>CaptureHold\<close> posts the debit while the hold it captures still counts as active, so the
  balance trigger sees the amount twice; \<open>capture_decision\<close> states the resulting condition.
\<close>

subsection \<open>Placing and releasing\<close>

lemma PlaceHold_decision:
  assumes inv: "ledger_inv s" and acc: "find_row a_id a (accounts s) = Some acc"
    and amt: "0 < minor amt" "in64 (minor amt)" and fits: "in_bigint a (- minor amt) s"
    and uid: "\<not> key_taken h_id (gen c 1) (holds s)"
  shows "PlaceHold c a amt s =
    (if available a s - minor amt < - a_overdraft acc then (Inl ErrInsufficientBalance, s)
     else (Inr \<lparr>hv_id = gen c 1, hv_account = a, hv_amount = amt, hv_status = HoldStatusActive\<rparr>,
           s\<lparr>holds := holds s @ [\<lparr>h_id = gen c 1, h_account = a, h_amount = minor amt,
                                h_status = HoldStatusActive\<rparr>]\<rparr>))"
proof -
  have s: "scan64 (sum_entries a (entries s)) = Inr (sum_entries a (entries s))"
    "scan64 (sum_held a (holds s)) = Inr (sum_held a (holds s))"
    using fits by (simp_all add: in_bigint_def)
  have "in64 (available a s)"
    using available_in64 [OF inv acc] fits by (simp add: in_bigint_def)
  then have w: "wrap64 (sum_entries a (entries s) - sum_held a (holds s)) = available a s"
    by (simp add: available_def goint)
  have w2: "wrap64 (available a s - minor amt) = available a s - minor amt"
    using fits by (intro wrap64_id) (simp add: in_bigint_def)
  show ?thesis
    using acc amt uid overdraft_wrap [OF inv acc]
    by (simp add: PlaceHold_def s w w2 Let_def)
qed

lemma placed_hold:
  assumes "PlaceHold c a amt s = (Inr h, s')" and inv: "ledger_inv s"
    and nowrap: "in64 (available a s - minor amt)"
  shows "find_row h_id (hv_id h) (holds s') =
      Some \<lparr>h_id = hv_id h, h_account = a, h_amount = minor amt, h_status = HoldStatusActive\<rparr>"
    and "available b s' = available b s - (if b = a then minor amt else 0)"
    and "entries s' = entries s" and "accounts s' = accounts s"
  using assms
  by (auto elim!: PlaceHold_accepted
      simp: find_row_append find_row_Cons find_row_None [symmetric] available_def)

lemma resolve_sum_held:
  assumes "distinct (map h_id hs)" and "find_row h_id k hs = Some h"
    and "h_status h = HoldStatusActive" and "st \<noteq> HoldStatusActive"
  shows "sum_held a (update_row h_id k (\<lambda>r. r\<lparr>h_status := st\<rparr>) hs)
    = sum_held a hs - (if a = h_account h then h_amount h else 0)"
  using hold_status_col.sum_update [OF assms(1,2), where st = st
      and g = "\<lambda>h. if h_account h = a \<and> h_status h = HoldStatusActive then h_amount h else 0"] assms(3,4)
  by (auto simp: sum_held_def)

lemma resolveHold_done:
  assumes "resolveHold k st s = (Inr u, s')"
  obtains h where "find_row h_id k (holds s) = Some h" and "h_status h = HoldStatusActive"
    and "s' = s\<lparr>holds := update_row h_id k (\<lambda>r. r\<lparr>h_status := st\<rparr>) (holds s)\<rparr>"
  using assms by (auto simp: resolveHold_def split: option.splits if_splits)

lemma resolveHold_error: "resolveHold k st s = (Inl e, s') \<Longrightarrow> s' = s"
  by (auto simp: resolveHold_def split: option.splits if_splits)

lemma ReleaseHold_effect:
  assumes "ReleaseHold k s = (Inr u, s')" and inv: "ledger_inv s"
    and h: "find_row h_id k (holds s) = Some h"
  shows "available a s' = available a s + (if a = h_account h then h_amount h else 0)"
    and "entries s' = entries s"
    and "find_row h_id k (holds s') = Some (h\<lparr>h_status := HoldStatusReleased\<rparr>)"
  using assms resolve_sum_held [OF ledger_invD(7) [OF inv] h, of HoldStatusReleased a]
  by (auto simp: ReleaseHold_def available_def hold_status_col.find elim!: resolveHold_done)

text \<open>A resolved hold stays resolved: neither releasing nor capturing applies again.\<close>

lemma resolved_release:
  "find_row h_id k (holds s) = Some h \<Longrightarrow> h_status h \<noteq> HoldStatusActive \<Longrightarrow>
   ReleaseHold k s = (Inl ErrHoldNotActive, s)"
  by (simp add: ReleaseHold_def resolveHold_def)

lemma resolved_capture:
  "find_row h_id k (holds s) = Some h \<Longrightarrow> h_status h \<noteq> HoldStatusActive \<Longrightarrow>
   \<not> key_taken ik_key key (idem_keys s) \<Longrightarrow>
   CaptureHold c k key s = (Inl ErrHoldNotActive, s)"
  by (simp add: CaptureHold_def Execute_def capture_body_def Let_def as_transaction_def)

subsection \<open>Capturing\<close>

lemma capture_decision:
  assumes inv: "ledger_inv s" and key: "\<not> key_taken ik_key key (idem_keys s)"
    and uid: "\<not> key_taken t_id (gen c 0) (txns s)"
    and h: "find_row h_id k (holds s) = Some h" "h_status h = HoldStatusActive"
    and acc: "find_row a_id (h_account h) (accounts s) = Some acc" "a_currency acc = ''NGN''"
    and sys: "key_taken a_id SystemAccountNGN (accounts s)"
    and fits: "in_bigint (h_account h) (- h_amount h) s"
  shows "if available (h_account h) s - h_amount h < - a_overdraft acc
    then CaptureHold c k key s = (Inl ErrInsufficientBalance, s)
    else \<exists>s'. CaptureHold c k key s =
      (Inr \<lparr>t_id = gen c 0, t_key = key, t_type = TransactionTypeDebit, t_state = TransactionStatePosted\<rparr>, s')"
proof -
  let ?row = "\<lparr>ik_key = key, ik_hash = hashHoldCapture k, ik_status = InProgress, ik_response = None,
               ik_expires = now c + idempotencyTTL\<rparr>"
  let ?s1 = "s\<lparr>idem_keys := idem_keys s @ [?row]\<rparr>"
  let ?amt = "\<lparr>minor = h_amount h, currency = a_currency acc\<rparr>"
  have pos: "0 < h_amount h" "in64 (h_amount h)"
    using ledger_invD(1) [OF inv] find_row_Some [OF h(1)] by (auto simp: schema_ok_def)
  have av: "available (h_account h) ?s1 = available (h_account h) s" by (simp add: available_def)
  have "in_bigint (h_account h) (- minor ?amt) ?s1" using fits by (simp add: in_bigint_def available_def)
  then have ins: "insertPostedTransaction c TransactionTypeDebit key (capture_legs (h_account h) SystemAccountNGN ?amt) ?s1 =
    (if available (h_account h) s - h_amount h < - a_overdraft acc then Inl ErrInsufficientBalance
     else Inr (gen c 0, ?s1\<lparr>txns := txns s @ [\<lparr>t_id = gen c 0, t_key = key, t_type = TransactionTypeDebit,
                                                t_state = TransactionStatePosted\<rparr>],
            entries := entries s @
              [\<lparr>e_txn = gen c 0, e_account = h_account h, e_amount = - h_amount h, e_currency = a_currency acc, e_created = now c\<rparr>,
               \<lparr>e_txn = gen c 0, e_account = SystemAccountNGN, e_amount = h_amount h, e_currency = a_currency acc, e_created = now c\<rparr>]\<rparr>))"
    unfolding move_legs_eq
    using insert_move [of "h_account h" ?s1 acc SystemAccountNGN ?amt c key TransactionTypeDebit]
      acc sys pos uid fresh_key_txn [OF inv key]
    by (simp add: av)
  have bal: "sum_txn (gen c 0) (entries s) = 0" by (rule balanced_all [OF ledger_invD(2) [OF inv]])
  show ?thesis
  proof (cases "available (h_account h) s - h_amount h < - a_overdraft acc")
    case True
    then show ?thesis using key ins h acc
      by (simp add: CaptureHold_def Execute_def Let_def capture_body_def systemAccountFor_def as_transaction_def)
  next
    case False
    then show ?thesis using key ins h acc
      by (simp add: CaptureHold_def Execute_def Let_def capture_body_def systemAccountFor_def as_transaction_def
          commit_move [OF bal] split: option.split)
  qed
qed

lemma capture_effect:
  assumes run: "CaptureHold c k key s = (Inr t, s')" and key: "\<not> key_taken ik_key key (idem_keys s)"
    and inv: "ledger_inv s" and h: "find_row h_id k (holds s) = Some h"
  shows "sum_entries a (entries s') = sum_entries a (entries s)
      + (if a = SystemAccountNGN then h_amount h else 0) - (if a = h_account h then h_amount h else 0)"
    and "sum_held a (holds s') = sum_held a (holds s) - (if a = h_account h then h_amount h else 0)"
    and "find_row h_id k (holds s') = Some (h\<lparr>h_status := HoldStatusCaptured\<rparr>)"
proof -
  from run key obtain h' es ks and acc :: account where h': "find_row h_id k (holds s) = Some h'"
    and st': "h_status h' = HoldStatusActive"
    and es': "entries_of c (t_id t) (capture_legs (h_account h') SystemAccountNGN
            \<lparr>minor = h_amount h', currency = a_currency acc\<rparr>) es"
    and s': "s' = s\<lparr>idem_keys := ks, txns := txns s @ [t], entries := entries s @ es,
               holds := update_row h_id k (\<lambda>r. r\<lparr>h_status := HoldStatusCaptured\<rparr>) (holds s)\<rparr>"
    by (rule capture_success) (rule that, assumption+)
  have st: "h_status h = HoldStatusActive" and es: "entries_of c (t_id t)
      (capture_legs (h_account h) SystemAccountNGN \<lparr>minor = h_amount h, currency = a_currency acc\<rparr>) es"
    using h h' st' es' by simp_all
  have amt: "0 < h_amount h" "in64 (h_amount h)"
    using ledger_invD(1) [OF inv] find_row_Some [OF h] by (auto simp: schema_ok_def)
  show "sum_entries a (entries s') = sum_entries a (entries s)
      + (if a = SystemAccountNGN then h_amount h else 0) - (if a = h_account h then h_amount h else 0)"
    using sum_legs_move [of "\<lparr>minor = h_amount h, currency = a_currency acc\<rparr>" a "h_account h" SystemAccountNGN] amt
    by (simp add: s' entries_of_sum [OF es] move_legs_eq min64_def)
  show "sum_held a (holds s') = sum_held a (holds s) - (if a = h_account h then h_amount h else 0)"
    using resolve_sum_held [OF ledger_invD(7) [OF inv] h st] by (simp add: s')
  show "find_row h_id k (holds s') = Some (h\<lparr>h_status := HoldStatusCaptured\<rparr>)"
    using h by (simp add: s' hold_status_col.find)
qed

text \<open>Every operation on holds and postings touches the ledger's own tables only.\<close>

lemma PlaceHold_frame:
  assumes "PlaceHold c a amt s = (res, s')"
  shows "\<exists>hs. s' = s\<lparr>holds := hs\<rparr>"
  using PlaceHold_result [OF assms] by (auto intro: exI [of _ "holds s"])

lemma ReleaseHold_frame:
  assumes "ReleaseHold k s = (res, s')"
  shows "\<exists>hs. s' = s\<lparr>holds := hs\<rparr>"
proof (cases res)
  case (Inl e)
  with assms have "s' = s" by (auto simp: ReleaseHold_def dest: resolveHold_error)
  then show ?thesis by (intro exI [of _ "holds s"]) simp
next
  case (Inr u)
  with assms show ?thesis by (auto simp: ReleaseHold_def elim!: resolveHold_done)
qed

lemma CaptureHold_frame:
  assumes "CaptureHold c k key s = (res, s')"
  shows "\<exists>ks ts es hs. s' = s\<lparr>idem_keys := ks, txns := ts, entries := es, holds := hs\<rparr>"
proof -
  have same: "\<exists>ks ts es hs. s = s\<lparr>idem_keys := ks, txns := ts, entries := es, holds := hs\<rparr>"
    by (intro exI [of _ "idem_keys s"] exI [of _ "txns s"] exI [of _ "entries s"] exI [of _ "holds s"]) simp
  show ?thesis
  proof (cases "(\<exists>e. res = Inl e) \<or> key_taken ik_key key (idem_keys s)")
    case True
    with assms have "s' = s"
      by (auto simp: CaptureHold_def split: prod.splits dest: capture.error_rolls_back capture.taken_unchanged)
    with same show ?thesis by simp
  next
    case False
    then obtain t where "res = Inr t" by (cases res) auto
    with assms False show ?thesis by (metis capture_success)
  qed
qed

end
