(* ===== verification/LedgerProps.thy ===== *)
theory LedgerProps
  imports LedgerHolds
begin

section \<open>The properties of the ledger\<close>

text \<open>
  What a caller of \<open>ledger.Service\<close> may rely on, each property with an instance on a small
  concrete ledger: the system account, customer \<open>A\<close> with 100 and customer \<open>B\<close> with nothing.
\<close>

subsection \<open>A concrete ledger\<close>

definition sample_ctx :: ctx where
  "sample_ctx = \<lparr>now = 1000, gen = (\<lambda>i. if i = 0 then ''tx-1'' else ''hold-1''), sha256 = (\<lambda>x. x)\<rparr>"

definition sample_ctx2 :: ctx where
  "sample_ctx2 = \<lparr>now = 2000, gen = (\<lambda>i. if i = 0 then ''tx-2'' else ''hold-2''), sha256 = (\<lambda>x. x)\<rparr>"

definition sample_account :: "uuid \<Rightarrow> account_type \<Rightarrow> int \<Rightarrow> account" where
  "sample_account a ty od = \<lparr>a_id = a, a_owner = a, a_type = ty, a_currency = ''NGN'',
     a_state = AccountStateOpen, a_overdraft = od, a_created = 0\<rparr>"

definition system_account :: account where
  "system_account = \<lparr>a_id = SystemAccountNGN, a_owner = ''00000000-0000-0000-0000-000000000000'',
     a_type = AccountTypeSystem, a_currency = ''NGN'', a_state = AccountStateOpen,
     a_overdraft = 9223372036854775807, a_created = 0\<rparr>"

definition sample_entry :: "uuid \<Rightarrow> uuid \<Rightarrow> int \<Rightarrow> entry" where
  "sample_entry t a m = \<lparr>e_txn = t, e_account = a, e_amount = m, e_currency = ''NGN'', e_created = 0\<rparr>"

definition sample_accounts :: "account list" where
  "sample_accounts = [system_account, sample_account ''A'' AccountTypeCurrent 0, sample_account ''B'' AccountTypeCurrent 0]"

definition sample_txns :: "transaction list" where
  "sample_txns = [\<lparr>t_id = ''tx-0'', t_key = ''k0'', t_type = TransactionTypeCredit, t_state = TransactionStatePosted\<rparr>]"

definition sample_entries :: "entry list" where
  "sample_entries = [sample_entry ''tx-0'' ''A'' 100, sample_entry ''tx-0'' SystemAccountNGN (- 100)]"

definition sample_keys :: "txn_result idem_row list" where
  "sample_keys = [\<lparr>ik_key = ''k0'', ik_hash = ''h0'', ik_status = Completed,
     ik_response = Some \<lparr>res_txn = ''tx-0'', res_state = TransactionStatePosted\<rparr>, ik_expires = 0\<rparr>]"

definition sample_identity :: "uuid \<Rightarrow> string \<Rightarrow> identity" where
  "sample_identity i em = \<lparr>id_id = i, id_kind = KindIndividual, id_stat = IdActive, id_tier = 1, id_email = em,
     id_phone = None, id_password_hash = ''hash'', id_legal_name = i, id_role = RoleCustomer\<rparr>"

definition sample_ledger :: ledger_db where
  "sample_ledger = \<lparr>identities = [sample_identity ''A'' ''a@kolo.ng'', sample_identity ''B'' ''b@kolo.ng''], beneficial_owners = [], kyc_checks = [], audit_log = [],
     idem_keys = sample_keys, accounts = sample_accounts, txns = sample_txns,
     entries = sample_entries, holds = []\<rparr>"

definition seed_ledger :: ledger_db where
  "seed_ledger = \<lparr>identities = [], beneficial_owners = [], kyc_checks = [], audit_log = [],
     idem_keys = [], accounts = [system_account], txns = [], entries = [], holds = []\<rparr>"

lemmas sample_tables = sample_identity_def sample_ctx_def sample_ctx2_def sample_account_def system_account_def sample_entry_def
  sample_accounts_def sample_txns_def sample_entries_def sample_keys_def SystemAccountNGN_def

lemmas sample_eval = sample_tables sample_ledger_def find_row_Cons key_taken_def in64_def min64_def max64_def
  available_def in_bigint_def

lemma sample_ledger_inv: "ledger_inv sample_ledger"
  by (simp add: ledger_inv_def schema_ok_def balanced_def solvent_def sample_eval)

definition ngn :: "int \<Rightarrow> money" where
  "ngn m = \<lparr>minor = m, currency = ''NGN''\<rparr>"

lemma ngn_simps [simp]: "minor (ngn m) = m" "currency (ngn m) = ''NGN''"
  by (simp_all add: ngn_def)

subsection \<open>Safety of every reachable ledger\<close>


lemma sample_reachable: "ledger_reachable (snd (Credit sample_ctx SystemAccountNGN (ngn 5) ''k'' seed_ledger))"
proof (rule ledger_reachable.step)
  show "ledger_reachable seed_ledger"
    by (rule ledger_reachable.start)
       (simp add: ledger_seed_def seed_ledger_def system_account_def)
  show "ledger_step seed_ledger (snd (Credit sample_ctx SystemAccountNGN (ngn 5) ''k'' seed_ledger))"
    by (rule ledger_step.step_credit [OF prod.collapse [symmetric]])
qed


subsection \<open>Transfer\<close>

text \<open>
  C2. \<open>Transfer\<close> of a positive amount under a fresh idempotency key, on a consistent ledger
  whose sums fit a \<open>bigint\<close>: it is refused with \<open>ErrInsufficientBalance\<close>, writing nothing, when
  the payer's available balance (overdraft included) does not cover the amount; otherwise it
  posts one transaction, moves exactly the amount from payer to payee, touches no other
  balance and no hold, and keeps the ledger consistent.
\<close>

theorem Transfer_correct:
  assumes inv: "ledger_inv s" and key: "\<not> key_taken ik_key key (idem_keys s)"
    and uid: "\<not> key_taken t_id (gen c 0) (txns s)"
    and acc: "find_row a_id f (accounts s) = Some acc" and t: "key_taken a_id t (accounts s)"
    and cur: "length (currency amt) = 3" and pos: "0 < minor amt" "in64 (minor amt)"
    and fits: "in_bigint f (- minor amt) s"
  shows "if available f s - minor amt < - a_overdraft acc
    then Transfer c f t amt key s = (Inl ErrInsufficientBalance, s)
    else \<exists>tx s'. Transfer c f t amt key s = (Inr tx, s') \<and> t_state tx = TransactionStatePosted
      \<and> ledger_inv s' \<and> holds s' = holds s \<and> accounts s' = accounts s
      \<and> (\<forall>a. available a s' = available a s + (if a = t then minor amt else 0) - (if a = f then minor amt else 0))"
proof (cases "available f s - minor amt < - a_overdraft acc")
  case True
  with post_move [OF assms, of TransactionTypeTransfer] show ?thesis
    by (simp add: Transfer_def move_legs_eq)
next
  case False
  with post_move [OF assms, of TransactionTypeTransfer] obtain tx s' where
    run: "postTransaction c TransactionTypeTransfer key (move_legs f t amt) s = (Inr tx, s')"
    and st: "t_state tx = TransactionStatePosted" by auto
  from run key have fr: "holds s' = holds s" "accounts s' = accounts s"
    by (auto elim: post_success)
  have "available a s' = available a s + (if a = t then minor amt else 0) - (if a = f then minor amt else 0)" for a
    using move_effect [OF run key inv, of a] fr by (simp add: available_def)
  with False run st fr postTransaction_inv [OF run inv] show ?thesis
    by (auto simp: Transfer_def move_legs_eq)
qed

lemma sample_side:
  "\<not> key_taken ik_key ''k1'' (idem_keys sample_ledger)"
  "\<not> key_taken t_id (gen sample_ctx 0) (txns sample_ledger)"
  "find_row a_id ''A'' (accounts sample_ledger) = Some (sample_account ''A'' AccountTypeCurrent 0)"
  "key_taken a_id ''B'' (accounts sample_ledger)"
  "key_taken a_id SystemAccountNGN (accounts sample_ledger)"
  "available ''A'' sample_ledger = 100" "available ''B'' sample_ledger = 0"
  "a_overdraft (sample_account ''A'' AccountTypeCurrent 0) = 0"
  "a_currency (sample_account ''A'' AccountTypeCurrent 0) = ''NGN''"
  "\<not> key_taken h_id x (holds sample_ledger)"
  by (simp_all add: sample_eval)

lemma sample_fits: "\<bar>m\<bar> \<le> 100 \<Longrightarrow> in_bigint ''A'' m sample_ledger"
  by (auto simp: sample_eval)

lemma in64_small: "\<bar>m\<bar> \<le> 1000000000000 \<Longrightarrow> in64 m"
  by (auto simp: in64_def min64_def max64_def)

theorem Transfer_correct_witness:
  "\<exists>tx s'. Transfer sample_ctx ''A'' ''B'' (ngn 60) ''k1'' sample_ledger = (Inr tx, s')
     \<and> available ''A'' s' = 40 \<and> available ''B'' s' = 60"
  using Transfer_correct [OF sample_ledger_inv sample_side(1-4), of "ngn 60"]
  by (auto simp: sample_side sample_fits in64_small)

text \<open>
  C3. Retry safety of \<open>Transfer\<close>: after a success, a call with the same key at any later time
  writes nothing; it returns the first transaction when the arguments have the same hash as
  the first call's, and \<open>ErrKeyReused\<close> when they do not.
\<close>

theorem Transfer_retry:
  assumes run: "Transfer c f t amt key s = (Inr tx, s')"
  shows "Transfer c' f' t' amt' key s' =
    (if hashLegs c' TransactionTypeTransfer (transfer_legs f' t' amt')
        = hashLegs c TransactionTypeTransfer (transfer_legs f t amt)
     then Inr tx else Inl ErrKeyReused, s')"
proof -
  let ?h = "hashLegs c TransactionTypeTransfer (transfer_legs f t amt)"
  from run obtain r where ex: "Execute c ledger_commit key ?h idempotencyTTL
      (post_body c TransactionTypeTransfer key (transfer_legs f t amt)) s = (Inr r, s')"
    and tx: "tx = \<lparr>t_id = res_txn r, t_key = key, t_type = TransactionTypeTransfer, t_state = res_state r\<rparr>"
    by (auto simp: Transfer_def postTransaction_def split: prod.splits)
  show ?thesis
    using post.retry_replays [OF ex] post.reuse_refused [OF ex]
    by (auto simp: Transfer_def postTransaction_def as_transaction_def tx)
qed

lemma sample_transfer:
  "\<exists>tx s'. Transfer sample_ctx ''A'' ''B'' (ngn 60) ''k1'' sample_ledger = (Inr tx, s')"
  using post_move [OF sample_ledger_inv sample_side(1-4), of "ngn 60" TransactionTypeTransfer]
  by (auto simp: sample_side sample_fits in64_small Transfer_def move_legs_eq)

theorem Transfer_retry_witness:
  "\<exists>tx s'. Transfer sample_ctx ''A'' ''B'' (ngn 60) ''k1'' sample_ledger = (Inr tx, s')
     \<and> Transfer sample_ctx2 ''A'' ''B'' (ngn 60) ''k1'' s' = (Inr tx, s')
     \<and> Transfer sample_ctx2 ''A'' ''B'' (ngn 61) ''k1'' s' = (Inl ErrKeyReused, s')"
proof -
  obtain tx s' where run: "Transfer sample_ctx ''A'' ''B'' (ngn 60) ''k1'' sample_ledger = (Inr tx, s')"
    using sample_transfer by blast
  have h: "hashLegs sample_ctx2 ty legs = concat [txn_type_str ty, concat (map leg_text legs)]"
    "hashLegs sample_ctx ty legs = concat [txn_type_str ty, concat (map leg_text legs)]" for ty legs
    by (simp_all add: hashLegs_def sample_ctx_def sample_ctx2_def)
  show ?thesis
    using run Transfer_retry [OF run, of sample_ctx2 "''A''" "''B''" "ngn 60"]
      Transfer_retry [OF run, of sample_ctx2 "''A''" "''B''" "ngn 61"]
    by (simp add: h transfer_legs_def leg_text_def Negate_def wrap64_def dec_int_def dec_nat.simps)
qed

subsection \<open>Reversal\<close>

text \<open>
  C5. A reversal undoes a transfer: if \<open>Transfer\<close> and then \<open>ReverseTransaction\<close> of the
  transaction it returned both succeed under keys not used before, every account has the
  balance it started with, the original is marked reversed, and a second reversal of it is
  refused with \<open>ErrNotReversible\<close> and writes nothing.
\<close>

theorem reversal_restores:
  assumes inv: "ledger_inv s" and k1: "\<not> key_taken ik_key key1 (idem_keys s)"
    and run1: "Transfer c1 f t amt key1 s = (Inr tx, s1)"
    and k2: "\<not> key_taken ik_key key2 (idem_keys s1)"
    and run2: "ReverseTransaction c2 (t_id tx) key2 s1 = (Inr rv, s2)"
    and k3: "\<not> key_taken ik_key key3 (idem_keys s2)"
  shows "(\<forall>a. sum_entries a (entries s2) = sum_entries a (entries s))
    \<and> map_option t_state (find_row t_id (t_id tx) (txns s2)) = Some TransactionStateReversed
    \<and> ReverseTransaction c3 (t_id tx) key3 s2 = (Inl ErrNotReversible, s2)"
proof -
  from run1 k1 obtain es ks where es: "entries_of c1 (t_id tx) (transfer_legs f t amt) es"
    and s1: "s1 = s\<lparr>idem_keys := ks, txns := txns s @ [tx], entries := entries s @ es\<rparr>"
    and new: "\<not> key_taken t_id (t_id tx) (txns s)"
    unfolding Transfer_def by (rule post_success)
  have inv1: "ledger_inv s1" by (rule Transfer_inv [OF run1 inv])
  have old: "filter (\<lambda>e. e_txn e = t_id tx) (entries s) = []"
    using ledger_invD(1) [OF inv] new by (auto simp: schema_ok_def filter_empty_conv)
  have all: "filter (\<lambda>e. e_txn e = t_id tx) es = es"
    using entries_of_txn [OF es] by simp
  have bal: "sum_entries a (entries s2) = sum_entries a (entries s)" for a
    using reverse_effect [OF run2 k2 inv1, of a] by (simp add: s1 old all)
  from run2 k2 have s2: "txns s2 = update_row t_id (t_id tx) (\<lambda>r. r\<lparr>t_state := TransactionStateReversed\<rparr>) (txns s1 @ [rv])"
    by (rule reverse_success) simp
  have "find_row t_id (t_id tx) (txns s1) = Some tx"
    using new by (simp add: s1 find_row_append find_row_Cons find_row_None [symmetric])
  then have st: "find_row t_id (t_id tx) (txns s2) = Some (tx\<lparr>t_state := TransactionStateReversed\<rparr>)"
    by (simp add: s2 txn_state_col.find find_row_append)
  have "ReverseTransaction c3 (t_id tx) key3 s2 = (Inl ErrNotReversible, s2)"
    using k3 st by (simp add: ReverseTransaction_def Execute_def Let_def reverse_body_def
        txn_CanTransitionTo_def as_transaction_def)
  with bal st show ?thesis by simp
qed

theorem reversal_restores_witness:
  "\<exists>tx s1 rv s2. Transfer sample_ctx ''A'' ''B'' (ngn 60) ''k1'' sample_ledger = (Inr tx, s1)
     \<and> ReverseTransaction sample_ctx2 (t_id tx) ''k2'' s1 = (Inr rv, s2)
     \<and> sum_entries ''A'' (entries s2) = 100 \<and> sum_entries ''B'' (entries s2) = 0"
proof -
  define s1 where "s1 = snd (Transfer sample_ctx ''A'' ''B'' (ngn 60) ''k1'' sample_ledger)"
  define s2 where "s2 = snd (ReverseTransaction sample_ctx2 ''tx-1'' ''k2'' s1)"
  let ?tx = "\<lparr>t_id = ''tx-1'', t_key = ''k1'', t_type = TransactionTypeTransfer, t_state = TransactionStatePosted\<rparr>"
  let ?rv = "\<lparr>t_id = ''tx-2'', t_key = ''k2'', t_type = TransactionTypeReversal, t_state = TransactionStatePosted\<rparr>"
  have "fst (Transfer sample_ctx ''A'' ''B'' (ngn 60) ''k1'' sample_ledger) = Inr ?tx"
    by code_simp
  then have run1: "Transfer sample_ctx ''A'' ''B'' (ngn 60) ''k1'' sample_ledger = (Inr ?tx, s1)"
    by (simp add: s1_def prod_eq_iff)
  have "fst (ReverseTransaction sample_ctx2 ''tx-1'' ''k2'' s1) = Inr ?rv"
    unfolding s1_def by code_simp
  then have run2: "ReverseTransaction sample_ctx2 (t_id ?tx) ''k2'' s1 = (Inr ?rv, s2)"
    by (simp add: s2_def prod_eq_iff)
  have k2: "\<not> key_taken ik_key ''k2'' (idem_keys s1)" and k3: "\<not> key_taken ik_key ''k3'' (idem_keys s2)"
    unfolding s1_def s2_def by code_simp+
  show ?thesis
    using reversal_restores [OF sample_ledger_inv sample_side(1) run1 k2 run2 k3] run1 run2
    by (auto simp: sample_eval)
qed

subsection \<open>Holds\<close>

text \<open>
  C6. \<open>PlaceHold\<close> of a positive amount, on a consistent ledger whose sums fit a \<open>bigint\<close>: refused
  with \<open>ErrInsufficientBalance\<close>, writing nothing, when the available balance does not cover it;
  otherwise an active hold for the amount exists afterwards, the account's available balance
  is lower by exactly the amount, no other balance and no entry changed.
\<close>

theorem PlaceHold_correct:
  assumes inv: "ledger_inv s" and acc: "find_row a_id a (accounts s) = Some acc"
    and amt: "0 < minor amt" "in64 (minor amt)" and fits: "in_bigint a (- minor amt) s"
    and uid: "\<not> key_taken h_id (gen c 1) (holds s)"
  shows "if available a s - minor amt < - a_overdraft acc
    then PlaceHold c a amt s = (Inl ErrInsufficientBalance, s)
    else \<exists>h s'. PlaceHold c a amt s = (Inr h, s') \<and> ledger_inv s' \<and> entries s' = entries s
      \<and> find_row h_id (hv_id h) (holds s') =
          Some \<lparr>h_id = hv_id h, h_account = a, h_amount = minor amt, h_status = HoldStatusActive\<rparr>
      \<and> (\<forall>b. available b s' = available b s - (if b = a then minor amt else 0))"
proof (cases "available a s - minor amt < - a_overdraft acc")
  case False
  have nowrap: "in64 (available a s - minor amt)" using fits by (simp add: in_bigint_def)
  from False PlaceHold_decision [OF assms] obtain h s' where run: "PlaceHold c a amt s = (Inr h, s')" by auto
  from False run placed_hold [OF run inv nowrap] PlaceHold_inv [OF run inv nowrap] show ?thesis by auto
qed (simp add: PlaceHold_decision [OF assms])

theorem PlaceHold_correct_witness:
  "\<exists>h s'. PlaceHold sample_ctx ''A'' (ngn 70) sample_ledger = (Inr h, s') \<and> available ''A'' s' = 30"
  using PlaceHold_correct [OF sample_ledger_inv sample_side(3), of "ngn 70" sample_ctx]
  by (auto simp: sample_side sample_fits in64_small)

text \<open>
  C7. Releasing a hold gives back exactly what placing it took: after \<open>PlaceHold\<close> and
  \<open>ReleaseHold\<close> every account's balances are what they were, and neither a second release nor a
  capture of that hold is possible any more.
\<close>

theorem release_restores:
  assumes inv: "ledger_inv s" and nowrap: "in64 (available a s - minor amt)"
    and place: "PlaceHold c a amt s = (Inr h, s1)" and rel: "ReleaseHold (hv_id h) s1 = (Inr u, s2)"
    and key: "\<not> key_taken ik_key key (idem_keys s2)"
  shows "(\<forall>b. available b s2 = available b s) \<and> entries s2 = entries s
    \<and> ReleaseHold (hv_id h) s2 = (Inl ErrHoldNotActive, s2)
    \<and> CaptureHold c' (hv_id h) key s2 = (Inl ErrHoldNotActive, s2)"
proof -
  note p = placed_hold [OF place inv nowrap]
  note r = ReleaseHold_effect [OF rel PlaceHold_inv [OF place inv nowrap] p(1)]
  have "available b s2 = available b s" for b using p(2) r(1) by simp
  moreover have "h_status (\<lparr>h_id = hv_id h, h_account = a, h_amount = minor amt, h_status = HoldStatusActive\<rparr>
      \<lparr>h_status := HoldStatusReleased\<rparr>) \<noteq> HoldStatusActive" by simp
  ultimately show ?thesis
    using p(3) r(2) resolved_release [OF r(3)] resolved_capture [OF r(3) _ key] by simp
qed

lemma sample_hold_run:
  assumes "m = 70 \<or> m = 40"
  defines "s1 \<equiv> snd (PlaceHold sample_ctx ''A'' (ngn m) sample_ledger)"
  shows "PlaceHold sample_ctx ''A'' (ngn m) sample_ledger =
    (Inr \<lparr>hv_id = ''hold-1'', hv_account = ''A'', hv_amount = ngn m, hv_status = HoldStatusActive\<rparr>, s1)"
    and "ledger_inv s1" and "idem_keys s1 = sample_keys" and "txns s1 = sample_txns"
    and "accounts s1 = sample_accounts" and "available ''A'' s1 = 100 - m"
    and "entries s1 = sample_entries" and "sum_held ''A'' (holds s1) = m"
    and "find_row h_id ''hold-1'' (holds s1) =
      Some \<lparr>h_id = ''hold-1'', h_account = ''A'', h_amount = m, h_status = HoldStatusActive\<rparr>"
proof -
  have run: "PlaceHold sample_ctx ''A'' (ngn m) sample_ledger =
    (Inr \<lparr>hv_id = ''hold-1'', hv_account = ''A'', hv_amount = ngn m, hv_status = HoldStatusActive\<rparr>,
     sample_ledger\<lparr>holds := [\<lparr>h_id = ''hold-1'', h_account = ''A'', h_amount = m, h_status = HoldStatusActive\<rparr>]\<rparr>)"
    using PlaceHold_decision [OF sample_ledger_inv sample_side(3), of "ngn m" sample_ctx] assms(1)
    by (auto simp: sample_side sample_fits in64_small) (simp_all add: sample_eval)
  then show "PlaceHold sample_ctx ''A'' (ngn m) sample_ledger =
    (Inr \<lparr>hv_id = ''hold-1'', hv_account = ''A'', hv_amount = ngn m, hv_status = HoldStatusActive\<rparr>, s1)"
    by (simp add: s1_def)
  show "ledger_inv s1"
    using PlaceHold_inv [OF run sample_ledger_inv] assms(1) run
    by (auto simp: s1_def sample_side in64_small)
  show "idem_keys s1 = sample_keys" "txns s1 = sample_txns" "accounts s1 = sample_accounts"
    "available ''A'' s1 = 100 - m" "entries s1 = sample_entries" "sum_held ''A'' (holds s1) = m"
    "find_row h_id ''hold-1'' (holds s1) =
      Some \<lparr>h_id = ''hold-1'', h_account = ''A'', h_amount = m, h_status = HoldStatusActive\<rparr>"
    unfolding s1_def run by (simp_all add: sample_ledger_def available_def sample_entries_def sample_entry_def
        SystemAccountNGN_def find_row_Cons)
qed

theorem release_restores_witness:
  "\<exists>h s1 u s2. PlaceHold sample_ctx ''A'' (ngn 70) sample_ledger = (Inr h, s1)
    \<and> ReleaseHold (hv_id h) s1 = (Inr u, s2) \<and> available ''A'' s2 = 100"
proof -
  define s1 where "s1 = snd (PlaceHold sample_ctx ''A'' (ngn 70) sample_ledger)"
  note s1 = sample_hold_run [of 70, folded s1_def, simplified]
  obtain s2 where rel: "ReleaseHold ''hold-1'' s1 = (Inr (), s2)" and k: "idem_keys s2 = sample_keys"
    by (auto simp: ReleaseHold_def resolveHold_def s1)
  have key: "\<not> key_taken ik_key ''k1'' (idem_keys s2)" by (simp add: k sample_eval)
  show ?thesis
    using release_restores [OF sample_ledger_inv _ s1(1), of "()" s2 "''k1''"] rel key s1(1)
    by (auto simp: sample_side in64_small)
qed

text \<open>
  C4. \<open>CaptureHold\<close> of an active hold under a fresh key, in full: the captured amount is demanded
  from the balance that already excludes the hold.  If what is available beside the hold,
  overdraft included, is less than the hold, the capture is refused with
  \<open>ErrInsufficientBalance\<close> and writes nothing; otherwise the ledger balance of the account falls
  by the amount, the system account's rises by it, the pending balance falls by it, the hold
  is captured and the ledger stays consistent.
\<close>

theorem CaptureHold_correct:
  assumes inv: "ledger_inv s" and key: "\<not> key_taken ik_key key (idem_keys s)"
    and uid: "\<not> key_taken t_id (gen c 0) (txns s)"
    and h: "find_row h_id k (holds s) = Some h" "h_status h = HoldStatusActive"
    and acc: "find_row a_id (h_account h) (accounts s) = Some acc" "a_currency acc = ''NGN''"
    and sys: "key_taken a_id SystemAccountNGN (accounts s)"
    and fits: "in_bigint (h_account h) (- h_amount h) s"
  shows "if available (h_account h) s - h_amount h < - a_overdraft acc
    then CaptureHold c k key s = (Inl ErrInsufficientBalance, s)
    else \<exists>t s'. CaptureHold c k key s = (Inr t, s') \<and> ledger_inv s'
      \<and> find_row h_id k (holds s') = Some (h\<lparr>h_status := HoldStatusCaptured\<rparr>)
      \<and> (\<forall>a. sum_entries a (entries s') = sum_entries a (entries s)
            + (if a = SystemAccountNGN then h_amount h else 0) - (if a = h_account h then h_amount h else 0))
      \<and> (\<forall>a. sum_held a (holds s') = sum_held a (holds s) - (if a = h_account h then h_amount h else 0))"
proof (cases "available (h_account h) s - h_amount h < - a_overdraft acc")
  case True
  then show ?thesis using capture_decision [OF assms] by simp
next
  case False
  then obtain t s' where run: "CaptureHold c k key s = (Inr t, s')"
    using capture_decision [OF assms] by auto
  from False run capture_effect [OF run key inv h(1)] CaptureHold_inv [OF run inv]
  show ?thesis by auto
qed

theorem CaptureHold_correct_witness:
  "\<exists>h s1 t s2. PlaceHold sample_ctx ''A'' (ngn 40) sample_ledger = (Inr h, s1)
    \<and> CaptureHold sample_ctx2 (hv_id h) ''k1'' s1 = (Inr t, s2)
    \<and> sum_entries ''A'' (entries s2) = 60 \<and> sum_held ''A'' (holds s2) = 0"
proof -
  define s1 where "s1 = snd (PlaceHold sample_ctx ''A'' (ngn 40) sample_ledger)"
  note s1 = sample_hold_run [of 40, folded s1_def, simplified]
  have side: "\<not> key_taken ik_key ''k1'' (idem_keys s1)" "\<not> key_taken t_id (gen sample_ctx2 0) (txns s1)"
    "find_row a_id ''A'' (accounts s1) = Some (sample_account ''A'' AccountTypeCurrent 0)"
    "key_taken a_id SystemAccountNGN (accounts s1)" "in_bigint ''A'' (- 40) s1"
    by (simp_all add: s1 in_bigint_def sample_tables key_taken_def find_row_Cons in64_def min64_def max64_def)
  show ?thesis
    using CaptureHold_correct [OF s1(2) side(1,2) s1(9)] side(3-5) s1
    by (fastforce simp: sample_account_def sample_entries_def sample_entry_def SystemAccountNGN_def)
qed

text \<open>
  C8. A hold for more than half of the funds cannot be captured: once \<open>PlaceHold\<close> has accepted a
  hold whose amount exceeds what is still available beside it (overdraft included), and until
  the account receives funds, \<open>CaptureHold\<close> of that hold is refused with
  \<open>ErrInsufficientBalance\<close> although the held funds are there.
\<close>

theorem capture_of_large_hold_refused:
  assumes inv: "ledger_inv s" and place: "PlaceHold c a amt s = (Inr h, s1)"
    and nowrap: "in64 (available a s - minor amt)"
    and large: "available a s1 + a_overdraft acc < minor amt"
    and acc: "find_row a_id a (accounts s) = Some acc" "a_currency acc = ''NGN''"
    and sys: "key_taken a_id SystemAccountNGN (accounts s)"
    and key: "\<not> key_taken ik_key key (idem_keys s)" and uid: "\<not> key_taken t_id (gen c' 0) (txns s)"
    and fits: "in_bigint a (- minor amt) s1"
  shows "CaptureHold c' (hv_id h) key s1 = (Inl ErrInsufficientBalance, s1)"
proof -
  note p = placed_hold [OF place inv nowrap]
  have "idem_keys s1 = idem_keys s" "txns s1 = txns s"
    using place by (auto dest!: PlaceHold_frame)
  then show ?thesis
    using capture_decision [OF PlaceHold_inv [OF place inv nowrap], of key c' "hv_id h"] p key uid acc sys fits large
    by simp
qed

theorem capture_of_large_hold_refused_witness:
  "\<exists>h s1. PlaceHold sample_ctx ''A'' (ngn 70) sample_ledger = (Inr h, s1)
    \<and> CaptureHold sample_ctx2 (hv_id h) ''k1'' s1 = (Inl ErrInsufficientBalance, s1)"
proof -
  define s1 where "s1 = snd (PlaceHold sample_ctx ''A'' (ngn 70) sample_ledger)"
  note s1 = sample_hold_run [of 70, folded s1_def, simplified]
  have "in_bigint ''A'' (- minor (ngn 70)) s1" "\<not> key_taken t_id (gen sample_ctx2 0) (txns sample_ledger)"
    by (simp_all add: s1 in_bigint_def sample_tables sample_ledger_def key_taken_def in64_def min64_def max64_def)
  then show ?thesis
    using capture_of_large_hold_refused [OF sample_ledger_inv s1(1) _ _ sample_side(3) sample_side(9)
        sample_side(5) sample_side(1)] s1
    by (auto simp: sample_side in64_small)
qed

end
