(* ===== verification/HoldKeys.thy ===== *)
theory HoldKeys
  imports LedgerProps
begin

section \<open>A hold is captured under one key\<close>

text \<open>
  The idempotency rows that \<open>CaptureHold\<close> leaves carry the hash \<open>capture:<hold>\<close>; in every reachable
  state such a row belongs to a captured hold.  So a capture of a hold that is still active
  runs, and is not answered from the table.  The clients of holds (external payments, cards,
  delayed transfers) rest on this.  SHA-256 enters as the documented fact that
  \<open>hex.EncodeToString\<close> writes no colon.
\<close>

definition hex_sha :: "ctx \<Rightarrow> bool" where
  "hex_sha c \<longleftrightarrow> (\<forall>x. CHR '':'' \<notin> set (sha256 c x))"

definition capture_inv :: "'z ledger_db_scheme \<Rightarrow> bool" where
  "capture_inv s \<longleftrightarrow> (\<forall>k\<in>set (idem_keys s). \<forall>h. ik_hash k = hashHoldCapture h \<longrightarrow>
     map_option h_status (find_row h_id h (holds s)) = Some HoldStatusCaptured)"

definition captured_kept :: "hold_row list \<Rightarrow> hold_row list \<Rightarrow> bool" where
  "captured_kept hs hs' \<longleftrightarrow> (\<forall>h. map_option h_status (find_row h_id h hs) = Some HoldStatusCaptured \<longrightarrow>
     map_option h_status (find_row h_id h hs') = Some HoldStatusCaptured)"

lemma captured_kept_refl [simp]: "captured_kept hs hs"
  by (simp add: captured_kept_def)

lemma captured_kept_snoc: "captured_kept hs (hs @ [x])"
  by (auto simp: captured_kept_def find_row_append)

lemma capture_inv_keys:
  assumes "capture_inv s" and "captured_kept (holds s) (holds s')"
    and "\<And>k. k \<in> set (idem_keys s') \<Longrightarrow> (\<exists>k0\<in>set (idem_keys s). ik_hash k0 = ik_hash k) \<or>
      (\<forall>h. ik_hash k = hashHoldCapture h \<longrightarrow> map_option h_status (find_row h_id h (holds s')) = Some HoldStatusCaptured)"
  shows "capture_inv s'"
  unfolding capture_inv_def
proof (intro ballI allI impI)
  fix k h assume k: "k \<in> set (idem_keys s')" and h: "ik_hash k = hashHoldCapture h"
  from assms(3) [OF k] show "map_option h_status (find_row h_id h (holds s')) = Some HoldStatusCaptured"
  proof
    assume "\<exists>k0\<in>set (idem_keys s). ik_hash k0 = ik_hash k"
    with assms(1,2) h show ?thesis by (auto simp: capture_inv_def captured_kept_def)
  qed (use h in blast)
qed

lemma hashHoldCapture_inj: "hashHoldCapture h = hashHoldCapture h' \<Longrightarrow> h = h'"
  by (simp add: hashHoldCapture_def)

lemma hashLegs_not_capture: "hex_sha c \<Longrightarrow> hashLegs c ty legs \<noteq> hashHoldCapture h"
proof
  assume hex: "hex_sha c" and eq: "hashLegs c ty legs = hashHoldCapture h"
  have "CHR '':'' \<in> set (hashLegs c ty legs)" unfolding eq by (simp add: hashHoldCapture_def)
  with hex show False by (simp add: hex_sha_def hashLegs_def)
qed

lemma hashReversal_not_capture: "hashReversal t \<noteq> hashHoldCapture h"
  by (simp add: hashReversal_def hashHoldCapture_def)

subsection \<open>Preserved by every operation\<close>

lemma postTransaction_holds: "postTransaction c ty key legs s = (res, s') \<Longrightarrow> holds s' = holds s"
  using posting_frame by fastforce

lemma postTransaction_capture_inv:
  assumes run: "postTransaction c ty key legs s = (res, s')" and "capture_inv s" and "hex_sha c"
  shows "capture_inv s'"
proof (rule capture_inv_keys [OF assms(2)])
  from run obtain r where ex: "Execute c ledger_commit key (hashLegs c ty legs) idempotencyTTL (post_body c ty key legs) s = (r, s')"
    by (auto simp: postTransaction_def split: prod.splits)
  show "captured_kept (holds s) (holds s')" by (simp add: postTransaction_holds [OF run])
  fix k assume "k \<in> set (idem_keys s')"
  from post.new_hashes [OF ex this] show "(\<exists>k0\<in>set (idem_keys s). ik_hash k0 = ik_hash k) \<or>
      (\<forall>h. ik_hash k = hashHoldCapture h \<longrightarrow> map_option h_status (find_row h_id h (holds s')) = Some HoldStatusCaptured)"
    using hashLegs_not_capture [OF assms(3)] by auto
qed

lemma Transfer_capture_inv: "Transfer c f t amt key s = (res, s') \<Longrightarrow> capture_inv s \<Longrightarrow> hex_sha c \<Longrightarrow> capture_inv s'"
  unfolding Transfer_def by (rule postTransaction_capture_inv)

lemma Credit_capture_inv: "Credit c a amt key s = (res, s') \<Longrightarrow> capture_inv s \<Longrightarrow> hex_sha c \<Longrightarrow> capture_inv s'"
  by (auto simp: Credit_def split: sum.splits dest: postTransaction_capture_inv)

lemma Debit_capture_inv: "Debit c a amt key s = (res, s') \<Longrightarrow> capture_inv s \<Longrightarrow> hex_sha c \<Longrightarrow> capture_inv s'"
  by (auto simp: Debit_def split: sum.splits dest: postTransaction_capture_inv)

lemma PlaceHold_capture_inv:
  assumes "PlaceHold c a amt s = (res, s')" and "capture_inv s"
  shows "capture_inv s'"
proof (rule capture_inv_keys [OF assms(2)])
  show "captured_kept (holds s) (holds s')"
    using PlaceHold_result [OF assms(1)] captured_kept_snoc by auto
  show "(\<exists>k0\<in>set (idem_keys s). ik_hash k0 = ik_hash k) \<or>
      (\<forall>h. ik_hash k = hashHoldCapture h \<longrightarrow> map_option h_status (find_row h_id h (holds s')) = Some HoldStatusCaptured)"
    if "k \<in> set (idem_keys s')" for k
    using PlaceHold_result [OF assms(1)] that by auto
qed

lemma find_hold_update:
  "find_row h_id h (update_row h_id k (\<lambda>r. r\<lparr>h_status := st\<rparr>) hs) =
    (if h = k then map_option (\<lambda>r. r\<lparr>h_status := st\<rparr>) (find_row h_id h hs) else find_row h_id h hs)"
  by (auto simp: hold_status_col.find option.map_ident)

lemma release_kept:
  "find_row h_id k hs = Some x \<Longrightarrow> h_status x = HoldStatusActive \<Longrightarrow>
   captured_kept hs (update_row h_id k (\<lambda>r. r\<lparr>h_status := st\<rparr>) hs)"
  by (auto simp: captured_kept_def find_hold_update)

lemma ReleaseHold_capture_inv:
  assumes "ReleaseHold k s = (res, s')" and "capture_inv s"
  shows "capture_inv s'"
proof (cases res)
  case (Inl e)
  with assms show ?thesis by (auto simp: ReleaseHold_def dest: resolveHold_error)
next
  case (Inr u)
  with assms(1) obtain x where x: "find_row h_id k (holds s) = Some x" "h_status x = HoldStatusActive"
    and s': "s' = s\<lparr>holds := update_row h_id k (\<lambda>r. r\<lparr>h_status := HoldStatusReleased\<rparr>) (holds s)\<rparr>"
    unfolding ReleaseHold_def by (blast elim: resolveHold_done)
  show ?thesis
  proof (rule capture_inv_keys [OF assms(2)])
    show "captured_kept (holds s) (holds s')" using release_kept [OF x] by (simp add: s')
  qed (auto simp: s')
qed

lemma ReverseTransaction_capture_inv:
  assumes run: "ReverseTransaction c t key s = (res, s')" and "capture_inv s"
  shows "capture_inv s'"
proof (rule capture_inv_keys [OF assms(2)])
  from run obtain r where ex: "Execute c ledger_commit key (hashReversal t) idempotencyTTL (reverse_body c t key) s = (r, s')"
    by (auto simp: ReverseTransaction_def split: prod.splits)
  have "holds s' = holds s"
  proof (cases "(\<exists>e. res = Inl e) \<or> key_taken ik_key key (idem_keys s)")
    case True
    with run have "s' = s"
      by (auto simp: ReverseTransaction_def split: prod.splits dest: reverse.error_rolls_back reverse.taken_unchanged)
    then show ?thesis by simp
  next
    case False
    then obtain tx where "res = Inr tx" by (cases res) auto
    with run False show ?thesis by (auto elim: reverse_success)
  qed
  then show "captured_kept (holds s) (holds s')" by simp
  fix k assume "k \<in> set (idem_keys s')"
  from reverse.new_hashes [OF ex this] show "(\<exists>k0\<in>set (idem_keys s). ik_hash k0 = ik_hash k) \<or>
      (\<forall>h. ik_hash k = hashHoldCapture h \<longrightarrow> map_option h_status (find_row h_id h (holds s')) = Some HoldStatusCaptured)"
    using hashReversal_not_capture by auto
qed

text \<open>A capture of an active hold runs, whatever key it is given.\<close>

lemma capture_runs:
  assumes run: "CaptureHold c k key s = (Inr t, s')" and inv: "capture_inv s"
    and h: "find_row h_id k (holds s) = Some x" "h_status x = HoldStatusActive"
  shows "\<not> key_taken ik_key key (idem_keys s)"
proof
  assume taken: "key_taken ik_key key (idem_keys s)"
  from run obtain r where "Execute c ledger_commit key (hashHoldCapture k) idempotencyTTL (capture_body c k key) s = (Inr r, s')"
    by (auto simp: CaptureHold_def split: prod.splits)
  with taken obtain row where row: "find_row ik_key key (idem_keys s) = Some row" "ik_hash row = hashHoldCapture k"
    by (auto simp: Execute_def fetchCompleted_def split: option.splits if_splits)
  have "row \<in> set (idem_keys s)" using find_row_Some [OF row(1)] by simp
  with inv row(2) have "map_option h_status (find_row h_id k (holds s)) = Some HoldStatusCaptured"
    unfolding capture_inv_def by blast
  with h show False by simp
qed

lemma CaptureHold_capture_inv:
  assumes run: "CaptureHold c k key s = (res, s')" and inv: "capture_inv s"
  shows "capture_inv s'"
proof (cases "s' = s")
  case False
  from run obtain r where ex: "Execute c ledger_commit key (hashHoldCapture k) idempotencyTTL (capture_body c k key) s = (r, s')"
    by (auto simp: CaptureHold_def split: prod.splits)
  from False run obtain t where res: "res = Inr t" and key: "\<not> key_taken ik_key key (idem_keys s)"
    by (cases res) (auto simp: CaptureHold_def split: prod.splits dest: capture.error_rolls_back capture.taken_unchanged)
  from run [unfolded res] key obtain x where x: "find_row h_id k (holds s) = Some x" "h_status x = HoldStatusActive"
    and hs: "holds s' = update_row h_id k (\<lambda>r. r\<lparr>h_status := HoldStatusCaptured\<rparr>) (holds s)"
    by (auto elim: capture_success)
  show ?thesis
  proof (rule capture_inv_keys [OF inv])
    show "captured_kept (holds s) (holds s')" unfolding hs by (rule release_kept [OF x])
    fix k' assume "k' \<in> set (idem_keys s')"
    from capture.new_hashes [OF ex this] show "(\<exists>k0\<in>set (idem_keys s). ik_hash k0 = ik_hash k') \<or>
      (\<forall>h. ik_hash k' = hashHoldCapture h \<longrightarrow> map_option h_status (find_row h_id h (holds s')) = Some HoldStatusCaptured)"
      using x by (auto simp: hs find_hold_update dest: hashHoldCapture_inj)
  qed
qed (use inv in simp)

text \<open>What each operation does to a hold, seen from the hold's side.\<close>

lemma PlaceHold_find:
  "PlaceHold c a amt s = (res, s') \<Longrightarrow> find_row h_id h (holds s) = Some x \<Longrightarrow> find_row h_id h (holds s') = Some x"
  by (drule PlaceHold_result) (auto simp: find_row_append)

lemma CaptureHold_find_other:
  assumes "CaptureHold c k key s = (res, s')" and "h \<noteq> k"
  shows "find_row h_id h (holds s') = find_row h_id h (holds s)"
proof (cases "(\<exists>e. res = Inl e) \<or> key_taken ik_key key (idem_keys s)")
  case True
  with assms(1) have "s' = s"
    by (auto simp: CaptureHold_def split: prod.splits dest: capture.error_rolls_back capture.taken_unchanged)
  then show ?thesis by simp
next
  case False
  then obtain t where "res = Inr t" by (cases res) auto
  with assms False show ?thesis by (auto simp: find_hold_update elim!: capture_success)
qed

lemma ReleaseHold_find_other:
  assumes "ReleaseHold k s = (res, s')" and "h \<noteq> k"
  shows "find_row h_id h (holds s') = find_row h_id h (holds s)"
proof (cases res)
  case (Inl e)
  with assms show ?thesis by (auto simp: ReleaseHold_def dest: resolveHold_error)
next
  case (Inr u)
  with assms show ?thesis by (auto simp: ReleaseHold_def find_hold_update elim!: resolveHold_done)
qed

end
