(* ===== verification/Resilience.thy ===== *)
theory Resilience
  imports HoldKeys
begin

section \<open>Kill switches and read-only mode\<close>

text \<open>
  \<open>internal/resilience\<close> (resilience.go, store.go): the two tables of migration 00044 and the
  service's in-process cache of them, one process of the server.  \<open>fetchedAt\<close> is \<open>None\<close> for Go's
  zero time.  \<open>Check\<close> is shown to decide by the tables as they are, whenever only this process
  writes them or the cache has expired.
\<close>

datatype scope_type = ScopeIntegration | ScopeMerchant | ScopeFeature

record scope =
  sc_type :: scope_type
  sc_value :: string

definition Integration :: "string \<Rightarrow> scope" where
  "Integration v = \<lparr>sc_type = ScopeIntegration, sc_value = v\<rparr>"

definition Merchant :: "string \<Rightarrow> scope" where
  "Merchant v = \<lparr>sc_type = ScopeMerchant, sc_value = v\<rparr>"

definition Feature :: "string \<Rightarrow> scope" where
  "Feature v = \<lparr>sc_type = ScopeFeature, sc_value = v\<rparr>"

fun scope_type_str :: "scope_type \<Rightarrow> string" where
  "scope_type_str ScopeIntegration = ''integration''"
| "scope_type_str ScopeMerchant = ''merchant''"
| "scope_type_str ScopeFeature = ''feature''"

definition scope_key :: "scope \<Rightarrow> string" where
  "scope_key sc = scope_type_str (sc_type sc) @ '':'' @ sc_value sc"

record kill_switch =
  ks_id :: uuid
  ks_scope :: scope
  ks_enabled :: bool
  ks_reason :: "string option"
  ks_updated_by :: string
  ks_created :: int

record system_mode =
  sm_read_only :: bool
  sm_reason :: "string option"
  sm_updated_by :: "string option"

record cache_state =
  cs_read_only :: bool
  cs_tripped :: "string list"
  cs_fetched :: "int option"

record resil_db = ledger_db +
  kill_switches :: "kill_switch list"
  sys_mode :: system_mode
  res_cache :: cache_state

definition defaultCacheTTL :: int where "defaultCacheTTL = 2 * second"

definition readTrippedRaw :: "'z resil_db_scheme \<Rightarrow> string list" where
  "readTrippedRaw s = map (\<lambda>k. scope_key (ks_scope k)) (filter (\<lambda>k. \<not> ks_enabled k) (kill_switches s))"

definition snapshot :: "ctx \<Rightarrow> 'z resil_db_scheme \<Rightarrow> cache_state \<times> 'z resil_db_scheme" where
  "snapshot c s =
    (if (case cs_fetched (res_cache s) of None \<Rightarrow> False | Some t \<Rightarrow> now c - t < defaultCacheTTL)
     then (res_cache s, s)
     else let cache' = \<lparr>cs_read_only = sm_read_only (sys_mode s), cs_tripped = readTrippedRaw s,
                        cs_fetched = Some (now c)\<rparr>
          in (cache', s\<lparr>res_cache := cache'\<rparr>))"

fun first_tripped :: "string list \<Rightarrow> scope list \<Rightarrow> gerror + unit" where
  "first_tripped tripped [] = Inr ()"
| "first_tripped tripped (sc # scs) =
    (if scope_key sc \<in> set tripped then Inl (ErrKillSwitchTripped (scope_key sc)) else first_tripped tripped scs)"

definition res_Check :: "ctx \<Rightarrow> scope list \<Rightarrow> 'z resil_db_scheme \<Rightarrow> (gerror + unit) \<times> 'z resil_db_scheme" where
  "res_Check c scopes s =
    (case snapshot c s of (state, s') \<Rightarrow>
       if cs_read_only state then (Inl ErrReadOnly, s')
       else (first_tripped (cs_tripped state) scopes, s'))"

definition invalidate :: "'z resil_db_scheme \<Rightarrow> 'z resil_db_scheme" where
  "invalidate s = s\<lparr>res_cache := (res_cache s)\<lparr>cs_fetched := None\<rparr>\<rparr>"

definition nullableString :: "string \<Rightarrow> string option" where
  "nullableString t = (if t = [] then None else Some t)"

text \<open>\<open>INSERT ... ON CONFLICT (scope_type, scope_value) DO UPDATE ... RETURNING\<close>.\<close>

definition SetKillSwitch :: "ctx \<Rightarrow> scope \<Rightarrow> bool \<Rightarrow> string \<Rightarrow> string \<Rightarrow> 'z resil_db_scheme
    \<Rightarrow> (gerror + kill_switch) \<times> 'z resil_db_scheme" where
  "SetKillSwitch c sc enabled reason updatedBy s =
    (case find_row ks_scope sc (kill_switches s) of
       Some k \<Rightarrow>
         let k' = k\<lparr>ks_enabled := enabled, ks_reason := nullableString reason, ks_updated_by := updatedBy\<rparr>
         in (Inr k', invalidate (s\<lparr>kill_switches := update_row ks_scope sc
               (\<lambda>k. k\<lparr>ks_enabled := enabled, ks_reason := nullableString reason, ks_updated_by := updatedBy\<rparr>)
               (kill_switches s)\<rparr>))
     | None \<Rightarrow>
         if key_taken ks_id (gen c 0) (kill_switches s) then (Inl SqlUnique, s)
         else let k = \<lparr>ks_id = gen c 0, ks_scope = sc, ks_enabled = enabled,
                       ks_reason = nullableString reason, ks_updated_by = updatedBy, ks_created = now c\<rparr>
              in (Inr k, invalidate (s\<lparr>kill_switches := kill_switches s @ [k]\<rparr>)))"

definition GetSystemMode :: "'z resil_db_scheme \<Rightarrow> bool \<times> string \<times> string" where
  "GetSystemMode s =
    (sm_read_only (sys_mode s),
     case sm_reason (sys_mode s) of None \<Rightarrow> [] | Some r \<Rightarrow> r,
     case sm_updated_by (sys_mode s) of None \<Rightarrow> [] | Some u \<Rightarrow> u)"

definition SetReadOnly :: "bool \<Rightarrow> string \<Rightarrow> string \<Rightarrow> 'z resil_db_scheme
    \<Rightarrow> (bool \<times> string \<times> string) \<times> 'z resil_db_scheme" where
  "SetReadOnly readOnly reason updatedBy s =
    (let s' = invalidate (s\<lparr>sys_mode := \<lparr>sm_read_only = readOnly, sm_reason = nullableString reason,
                                       sm_updated_by = Some updatedBy\<rparr>\<rparr>)
     in (GetSystemMode s', s'))"

definition ListKillSwitches :: "'z resil_db_scheme \<Rightarrow> kill_switch list" where
  "ListKillSwitches s = rev (sort_key ks_created (kill_switches s))"

subsection \<open>Exactness\<close>

text \<open>What a check should answer, from the tables alone.\<close>

definition blocked :: "scope list \<Rightarrow> 'z resil_db_scheme \<Rightarrow> gerror + unit" where
  "blocked scopes s = (if sm_read_only (sys_mode s) then Inl ErrReadOnly
                       else first_tripped (readTrippedRaw s) scopes)"

definition cache_ok :: "'z resil_db_scheme \<Rightarrow> bool" where
  "cache_ok s \<longleftrightarrow> cs_fetched (res_cache s) \<noteq> None \<longrightarrow>
     cs_read_only (res_cache s) = sm_read_only (sys_mode s) \<and>
     set (cs_tripped (res_cache s)) = set (readTrippedRaw s)"

lemma first_tripped_cong: "set t = set t' \<Longrightarrow> first_tripped t scs = first_tripped t' scs"
  by (induction scs) auto

lemma res_Check_exact:
  assumes "cache_ok s"
  shows "fst (res_Check c scopes s) = blocked scopes s"
  using assms first_tripped_cong [of "cs_tripped (res_cache s)" "readTrippedRaw s" scopes]
  by (auto simp: res_Check_def snapshot_def blocked_def cache_ok_def Let_def split: option.splits)

lemma res_Check_expired:
  assumes "\<And>t. cs_fetched (res_cache s) = Some t \<Longrightarrow> defaultCacheTTL \<le> now c - t"
  shows "fst (res_Check c scopes s) = blocked scopes s"
  using assms by (auto simp: res_Check_def snapshot_def blocked_def Let_def split: option.splits)

lemma readTrippedRaw_cache [simp]: "readTrippedRaw (s\<lparr>res_cache := k\<rparr>) = readTrippedRaw s"
  by (simp add: readTrippedRaw_def)

lemma res_Check_frame: "\<exists>k. snd (res_Check c scopes s) = s\<lparr>res_cache := k\<rparr>"
proof -
  have "\<exists>k. snd (snapshot c s) = s\<lparr>res_cache := k\<rparr>"
    by (auto simp: snapshot_def Let_def intro: exI [of _ "res_cache s"])
  then show ?thesis by (auto simp: res_Check_def split: prod.splits)
qed

lemma res_Check_cache_ok: "cache_ok s \<Longrightarrow> cache_ok (snd (res_Check c scopes s))"
  by (auto simp: res_Check_def snapshot_def cache_ok_def Let_def split: option.splits)

lemma invalidate_cache_ok [simp]: "cache_ok (invalidate s)"
  by (simp add: invalidate_def cache_ok_def)

lemma SetKillSwitch_cache_ok: "cache_ok s \<Longrightarrow> cache_ok (snd (SetKillSwitch c sc en r u s))"
  by (auto simp: SetKillSwitch_def Let_def split: option.splits)

lemma SetReadOnly_cache_ok: "cache_ok (snd (SetReadOnly ro r u s))"
  by (simp add: SetReadOnly_def Let_def)

lemma first_tripped_Inr: "first_tripped t scs = Inr () \<longleftrightarrow> (\<forall>sc\<in>set scs. scope_key sc \<notin> set t)"
  by (induction scs) auto

lemma tripped_iff: "k \<in> set (readTrippedRaw s) \<longleftrightarrow>
    (\<exists>x\<in>set (kill_switches s). \<not> ks_enabled x \<and> scope_key (ks_scope x) = k)"
  by (auto simp: readTrippedRaw_def)

lemma scope_key_inj: "scope_key a = scope_key b \<Longrightarrow> a = b"
proof -
  assume "scope_key a = scope_key b"
  then have "sc_type a = sc_type b \<and> sc_value a = sc_value b"
    by (cases "sc_type a"; cases "sc_type b") (simp_all add: scope_key_def)
  then show "a = b" by (simp add: scope.equality)
qed

lemma scope_key_eq [simp]: "scope_key a = scope_key b \<longleftrightarrow> a = b"
  using scope_key_inj by blast

interpretation ks_upd: row_update ks_scope
  "\<lambda>k. k\<lparr>ks_enabled := en, ks_reason := r, ks_updated_by := u\<rparr>" for en r u
  by unfold_locales simp

lemma set_switch_tables:
  assumes "SetKillSwitch c sc en r u s = (Inr k, s')"
  shows "scope_key x \<in> set (readTrippedRaw s') \<longleftrightarrow> (if x = sc then \<not> en else scope_key x \<in> set (readTrippedRaw s))"
    and "sys_mode s' = sys_mode s" and "cs_fetched (res_cache s') = None"
proof -
  show "scope_key x \<in> set (readTrippedRaw s') \<longleftrightarrow> (if x = sc then \<not> en else scope_key x \<in> set (readTrippedRaw s))"
  proof (cases "find_row ks_scope sc (kill_switches s)")
    case None
    then have new: "\<not> key_taken ks_scope sc (kill_switches s)" by (simp add: find_row_None)
    from None assms obtain k0 where s': "kill_switches s' = kill_switches s @ [k0]"
      and k0: "ks_scope k0 = sc" "ks_enabled k0 = en"
      by (auto simp: SetKillSwitch_def Let_def invalidate_def split: if_splits)
    show ?thesis using new by (auto simp: tripped_iff s' k0 key_taken_def)
  next
    case (Some k0)
    then have k0: "k0 \<in> set (kill_switches s)" "ks_scope k0 = sc" using find_row_Some by fastforce+
    let ?f = "\<lambda>k. k\<lparr>ks_enabled := en, ks_reason := nullableString r, ks_updated_by := u\<rparr>"
    from Some assms have "kill_switches s' = update_row ks_scope sc ?f (kill_switches s)"
      by (auto simp: SetKillSwitch_def Let_def invalidate_def)
    then have rows: "set (kill_switches s') = (\<lambda>y. if ks_scope y = sc then ?f y else y) ` set (kill_switches s)"
      by (simp only: set_update_row)
    have "scope_key x \<in> set (readTrippedRaw s') \<longleftrightarrow>
        (\<exists>y\<in>set (kill_switches s). ks_scope y = x \<and> (if ks_scope y = sc then \<not> en else \<not> ks_enabled y))"
      unfolding tripped_iff rows bex_simps by (intro bex_cong refl) auto
    also have "\<dots> \<longleftrightarrow> (if x = sc then \<not> en else \<exists>y\<in>set (kill_switches s). \<not> ks_enabled y \<and> ks_scope y = x)"
      using k0 by (cases "x = sc") fastforce+
    finally show ?thesis by (simp add: tripped_iff)
  qed
qed (use assms in \<open>auto simp: SetKillSwitch_def Let_def invalidate_def split: option.splits if_splits\<close>)

text \<open>
  C10. A kill switch takes effect at once in the process that sets it, for exactly its scope:
  after \<open>SetKillSwitch\<close>, and whenever the next \<open>Check\<close> is made, \<open>Check\<close> passes if and only if the
  system is not read-only and no scope it names is disabled by its own switch, where the scope
  just set counts as disabled exactly when the new setting says so.
\<close>

theorem SetKillSwitch_effective:
  assumes "SetKillSwitch c sc en r u s = (Inr k, s')"
  shows "fst (res_Check c' scopes s') = Inr () \<longleftrightarrow> \<not> sm_read_only (sys_mode s) \<and>
    (\<forall>x\<in>set scopes. if x = sc then en else \<not> (\<exists>y\<in>set (kill_switches s). ks_scope y = x \<and> \<not> ks_enabled y))"
proof -
  have "fst (res_Check c' scopes s') = blocked scopes s'"
    using set_switch_tables(3) [OF assms] by (intro res_Check_expired) simp
  then have "fst (res_Check c' scopes s') = Inr () \<longleftrightarrow> \<not> sm_read_only (sys_mode s) \<and>
      (\<forall>x\<in>set scopes. scope_key x \<notin> set (readTrippedRaw s'))"
    by (simp add: blocked_def first_tripped_Inr set_switch_tables(2) [OF assms])
  then show ?thesis
    unfolding set_switch_tables(1) [OF assms] by (auto simp: tripped_iff)
qed

definition sample_resil :: resil_db where
  "sample_resil = ledger_db.extend sample_ledger (resil_db.fields [] 
     \<lparr>sm_read_only = False, sm_reason = None, sm_updated_by = None\<rparr>
     \<lparr>cs_read_only = False, cs_tripped = [], cs_fetched = Some 0\<rparr>)"

theorem SetKillSwitch_effective_witness:
  "\<exists>k s'. SetKillSwitch sample_ctx (Feature ''transfer'') False '''' ''ops'' sample_resil = (Inr k, s')
     \<and> fst (res_Check sample_ctx [Feature ''transfer''] s') \<noteq> Inr ()"
proof -
  obtain k s' where run: "SetKillSwitch sample_ctx (Feature ''transfer'') False '''' ''ops'' sample_resil = (Inr k, s')"
    by (simp add: SetKillSwitch_def sample_resil_def ledger_db.defs resil_db.defs key_taken_def Let_def)
  then show ?thesis
    using SetKillSwitch_effective [OF run, of sample_ctx "[Feature ''transfer'']"] by auto
qed

text \<open>
  C12. A change made by another process takes effect within the cache's two seconds: whatever the
  cache holds, once it is two seconds old \<open>Check\<close> decides by the tables as they then are.
\<close>

theorem Check_staleness_bound:
  assumes "\<And>t. cs_fetched (res_cache s) = Some t \<Longrightarrow> t + defaultCacheTTL \<le> now c"
  shows "fst (res_Check c scopes s) =
    (if sm_read_only (sys_mode s) then Inl ErrReadOnly else first_tripped (readTrippedRaw s) scopes)"
  using res_Check_expired [of s c scopes] assms by (simp add: blocked_def algebra_simps)

theorem Check_staleness_bound_witness:
  "fst (res_Check (sample_ctx\<lparr>now := 2000000\<rparr>) [Feature ''x'']
     (sample_resil\<lparr>sys_mode := \<lparr>sm_read_only = True, sm_reason = None, sm_updated_by = None\<rparr>\<rparr>)) = Inl ErrReadOnly"
  by (subst Check_staleness_bound)
     (simp_all add: sample_resil_def ledger_db.defs resil_db.defs defaultCacheTTL_def second_def)

end
