(* ===== verification/Payments.thy ===== *)
theory Payments
  imports Resilience
begin

section \<open>Internal transfers: tier limits and recipients\<close>

text \<open>
  \<open>internal/payments\<close>: the policy layer above the ledger.  A transfer passes the kill switches,
  then the sender's KYC-tier limits (per transfer and per day), then goes to the ledger.
\<close>

record limits =
  MaxSingleMinor :: int
  MaxDailyMinor :: int

definition tierLimits :: "int \<Rightarrow> limits option" where
  "tierLimits tier =
    (if tier = 0 then Some \<lparr>MaxSingleMinor = 500000, MaxDailyMinor = 500000\<rparr>
     else if tier = 1 then Some \<lparr>MaxSingleMinor = 50000000, MaxDailyMinor = 100000000\<rparr>
     else if tier = 2 then Some \<lparr>MaxSingleMinor = 1000000000, MaxDailyMinor = 2000000000\<rparr>
     else None)"

text \<open>The sum of today's transfer debits over all accounts of one owner.\<close>

definition is_transfer :: "uuid \<Rightarrow> transaction list \<Rightarrow> bool" where
  "is_transfer t ts \<longleftrightarrow> (case find_row t_id t ts of None \<Rightarrow> False | Some x \<Rightarrow> t_type x = TransactionTypeTransfer)"

definition owned_by :: "uuid \<Rightarrow> uuid \<Rightarrow> account list \<Rightarrow> bool" where
  "owned_by owner a accs \<longleftrightarrow> (case find_row a_id a accs of None \<Rightarrow> False | Some x \<Rightarrow> a_owner x = owner)"

definition sent_today :: "ctx \<Rightarrow> uuid \<Rightarrow> 'z ledger_db_scheme \<Rightarrow> int" where
  "sent_today c owner s = sum_list (map (\<lambda>e.
     if owned_by owner (e_account e) (accounts s) \<and> is_transfer (e_txn e) (txns s)
        \<and> e_amount e < 0 \<and> day_start (now c) \<le> e_created e
     then - e_amount e else 0) (entries s))"

definition checkLimits :: "ctx \<Rightarrow> uuid \<Rightarrow> int \<Rightarrow> 'z ledger_db_scheme \<Rightarrow> gerror + unit" where
  "checkLimits c fromAccountID amountMinor s =
    (case find_row a_id fromAccountID (accounts s) of
       None \<Rightarrow> Inl ErrNoRows
     | Some a \<Rightarrow>
        (case find_row id_id (a_owner a) (identities s) of
           None \<Rightarrow> Inl ErrNoRows
         | Some i \<Rightarrow>
            (case tierLimits (id_tier i) of
               None \<Rightarrow> Inl ErrNoTierLimits
             | Some l \<Rightarrow>
                if amountMinor > MaxSingleMinor l then Inl ErrLimitExceeded
                else (case scan64 (sent_today c (a_owner a) s) of
                        Inl e \<Rightarrow> Inl e
                      | Inr sentTodayMinor \<Rightarrow>
                         if wrap64 (sentTodayMinor + amountMinor) > MaxDailyMinor l
                         then Inl ErrLimitExceeded else Inr ()))))"

definition payments_Transfer :: "ctx \<Rightarrow> uuid \<Rightarrow> uuid \<Rightarrow> money \<Rightarrow> string \<Rightarrow> 'z resil_db_scheme
    \<Rightarrow> (gerror + transaction) \<times> 'z resil_db_scheme" where
  "payments_Transfer c fromID toID amount key s =
    (case res_Check c [Feature ''transfer''] s of
       (Inl e, s1) \<Rightarrow> (Inl e, s1)
     | (Inr _, s1) \<Rightarrow>
        (case checkLimits c fromID (minor amount) s1 of
           Inl e \<Rightarrow> (Inl e, s1)
         | Inr _ \<Rightarrow> Transfer c fromID toID amount key s1))"

text \<open>
  \<open>SELECT id FROM accounts WHERE owner_id = $1 AND state = 'open' ORDER BY created_at LIMIT 1\<close>;
  equal times are resolved by insertion order here, which Postgres does not promise.
\<close>

fun earliest :: "account list \<Rightarrow> account option" where
  "earliest [] = None"
| "earliest (a # as) =
    (case earliest as of None \<Rightarrow> Some a | Some b \<Rightarrow> Some (if a_created b < a_created a then b else a))"

definition primary_account :: "uuid \<Rightarrow> 'z ledger_db_scheme \<Rightarrow> account option" where
  "primary_account owner s =
    earliest (filter (\<lambda>a. a_owner a = owner \<and> a_state a = AccountStateOpen) (accounts s))"

definition SendToRecipientEmail :: "ctx \<Rightarrow> uuid \<Rightarrow> string \<Rightarrow> money \<Rightarrow> string \<Rightarrow> 'z resil_db_scheme
    \<Rightarrow> (gerror + transaction) \<times> 'z resil_db_scheme" where
  "SendToRecipientEmail c fromID recipientEmail amount key s =
    (case GetByEmail recipientEmail s of
       Inl e \<Rightarrow> (Inl (if e = ErrIdentityNotFound then ErrRecipientNotFound else e), s)
     | Inr recipient \<Rightarrow>
        (case primary_account (id_id recipient) s of
           None \<Rightarrow> (Inl ErrRecipientNotFound, s)
         | Some a \<Rightarrow> payments_Transfer c fromID (a_id a) amount key s))"

definition payments_Reverse :: "ctx \<Rightarrow> uuid \<Rightarrow> string \<Rightarrow> 'z resil_db_scheme
    \<Rightarrow> (gerror + transaction) \<times> 'z resil_db_scheme" where
  "payments_Reverse c tid key s =
    (case res_Check c [Feature ''reversal''] s of
       (Inl e, s1) \<Rightarrow> (Inl e, s1)
     | (Inr _, s1) \<Rightarrow> ReverseTransaction c tid key s1)"

subsection \<open>Lemmas\<close>

lemma ledger_inv_resil_cache [simp]: "ledger_inv (s\<lparr>res_cache := k\<rparr>) = ledger_inv s"
  by (rule ledger_inv_cong) simp_all

lemma sent_today_cache [simp]: "sent_today c ow (s\<lparr>res_cache := k\<rparr>) = sent_today c ow s"
  by (simp add: sent_today_def)

lemma checkLimits_cache [simp]: "checkLimits c a m (s\<lparr>res_cache := k\<rparr>) = checkLimits c a m s"
  by (simp add: checkLimits_def split: option.split)

lemma res_Check_cases:
  obtains k where "snd (res_Check c scs s) = s\<lparr>res_cache := k\<rparr>"
  using res_Check_frame by blast

lemma payments_Transfer_inv:
  assumes "payments_Transfer c f t amt key s = (res, s')" and "ledger_inv s"
  shows "ledger_inv s'"
proof -
  obtain k where k: "snd (res_Check c [Feature ''transfer''] s) = s\<lparr>res_cache := k\<rparr>"
    by (rule res_Check_cases)
  with assms show ?thesis
    by (auto simp: payments_Transfer_def split: prod.splits sum.splits dest: Transfer_inv)
qed

text \<open>A transfer that went through passed the switches and the limits, and ran the ledger's.\<close>

lemma payments_Transfer_done:
  assumes "payments_Transfer c f t amt key s = (Inr tx, s')"
  obtains k where "checkLimits c f (minor amt) s = Inr ()"
    and "Transfer c f t amt key (s\<lparr>res_cache := k\<rparr>) = (Inr tx, s')"
proof -
  obtain k where k: "snd (res_Check c [Feature ''transfer''] s) = s\<lparr>res_cache := k\<rparr>"
    by (rule res_Check_cases)
  with assms show thesis
    by (auto simp: payments_Transfer_def split: prod.splits sum.splits intro: that [of k])
qed

lemma checkLimits_ok:
  assumes "checkLimits c a m s = Inr u"
  obtains acc i l where "find_row a_id a (accounts s) = Some acc"
    and "find_row id_id (a_owner acc) (identities s) = Some i" and "tierLimits (id_tier i) = Some l"
    and "m \<le> MaxSingleMinor l" and "in64 (sent_today c (a_owner acc) s)"
    and "wrap64 (sent_today c (a_owner acc) s + m) \<le> MaxDailyMinor l"
  using assms by (auto simp: checkLimits_def not_less split: option.splits if_splits sum.splits)

lemma sent_today_nonneg: "0 \<le> sent_today c ow s"
  unfolding sent_today_def by (rule sum_list_nonneg) auto

text \<open>What is sent counts: a posted transfer adds its amount to the sender's total of the day.\<close>

lemma is_transfer_snoc:
  "\<not> key_taken t_id (t_id x) ts \<Longrightarrow> key_taken t_id t ts \<or> t = t_id x \<Longrightarrow>
   is_transfer t (ts @ [x]) \<longleftrightarrow> (if t = t_id x then t_type x = TransactionTypeTransfer else is_transfer t ts)"
  by (auto simp: is_transfer_def find_row_append find_row_Cons find_row_None split: option.splits)
     (auto simp: find_row_None [symmetric])

lemma sent_today_transfer:
  assumes run: "Transfer c f t amt key s = (Inr tx, s')" and key: "\<not> key_taken ik_key key (idem_keys s)"
    and inv: "ledger_inv s" and pos: "0 < minor amt" and acc: "find_row a_id f (accounts s) = Some acc"
  shows "sent_today c (a_owner acc) s' = sent_today c (a_owner acc) s + minor amt"
proof -
  from run key obtain es ks where es: "entries_of c (t_id tx) (transfer_legs f t amt) es"
    and s': "s' = s\<lparr>idem_keys := ks, txns := txns s @ [tx], entries := entries s @ es\<rparr>"
    and tx: "tx = \<lparr>t_id = gen c 0, t_key = key, t_type = TransactionTypeTransfer, t_state = TransactionStatePosted\<rparr>"
    and new: "\<not> key_taken t_id (t_id tx) (txns s)"
    unfolding Transfer_def by (rule post_success)
  have "sum_list (map (\<lambda>l. minor (l_amount l)) (transfer_legs f t amt)) = 0"
    using post_effect(2) [OF run [unfolded Transfer_def] key inv] .
  then have "wrap64 (- minor amt) = - minor amt" by (simp add: transfer_legs_def Negate_def)
  with es obtain e1 e2 where e: "es = [e1, e2]" "e_txn e1 = t_id tx" "e_created e1 = now c" "e_account e1 = f"
      "e_amount e1 = - minor amt" "e_amount e2 = minor amt"
    by (auto simp: entries_of_def transfer_legs_def Negate_def list_all2_Cons1)
  have tr: "is_transfer (t_id tx) (txns s @ [tx])"
    using new by (simp add: is_transfer_snoc) (simp add: tx)
  have old: "is_transfer (e_txn x) (txns s @ [tx]) \<longleftrightarrow> is_transfer (e_txn x) (txns s)" if "x \<in> set (entries s)" for x
  proof -
    have "key_taken t_id (e_txn x) (txns s)" using ledger_invD(1) [OF inv] that by (auto simp: schema_ok_def)
    then show ?thesis using new by (subst is_transfer_snoc) (auto simp del: One_nat_def)
  qed
  have own: "owned_by (a_owner acc) f (accounts s)" using acc by (simp add: owned_by_def)
  show ?thesis
    using pos day_start_le [of "now c"] tr own
    by (simp add: sent_today_def s' e old cong: map_cong)
qed

subsection \<open>Properties\<close>

text \<open>
  C6. The tier limits hold: when a transfer under a fresh key goes through, its amount is within
  the sender's single-transfer limit, and the total of the sender's transfers of the day, over
  all accounts of the same owner and now including this one, is within the daily limit.
\<close>

theorem daily_limit_kept:
  assumes run: "payments_Transfer c f t amt key s = (Inr tx, s')"
    and inv: "ledger_inv s" and key: "\<not> key_taken ik_key key (idem_keys s)"
    and acc: "find_row a_id f (accounts s) = Some acc"
    and ident: "find_row id_id (a_owner acc) (identities s) = Some i" and lim: "tierLimits (id_tier i) = Some l"
    and pos: "0 < minor amt" and fits: "in64 (sent_today c (a_owner acc) s + minor amt)"
  shows "minor amt \<le> MaxSingleMinor l
    \<and> sent_today c (a_owner acc) s' = sent_today c (a_owner acc) s + minor amt
    \<and> sent_today c (a_owner acc) s' \<le> MaxDailyMinor l"
proof -
  from run obtain k where chk: "checkLimits c f (minor amt) s = Inr ()"
    and tr: "Transfer c f t amt key (s\<lparr>res_cache := k\<rparr>) = (Inr tx, s')" by (rule payments_Transfer_done)
  from chk acc ident lim have "minor amt \<le> MaxSingleMinor l"
    and "wrap64 (sent_today c (a_owner acc) s + minor amt) \<le> MaxDailyMinor l"
    by (auto elim!: checkLimits_ok)
  moreover have "sent_today c (a_owner acc) s' = sent_today c (a_owner acc) s + minor amt"
    using sent_today_transfer [OF tr] key inv pos acc by simp
  ultimately show ?thesis using fits by (simp add: goint)
qed

theorem daily_limit_kept_witness:
  "\<exists>tx s'. payments_Transfer sample_ctx ''A'' ''B'' (ngn 60) ''k1'' sample_resil = (Inr tx, s')
     \<and> sent_today sample_ctx ''A'' s' = 60 \<and> (60::int) \<le> 50000000"
proof -
  have "fst (payments_Transfer sample_ctx ''A'' ''B'' (ngn 60) ''k1'' sample_resil) =
    Inr \<lparr>t_id = ''tx-1'', t_key = ''k1'', t_type = TransactionTypeTransfer, t_state = TransactionStatePosted\<rparr>"
    by code_simp
  then obtain tx s' where run: "payments_Transfer sample_ctx ''A'' ''B'' (ngn 60) ''k1'' sample_resil = (Inr tx, s')"
    by (metis prod.collapse)
  have inv: "ledger_inv sample_resil"
    using sample_ledger_inv
    by (simp add: ledger_inv_def schema_ok_def balanced_def solvent_def available_def sample_resil_def
        sample_ledger_def ledger_db.defs resil_db.defs)
  have side: "\<not> key_taken ik_key ''k1'' (idem_keys sample_resil)"
    "find_row a_id ''A'' (accounts sample_resil) = Some (sample_account ''A'' AccountTypeCurrent 0)"
    "find_row id_id (a_owner (sample_account ''A'' AccountTypeCurrent 0)) (identities sample_resil) =
       Some (sample_identity ''A'' ''a@kolo.ng'')"
    "tierLimits (id_tier (sample_identity ''A'' ''a@kolo.ng'')) =
       Some \<lparr>MaxSingleMinor = 50000000, MaxDailyMinor = 100000000\<rparr>"
    "sent_today sample_ctx ''A'' sample_resil = 0"
    by (simp_all add: sample_resil_def sample_eval ledger_db.defs resil_db.defs tierLimits_def
        sent_today_def is_transfer_def)
  have "a_owner (sample_account ''A'' AccountTypeCurrent 0) = ''A''" by (simp add: sample_account_def)
  then show ?thesis
    using daily_limit_kept [OF run inv side(1-4)] run side(5)
    by (auto simp: in64_small)
qed

text \<open>
  C10. A transfer that the kill switches, the limits or the ledger refuse leaves the database as
  it was: a \<open>payments.Transfer\<close> that returns an error changed at most the in-process cache.
\<close>

theorem refused_transfer_writes_nothing:
  assumes "payments_Transfer c f t amt key s = (Inl e, s')"
  shows "\<exists>k. s' = s\<lparr>res_cache := k\<rparr>"
proof -
  obtain k where k: "snd (res_Check c [Feature ''transfer''] s) = s\<lparr>res_cache := k\<rparr>"
    by (rule res_Check_cases)
  have roll: "x = s0" if "Transfer c f t amt key s0 = (Inl e, x)" for s0 x :: "'a resil_db_scheme"
    using that by (auto simp: Transfer_def postTransaction_def split: prod.splits dest: post.error_rolls_back)
  from assms k show ?thesis
    by (auto simp: payments_Transfer_def split: prod.splits sum.splits dest: roll)
qed

theorem refused_transfer_writes_nothing_witness:
  "\<exists>k. snd (payments_Transfer sample_ctx ''A'' ''B'' (ngn 101) ''k1'' sample_resil) = sample_resil\<lparr>res_cache := k\<rparr>"
proof -
  have "fst (payments_Transfer sample_ctx ''A'' ''B'' (ngn 101) ''k1'' sample_resil) = Inl ErrInsufficientBalance"
    by code_simp
  then obtain s' where "payments_Transfer sample_ctx ''A'' ''B'' (ngn 101) ''k1'' sample_resil = (Inl ErrInsufficientBalance, s')"
    by (metis prod.collapse)
  then show ?thesis using refused_transfer_writes_nothing by fastforce
qed

text \<open>
  The recipient's status is not looked at: an identity that is not active still receives.
\<close>

lemma inactive_recipient_receives:
  assumes "find_row id_email em (identities s) = Some r" and "primary_account (id_id r) s = Some a"
  shows "SendToRecipientEmail c f em amt key s = payments_Transfer c f (a_id a) amt key s"
  using assms by (simp add: SendToRecipientEmail_def GetByEmail_def)

end
