(* ===== verification/Risk.thy ===== *)
theory Risk
  imports Payments
begin

section \<open>External rails and the risk engine\<close>

text \<open>
  \<open>internal/rails\<close> (the simulated rail with its idempotency cache, the registry) and
  \<open>internal/risk\<close> (risk.go, resolve.go, reports.go): the tables \<open>external_transfers\<close>,
  \<open>risk_assessments\<close> and \<open>regulatory_reports\<close>, the rules engine, and the decisions it applies.
  Whether a rail call's deadline expires before the simulated latency is the environment's
  choice: the parameter \<open>dl\<close>.  \<open>Assess\<close> records its decision in one statement and applies it in
  others; the two halves are definitions of their own.
\<close>

subsection \<open>rails.go and registry.go\<close>

datatype direction = DirectionOutbound | DirectionInbound

datatype rail_status = StatusSucceeded | RailFailed

record payment_request =
  pq_direction :: direction
  pq_counterparty :: string
  pq_amount :: int
  pq_currency :: string
  pq_client_ref :: string

record rail_result =
  rr_status :: rail_status
  rr_reference :: string
  rr_failure :: string

definition rail_failMarker :: string where "rail_failMarker = ''RAILFAIL''"

definition rail_names :: "string list" where
  "rail_names = [''instant'', ''ach'', ''wire'', ''local'', ''billpay'', ''card'']"

type_synonym rail_caches = "(string \<times> string) \<rightharpoonup> rail_result"

definition registry_Get :: "string \<Rightarrow> gerror + string" where
  "registry_Get name = (if name \<in> set rail_names then Inr name else Inl ErrUnknownRail)"

definition rail_outcome :: "string \<Rightarrow> payment_request \<Rightarrow> rail_result" where
  "rail_outcome ref req =
    (if str_contains (pq_counterparty req) rail_failMarker
     then \<lparr>rr_status = RailFailed, rr_reference = ref, rr_failure = ''rail rejected the payment (simulated)''\<rparr>
     else \<lparr>rr_status = StatusSucceeded, rr_reference = ref, rr_failure = ''''\<rparr>)"

definition rail_Send :: "bool \<Rightarrow> string \<Rightarrow> string \<Rightarrow> payment_request \<Rightarrow> rail_caches
    \<Rightarrow> (gerror + rail_result) \<times> rail_caches" where
  "rail_Send dl ref rail req cache =
    (case (if pq_client_ref req = '''' then None else cache (rail, pq_client_ref req)) of
       Some r \<Rightarrow> (Inr r, cache)
     | None \<Rightarrow>
        if dl then (Inl ErrDeadlineExceeded, cache)
        else let result = rail_outcome ref req
             in (Inr result, if pq_client_ref req = '''' then cache
                             else cache((rail, pq_client_ref req) \<mapsto> result)))"

subsection \<open>The tables\<close>

datatype ext_status = StatusPending | StatusProcessing | StatusCompleted | StatusFailed

datatype risk_status = RiskClear | RiskHeld | RiskBlocked

record external_transfer =
  et_id :: uuid
  et_direction :: direction
  et_account :: uuid
  et_rail :: string
  et_counterparty :: string
  et_amount :: int
  et_currency :: string
  et_key :: string
  et_hold :: "uuid option"
  et_batch :: "uuid option"
  et_status :: ext_status
  et_risk :: risk_status
  et_rail_ref :: "string option"
  et_txn :: "uuid option"
  et_error :: "string option"
  et_attempted :: "int option"
  et_completed :: "int option"
  et_created :: int

datatype decision = DecisionAllow | DecisionHold | DecisionBlock

record assessment =
  as_source :: uuid
  as_score :: int
  as_decision :: decision
  as_reasons :: "string list"

record risk_assessment = assessment +
  ra_created :: int

datatype report_type = ReportSAR | ReportCTR

datatype report_payload =
    FlaggedTransfers "(uuid \<times> int \<times> string list) list"
  | LargeTransfers "(uuid \<times> int \<times> string) list"

record report =
  rp_id :: uuid
  rp_type :: report_type
  rp_start :: int
  rp_end :: int
  rp_generated :: int
  rp_payload :: report_payload

record ext_db = resil_db +
  ext_transfers :: "external_transfer list"
  assessments :: "risk_assessment list"
  reports :: "report list"
  rail_cache :: rail_caches

subsection \<open>risk.go\<close>

definition fraudMarker :: string where "fraudMarker = ''FRAUDSCORE''"
definition velocityWindow :: int where "velocityWindow = 10 * minute"
definition velocityMaxCount :: int where "velocityMaxCount = 5"
definition velocityMaxSumMinor :: int where "velocityMaxSumMinor = 500000000"
definition largeAmountMinor :: int where "largeAmountMinor = 1000000000"

record transfer_fields =
  tf_account :: uuid
  tf_counterparty :: string
  tf_amount :: int
  tf_hold :: "uuid option"

definition Assessed :: "uuid \<Rightarrow> 'z ext_db_scheme \<Rightarrow> bool" where
  "Assessed tid s \<longleftrightarrow> key_taken as_source tid (assessments s)"

definition getExisting :: "uuid \<Rightarrow> 'z ext_db_scheme \<Rightarrow> assessment option" where
  "getExisting tid s = map_option assessment.truncate (find_row as_source tid (assessments s))"

definition loadTransfer :: "uuid \<Rightarrow> 'z ext_db_scheme \<Rightarrow> gerror + transfer_fields" where
  "loadTransfer tid s =
    (case find_row et_id tid (ext_transfers s) of
       None \<Rightarrow> Inl ErrNoRows
     | Some r \<Rightarrow> Inr \<lparr>tf_account = et_account r, tf_counterparty = et_counterparty r,
                      tf_amount = et_amount r, tf_hold = et_hold r\<rparr>)"

definition velocity :: "ctx \<Rightarrow> uuid \<Rightarrow> 'z ext_db_scheme \<Rightarrow> gerror + (int \<times> int)" where
  "velocity c accountID s =
    (let rs = filter (\<lambda>r. et_account r = accountID \<and> now c - velocityWindow \<le> et_created r) (ext_transfers s)
     in case scan64 (sum_list (map et_amount rs)) of
          Inl e \<Rightarrow> Inl e
        | Inr sumMinor \<Rightarrow> Inr (int (length rs), sumMinor))"

definition risk_evaluate :: "ctx \<Rightarrow> (string \<Rightarrow> gerror + check_outcome list) \<Rightarrow> uuid \<Rightarrow> transfer_fields
    \<Rightarrow> 'z ext_db_scheme \<Rightarrow> gerror + assessment" where
  "risk_evaluate c screen tid tf s =
    (case screen (tf_counterparty tf) of
       Inl e \<Rightarrow> Inl e
     | Inr outcomes \<Rightarrow>
        if list_ex (\<lambda>oc. o_check oc = CheckSanctions \<and> o_result oc = ResultFail) outcomes
        then Inr \<lparr>as_source = tid, as_score = 100, as_decision = DecisionBlock, as_reasons = [''sanctions_hit'']\<rparr>
        else if str_contains (tf_counterparty tf) fraudMarker
        then Inr \<lparr>as_source = tid, as_score = 100, as_decision = DecisionBlock, as_reasons = [''fraud_signal'']\<rparr>
        else (case velocity c (tf_account tf) s of
                Inl e \<Rightarrow> Inl e
              | Inr (count, sumMinor) \<Rightarrow>
                 if count \<ge> velocityMaxCount \<or> sumMinor \<ge> velocityMaxSumMinor
                 then Inr \<lparr>as_source = tid, as_score = 70, as_decision = DecisionHold, as_reasons = [''velocity_exceeded'']\<rparr>
                 else if tf_amount tf \<ge> largeAmountMinor
                 then Inr \<lparr>as_source = tid, as_score = 50, as_decision = DecisionHold, as_reasons = [''large_amount'']\<rparr>
                 else let score = go_quot (wrap64 (tf_amount tf * 20)) largeAmountMinor
                      in Inr \<lparr>as_source = tid, as_score = (if score > 49 then 49 else score),
                              as_decision = DecisionAllow, as_reasons = []\<rparr>))"

definition risk_record :: "ctx \<Rightarrow> assessment \<Rightarrow> 'z ext_db_scheme \<Rightarrow> gerror + 'z ext_db_scheme" where
  "risk_record c a s =
    (if key_taken as_source (as_source a) (assessments s) then Inl SqlUnique
     else if \<not> (0 \<le> as_score a \<and> as_score a \<le> 100) then Inl SqlCheck
     else Inr (s\<lparr>assessments := assessments s @ [assessment.extend a (risk_assessment.fields (now c))]\<rparr>))"

definition failAndRelease :: "ctx \<Rightarrow> uuid \<Rightarrow> uuid option \<Rightarrow> string \<Rightarrow> 'z ext_db_scheme
    \<Rightarrow> (gerror + unit) \<times> 'z ext_db_scheme" where
  "failAndRelease c tid holdID reason s =
    (case (case holdID of None \<Rightarrow> (Inr (), s) | Some h \<Rightarrow> ReleaseHold h s) of
       (Inl e, s1) \<Rightarrow> (Inl e, s1)
     | (Inr _, s1) \<Rightarrow>
        (Inr (), s1\<lparr>ext_transfers := update_row et_id tid
           (\<lambda>r. r\<lparr>et_status := StatusFailed, et_risk := RiskBlocked, et_error := Some reason,
                  et_completed := Some (now c)\<rparr>) (ext_transfers s1)\<rparr>))"

text \<open>\<open>Assess\<close>: score and record, then apply.\<close>

definition assess_record :: "ctx \<Rightarrow> (string \<Rightarrow> gerror + check_outcome list) \<Rightarrow> uuid \<Rightarrow> 'z ext_db_scheme
    \<Rightarrow> (gerror + (assessment \<times> transfer_fields)) \<times> 'z ext_db_scheme" where
  "assess_record c screen tid s =
    (case loadTransfer tid s of
       Inl e \<Rightarrow> (Inl e, s)
     | Inr tf \<Rightarrow>
        (case risk_evaluate c screen tid tf s of
           Inl e \<Rightarrow> (Inl e, s)
         | Inr a \<Rightarrow>
            (case risk_record c a s of
               Inl e \<Rightarrow> (Inl e, s)
             | Inr s1 \<Rightarrow> (Inr (a, tf), s1))))"

definition assess_apply :: "ctx \<Rightarrow> assessment \<Rightarrow> transfer_fields \<Rightarrow> 'z ext_db_scheme
    \<Rightarrow> (gerror + assessment) \<times> 'z ext_db_scheme" where
  "assess_apply c a tf s =
    (case as_decision a of
       DecisionBlock \<Rightarrow>
         (case failAndRelease c (as_source a) (tf_hold tf) ''blocked by risk assessment'' s of
            (Inl e, s1) \<Rightarrow> (Inl e, s1)
          | (Inr _, s1) \<Rightarrow> (Inr a, s1))
     | DecisionHold \<Rightarrow>
         (Inr a, s\<lparr>ext_transfers := update_row et_id (as_source a) (\<lambda>r. r\<lparr>et_risk := RiskHeld\<rparr>) (ext_transfers s)\<rparr>)
     | DecisionAllow \<Rightarrow> (Inr a, s))"

definition Assess :: "ctx \<Rightarrow> (string \<Rightarrow> gerror + check_outcome list) \<Rightarrow> uuid \<Rightarrow> 'z ext_db_scheme
    \<Rightarrow> (gerror + assessment) \<times> 'z ext_db_scheme" where
  "Assess c screen tid s =
    (case getExisting tid s of
       Some a \<Rightarrow> (Inr a, s)
     | None \<Rightarrow>
        (case assess_record c screen tid s of
           (Inl e, s1) \<Rightarrow> (Inl e, s1)
         | (Inr (a, tf), s1) \<Rightarrow> assess_apply c a tf s1))"

subsection \<open>resolve.go\<close>

definition Approve :: "uuid \<Rightarrow> 'z ext_db_scheme \<Rightarrow> (gerror + unit) \<times> 'z ext_db_scheme" where
  "Approve tid s =
    (case find_row et_id tid (ext_transfers s) of
       None \<Rightarrow> (Inl ErrNotHeld, s)
     | Some r \<Rightarrow>
        if et_risk r \<noteq> RiskHeld then (Inl ErrNotHeld, s)
        else (Inr (), s\<lparr>ext_transfers := update_row et_id tid (\<lambda>r. r\<lparr>et_risk := RiskClear\<rparr>) (ext_transfers s)\<rparr>))"

definition Block :: "ctx \<Rightarrow> uuid \<Rightarrow> 'z ext_db_scheme \<Rightarrow> (gerror + unit) \<times> 'z ext_db_scheme" where
  "Block c tid s =
    (case find_row et_id tid (ext_transfers s) of
       None \<Rightarrow> (Inl ErrNotHeld, s)
     | Some r \<Rightarrow>
        if et_risk r \<noteq> RiskHeld then (Inl ErrNotHeld, s)
        else failAndRelease c tid (et_hold r) ''blocked by investigator'' s)"

subsection \<open>reports.go\<close>

definition getExistingReport :: "report_type \<Rightarrow> int \<Rightarrow> int \<Rightarrow> 'z ext_db_scheme \<Rightarrow> report option" where
  "getExistingReport ty ps pe s =
    find (\<lambda>r. rp_type r = ty \<and> rp_start r = ps \<and> rp_end r = pe) (reports s)"

definition insertReport :: "ctx \<Rightarrow> report_type \<Rightarrow> int \<Rightarrow> int \<Rightarrow> report_payload \<Rightarrow> 'z ext_db_scheme
    \<Rightarrow> (gerror + report) \<times> 'z ext_db_scheme" where
  "insertReport c ty ps pe payload s =
    (if key_taken rp_id (gen c 0) (reports s) \<or> getExistingReport ty ps pe s \<noteq> None then (Inl SqlUnique, s)
     else let r = \<lparr>rp_id = gen c 0, rp_type = ty, rp_start = ps, rp_end = pe, rp_generated = now c,
                   rp_payload = payload\<rparr>
          in (Inr r, s\<lparr>reports := reports s @ [r]\<rparr>))"

definition sar_lines :: "int \<Rightarrow> int \<Rightarrow> 'z ext_db_scheme \<Rightarrow> (uuid \<times> int \<times> string list) list" where
  "sar_lines ps pe s = map (\<lambda>a. (as_source a, as_score a, as_reasons a))
     (sort_key ra_created (filter (\<lambda>a. as_decision a = DecisionBlock \<and> ps \<le> ra_created a \<and> ra_created a < pe)
        (assessments s)))"

definition GenerateSARReport :: "ctx \<Rightarrow> int \<Rightarrow> int \<Rightarrow> 'z ext_db_scheme
    \<Rightarrow> (gerror + report) \<times> 'z ext_db_scheme" where
  "GenerateSARReport c ps pe s =
    (case getExistingReport ReportSAR ps pe s of
       Some r \<Rightarrow> (Inr r, s)
     | None \<Rightarrow> insertReport c ReportSAR ps pe (FlaggedTransfers (sar_lines ps pe s)) s)"

definition ctr_lines :: "int \<Rightarrow> int \<Rightarrow> 'z ext_db_scheme \<Rightarrow> (uuid \<times> int \<times> string) list" where
  "ctr_lines ps pe s = map (\<lambda>r. (et_id r, et_amount r, et_currency r))
     (sort_key et_created (filter (\<lambda>r. largeAmountMinor \<le> et_amount r \<and> ps \<le> et_created r \<and> et_created r < pe)
        (ext_transfers s)))"

definition GenerateCTRReport :: "ctx \<Rightarrow> int \<Rightarrow> int \<Rightarrow> 'z ext_db_scheme
    \<Rightarrow> (gerror + report) \<times> 'z ext_db_scheme" where
  "GenerateCTRReport c ps pe s =
    (case getExistingReport ReportCTR ps pe s of
       Some r \<Rightarrow> (Inr r, s)
     | None \<Rightarrow> insertReport c ReportCTR ps pe (LargeTransfers (ctr_lines ps pe s)) s)"

end
