(* ===== verification/External.thy ===== *)
theory External
  imports Risk
begin

section \<open>External payments\<close>

text \<open>
  \<open>internal/externalpayments\<close> (externalpayments.go, process.go): queueing a transfer (reserving
  an outbound amount with a hold), claiming queued rows, and processing a claimed row: the risk
  gate, the rail call, and the ledger movement that follows its outcome.  A claimed row's later
  calls run in separate transactions, so each is a function here and a run over a batch is the
  sequence of its rows.  The environment of a row's processing (clock, fresh identifiers, and
  whether the rail's deadline expires) is given per row.
\<close>

definition stuckTimeout :: int where "stuckTimeout = 2 * minute"
definition claimBatchSize :: nat where "claimBatchSize = 20"

record outbound_item =
  oi_account :: uuid
  oi_rail :: string
  oi_counterparty :: string
  oi_amount :: money
  oi_key :: string

record claimed_row =
  cr_id :: uuid
  cr_direction :: direction
  cr_account :: uuid
  cr_rail :: string
  cr_counterparty :: string
  cr_minor :: int
  cr_currency :: string
  cr_key :: string
  cr_hold :: "uuid option"

definition claimed_of :: "external_transfer \<Rightarrow> claimed_row" where
  "claimed_of r = \<lparr>cr_id = et_id r, cr_direction = et_direction r, cr_account = et_account r,
     cr_rail = et_rail r, cr_counterparty = et_counterparty r, cr_minor = et_amount r,
     cr_currency = et_currency r, cr_key = et_key r, cr_hold = et_hold r\<rparr>"

lemma claimed_of_simps [simp]:
  "cr_id (claimed_of r) = et_id r" "cr_direction (claimed_of r) = et_direction r"
  "cr_account (claimed_of r) = et_account r" "cr_rail (claimed_of r) = et_rail r"
  "cr_counterparty (claimed_of r) = et_counterparty r" "cr_minor (claimed_of r) = et_amount r"
  "cr_currency (claimed_of r) = et_currency r" "cr_key (claimed_of r) = et_key r"
  "cr_hold (claimed_of r) = et_hold r"
  by (simp_all add: claimed_of_def)

subsection \<open>externalpayments.go\<close>

definition ext_getByIdempotencyKey :: "string \<Rightarrow> 'z ext_db_scheme \<Rightarrow> external_transfer option" where
  "ext_getByIdempotencyKey key s = find_row et_key key (ext_transfers s)"

definition ext_insert :: "ctx \<Rightarrow> direction \<Rightarrow> uuid \<Rightarrow> string \<Rightarrow> string \<Rightarrow> money \<Rightarrow> string \<Rightarrow> uuid option
    \<Rightarrow> uuid option \<Rightarrow> 'z ext_db_scheme \<Rightarrow> (gerror + external_transfer) \<times> 'z ext_db_scheme" where
  "ext_insert c dir accountID railName counterpartyRef amount key holdID batchID s =
    (case char3 (currency amount) of
       Inl e \<Rightarrow> (Inl e, s)
     | Inr cur3 \<Rightarrow>
        if \<not> in64 (minor amount) then (Inl SqlRange, s)
        else if \<not> 0 < minor amount then (Inl SqlCheck, s)
        else if key_taken et_id (gen c 2) (ext_transfers s) \<or> key_taken et_key key (ext_transfers s)
        then (Inl SqlUnique, s)
        else if \<not> key_taken a_id accountID (accounts s) then (Inl SqlForeignKey, s)
        else let r = \<lparr>et_id = gen c 2, et_direction = dir, et_account = accountID, et_rail = railName,
                      et_counterparty = counterpartyRef, et_amount = minor amount, et_currency = cur3,
                      et_key = key, et_hold = holdID, et_batch = batchID, et_status = StatusPending,
                      et_risk = RiskClear, et_rail_ref = None, et_txn = None, et_error = None,
                      et_attempted = None, et_completed = None, et_created = now c\<rparr>
             in (Inr r, s\<lparr>ext_transfers := ext_transfers s @ [r]\<rparr>))"

definition ext_send :: "ctx \<Rightarrow> direction \<Rightarrow> uuid \<Rightarrow> string \<Rightarrow> string \<Rightarrow> money \<Rightarrow> string \<Rightarrow> uuid option
    \<Rightarrow> 'z ext_db_scheme \<Rightarrow> (gerror + external_transfer) \<times> 'z ext_db_scheme" where
  "ext_send c dir accountID railName counterpartyRef amount key batchID s =
    (case ext_getByIdempotencyKey key s of
       Some existing \<Rightarrow> (Inr existing, s)
     | None \<Rightarrow>
        (case res_Check c [Feature ''external_payment'', Integration railName] s of
           (Inl e, s1) \<Rightarrow> (Inl e, s1)
         | (Inr _, s1) \<Rightarrow>
            if dir = DirectionOutbound
            then (case PlaceHold c accountID amount s1 of
                    (Inl e, s2) \<Rightarrow> (Inl e, s2)
                  | (Inr h, s2) \<Rightarrow>
                     ext_insert c dir accountID railName counterpartyRef amount key (Some (hv_id h)) batchID s2)
            else ext_insert c dir accountID railName counterpartyRef amount key None batchID s1))"

definition SendOutbound :: "ctx \<Rightarrow> uuid \<Rightarrow> string \<Rightarrow> string \<Rightarrow> money \<Rightarrow> string
    \<Rightarrow> 'z ext_db_scheme \<Rightarrow> (gerror + external_transfer) \<times> 'z ext_db_scheme" where
  "SendOutbound c accountID railName counterpartyRef amount key s =
    ext_send c DirectionOutbound accountID railName counterpartyRef amount key None s"

definition SendInbound :: "ctx \<Rightarrow> uuid \<Rightarrow> string \<Rightarrow> string \<Rightarrow> money \<Rightarrow> string
    \<Rightarrow> 'z ext_db_scheme \<Rightarrow> (gerror + external_transfer) \<times> 'z ext_db_scheme" where
  "SendInbound c accountID railName counterpartyRef amount key s =
    ext_send c DirectionInbound accountID railName counterpartyRef amount key None s"

text \<open>\<open>CreateBatch\<close>: the items before the first failure stay queued.\<close>

fun batch_items :: "uuid \<Rightarrow> (ctx \<times> outbound_item) list \<Rightarrow> 'z ext_db_scheme
    \<Rightarrow> (gerror option \<times> external_transfer list) \<times> 'z ext_db_scheme" where
  "batch_items bid [] s = ((None, []), s)"
| "batch_items bid ((c, it) # its) s =
    (case ext_send c DirectionOutbound (oi_account it) (oi_rail it) (oi_counterparty it) (oi_amount it)
            (oi_key it) (Some bid) s of
       (Inl e, s1) \<Rightarrow> ((Some e, []), s1)
     | (Inr et, s1) \<Rightarrow>
        (case batch_items bid its s1 of ((e, out), s2) \<Rightarrow> ((e, et # out), s2)))"

definition CreateBatch :: "ctx \<Rightarrow> (ctx \<times> outbound_item) list \<Rightarrow> 'z ext_db_scheme
    \<Rightarrow> (gerror option \<times> external_transfer list) \<times> 'z ext_db_scheme" where
  "CreateBatch c items s = batch_items (gen c 4) items s"

subsection \<open>process.go\<close>

definition set_status :: "uuid \<Rightarrow> (external_transfer \<Rightarrow> external_transfer) \<Rightarrow> 'z ext_db_scheme \<Rightarrow> 'z ext_db_scheme" where
  "set_status tid f s = s\<lparr>ext_transfers := update_row et_id tid f (ext_transfers s)\<rparr>"

definition finalize_failed :: "ctx \<Rightarrow> claimed_row \<Rightarrow> rail_result \<Rightarrow> 'z ext_db_scheme
    \<Rightarrow> (gerror + unit) \<times> 'z ext_db_scheme" where
  "finalize_failed c row res s =
    (case (if cr_direction row = DirectionOutbound
           then (case cr_hold row of None \<Rightarrow> (Inr (), s) | Some h \<Rightarrow> ReleaseHold h s) else (Inr (), s)) of
       (Inl e, s1) \<Rightarrow> (Inl e, s1)
     | (Inr _, s1) \<Rightarrow>
        (Inr (), set_status (cr_id row) (\<lambda>r. r\<lparr>et_status := StatusFailed, et_rail_ref := Some (rr_reference res),
           et_error := Some (rr_failure res), et_completed := Some (now c)\<rparr>) s1))"

definition finalize_succeeded :: "ctx \<Rightarrow> claimed_row \<Rightarrow> rail_result \<Rightarrow> 'z ext_db_scheme
    \<Rightarrow> (gerror + unit) \<times> 'z ext_db_scheme" where
  "finalize_succeeded c row res s =
    (case NewMoney (cr_minor row) (cr_currency row) of
       Inl e \<Rightarrow> (Inl e, s)
     | Inr amount \<Rightarrow>
        (case (if cr_direction row = DirectionOutbound
               then (case cr_hold row of None \<Rightarrow> (Inl ErrNoHold, s) | Some h \<Rightarrow> CaptureHold c h (cr_key row) s)
               else Credit c (cr_account row) amount (cr_key row) s) of
           (Inl e, s1) \<Rightarrow> (Inl e, s1)
         | (Inr txn, s1) \<Rightarrow>
            (Inr (), set_status (cr_id row) (\<lambda>r. r\<lparr>et_status := StatusCompleted, et_rail_ref := Some (rr_reference res),
               et_txn := Some (t_id txn), et_completed := Some (now c)\<rparr>) s1)))"

definition finalize :: "ctx \<Rightarrow> bool \<Rightarrow> claimed_row \<Rightarrow> 'z ext_db_scheme \<Rightarrow> (gerror + unit) \<times> 'z ext_db_scheme" where
  "finalize c dl row s =
    (case registry_Get (cr_rail row) of
       Inl e \<Rightarrow> (Inl e, s)
     | Inr rail \<Rightarrow>
        (case rail_Send dl (gen c 3) rail
               \<lparr>pq_direction = cr_direction row, pq_counterparty = cr_counterparty row, pq_amount = cr_minor row,
                pq_currency = cr_currency row, pq_client_ref = cr_id row\<rparr> (rail_cache s) of
           (Inl _, cache) \<Rightarrow> (Inr (), s\<lparr>rail_cache := cache\<rparr>)
         | (Inr res, cache) \<Rightarrow>
            (if rr_status res = RailFailed then finalize_failed c row res (s\<lparr>rail_cache := cache\<rparr>)
             else finalize_succeeded c row res (s\<lparr>rail_cache := cache\<rparr>))))"

definition processRow :: "ctx \<Rightarrow> (string \<Rightarrow> gerror + check_outcome list) \<Rightarrow> bool \<Rightarrow> claimed_row
    \<Rightarrow> 'z ext_db_scheme \<Rightarrow> (gerror + unit) \<times> 'z ext_db_scheme" where
  "processRow c screen dl row s =
    (if Assessed (cr_id row) s then finalize c dl row s
     else (case Assess c screen (cr_id row) s of
             (Inl e, s1) \<Rightarrow> (Inl e, s1)
           | (Inr a, s1) \<Rightarrow>
              (case as_decision a of
                 DecisionAllow \<Rightarrow> finalize c dl row s1
               | DecisionHold \<Rightarrow> (Inr (), set_status (cr_id row) (\<lambda>r. r\<lparr>et_status := StatusPending\<rparr>) s1)
               | DecisionBlock \<Rightarrow> (Inr (), s1))))"

text \<open>The two claims: the oldest rows of the kind wanted, at most a batch, marked and returned.\<close>

definition claim_ids :: "(external_transfer \<Rightarrow> bool) \<Rightarrow> (external_transfer \<Rightarrow> int) \<Rightarrow> 'z ext_db_scheme \<Rightarrow> uuid list" where
  "claim_ids P order s = map et_id (take claimBatchSize (sort_key order (filter P (ext_transfers s))))"

definition claim :: "(external_transfer \<Rightarrow> bool) \<Rightarrow> (external_transfer \<Rightarrow> int) \<Rightarrow> (external_transfer \<Rightarrow> external_transfer)
    \<Rightarrow> 'z ext_db_scheme \<Rightarrow> claimed_row list \<times> 'z ext_db_scheme" where
  "claim P order upd s =
    (let ids = claim_ids P order s;
         rows' = map (\<lambda>r. if et_id r \<in> set ids then upd r else r) (ext_transfers s)
     in (map claimed_of (filter (\<lambda>r. et_id r \<in> set ids) rows'), s\<lparr>ext_transfers := rows'\<rparr>))"

definition claim_pending :: "ctx \<Rightarrow> 'z ext_db_scheme \<Rightarrow> claimed_row list \<times> 'z ext_db_scheme" where
  "claim_pending c s =
    claim (\<lambda>r. et_status r = StatusPending \<and> et_risk r = RiskClear) et_created
      (\<lambda>r. r\<lparr>et_status := StatusProcessing, et_attempted := Some (now c)\<rparr>) s"

definition claim_stuck :: "ctx \<Rightarrow> 'z ext_db_scheme \<Rightarrow> claimed_row list \<times> 'z ext_db_scheme" where
  "claim_stuck c s =
    claim (\<lambda>r. et_status r = StatusProcessing \<and>
              (case et_attempted r of None \<Rightarrow> False | Some t \<Rightarrow> t < now c - stuckTimeout))
      (\<lambda>r. case et_attempted r of None \<Rightarrow> 0 | Some t \<Rightarrow> t)
      (\<lambda>r. r\<lparr>et_attempted := Some (now c)\<rparr>) s"

fun process_rows :: "(uuid \<Rightarrow> ctx) \<Rightarrow> (string \<Rightarrow> gerror + check_outcome list) \<Rightarrow> (uuid \<Rightarrow> bool) \<Rightarrow> claimed_row list
    \<Rightarrow> 'z ext_db_scheme \<Rightarrow> 'z ext_db_scheme" where
  "process_rows cs screen dl [] s = s"
| "process_rows cs screen dl (r # rs) s =
    process_rows cs screen dl rs (snd (processRow (cs (cr_id r)) screen (dl (cr_id r)) r s))"

definition ProcessPending :: "ctx \<Rightarrow> (uuid \<Rightarrow> ctx) \<Rightarrow> (string \<Rightarrow> gerror + check_outcome list) \<Rightarrow> (uuid \<Rightarrow> bool)
    \<Rightarrow> 'z ext_db_scheme \<Rightarrow> 'z ext_db_scheme" where
  "ProcessPending c cs screen dl s = (case claim_pending c s of (rows, s1) \<Rightarrow> process_rows cs screen dl rows s1)"

definition ResolveStuck :: "ctx \<Rightarrow> (uuid \<Rightarrow> ctx) \<Rightarrow> (string \<Rightarrow> gerror + check_outcome list) \<Rightarrow> (uuid \<Rightarrow> bool)
    \<Rightarrow> 'z ext_db_scheme \<Rightarrow> 'z ext_db_scheme" where
  "ResolveStuck c cs screen dl s = (case claim_stuck c s of (rows, s1) \<Rightarrow> process_rows cs screen dl rows s1)"

end
