(* ===== verification/ExternalInv.thy ===== *)
theory ExternalInv
  imports External
begin

section \<open>A transfer and its hold\<close>

text \<open>
  The invariant of external payments: a queued outbound transfer owns one hold, for its account
  and its amount, active while the transfer is pending or processing, captured once it is
  completed, released once it has failed; a transfer held by the risk engine is pending, a
  blocked one has failed.  It is kept by queueing, claiming, processing a claimed row,
  approving and blocking, in any order.  The locale \<open>et_update\<close> is the contract of the
  \<open>UPDATE external_transfers\<close> statements: none touches a row's identity, key, account, amount or hold.
\<close>

definition hold_for :: "ext_status \<Rightarrow> hold_status" where
  "hold_for st = (case st of StatusCompleted \<Rightarrow> HoldStatusCaptured | StatusFailed \<Rightarrow> HoldStatusReleased
                           | _ \<Rightarrow> HoldStatusActive)"

definition row_ok :: "hold_row list \<Rightarrow> external_transfer \<Rightarrow> bool" where
  "row_ok hs r \<longleftrightarrow>
     (case et_hold r of
        None \<Rightarrow> et_direction r = DirectionInbound
      | Some h \<Rightarrow> et_direction r = DirectionOutbound \<and>
          find_row h_id h hs = Some \<lparr>h_id = h, h_account = et_account r, h_amount = et_amount r,
                                    h_status = hold_for (et_status r)\<rparr>) \<and>
     (et_risk r = RiskHeld \<longrightarrow> et_status r = StatusPending) \<and>
     (et_risk r = RiskBlocked \<longrightarrow> et_status r = StatusFailed)"

text \<open>No two transfers share a hold.\<close>

definition one_owner :: "external_transfer list \<Rightarrow> bool" where
  "one_owner rows \<longleftrightarrow> (\<forall>r\<in>set rows. \<forall>r'\<in>set rows. \<forall>h.
     et_hold r = Some h \<longrightarrow> et_hold r' = Some h \<longrightarrow> et_id r = et_id r')"

lemma one_ownerD:
  "one_owner rows \<Longrightarrow> r \<in> set rows \<Longrightarrow> r' \<in> set rows \<Longrightarrow> et_hold r = Some h \<Longrightarrow> et_hold r' = Some h \<Longrightarrow> et_id r = et_id r'"
  unfolding one_owner_def by blast

lemma one_owner_image:
  assumes "one_owner rows" and "\<And>x. x \<in> set rows' \<Longrightarrow> \<exists>x0\<in>set rows. et_id x = et_id x0 \<and> et_hold x = et_hold x0"
  shows "one_owner rows'"
  unfolding one_owner_def
proof (intro ballI allI impI)
  fix x y h assume "x \<in> set rows'" "y \<in> set rows'" and h: "et_hold x = Some h" "et_hold y = Some h"
  with assms(2) obtain x0 y0 where "x0 \<in> set rows" "et_id x = et_id x0" "et_hold x0 = Some h"
    "y0 \<in> set rows" "et_id y = et_id y0" "et_hold y0 = Some h" by metis
  with one_ownerD [OF assms(1)] show "et_id x = et_id y" by metis
qed

lemma one_owner_snoc:
  assumes "one_owner rows" and "\<And>x h. x \<in> set rows \<Longrightarrow> et_hold x = Some h \<Longrightarrow> et_hold r \<noteq> Some h"
  shows "one_owner (rows @ [r])"
  unfolding one_owner_def
proof (intro ballI allI impI)
  fix x y h assume in_rows: "x \<in> set (rows @ [r])" "y \<in> set (rows @ [r])"
    and h: "et_hold x = Some h" "et_hold y = Some h"
  show "et_id x = et_id y"
  proof (cases "x \<in> set rows \<and> y \<in> set rows")
    case True
    then show ?thesis using one_ownerD [OF assms(1) _ _ h] by blast
  next
    case False
    with in_rows assms(2) h have "x = r" and "y = r" by auto
    then show ?thesis by simp
  qed
qed

definition ext_inv :: "'z ext_db_scheme \<Rightarrow> bool" where
  "ext_inv s \<longleftrightarrow> distinct (map et_id (ext_transfers s)) \<and> distinct (map et_key (ext_transfers s)) \<and>
     (\<forall>r\<in>set (ext_transfers s). row_ok (holds s) r) \<and>
     one_owner (ext_transfers s) \<and> capture_inv s"

lemma row_ok_cong:
  "(\<And>h. et_hold r = Some h \<Longrightarrow> find_row h_id h hs' = find_row h_id h hs) \<Longrightarrow> row_ok hs r \<Longrightarrow> row_ok hs' r"
  by (auto simp: row_ok_def split: option.splits)

lemma ext_inv_capture: "ext_inv s \<Longrightarrow> capture_inv s"
  by (simp add: ext_inv_def)

text \<open>The invariant reads four tables.\<close>

lemma ext_inv_cong:
  assumes "ext_transfers s' = ext_transfers s" and "holds s' = holds s" and "idem_keys s' = idem_keys s"
  shows "ext_inv s' = ext_inv s"
  unfolding ext_inv_def capture_inv_def assms ..

lemma ext_inv_cache [simp]: "ext_inv (s\<lparr>res_cache := k\<rparr>) = ext_inv s" "ext_inv (s\<lparr>rail_cache := m\<rparr>) = ext_inv s"
  "ext_inv (s\<lparr>assessments := as\<rparr>) = ext_inv s"
  by (rule ext_inv_cong; simp)+

text \<open>Ledger operations that leave the transfers' holds alone keep it.\<close>

lemma ext_inv_holds:
  assumes inv: "ext_inv s" and "ext_transfers s' = ext_transfers s" and "capture_inv s'"
    and "\<And>r h. r \<in> set (ext_transfers s) \<Longrightarrow> et_hold r = Some h \<Longrightarrow> find_row h_id h (holds s') = find_row h_id h (holds s)"
  shows "ext_inv s'"
proof -
  have "row_ok (holds s') r" if "r \<in> set (ext_transfers s)" for r
    using inv that assms(4) [OF that] by (intro row_ok_cong [of r "holds s'" "holds s"]) (auto simp: ext_inv_def)
  then show ?thesis using inv assms(2,3) by (simp add: ext_inv_def)
qed

subsection \<open>Updates of a row\<close>

locale et_update = row_update et_id f for f :: "external_transfer \<Rightarrow> external_transfer" +
  assumes keeps: "et_key (f r) = et_key r \<and> et_hold (f r) = et_hold r \<and> et_direction (f r) = et_direction r
    \<and> et_account (f r) = et_account r \<and> et_amount (f r) = et_amount r"
begin

lemma upd_keys: "map et_key (update_row et_id tid f rows) = map et_key rows"
  using keeps by (simp add: update_row_def)

lemma upd_row: "r \<in> set (update_row et_id tid f rows) \<Longrightarrow>
    \<exists>r0\<in>set rows. et_id r = et_id r0 \<and> et_hold r = et_hold r0 \<and> r = (if et_id r0 = tid then f r0 else r0)"
  using keeps key_kept by (auto simp: set_update_row)

text \<open>
  A row changes together with its hold: the rest of the table and the other holds do not.
\<close>

lemma ext_inv_update:
  assumes inv: "ext_inv s" and r: "find_row et_id tid (ext_transfers s) = Some r"
    and rows: "ext_transfers s' = update_row et_id tid f (ext_transfers s)"
    and others: "\<And>h. et_hold r \<noteq> Some h \<Longrightarrow> find_row h_id h (holds s') = find_row h_id h (holds s)"
    and ok: "row_ok (holds s') (f r)" and cap: "capture_inv s'"
  shows "ext_inv s'"
proof -
  let ?T = "ext_transfers s"
  have d: "distinct (map et_id ?T)" and u: "one_owner ?T"
    using inv by (simp_all add: ext_inv_def)
  have rin: "r \<in> set ?T" "et_id r = tid" using find_row_Some [OF r] by simp_all
  have "row_ok (holds s') x" if x: "x \<in> set (update_row et_id tid f ?T)" for x
  proof -
    from upd_row [OF x] obtain r0 where r0: "r0 \<in> set ?T" "x = (if et_id r0 = tid then f r0 else r0)" by blast
    show ?thesis
    proof (cases "et_id r0 = tid")
      case True
      then have "r0 = r" using find_row_distinct [OF d r0(1)] r by simp
      with True r0 ok show ?thesis by simp
    next
      case False
      then have "et_hold r0 \<noteq> Some h \<or> et_hold r \<noteq> Some h" for h
        using one_ownerD [OF u r0(1) rin(1)] rin(2) by auto
      then have "find_row h_id h (holds s') = find_row h_id h (holds s)" if "et_hold r0 = Some h" for h
        using others that by blast
      moreover have "row_ok (holds s) r0" using inv r0(1) by (simp add: ext_inv_def)
      ultimately show ?thesis using False r0(2) by (auto intro: row_ok_cong)
    qed
  qed
  moreover have "one_owner (update_row et_id tid f ?T)"
    by (rule one_owner_image [OF u]) (use upd_row in blast)
  ultimately show ?thesis using inv cap by (simp add: ext_inv_def rows keys upd_keys)
qed

end

interpretation upd_blocked: et_update
  "\<lambda>r. r\<lparr>et_status := StatusFailed, et_risk := RiskBlocked, et_error := e, et_completed := d\<rparr>" for e d
  by unfold_locales simp_all

interpretation upd_risk: et_update "\<lambda>r. r\<lparr>et_risk := k\<rparr>" for k
  by unfold_locales simp_all

interpretation upd_status: et_update "\<lambda>r. r\<lparr>et_status := st\<rparr>" for st
  by unfold_locales simp_all

interpretation upd_failed: et_update
  "\<lambda>r. r\<lparr>et_status := StatusFailed, et_rail_ref := rf, et_error := e, et_completed := d\<rparr>" for rf e d
  by unfold_locales simp_all

interpretation upd_completed: et_update
  "\<lambda>r. r\<lparr>et_status := StatusCompleted, et_rail_ref := rf, et_txn := t, et_completed := d\<rparr>" for rf t d
  by unfold_locales simp_all

subsection \<open>Queueing\<close>

lemma ext_insert_cases:
  assumes "ext_insert c dir a rn cp amt key h bid s = (res, s')"
  shows "(s' = s \<and> (\<exists>e. res = Inl e)) \<or>
    (\<exists>r. res = Inr r \<and> s' = s\<lparr>ext_transfers := ext_transfers s @ [r]\<rparr> \<and>
       \<not> key_taken et_id (et_id r) (ext_transfers s) \<and> \<not> key_taken et_key (et_key r) (ext_transfers s) \<and>
       et_hold r = h \<and> et_direction r = dir \<and> et_account r = a \<and> et_amount r = minor amt \<and> et_key r = key \<and>
       et_status r = StatusPending \<and> et_risk r = RiskClear)"
  using assms by (auto simp: ext_insert_def Let_def split: sum.splits if_splits)

lemma ext_inv_insert:
  assumes inv: "ext_inv s" and fresh: "\<not> key_taken et_id (et_id r) (ext_transfers s)"
      "\<not> key_taken et_key (et_key r) (ext_transfers s)"
    and ok: "row_ok (holds s) r"
    and own: "\<And>x h. x \<in> set (ext_transfers s) \<Longrightarrow> et_hold x = Some h \<Longrightarrow> et_hold r \<noteq> Some h"
  shows "ext_inv (s\<lparr>ext_transfers := ext_transfers s @ [r]\<rparr>)"
proof -
  have "capture_inv (s\<lparr>ext_transfers := ext_transfers s @ [r]\<rparr>) = capture_inv s" by (simp add: capture_inv_def)
  moreover have "one_owner (ext_transfers s @ [r])"
    using inv own by (intro one_owner_snoc) (simp_all add: ext_inv_def)
  ultimately show ?thesis using inv fresh ok
    by (simp add: ext_inv_def distinct_snoc_key del: map_append)
qed

lemma ext_send_cases:
  assumes run: "ext_send c dir a rn cp amt key bid s = (res, s')"
  obtains (refused) k where "s' = s \<or> s' = s\<lparr>res_cache := k\<rparr>"
  | (no_hold) k h s2 where "PlaceHold c a amt (s\<lparr>res_cache := k\<rparr>) = (h, s2)" "\<exists>e. h = Inl e" "s' = s2"
  | (outbound) k h s2 where "dir = DirectionOutbound" "PlaceHold c a amt (s\<lparr>res_cache := k\<rparr>) = (Inr h, s2)"
      "ext_insert c dir a rn cp amt key (Some (hv_id h)) bid s2 = (res, s')"
  | (inbound) k where "dir = DirectionInbound" "ext_insert c dir a rn cp amt key None bid (s\<lparr>res_cache := k\<rparr>) = (res, s')"
proof -
  obtain k where k: "snd (res_Check c [Feature ''external_payment'', Integration rn] s) = s\<lparr>res_cache := k\<rparr>"
    by (rule res_Check_cases)
  let ?s1 = "s\<lparr>res_cache := k\<rparr>"
  show thesis
  proof (cases "find_row et_key key (ext_transfers s)")
    case (Some x)
    with run have "s' = s" by (simp add: ext_send_def ext_getByIdempotencyKey_def)
    then show thesis by (intro refused) simp
  next
    case None
    obtain cr where cr: "res_Check c [Feature ''external_payment'', Integration rn] s = (cr, ?s1)"
      using k by (metis prod.collapse)
    obtain h s2 where ph: "PlaceHold c a amt ?s1 = (h, s2)" by fastforce
    have eq: "(res, s') = (case cr of Inl e \<Rightarrow> (Inl e, ?s1)
      | Inr _ \<Rightarrow> if dir = DirectionOutbound
          then (case h of Inl e \<Rightarrow> (Inl e, s2)
                | Inr h \<Rightarrow> ext_insert c dir a rn cp amt key (Some (hv_id h)) bid s2)
          else ext_insert c dir a rn cp amt key None bid ?s1)"
      using run unfolding ext_send_def ext_getByIdempotencyKey_def None cr
      by (cases cr; cases h; cases dir) (simp_all add: ph)
    show thesis
    proof (cases cr)
      case (Inl e)
      with eq show thesis using refused [of k] by simp
    next
      case (Inr u)
      show thesis
      proof (cases dir)
        case DirectionOutbound
        with eq Inr ph show thesis using no_hold [of k h s2] outbound [of k _ s2] by (cases h) simp_all
      next
        case DirectionInbound
        with eq Inr show thesis using inbound [of k] by simp
      qed
    qed
  qed
qed

lemma ext_send_inv:
  assumes run: "ext_send c dir a rn cp amt key bid s = (res, s')" and inv: "ext_inv s"
  shows "ext_inv s'"
  using run
proof (cases rule: ext_send_cases)
  case (refused k)
  then show ?thesis using inv by auto
next
  case (no_hold k h s2)
  with PlaceHold_result [OF no_hold(1)] inv show ?thesis by auto
next
  case (outbound k h s2)
  let ?s1 = "s\<lparr>res_cache := k\<rparr>"
  have inv1: "ext_inv ?s1" using inv by simp
  from PlaceHold_result [OF outbound(2)] have new: "\<not> key_taken h_id (hv_id h) (holds ?s1)"
    and s2: "s2 = ?s1\<lparr>holds := holds ?s1 @ [\<lparr>h_id = hv_id h, h_account = a, h_amount = minor amt,
                                  h_status = HoldStatusActive\<rparr>]\<rparr>" by auto
  have inv2: "ext_inv s2"
  proof (rule ext_inv_holds [OF inv1])
    show "capture_inv s2" by (rule PlaceHold_capture_inv [OF outbound(2) ext_inv_capture [OF inv1]])
    fix r x assume "r \<in> set (ext_transfers ?s1)" "et_hold r = Some x"
    then have "find_row h_id x (holds ?s1) \<noteq> None" using inv1 by (auto simp: ext_inv_def row_ok_def)
    then show "find_row h_id x (holds s2) = find_row h_id x (holds ?s1)"
      by (auto simp: s2 find_row_append)
  qed (simp add: s2)
  show ?thesis
  proof (cases "s' = s2")
    case False
    with ext_insert_cases [OF outbound(3)] obtain r where s': "s' = s2\<lparr>ext_transfers := ext_transfers s2 @ [r]\<rparr>"
      and fr: "\<not> key_taken et_id (et_id r) (ext_transfers s2)" "\<not> key_taken et_key (et_key r) (ext_transfers s2)"
      and r: "et_hold r = Some (hv_id h)" "et_direction r = dir" "et_account r = a" "et_amount r = minor amt"
        "et_status r = StatusPending" "et_risk r = RiskClear" by auto
    have "row_ok (holds s2) r" using new r outbound(1)
      by (simp add: row_ok_def s2 find_row_append find_row_Cons hold_for_def find_row_None [symmetric])
    moreover have "et_hold r \<noteq> Some x" if "y \<in> set (ext_transfers s2)" "et_hold y = Some x" for y x
    proof -
      from that inv1 have "find_row h_id x (holds ?s1) \<noteq> None"
        by (auto simp: ext_inv_def row_ok_def s2)
      with new show ?thesis using r(1) by (auto simp: find_row_None)
    qed
    ultimately show ?thesis unfolding s' by (intro ext_inv_insert [OF inv2 fr])
  qed (use inv2 in simp)
next
  case (inbound k)
  let ?s1 = "s\<lparr>res_cache := k\<rparr>"
  have inv1: "ext_inv ?s1" using inv by simp
  show ?thesis
  proof (cases "s' = ?s1")
    case False
    with ext_insert_cases [OF inbound(2)] obtain r where s': "s' = ?s1\<lparr>ext_transfers := ext_transfers ?s1 @ [r]\<rparr>"
      and fr: "\<not> key_taken et_id (et_id r) (ext_transfers ?s1)" "\<not> key_taken et_key (et_key r) (ext_transfers ?s1)"
      and r: "et_hold r = None" "et_direction r = dir" "et_risk r = RiskClear" by auto
    show ?thesis unfolding s' using r inbound(1)
      by (intro ext_inv_insert [OF inv1 fr]) (simp_all add: row_ok_def)
  qed (use inv1 in simp)
qed

subsection \<open>Claiming\<close>

lemma ext_inv_map:
  assumes inv: "ext_inv s" and rows: "ext_transfers s' = map f (ext_transfers s)"
    and same: "holds s' = holds s" "idem_keys s' = idem_keys s"
    and f: "\<And>r. r \<in> set (ext_transfers s) \<Longrightarrow> et_id (f r) = et_id r \<and> et_key (f r) = et_key r \<and> et_hold (f r) = et_hold r
      \<and> et_direction (f r) = et_direction r \<and> et_account (f r) = et_account r \<and> et_amount (f r) = et_amount r
      \<and> et_risk (f r) = et_risk r \<and> hold_for (et_status (f r)) = hold_for (et_status r)
      \<and> (et_risk r \<noteq> RiskClear \<longrightarrow> et_status (f r) = et_status r)"
  shows "ext_inv s'"
proof -
  have "map et_id (map f (ext_transfers s)) = map et_id (ext_transfers s)"
    "map et_key (map f (ext_transfers s)) = map et_key (ext_transfers s)" using f by simp_all
  moreover have "row_ok (holds s) (f r)" if "r \<in> set (ext_transfers s)" for r
  proof -
    have "row_ok (holds s) r" using inv that by (simp add: ext_inv_def)
    with f [OF that] show ?thesis by (auto simp: row_ok_def split: option.splits)
  qed
  moreover have "capture_inv s' = capture_inv s" by (simp add: capture_inv_def same)
  moreover have "one_owner (map f (ext_transfers s))"
    by (rule one_owner_image [of "ext_transfers s"]) (use inv f in \<open>auto simp: ext_inv_def\<close>)
  ultimately show ?thesis using inv by (simp add: ext_inv_def rows same del: map_map)
qed

lemma ids_of_claim: "tid \<in> set (claim_ids P ord s) \<Longrightarrow> \<exists>r\<in>set (ext_transfers s). et_id r = tid \<and> P r"
  by (auto simp: claim_ids_def dest!: in_set_takeD)

lemma claim_pending_inv:
  assumes "claim_pending c s = (rows, s')" and inv: "ext_inv s"
  shows "ext_inv s'"
proof -
  let ?P = "\<lambda>r. et_status r = StatusPending \<and> et_risk r = RiskClear"
  let ?ids = "claim_ids ?P et_created s"
  let ?f = "\<lambda>r. if et_id r \<in> set ?ids then r\<lparr>et_status := StatusProcessing, et_attempted := Some (now c)\<rparr> else r"
  have s': "s' = s\<lparr>ext_transfers := map ?f (ext_transfers s)\<rparr>"
    using assms(1) by (simp add: claim_pending_def claim_def Let_def)
  have "?P r" if "r \<in> set (ext_transfers s)" "et_id r \<in> set ?ids" for r
  proof -
    from ids_of_claim [OF that(2)] obtain r0 where "r0 \<in> set (ext_transfers s)" "et_id r0 = et_id r" "?P r0" by auto
    moreover have "r0 = r" using calculation that(1) inv
      by (metis ext_inv_def find_row_distinct option.inject)
    ultimately show ?thesis by simp
  qed
  then show ?thesis
    by (intro ext_inv_map [OF inv, where f = ?f]) (auto simp: s' hold_for_def)
qed

lemma claim_stuck_inv:
  assumes "claim_stuck c s = (rows, s')" and inv: "ext_inv s"
  shows "ext_inv s'"
proof -
  obtain ids where s': "s' = s\<lparr>ext_transfers :=
      map (\<lambda>r. if et_id r \<in> set ids then r\<lparr>et_attempted := Some (now c)\<rparr> else r) (ext_transfers s)\<rparr>"
    using assms(1) by (auto simp: claim_stuck_def claim_def Let_def)
  show ?thesis
    by (rule ext_inv_map [OF inv, where f = "\<lambda>r. if et_id r \<in> set ids then r\<lparr>et_attempted := Some (now c)\<rparr> else r"])
       (auto simp: s')
qed

end
