(* ===== verification/ExternalProps.thy ===== *)
theory ExternalProps
  imports ExternalInv
begin

section \<open>Processing keeps transfers and holds together\<close>

text \<open>
  Processing a claimed row, the investigator's two actions, and every ledger operation other
  clients run, as steps of one relation; the invariant over its reachable states; and that
  \<open>ProcessPending\<close> and \<open>ResolveStuck\<close> take such steps only.
\<close>

subsection \<open>Hold operations seen from the transfers\<close>

lemma ReleaseHold_ext [simp]:
  assumes "ReleaseHold h s = (res, s1)"
  shows "ext_transfers s1 = ext_transfers s" "assessments s1 = assessments s" "rail_cache s1 = rail_cache s"
  using ReleaseHold_frame [OF assms] by auto

lemma CaptureHold_ext:
  assumes "CaptureHold c h key s = (res, s1)"
  shows "ext_transfers s1 = ext_transfers s" "assessments s1 = assessments s" "rail_cache s1 = rail_cache s"
  using CaptureHold_frame [OF assms] by auto

lemma posting_ext:
  assumes "postTransaction c ty key legs s = (res, s1)"
  shows "ext_transfers s1 = ext_transfers s" "assessments s1 = assessments s" "rail_cache s1 = rail_cache s"
    "holds s1 = holds s"
  using posting_frame [OF assms] by auto

lemma Credit_ext:
  assumes "Credit c a amt key s = (res, s1)"
  shows "ext_transfers s1 = ext_transfers s" "assessments s1 = assessments s" "rail_cache s1 = rail_cache s"
    "holds s1 = holds s"
  using assms posting_ext by (auto simp: Credit_def split: sum.splits)

lemma release_row:
  assumes "ReleaseHold h s = (Inr u, s1)" and "find_row h_id h (holds s) = Some x"
  shows "find_row h_id h (holds s1) = Some (x\<lparr>h_status := HoldStatusReleased\<rparr>)"
  using assms by (auto simp: ReleaseHold_def find_hold_update elim!: resolveHold_done)

lemma ReleaseHold_error: "ReleaseHold h s = (Inl e, s1) \<Longrightarrow> s1 = s"
  by (auto simp: ReleaseHold_def dest: resolveHold_error)

lemma CaptureHold_error: "CaptureHold c h key s = (Inl e, s1) \<Longrightarrow> s1 = s"
  by (auto simp: CaptureHold_def split: prod.splits dest: capture.error_rolls_back)

lemma Credit_error: "Credit c a amt key s = (Inl e, s1) \<Longrightarrow> s1 = s"
  by (auto simp: Credit_def postTransaction_def split: sum.splits prod.splits dest: post.error_rolls_back)

lemma capture_row:
  assumes run: "CaptureHold c h key s = (Inr t, s1)" and inv: "capture_inv s"
    and x: "find_row h_id h (holds s) = Some x" "h_status x = HoldStatusActive"
  shows "find_row h_id h (holds s1) = Some (x\<lparr>h_status := HoldStatusCaptured\<rparr>)"
proof -
  have "holds s1 = update_row h_id h (\<lambda>r. r\<lparr>h_status := HoldStatusCaptured\<rparr>) (holds s)"
    by (rule capture_success [OF run capture_runs [OF run inv x]]) simp
  with x(1) show ?thesis by (simp add: find_hold_update)
qed

subsection \<open>One row\<close>

lemma row_of:
  assumes "ext_inv s" and "r \<in> set (ext_transfers s)"
  shows "find_row et_id (et_id r) (ext_transfers s) = Some r" and "row_ok (holds s) r"
  using assms by (simp_all add: ext_inv_def find_row_distinct)

lemma finalize_failed_inv:
  assumes run: "finalize_failed c (claimed_of r) res s = (out, s')" and inv: "ext_inv s"
    and r: "r \<in> set (ext_transfers s)" "et_status r = StatusProcessing"
  shows "ext_inv s'"
proof -
  note row = row_of [OF inv r(1)]
  let ?f = "\<lambda>r. r\<lparr>et_status := StatusFailed, et_rail_ref := Some (rr_reference res),
           et_error := Some (rr_failure res), et_completed := Some (now c)\<rparr>"
  show ?thesis
  proof (cases "et_hold r")
    case None
    with run row(2) have s': "s' = set_status (et_id r) ?f s"
      by (simp add: finalize_failed_def row_ok_def)
    have "capture_inv s'" using ext_inv_capture [OF inv] by (simp add: s' set_status_def capture_inv_def)
    then show ?thesis using row(2) None r(2)
      by (intro upd_failed.ext_inv_update [OF inv row(1)])
         (auto simp: s' set_status_def row_ok_def)
  next
    case (Some h)
    with row(2) r(2) have dir: "et_direction r = DirectionOutbound"
      and hold: "find_row h_id h (holds s) = Some \<lparr>h_id = h, h_account = et_account r, h_amount = et_amount r,
                                    h_status = HoldStatusActive\<rparr>"
      by (auto simp: row_ok_def hold_for_def)
    obtain rel s1 where rel: "ReleaseHold h s = (rel, s1)" by fastforce
    show ?thesis
    proof (cases rel)
      case (Inl e)
      with run rel Some dir ReleaseHold_error [of h s e s1] inv show ?thesis
        by (simp add: finalize_failed_def)
    next
      case (Inr u)
      with run rel Some dir have s': "s' = set_status (et_id r) ?f s1"
        by (simp add: finalize_failed_def)
      have h1: "holds s' = holds s1" "ext_transfers s' = update_row et_id (et_id r) ?f (ext_transfers s)"
        using rel by (simp_all add: s' set_status_def)
      have "capture_inv s1" by (rule ReleaseHold_capture_inv [OF rel ext_inv_capture [OF inv]])
      then have "capture_inv s'" by (simp add: s' set_status_def capture_inv_def)
      then show ?thesis
        using release_row [OF rel [unfolded Inr] hold] ReleaseHold_find_other [OF rel] row(2) Some dir r(2)
        by (intro upd_failed.ext_inv_update [OF inv row(1) h1(2)]) (auto simp: h1(1) row_ok_def hold_for_def)
    qed
  qed
qed

lemma finalize_succeeded_inv:
  assumes run: "finalize_succeeded c (claimed_of r) res s = (out, s')" and inv: "ext_inv s"
    and r: "r \<in> set (ext_transfers s)" "et_status r = StatusProcessing" and hex: "hex_sha c"
  shows "ext_inv s'"
proof (cases "s' = s")
  case False
  note row = row_of [OF inv r(1)]
  let ?f = "\<lambda>t r. r\<lparr>et_status := StatusCompleted, et_rail_ref := Some (rr_reference res),
               et_txn := Some t, et_completed := Some (now c)\<rparr>"
  let ?amt = "\<lparr>minor = et_amount r, currency = et_currency r\<rparr>"
  show ?thesis
  proof (cases "et_hold r")
    case None
    with row(2) have dir: "et_direction r = DirectionInbound" by (simp add: row_ok_def)
    obtain cr s1 where cr: "Credit c (et_account r) ?amt (et_key r) s = (cr, s1)" by fastforce
    with run dir None False obtain t where t: "cr = Inr t" and s': "s' = set_status (et_id r) (?f (t_id t)) s1"
      by (cases cr) (auto simp: finalize_succeeded_def NewMoney_def dest: Credit_error split: if_splits)
    have h1: "holds s' = holds s" "ext_transfers s' = update_row et_id (et_id r) (?f (t_id t)) (ext_transfers s)"
      using Credit_ext [OF cr] by (simp_all add: s' set_status_def)
    have "capture_inv s1" by (rule Credit_capture_inv [OF cr ext_inv_capture [OF inv] hex])
    then have "capture_inv s'" by (simp add: s' set_status_def capture_inv_def)
    then show ?thesis using row(2) None r(2)
      by (intro upd_completed.ext_inv_update [OF inv row(1) h1(2)]) (auto simp: h1(1) row_ok_def)
  next
    case (Some h)
    with row(2) r(2) have dir: "et_direction r = DirectionOutbound"
      and hold: "find_row h_id h (holds s) = Some \<lparr>h_id = h, h_account = et_account r, h_amount = et_amount r,
                                    h_status = HoldStatusActive\<rparr>"
      by (auto simp: row_ok_def hold_for_def)
    obtain cr s1 where cr: "CaptureHold c h (et_key r) s = (cr, s1)" by fastforce
    with run dir Some False obtain t where t: "cr = Inr t" and s': "s' = set_status (et_id r) (?f (t_id t)) s1"
      by (cases cr) (auto simp: finalize_succeeded_def NewMoney_def dest: CaptureHold_error split: if_splits)
    have h1: "holds s' = holds s1" "ext_transfers s' = update_row et_id (et_id r) (?f (t_id t)) (ext_transfers s)"
      using CaptureHold_ext [OF cr] by (simp_all add: s' set_status_def)
    have "capture_inv s1" by (rule CaptureHold_capture_inv [OF cr ext_inv_capture [OF inv]])
    then have "capture_inv s'" by (simp add: s' set_status_def capture_inv_def)
    then show ?thesis
      using capture_row [OF cr [unfolded t] ext_inv_capture [OF inv] hold] CaptureHold_find_other [OF cr] row(2) Some dir r(2)
      by (intro upd_completed.ext_inv_update [OF inv row(1) h1(2)]) (auto simp: h1(1) row_ok_def hold_for_def)
  qed
qed (use inv in simp)

lemma finalize_inv:
  assumes run: "finalize c dl (claimed_of r) s = (out, s')" and inv: "ext_inv s"
    and r: "r \<in> set (ext_transfers s)" "et_status r = StatusProcessing" and hex: "hex_sha c"
  shows "ext_inv s'"
proof -
  let ?req = "\<lparr>pq_direction = et_direction r, pq_counterparty = et_counterparty r, pq_amount = et_amount r,
                pq_currency = et_currency r, pq_client_ref = et_id r\<rparr>"
  obtain rs m where rs: "rail_Send dl (gen c 3) (et_rail r) ?req (rail_cache s) = (rs, m)" by fastforce
  let ?s1 = "s\<lparr>rail_cache := m\<rparr>"
  have inv1: "ext_inv ?s1" and r1: "r \<in> set (ext_transfers ?s1)" using inv r(1) by simp_all
  have eq: "(out, s') = (if et_rail r \<in> set rail_names
      then (case rs of Inl _ \<Rightarrow> (Inr (), ?s1)
            | Inr res \<Rightarrow> if rr_status res = RailFailed then finalize_failed c (claimed_of r) res ?s1
                        else finalize_succeeded c (claimed_of r) res ?s1)
      else (Inl ErrUnknownRail, s))"
    using run by (cases rs; cases "et_rail r \<in> set rail_names") (simp_all add: finalize_def registry_Get_def rs)
  show ?thesis
  proof (cases "et_rail r \<in> set rail_names")
    case True
    show ?thesis
    proof (cases rs)
      case (Inl e)
      with eq True inv1 show ?thesis by simp
    next
      case (Inr res)
      with eq True have "finalize_failed c (claimed_of r) res ?s1 = (out, s') \<or>
          finalize_succeeded c (claimed_of r) res ?s1 = (out, s')" by (simp split: if_splits)
      then show ?thesis
        using finalize_failed_inv [OF _ inv1 r1 r(2)] finalize_succeeded_inv [OF _ inv1 r1 r(2) hex] by blast
    qed
  next
    case False
    with eq inv show ?thesis by simp
  qed
qed

subsection \<open>The risk gate\<close>

lemma assess_record_frame:
  assumes "assess_record c screen tid s = (res, s1)"
  shows "\<exists>as. s1 = s\<lparr>assessments := as\<rparr>"
proof -
  have "\<exists>as. s = s\<lparr>assessments := as\<rparr>" by (rule exI [of _ "assessments s"]) simp
  with assms show ?thesis
    by (auto simp: assess_record_def risk_record_def split: sum.splits if_splits)
qed

lemma assess_record_done:
  assumes "assess_record c screen tid s = (Inr (a, tf), s1)"
  shows "as_source a = tid" and "loadTransfer tid s = Inr tf"
  using assms by (auto simp: assess_record_def risk_evaluate_def Let_def split: sum.splits if_splits prod.splits)

lemma loadTransfer_row:
  "find_row et_id tid (ext_transfers s) = Some r \<Longrightarrow> loadTransfer tid s = Inr tf \<Longrightarrow> tf_hold tf = et_hold r"
  by (auto simp: loadTransfer_def)

lemma failAndRelease_inv:
  assumes run: "failAndRelease c tid (et_hold r) reason s = (res, s')" and inv: "ext_inv s"
    and r: "find_row et_id tid (ext_transfers s) = Some r"
    and st: "et_status r = StatusPending \<or> et_status r = StatusProcessing"
  shows "ext_inv s'"
proof -
  have row: "row_ok (holds s) r" using row_of(2) [OF inv] find_row_Some [OF r] by blast
  let ?f = "\<lambda>r. r\<lparr>et_status := StatusFailed, et_risk := RiskBlocked, et_error := Some reason,
                  et_completed := Some (now c)\<rparr>"
  show ?thesis
  proof (cases "et_hold r")
    case None
    with run have s': "s' = s\<lparr>ext_transfers := update_row et_id tid ?f (ext_transfers s)\<rparr>"
      by (simp add: failAndRelease_def)
    have "capture_inv s'" using ext_inv_capture [OF inv] by (simp add: s' capture_inv_def)
    then show ?thesis using row None
      by (intro upd_blocked.ext_inv_update [OF inv r]) (auto simp: s' row_ok_def)
  next
    case (Some h)
    with row st have dir: "et_direction r = DirectionOutbound"
      and hold: "find_row h_id h (holds s) = Some \<lparr>h_id = h, h_account = et_account r, h_amount = et_amount r,
                                    h_status = HoldStatusActive\<rparr>"
      by (auto simp: row_ok_def hold_for_def)
    obtain rel s1 where rel: "ReleaseHold h s = (rel, s1)" by fastforce
    show ?thesis
    proof (cases rel)
      case (Inl e)
      with run rel Some ReleaseHold_error [of h s e s1] inv show ?thesis by (simp add: failAndRelease_def)
    next
      case (Inr u)
      with run rel Some have s': "s' = s1\<lparr>ext_transfers := update_row et_id tid ?f (ext_transfers s1)\<rparr>"
        by (simp add: failAndRelease_def)
      have h1: "holds s' = holds s1" "ext_transfers s' = update_row et_id tid ?f (ext_transfers s)"
        using rel by (simp_all add: s')
      have "capture_inv s1" by (rule ReleaseHold_capture_inv [OF rel ext_inv_capture [OF inv]])
      then have "capture_inv s'" by (simp add: s' capture_inv_def)
      then show ?thesis
        using release_row [OF rel [unfolded Inr] hold] ReleaseHold_find_other [OF rel] Some dir
        by (intro upd_blocked.ext_inv_update [OF inv r h1(2)]) (auto simp: h1(1) row_ok_def hold_for_def)
    qed
  qed
qed

text \<open>Marking a processing row held and sending it back to pending, as one update.\<close>

interpretation upd_revert: et_update "\<lambda>r. r\<lparr>et_risk := k, et_status := st\<rparr>" for k st
  by unfold_locales simp_all

lemma update_row_twice:
  "(\<And>r. key (f r) = key r) \<Longrightarrow> update_row key k g (update_row key k f rows) = update_row key k (\<lambda>r. g (f r)) rows"
  by (simp add: update_row_def)

lemma hold_revert_inv:
  assumes inv: "ext_inv s" and r: "find_row et_id tid (ext_transfers s) = Some r" "et_status r = StatusProcessing"
    and rows: "ext_transfers s' = update_row et_id tid (\<lambda>r. r\<lparr>et_status := StatusPending\<rparr>)
        (update_row et_id tid (\<lambda>r. r\<lparr>et_risk := RiskHeld\<rparr>) (ext_transfers s))"
    and same: "holds s' = holds s" "idem_keys s' = idem_keys s"
  shows "ext_inv s'"
proof -
  have row: "row_ok (holds s) r" using row_of(2) [OF inv] find_row_Some [OF r(1)] by blast
  have "capture_inv s'" using ext_inv_capture [OF inv] by (simp add: capture_inv_def same)
  moreover have "ext_transfers s' = update_row et_id tid (\<lambda>r. r\<lparr>et_risk := RiskHeld, et_status := StatusPending\<rparr>) (ext_transfers s)"
    unfolding rows by (simp add: update_row_twice)
  ultimately show ?thesis using row r(2)
    by (intro upd_revert.ext_inv_update [OF inv r(1)]) (auto simp: same row_ok_def hold_for_def split: option.splits)
qed

lemma processRow_cases:
  assumes "processRow c screen dl row s = (out, s')"
  obtains (final) as where "finalize c dl row (s\<lparr>assessments := as\<rparr>) = (out, s')"
  | (error) as where "s' = s\<lparr>assessments := as\<rparr>" and "\<exists>e. out = Inl e"
  | (held) as where "s' = set_status (cr_id row) (\<lambda>r. r\<lparr>et_status := StatusPending\<rparr>)
      (s\<lparr>assessments := as, ext_transfers := update_row et_id (cr_id row) (\<lambda>r. r\<lparr>et_risk := RiskHeld\<rparr>) (ext_transfers s)\<rparr>)"
  | (blocked) as tf res where "failAndRelease c (cr_id row) (tf_hold tf) ''blocked by risk assessment'' (s\<lparr>assessments := as\<rparr>) = (res, s')"
      "loadTransfer (cr_id row) s = Inr tf"
proof -
  have same: "s = s\<lparr>assessments := assessments s\<rparr>" by simp
  show thesis
  proof (cases "Assessed (cr_id row) s")
    case True
    with assms have "finalize c dl row s = (out, s')" by (simp add: processRow_def)
    with same show thesis by (intro final [of "assessments s"]) simp
  next
    case False
    then have none: "getExisting (cr_id row) s = None"
      by (simp add: Assessed_def getExisting_def find_row_None)
    obtain ar s1 where ar: "assess_record c screen (cr_id row) s = (ar, s1)" by fastforce
    from assess_record_frame [OF ar] obtain as where s1: "s1 = s\<lparr>assessments := as\<rparr>" by blast
    show thesis
    proof (cases ar)
      case (Inl e)
      with assms False none ar have "s' = s1" "out = Inl e" by (simp_all add: processRow_def Assess_def)
      with s1 show thesis by (intro error [of as]) simp_all
    next
      case (Inr p)
      then obtain a tf where p: "ar = Inr (a, tf)" by (cases p) simp
      from assess_record_done [OF ar [unfolded p]] have a: "as_source a = cr_id row"
        and tf: "loadTransfer (cr_id row) s = Inr tf" by simp_all
      have Assess: "Assess c screen (cr_id row) s = assess_apply c a tf s1"
        using none ar p by (simp add: Assess_def)
      show thesis
      proof (cases "as_decision a")
        case DecisionAllow
        with assms False Assess have "finalize c dl row s1 = (out, s')"
          by (simp add: processRow_def assess_apply_def)
        with s1 show thesis by (intro final) simp
      next
        case DecisionHold
        with assms False Assess a s1 show thesis
          by (intro held [of as]) (simp add: processRow_def assess_apply_def)
      next
        case DecisionBlock
        obtain fr s2 where fr: "failAndRelease c (cr_id row) (tf_hold tf) ''blocked by risk assessment'' s1 = (fr, s2)"
          by fastforce
        with assms False Assess DecisionBlock a have "s' = s2"
          by (cases fr) (simp_all add: processRow_def assess_apply_def)
        with fr tf s1 show thesis by (intro blocked [of tf as fr]) simp_all
      qed
    qed
  qed
qed

lemma processRow_inv:
  assumes run: "processRow c screen dl (claimed_of r) s = (out, s')" and inv: "ext_inv s"
    and r: "r \<in> set (ext_transfers s)" "et_status r = StatusProcessing" and hex: "hex_sha c"
  shows "ext_inv s'"
  using run
proof (cases rule: processRow_cases)
  case (final as)
  then show ?thesis
    using finalize_inv [OF final _ _ r(2) hex] inv r(1) by simp
next
  case (error as)
  then show ?thesis using inv by simp
next
  case (held as)
  then show ?thesis
    using row_of(1) [OF inv r(1)] by (intro hold_revert_inv [OF inv _ r(2)]) (auto simp: set_status_def)
next
  case (blocked as tf res)
  have row: "find_row et_id (et_id r) (ext_transfers s) = Some r" by (rule row_of(1) [OF inv r(1)])
  then have "tf_hold tf = et_hold r" using blocked(2) loadTransfer_row by simp
  then have fr: "failAndRelease c (et_id r) (et_hold r) ''blocked by risk assessment'' (s\<lparr>assessments := as\<rparr>) = (res, s')"
    using blocked(1) by simp
  show ?thesis by (rule failAndRelease_inv [OF fr]) (simp_all add: inv row r(2))
qed

lemma Approve_inv:
  assumes "Approve tid s = (res, s')" and inv: "ext_inv s"
  shows "ext_inv s'"
proof (cases "s' = s")
  case False
  with assms(1) obtain r where r: "find_row et_id tid (ext_transfers s) = Some r" "et_risk r = RiskHeld"
    and s': "s' = s\<lparr>ext_transfers := update_row et_id tid (\<lambda>r. r\<lparr>et_risk := RiskClear\<rparr>) (ext_transfers s)\<rparr>"
    by (auto simp: Approve_def split: option.splits if_splits)
  have "row_ok (holds s) r" using row_of(2) [OF inv] find_row_Some [OF r(1)] by blast
  then show ?thesis using ext_inv_capture [OF inv]
    by (intro upd_risk.ext_inv_update [OF inv r(1)]) (auto simp: s' row_ok_def capture_inv_def split: option.splits)
qed (use inv in simp)

lemma Block_inv:
  assumes "Block c tid s = (res, s')" and inv: "ext_inv s"
  shows "ext_inv s'"
proof (cases "s' = s")
  case False
  with assms(1) obtain r where r: "find_row et_id tid (ext_transfers s) = Some r" "et_risk r = RiskHeld"
    and run: "failAndRelease c tid (et_hold r) ''blocked by investigator'' s = (res, s')"
    by (auto simp: Block_def split: option.splits if_splits)
  have "row_ok (holds s) r" using row_of(2) [OF inv] find_row_Some [OF r(1)] by blast
  then have "et_status r = StatusPending" using r(2) by (simp add: row_ok_def)
  then show ?thesis by (intro failAndRelease_inv [OF run inv r(1)]) simp
qed (use inv in simp)

subsection \<open>Steps\<close>

inductive ext_step :: "'z ext_db_scheme \<Rightarrow> 'z ext_db_scheme \<Rightarrow> bool" where
  x_send: "ext_send c dir a rn cp amt key bid s = (res, s') \<Longrightarrow> ext_step s s'"
| x_claim: "claim_pending c s = (rows, s') \<Longrightarrow> ext_step s s'"
| x_stuck: "claim_stuck c s = (rows, s') \<Longrightarrow> ext_step s s'"
| x_process: "processRow c screen dl (claimed_of r) s = (out, s') \<Longrightarrow> r \<in> set (ext_transfers s) \<Longrightarrow>
    et_status r = StatusProcessing \<Longrightarrow> hex_sha c \<Longrightarrow> ext_step s s'"
| x_approve: "Approve tid s = (out, s') \<Longrightarrow> ext_step s s'"
| x_block: "Block c tid s = (out, s') \<Longrightarrow> ext_step s s'"
| x_transfer: "Transfer c f t amt key s = (out, s') \<Longrightarrow> hex_sha c \<Longrightarrow> ext_step s s'"
| x_credit: "Credit c a amt key s = (out, s') \<Longrightarrow> hex_sha c \<Longrightarrow> ext_step s s'"
| x_debit: "Debit c a amt key s = (out, s') \<Longrightarrow> hex_sha c \<Longrightarrow> ext_step s s'"
| x_hold: "PlaceHold c a amt s = (out, s') \<Longrightarrow> ext_step s s'"
| x_release: "ReleaseHold k s = (out, s') \<Longrightarrow> \<forall>r\<in>set (ext_transfers s). et_hold r \<noteq> Some k \<Longrightarrow> ext_step s s'"
| x_capture: "CaptureHold c k key s = (out, s') \<Longrightarrow> \<forall>r\<in>set (ext_transfers s). et_hold r \<noteq> Some k \<Longrightarrow> ext_step s s'"

inductive_cases ext_stepE: "ext_step s s'"

lemma ext_inv_ledger:
  assumes "ext_inv s" and "ext_transfers s' = ext_transfers s" and "holds s' = holds s" and "capture_inv s'"
  shows "ext_inv s'"
  using assms by (intro ext_inv_holds [OF assms(1)]) simp_all

lemma ext_step_inv: "ext_step s s' \<Longrightarrow> ext_inv s \<Longrightarrow> ext_inv s'"
proof (induction rule: ext_step.induct)
  case (x_transfer c f t amt key s out s')
  then show ?case
    by (auto intro!: ext_inv_ledger [of s s'] Transfer_capture_inv [of c f t amt key s out s']
        simp: Transfer_def posting_ext ext_inv_capture)
next
  case (x_credit c a amt key s out s')
  then show ?case
    by (auto intro!: ext_inv_ledger [of s s'] Credit_capture_inv [of c a amt key s out s']
        simp: Credit_ext ext_inv_capture)
next
  case (x_debit c a amt key s out s')
  have "ext_transfers s' = ext_transfers s" "holds s' = holds s"
    using x_debit(1) posting_ext by (auto simp: Debit_def split: sum.splits)
  with x_debit show ?case
    by (auto intro!: ext_inv_ledger [of s s'] Debit_capture_inv [of c a amt key s out s'] simp: ext_inv_capture)
next
  case (x_hold c a amt s out s')
  have "ext_transfers s' = ext_transfers s" using PlaceHold_frame [OF x_hold(1)] by auto
  moreover have "find_row h_id h (holds s') = find_row h_id h (holds s)"
    if rin: "r \<in> set (ext_transfers s)" "et_hold r = Some h" for r h
  proof -
    obtain x where "find_row h_id h (holds s) = Some x"
      using row_of(2) [OF x_hold(2) rin(1)] rin(2) by (auto simp: row_ok_def)
    then show ?thesis using PlaceHold_find [OF x_hold(1)] by simp
  qed
  ultimately show ?case
    using PlaceHold_capture_inv [OF x_hold(1) ext_inv_capture [OF x_hold(2)]]
    by (intro ext_inv_holds [OF x_hold(2)])
next
  case (x_release k s out s')
  then show ?case
    using ReleaseHold_capture_inv [OF x_release(1) ext_inv_capture] ReleaseHold_find_other [OF x_release(1)]
    by (intro ext_inv_holds [of s s']) auto
next
  case (x_capture c k key s out s')
  then show ?case
    using CaptureHold_capture_inv [OF x_capture(1) ext_inv_capture] CaptureHold_find_other [OF x_capture(1)]
      CaptureHold_ext [OF x_capture(1)]
    by (intro ext_inv_holds [of s s']) auto
qed (auto intro: ext_send_inv claim_pending_inv claim_stuck_inv processRow_inv Approve_inv Block_inv)

text \<open>A database before its first external transfer, hold and capture.\<close>

definition ext_start :: "'z ext_db_scheme \<Rightarrow> bool" where
  "ext_start s \<longleftrightarrow> ext_transfers s = [] \<and> capture_inv s"

inductive ext_reachable :: "'z ext_db_scheme \<Rightarrow> bool" where
  ext_init: "ext_start s \<Longrightarrow> ext_reachable s"
| ext_next: "ext_reachable s \<Longrightarrow> ext_step s s' \<Longrightarrow> ext_reachable s'"

lemma ext_start_inv: "ext_start s \<Longrightarrow> ext_inv s"
  by (simp add: ext_start_def ext_inv_def one_owner_def)

lemma ext_reachable_inv: "ext_reachable s \<Longrightarrow> ext_inv s"
  by (induction rule: ext_reachable.induct) (auto intro: ext_step_inv ext_start_inv)

end
