(* ===== verification/Onboarding.thy ===== *)
theory Onboarding
  imports LedgerProps
begin

section \<open>Onboarding\<close>

text \<open>
  \<open>internal/onboarding\<close>: registration, KYC and sanctions screening as one transaction.  The KYC
  provider and the screener are interfaces in the code and parameters here; \<open>stub_verify\<close> and
  \<open>stub_screen\<close> are the implementations the repository ships.
\<close>

record beneficial_owner_input =
  in_name :: string
  in_percent :: int

fun kind_str :: "kind \<Rightarrow> string" where
  "kind_str KindIndividual = ''individual''"
| "kind_str KindBusiness = ''business''"
| "kind_str KindSystem = ''system''"

fun result_str :: "kyc_result \<Rightarrow> string" where
  "result_str ResultPass = ''pass''"
| "result_str ResultReview = ''review''"
| "result_str ResultFail = ''fail''"

fun insert_owners :: "uuid \<Rightarrow> beneficial_owner_input list \<Rightarrow> 'z identity_db_scheme
    \<Rightarrow> gerror + 'z identity_db_scheme" where
  "insert_owners uid [] s = Inr s"
| "insert_owners uid (o1 # os) s =
    (case InsertBeneficialOwner uid (in_name o1) (in_percent o1) s of
       Inl e \<Rightarrow> Inl e
     | Inr s' \<Rightarrow> insert_owners uid os s')"

text \<open>The target status, the audit action and the tier the overall result leads to.\<close>

definition onboarding_target :: "kyc_result \<Rightarrow> int \<Rightarrow> id_status \<times> string \<times> int" where
  "onboarding_target overall tier =
    (case overall of
       ResultPass \<Rightarrow> (IdActive, ''identity.activated'', tier)
     | ResultFail \<Rightarrow> (IdRejected, ''identity.rejected'', tier)
     | ResultReview \<Rightarrow> (IdPending, ''identity.pending_review'', 0))"

definition register_tx ::
  "(applicant \<Rightarrow> gerror + check_outcome list) \<Rightarrow> (string \<Rightarrow> gerror + check_outcome list)
    \<Rightarrow> ('z identity_db_scheme \<Rightarrow> gerror + (identity \<times> 'z identity_db_scheme))
    \<Rightarrow> string \<Rightarrow> string \<Rightarrow> beneficial_owner_input list \<Rightarrow> 'z identity_db_scheme
    \<Rightarrow> gerror + (identity \<times> 'z identity_db_scheme)" where
  "register_tx verify screen ins legalName addr owners s =
    (case ins s of Inl e \<Rightarrow> Inl e | Inr (i, s1) \<Rightarrow>
     (case insert_owners (id_id i) owners s1 of Inl e \<Rightarrow> Inl e | Inr s2 \<Rightarrow>
     (case audit_Record (Some (id_id i)) ''identity.registered'' ''identity'' (id_id i)
             [(''kind'', JStr (kind_str (id_kind i)))] s2 of Inl e \<Rightarrow> Inl e | Inr s3 \<Rightarrow>
     (case verify \<lparr>legal_name = legalName, address = addr\<rparr> of Inl e \<Rightarrow> Inl e | Inr kycOutcomes \<Rightarrow>
     (case RecordChecks (id_id i) kycOutcomes s3 of Inl e \<Rightarrow> Inl e | Inr s4 \<Rightarrow>
     (case screen legalName of Inl e \<Rightarrow> Inl e | Inr screenOutcomes \<Rightarrow>
     (case RecordChecks (id_id i) screenOutcomes s4 of Inl e \<Rightarrow> Inl e | Inr s5 \<Rightarrow>
        let (tier0, overall) = evaluate_kyc (kycOutcomes @ screenOutcomes);
            (target, action, tier) = onboarding_target overall tier0;
            upd = (if target = IdPending then Inr (i, s5)
                   else case SetStatusAndTier (id_id i) target tier s5 of
                          Inl e \<Rightarrow> Inl e
                        | Inr s6 \<Rightarrow> Inr (i\<lparr>id_stat := target, id_tier := tier\<rparr>, s6))
        in case upd of Inl e \<Rightarrow> Inl e | Inr (i', s6) \<Rightarrow>
           (case audit_Record (Some (id_id i)) action ''identity'' (id_id i)
                   [(''tier'', JInt tier), (''overall'', JStr (result_str overall))] s6 of
              Inl e \<Rightarrow> Inl e
            | Inr s7 \<Rightarrow> Inr (i', s7)))))))))"

definition register ::
  "(applicant \<Rightarrow> gerror + check_outcome list) \<Rightarrow> (string \<Rightarrow> gerror + check_outcome list)
    \<Rightarrow> ('z identity_db_scheme \<Rightarrow> gerror + (identity \<times> 'z identity_db_scheme))
    \<Rightarrow> string \<Rightarrow> string \<Rightarrow> beneficial_owner_input list \<Rightarrow> 'z identity_db_scheme
    \<Rightarrow> (gerror + identity) \<times> 'z identity_db_scheme" where
  "register verify screen ins legalName addr owners s =
    (case register_tx verify screen ins legalName addr owners s of
       Inl e \<Rightarrow> (Inl e, s)
     | Inr (i, s') \<Rightarrow> (Inr i, s'))"

definition RegisterIndividual where
  "RegisterIndividual c verify screen email phone passwordHash legalName addr s =
    register verify screen (insert_identity (gen c 0) KindIndividual email phone passwordHash legalName)
      legalName addr [] s"

definition RegisterBusiness where
  "RegisterBusiness c verify screen email phone passwordHash legalName addr owners s =
    register verify screen (insert_identity (gen c 0) KindBusiness email phone passwordHash legalName)
      legalName addr owners s"

text \<open>The providers the code wires in: neither ever fails.\<close>

definition stub_kyc :: "applicant \<Rightarrow> gerror + check_outcome list" where
  "stub_kyc a = Inr (stub_verify a)"

definition stub_screener :: "string \<Rightarrow> gerror + check_outcome list" where
  "stub_screener n = Inr (stub_screen n)"

subsection \<open>Lemmas\<close>

lemma register_rolls_back: "register v sc ins n a os s = (Inl e, s') \<Longrightarrow> s' = s"
  by (auto simp: register_def split: sum.splits)

lemma insert_identity_ok:
  assumes "insert_identity u k em ph pw n s = Inr (i, s')"
  shows "s' = s\<lparr>identities := identities s @ [i]\<rparr>" and "id_id i = u" and "id_stat i = IdPending"
    and "id_kind i = k" and "id_email i = em" and "id_tier i = 0" and "id_role i = RoleCustomer"
    and "\<not> key_taken id_id u (identities s)" and "\<not> key_taken id_email em (identities s)"
  using assms by (auto simp: insert_identity_def Let_def split: if_splits)

lemma insert_owners_Inr:
  "key_taken id_id u (identities s) \<Longrightarrow> \<forall>x\<in>set os. 0 < in_percent x \<and> in_percent x \<le> 10000 \<Longrightarrow>
   insert_owners u os s = Inr (s\<lparr>beneficial_owners := beneficial_owners s @
     map (\<lambda>x. \<lparr>bo_business = u, bo_name = in_name x, bo_percent = in_percent x\<rparr>) os\<rparr>)"
  by (induction os arbitrary: s) (auto simp: InsertBeneficialOwner_def)

text \<open>What the shipped providers report for a name and an address.\<close>

definition kyc_clean :: "string \<Rightarrow> string \<Rightarrow> bool" where
  "kyc_clean n a \<longleftrightarrow> \<not> str_contains n failMarker \<and> \<not> str_contains a failMarker"

definition expected_tier :: "string \<Rightarrow> string \<Rightarrow> int" where
  "expected_tier n a = (if str_contains n failMarker then 0 else if str_contains a failMarker then 1 else 2)"

lemma stub_evaluate:
  "evaluate_kyc (stub_verify \<lparr>legal_name = n, address = a\<rparr> @ stub_screen n) =
    (expected_tier n a,
     if kyc_clean n a \<and> \<not> str_contains n sanctionedMarker then ResultPass else ResultFail)"
  by (simp add: evaluate_kyc_def stub_verify_def stub_screen_def eval_step_def Let_def
      expected_tier_def kyc_clean_def)

lemma SetStatusAndTier_ok:
  assumes "find_row id_id u (identities s) = Some i" and "id_stat i = IdPending"
    and "t = IdActive \<or> t = IdRejected" and "k \<in> {0, 1, 2}"
  shows "SetStatusAndTier u t k s = Inr (s\<lparr>identities := update_row id_id u
           (\<lambda>r. r\<lparr>id_stat := t, id_tier := k\<rparr>) (identities s)\<rparr>)"
  using assms by (auto simp: SetStatusAndTier_def id_CanTransitionTo_def)

lemma expected_tier_range: "expected_tier n a \<in> {0, 1, 2}"
  by (simp add: expected_tier_def)

text \<open>
  Registration with the shipped providers, under a free id and e-mail and with valid ownership
  shares, never fails; it writes the identity, its owners, five checks and two audit rows.
\<close>

lemma register_run:
  assumes "\<not> key_taken id_id u (identities s)" and "\<not> key_taken id_email em (identities s)"
    and "\<forall>x\<in>set os. 0 < in_percent x \<and> in_percent x \<le> 10000"
  shows "\<exists>i s'. register stub_kyc stub_screener (insert_identity u k em ph pw n) n a os s = (Inr i, s')
    \<and> find_row id_id u (identities s') = Some i \<and> id_email i = em \<and> id_kind i = k
    \<and> id_stat i = (if kyc_clean n a \<and> \<not> str_contains n sanctionedMarker then IdActive else IdRejected)
    \<and> id_tier i = expected_tier n a
    \<and> length (kyc_checks s') = length (kyc_checks s) + 5
    \<and> map au_action (audit_log s') = map au_action (audit_log s) @
        [''identity.registered'', if id_stat i = IdActive then ''identity.activated'' else ''identity.rejected'']"
proof -
  let ?i = "\<lparr>id_id = u, id_kind = k, id_stat = IdPending, id_tier = 0, id_email = em,
                   id_phone = ph, id_password_hash = pw, id_legal_name = n, id_role = RoleCustomer\<rparr>"
  let ?t = "if kyc_clean n a \<and> \<not> str_contains n sanctionedMarker then IdActive else IdRejected"
  let ?k = "expected_tier n a"
  have ins: "insert_identity u k em ph pw n s = Inr (?i, s\<lparr>identities := identities s @ [?i]\<rparr>)"
    using assms by (simp add: insert_identity_def Let_def)
  have find: "find_row id_id u (identities s @ [?i]) = Some ?i"
    using assms(1) by (simp add: find_row_append find_row_Cons find_row_None [symmetric])
  have set: "SetStatusAndTier u ?t ?k s6 = Inr (s6\<lparr>identities := update_row id_id u
           (\<lambda>r. r\<lparr>id_stat := ?t, id_tier := ?k\<rparr>) (identities s6)\<rparr>)"
    if "identities s6 = identities s @ [?i]" for s6 :: "'a identity_db_scheme"
    using find that by (intro SetStatusAndTier_ok [of _ _ ?i]) (simp_all add: expected_tier_range [simplified])
  have found: "find_row id_id u (update_row id_id u (\<lambda>r. r\<lparr>id_stat := ?t, id_tier := ?k\<rparr>)
      (identities s @ [?i])) = Some (?i\<lparr>id_stat := ?t, id_tier := ?k\<rparr>)"
    by (simp only: set_status.find find option.map) simp
  show ?thesis
  proof (cases "kyc_clean n a \<and> \<not> str_contains n sanctionedMarker")
    case True
    then have B: "(kyc_clean n a \<and> \<not> str_contains n sanctionedMarker) = True" by simp
    note run = set [unfolded B if_True] found [unfolded B if_True] stub_evaluate [of n a, unfolded B if_True]
    show ?thesis
      unfolding B if_True using run(2) assms(3)
      by (simp add: register_def register_tx_def ins insert_owners_Inr audit_Record_ok RecordChecks_ok
          stub_kyc_def stub_screener_def onboarding_target_def set_status.taken Let_def run(1,3))
        (simp add: stub_verify_def stub_screen_def Let_def)
  next
    case False
    then have B: "(kyc_clean n a \<and> \<not> str_contains n sanctionedMarker) = False" by simp
    note run = set [unfolded B if_False] found [unfolded B if_False] stub_evaluate [of n a, unfolded B if_False]
    show ?thesis
      unfolding B if_False using run(2) assms(3)
      by (simp add: register_def register_tx_def ins insert_owners_Inr audit_Record_ok RecordChecks_ok
          stub_kyc_def stub_screener_def onboarding_target_def set_status.taken Let_def run(1,3))
        (simp add: stub_verify_def stub_screen_def Let_def)
  qed
qed

subsection \<open>The property\<close>

text \<open>
  Registering a business under an id and e-mail not yet taken, with ownership shares in
  (0, 100] percent and the shipped providers, always completes, in one transaction: the
  identity is active exactly when neither the name nor the address failed KYC and the name is
  not sanctioned, and rejected otherwise; its tier is 2, 1 or 0 as address and document checks
  passed, whatever the sanctions screen said; five check rows and two audit rows are written,
  the second naming the decision.
\<close>

theorem RegisterBusiness_decides:
  assumes "\<not> key_taken id_id (gen c 0) (identities s)" and "\<not> key_taken id_email em (identities s)"
    and "\<forall>x\<in>set os. 0 < in_percent x \<and> in_percent x \<le> 10000"
  shows "\<exists>i s'. RegisterBusiness c stub_kyc stub_screener em ph pw n a os s = (Inr i, s')
    \<and> find_row id_id (gen c 0) (identities s') = Some i \<and> id_email i = em \<and> id_kind i = KindBusiness
    \<and> id_stat i = (if kyc_clean n a \<and> \<not> str_contains n sanctionedMarker then IdActive else IdRejected)
    \<and> id_tier i = expected_tier n a
    \<and> length (kyc_checks s') = length (kyc_checks s) + 5
    \<and> map au_action (audit_log s') = map au_action (audit_log s) @
        [''identity.registered'', if id_stat i = IdActive then ''identity.activated'' else ''identity.rejected'']"
  unfolding RegisterBusiness_def by (rule register_run [OF assms])

theorem RegisterBusiness_decides_witness:
  "\<exists>i s'. RegisterBusiness sample_ctx stub_kyc stub_screener ''a@b.ng'' None ''pw'' ''SANCTIONED Ltd'' ''1 Marina''
       [\<lparr>in_name = ''Ada'', in_percent = 10000\<rparr>] sample_ledger = (Inr i, s')
     \<and> id_stat i = IdRejected \<and> id_tier i = 2"
  using RegisterBusiness_decides [of sample_ctx sample_ledger "''a@b.ng''" "[\<lparr>in_name = ''Ada'', in_percent = 10000\<rparr>]"
      None "''pw''" "''SANCTIONED Ltd''" "''1 Marina''"]
  by (auto simp: sample_eval kyc_clean_def expected_tier_def failMarker_def sanctionedMarker_def)

end
