(* ===== verification/ExternalClaims.thy ===== *)
theory ExternalClaims
  imports ExternalProps Onboarding
begin

section \<open>The properties of external payments and the risk engine\<close>

text \<open>
  Batches as sequences of steps, what a claim takes, the risk bands, the rail's own
  idempotency, and what happens to a row whose processing is interrupted.
\<close>

subsection \<open>Processing one row leaves the others\<close>

lemmas other_row = upd_failed.find_other upd_completed.find_other upd_status.find_other
  upd_risk.find_other upd_blocked.find_other

lemma finalize_failed_other:
  assumes "finalize_failed c row res s = (out, s')" and "j \<noteq> cr_id row"
  shows "find_row et_id j (ext_transfers s') = find_row et_id j (ext_transfers s)"
proof -
  obtain rel s1 where rel: "(if cr_direction row = DirectionOutbound
      then (case cr_hold row of None \<Rightarrow> (Inr (), s) | Some h \<Rightarrow> ReleaseHold h s) else (Inr (), s)) = (rel, s1)"
    by fastforce
  then have "ext_transfers s1 = ext_transfers s" by (auto split: if_splits option.splits)
  with assms rel show ?thesis
    by (cases rel) (auto simp: finalize_failed_def set_status_def other_row)
qed

lemma finalize_succeeded_other:
  assumes "finalize_succeeded c row res s = (out, s')" and "j \<noteq> cr_id row"
  shows "find_row et_id j (ext_transfers s') = find_row et_id j (ext_transfers s)"
proof (cases "NewMoney (cr_minor row) (cr_currency row)")
  case (Inr amount)
  obtain cr s1 where cr: "(if cr_direction row = DirectionOutbound
      then (case cr_hold row of None \<Rightarrow> (Inl ErrNoHold, s) | Some h \<Rightarrow> CaptureHold c h (cr_key row) s)
      else Credit c (cr_account row) amount (cr_key row) s) = (cr, s1)" by fastforce
  then have "ext_transfers s1 = ext_transfers s"
    by (auto split: if_splits option.splits dest: CaptureHold_ext Credit_ext)
  with assms Inr cr show ?thesis
    by (cases cr) (auto simp: finalize_succeeded_def set_status_def other_row)
qed (use assms in \<open>simp add: finalize_succeeded_def\<close>)

lemma finalize_other:
  assumes "finalize c dl row s = (out, s')" and "j \<noteq> cr_id row"
  shows "find_row et_id j (ext_transfers s') = find_row et_id j (ext_transfers s)"
proof (cases "registry_Get (cr_rail row)")
  case (Inr rail)
  obtain rs m where rs: "rail_Send dl (gen c 3) rail
               \<lparr>pq_direction = cr_direction row, pq_counterparty = cr_counterparty row, pq_amount = cr_minor row,
                pq_currency = cr_currency row, pq_client_ref = cr_id row\<rparr> (rail_cache s) = (rs, m)" by fastforce
  show ?thesis
  proof (cases rs)
    case (Inl e)
    with assms Inr rs show ?thesis by (auto simp: finalize_def)
  next
    case (Inr res)
    with assms \<open>registry_Get (cr_rail row) = Inr rail\<close> rs
    have "finalize_failed c row res (s\<lparr>rail_cache := m\<rparr>) = (out, s')
        \<or> finalize_succeeded c row res (s\<lparr>rail_cache := m\<rparr>) = (out, s')"
      by (simp add: finalize_def split: if_splits)
    then show ?thesis using finalize_failed_other finalize_succeeded_other assms(2) by fastforce
  qed
qed (use assms in \<open>simp add: finalize_def\<close>)

lemma failAndRelease_other:
  assumes "failAndRelease c tid h reason s = (out, s')" and "j \<noteq> tid"
  shows "find_row et_id j (ext_transfers s') = find_row et_id j (ext_transfers s)"
proof -
  obtain rel s1 where rel: "(case h of None \<Rightarrow> (Inr (), s) | Some x \<Rightarrow> ReleaseHold x s) = (rel, s1)" by fastforce
  then have "ext_transfers s1 = ext_transfers s" by (auto split: option.splits)
  with assms rel show ?thesis by (cases rel) (auto simp: failAndRelease_def other_row)
qed

lemma processRow_other:
  assumes "processRow c screen dl row s = (out, s')" and "j \<noteq> cr_id row"
  shows "find_row et_id j (ext_transfers s') = find_row et_id j (ext_transfers s)"
  using assms(1)
proof (cases rule: processRow_cases)
  case (final as)
  with finalize_other [OF final assms(2)] show ?thesis by simp
next
  case (blocked as tf res)
  with failAndRelease_other [OF blocked(1) assms(2)] show ?thesis by simp
qed (use assms(2) in \<open>simp_all add: set_status_def other_row\<close>)

subsection \<open>Batches are sequences of steps\<close>

lemma process_rows_steps:
  assumes "ext_inv s" and "distinct (map et_id rs)" and "\<And>i. hex_sha (cs i)"
    and "\<And>r. r \<in> set rs \<Longrightarrow> find_row et_id (et_id r) (ext_transfers s) = Some r \<and> et_status r = StatusProcessing"
  shows "ext_step\<^sup>*\<^sup>* s (process_rows cs screen dl (map claimed_of rs) s)"
  using assms(1,2,4)
proof (induction rs arbitrary: s)
  case (Cons r rs)
  obtain out s1 where run: "processRow (cs (et_id r)) screen (dl (et_id r)) (claimed_of r) s = (out, s1)" by fastforce
  have r: "r \<in> set (ext_transfers s)" "et_status r = StatusProcessing"
    using Cons.prems(3) [of r] find_row_Some by fastforce+
  have step: "ext_step s s1" by (rule x_process [OF run r assms(3)])
  have "ext_step\<^sup>*\<^sup>* s1 (process_rows cs screen dl (map claimed_of rs) s1)"
  proof (rule Cons.IH)
    show "ext_inv s1" by (rule ext_step_inv [OF step Cons.prems(1)])
    show "distinct (map et_id rs)" using Cons.prems(2) by simp
    fix x assume x: "x \<in> set rs"
    then have "et_id x \<noteq> et_id r" using Cons.prems(2) by (metis distinct.simps(2) image_eqI list.set_map list.simps(9))
    then show "find_row et_id (et_id x) (ext_transfers s1) = Some x \<and> et_status x = StatusProcessing"
      using processRow_other [OF run, of "et_id x"] Cons.prems(3) [of x] x by simp
  qed
  then show ?case using step run by (simp add: converse_rtranclp_into_rtranclp)
qed simp

lemma claim_rows:
  assumes cl: "claim P ord upd s = (rows, s')" and d: "distinct (map et_id (ext_transfers s))"
    and upd: "\<And>r. et_id (upd r) = et_id r"
  obtains rs where "rows = map claimed_of rs" and "distinct (map et_id rs)"
    and "\<And>r. r \<in> set rs \<Longrightarrow> find_row et_id (et_id r) (ext_transfers s') = Some r
      \<and> (\<exists>r0\<in>set (ext_transfers s). P r0 \<and> r = upd r0)"
proof -
  let ?ids = "claim_ids P ord s"
  let ?f = "\<lambda>r. if et_id r \<in> set ?ids then upd r else r"
  let ?rs = "filter (\<lambda>r. et_id r \<in> set ?ids) (map ?f (ext_transfers s))"
  from cl have rows: "rows = map claimed_of ?rs" and s': "ext_transfers s' = map ?f (ext_transfers s)"
    by (auto simp: claim_def Let_def)
  have ids: "map et_id (map ?f (ext_transfers s)) = map et_id (ext_transfers s)" by (simp add: upd)
  then have d': "distinct (map et_id (map ?f (ext_transfers s)))" using d by (simp only:)
  show thesis
  proof (rule that [OF rows distinct_map_filter [OF d']])
    fix r assume r: "r \<in> set ?rs"
    then obtain r0 where r0: "r0 \<in> set (ext_transfers s)" "r = ?f r0" "et_id r \<in> set ?ids" by auto
    then have "et_id r0 \<in> set ?ids" by (auto simp: upd split: if_splits)
    then obtain r1 where "r1 \<in> set (ext_transfers s)" "et_id r1 = et_id r0" "P r1" using ids_of_claim by blast
    with r0(1) have "P r0" by (metis d find_row_distinct option.inject)
    moreover have "find_row et_id (et_id r) (ext_transfers s') = Some r"
      unfolding s' using r by (intro find_row_distinct [OF d']) auto
    ultimately show "find_row et_id (et_id r) (ext_transfers s') = Some r
      \<and> (\<exists>r0\<in>set (ext_transfers s). P r0 \<and> r = upd r0)"
      using r0 \<open>et_id r0 \<in> set ?ids\<close> by auto
  qed
qed

lemma ProcessPending_steps:
  assumes inv: "ext_inv s" and hex: "\<And>i. hex_sha (cs i)"
  shows "ext_step\<^sup>*\<^sup>* s (ProcessPending c cs screen dl s)"
proof -
  obtain rows s1 where cl: "claim_pending c s = (rows, s1)" by fastforce
  have d: "distinct (map et_id (ext_transfers s))" using inv by (simp add: ext_inv_def)
  obtain rs where rows: "rows = map claimed_of rs" "distinct (map et_id rs)"
    and rs: "\<And>r. r \<in> set rs \<Longrightarrow> find_row et_id (et_id r) (ext_transfers s1) = Some r
      \<and> (\<exists>r0\<in>set (ext_transfers s). (et_status r0 = StatusPending \<and> et_risk r0 = RiskClear)
          \<and> r = r0\<lparr>et_status := StatusProcessing, et_attempted := Some (now c)\<rparr>)"
    by (rule claim_rows [OF cl [unfolded claim_pending_def] d]) simp_all
  have "ext_step s s1" by (rule x_claim [OF cl])
  moreover have "ext_step\<^sup>*\<^sup>* s1 (process_rows cs screen dl (map claimed_of rs) s1)"
    using rs by (intro process_rows_steps [OF claim_pending_inv [OF cl inv] rows(2) hex]) fastforce
  ultimately show ?thesis
    by (simp add: ProcessPending_def cl rows(1) converse_rtranclp_into_rtranclp)
qed

lemma ResolveStuck_steps:
  assumes inv: "ext_inv s" and hex: "\<And>i. hex_sha (cs i)"
  shows "ext_step\<^sup>*\<^sup>* s (ResolveStuck c cs screen dl s)"
proof -
  let ?P = "\<lambda>r. et_status r = StatusProcessing \<and>
              (case et_attempted r of None \<Rightarrow> False | Some t \<Rightarrow> t < now c - stuckTimeout)"
  obtain rows s1 where cl: "claim_stuck c s = (rows, s1)" by fastforce
  have d: "distinct (map et_id (ext_transfers s))" using inv by (simp add: ext_inv_def)
  obtain rs where rows: "rows = map claimed_of rs" "distinct (map et_id rs)"
    and rs: "\<And>r. r \<in> set rs \<Longrightarrow> find_row et_id (et_id r) (ext_transfers s1) = Some r
      \<and> (\<exists>r0\<in>set (ext_transfers s). ?P r0 \<and> r = r0\<lparr>et_attempted := Some (now c)\<rparr>)"
    by (rule claim_rows [OF cl [unfolded claim_stuck_def] d]) simp_all
  have "ext_step s s1" by (rule x_stuck [OF cl])
  moreover have "ext_step\<^sup>*\<^sup>* s1 (process_rows cs screen dl (map claimed_of rs) s1)"
    using rs by (intro process_rows_steps [OF claim_stuck_inv [OF cl inv] rows(2) hex]) fastforce
  ultimately show ?thesis
    by (simp add: ResolveStuck_def cl rows(1) converse_rtranclp_into_rtranclp)
qed

subsection \<open>A concrete state\<close>

definition sample_ext :: ext_db where
  "sample_ext = resil_db.extend
     (ledger_db.extend sample_ledger (resil_db.fields []
        \<lparr>sm_read_only = False, sm_reason = None, sm_updated_by = None\<rparr>
        \<lparr>cs_read_only = False, cs_tripped = [], cs_fetched = Some 0\<rparr>))
     (ext_db.fields [] [] [] (\<lambda>_. None))"

definition ext_ctx :: "nat \<Rightarrow> ctx" where
  "ext_ctx n = \<lparr>now = 1000 * int n, gen = (\<lambda>i. [char_of (65 + n), char_of (97 + i)]), sha256 = (\<lambda>x. ''5f'')\<rparr>"

lemma ext_ctx_hex: "hex_sha (ext_ctx n)"
  by (simp add: hex_sha_def ext_ctx_def)

lemma sample_ext_start: "ext_start sample_ext"
  by (simp add: ext_start_def sample_ext_def resil_db.defs ext_db.defs ledger_db.defs sample_ledger_def
      capture_inv_def hashHoldCapture_def sample_keys_def)

definition sample_sent :: ext_db where
  "sample_sent = snd (SendOutbound (ext_ctx 1) ''A'' ''instant'' ''acct-9'' (ngn 40) ''e1'' sample_ext)"

definition sample_row :: external_transfer where
  "sample_row = \<lparr>et_id = ''Bc'', et_direction = DirectionOutbound, et_account = ''A'', et_rail = ''instant'',
     et_counterparty = ''acct-9'', et_amount = 40, et_currency = ''NGN'', et_key = ''e1'', et_hold = Some ''Bb'',
     et_batch = None, et_status = StatusPending, et_risk = RiskClear, et_rail_ref = None, et_txn = None,
     et_error = None, et_attempted = None, et_completed = None, et_created = 1000\<rparr>"

lemma sample_send: "SendOutbound (ext_ctx 1) ''A'' ''instant'' ''acct-9'' (ngn 40) ''e1'' sample_ext = (Inr sample_row, sample_sent)"
proof -
  have "fst (SendOutbound (ext_ctx 1) ''A'' ''instant'' ''acct-9'' (ngn 40) ''e1'' sample_ext) = Inr sample_row"
    by code_simp
  then show ?thesis by (simp add: sample_sent_def prod_eq_iff)
qed

lemma sample_sent_reachable: "ext_reachable sample_sent"
  using sample_send unfolding SendOutbound_def
  by (intro ext_next [OF ext_init [OF sample_ext_start]] x_send)

subsection \<open>Transfers and their holds\<close>





text \<open>
  C17. \<open>SendOutbound\<close> is idempotent: once it has queued a transfer, any further send under the same
  key, in either direction and with whatever arguments, returns that row and changes nothing,
  even if a kill switch has been thrown in between.
\<close>

theorem send_idempotent:
  assumes run: "ext_send c dir a rn cp amt key bid s = (Inr r, s')"
  shows "ext_send c' dir' a' rn' cp' amt' key bid' s' = (Inr r, s')"
proof -
  have "find_row et_key key (ext_transfers s') = Some r"
  proof (cases "find_row et_key key (ext_transfers s)")
    case (Some x)
    with run show ?thesis by (simp add: ext_send_def ext_getByIdempotencyKey_def)
  next
    case None
    obtain cr s1 where cr: "res_Check c [Feature ''external_payment'', Integration rn] s = (cr, s1)" by fastforce
    obtain h s2 where ph: "PlaceHold c a amt s1 = (h, s2)" by fastforce
    obtain k where k: "s1 = s\<lparr>res_cache := k\<rparr>" using res_Check_cases cr by (metis snd_conv)
    have e: "ext_transfers s2 = ext_transfers s" using PlaceHold_frame [OF ph] k by auto
    from run None cr ph obtain hid s3 where ins: "ext_insert c dir a rn cp amt key hid bid s3 = (Inr r, s')"
      and s3: "s3 = s1 \<or> s3 = s2"
      unfolding ext_send_def ext_getByIdempotencyKey_def
      by (cases cr; cases h) (auto split: if_splits)
    have "find_row et_key key (ext_transfers s3) = None" using None s3 e k by auto
    with ext_insert_cases [OF ins] show ?thesis by (auto simp: find_row_append find_row_Cons)
  qed
  then show ?thesis by (simp add: ext_send_def ext_getByIdempotencyKey_def)
qed

theorem send_idempotent_witness:
  "SendOutbound (ext_ctx 7) ''A'' ''wire'' ''other'' (ngn 99) ''e1'' sample_sent = (Inr sample_row, sample_sent)"
  unfolding SendOutbound_def by (rule send_idempotent [OF sample_send [unfolded SendOutbound_def]])

text \<open>
  C20. A rail answers a client reference once: after \<open>Send\<close> has returned a result, every later
  \<open>Send\<close> under that reference returns the same result without executing again, whatever its
  deadline, its arguments and the random reference it would have drawn.
\<close>

theorem rail_answers_once:
  assumes "rail_Send dl ref rail req cache = (Inr res, cache')"
    and "pq_client_ref req \<noteq> ''''" and "pq_client_ref req' = pq_client_ref req"
  shows "rail_Send dl' ref' rail req' cache' = (Inr res, cache')"
  using assms by (auto simp: rail_Send_def Let_def split: option.splits if_splits)

theorem rail_answers_once_witness:
  "\<exists>res m. rail_Send False ''r1'' ''ach'' \<lparr>pq_direction = DirectionOutbound, pq_counterparty = ''x'', pq_amount = 1,
       pq_currency = ''NGN'', pq_client_ref = ''id1''\<rparr> (\<lambda>_. None) = (Inr res, m)
     \<and> rail_Send True ''r2'' ''ach'' \<lparr>pq_direction = DirectionOutbound, pq_counterparty = ''x'', pq_amount = 1,
       pq_currency = ''NGN'', pq_client_ref = ''id1''\<rparr> m = (Inr res, m)"
proof -
  let ?q = "\<lparr>pq_direction = DirectionOutbound, pq_counterparty = ''x'', pq_amount = 1,
       pq_currency = ''NGN'', pq_client_ref = ''id1''\<rparr>"
  obtain res m where run: "rail_Send False ''r1'' ''ach'' ?q (\<lambda>_. None) = (Inr res, m)"
    by (simp add: rail_Send_def Let_def)
  then show ?thesis using rail_answers_once [OF run, of ?q True "''r2''"] by auto
qed

text \<open>What a claim takes, for any condition, order and mark.\<close>

lemma claim_takes:
  assumes cl: "claim P ord upd s = (rows, s')" and d: "distinct (map et_id (ext_transfers s))"
    and upd: "\<And>r. et_id (upd r) = et_id r"
  shows "length rows \<le> claimBatchSize" and "cr_id ` set rows = set (claim_ids P ord s)"
    and "r \<in> set (ext_transfers s) \<Longrightarrow> et_id r \<in> set (claim_ids P ord s) \<Longrightarrow>
      find_row et_id (et_id r) (ext_transfers s') = Some (upd r)"
proof -
  define ids where "ids = set (claim_ids P ord s)"
  define f where "f = (\<lambda>r. if et_id r \<in> ids then upd r else r)"
  have s': "ext_transfers s' = map f (ext_transfers s)"
    and rows: "rows = map claimed_of (filter (\<lambda>r. et_id r \<in> ids) (map f (ext_transfers s)))"
    using cl by (auto simp: claim_def Let_def f_def ids_def)
  have idf: "et_id (f r) = et_id r" for r by (simp add: f_def upd)
  have keep: "map et_id (map f (ext_transfers s)) = map et_id (ext_transfers s)" by (simp add: idf)
  then have d': "distinct (map et_id (map f (ext_transfers s)))" using d by (simp only:)
  have crids: "map cr_id rows = filter (\<lambda>i. i \<in> ids) (map et_id (ext_transfers s))"
  proof -
    have "map cr_id rows = filter (\<lambda>i. i \<in> ids) (map et_id (map f (ext_transfers s)))"
      unfolding rows by (simp add: filter_map comp_def)
    then show ?thesis by (simp only: keep)
  qed
  show idset: "cr_id ` set rows = set (claim_ids P ord s)"
  proof -
    have "set (claim_ids P ord s) \<subseteq> et_id ` set (ext_transfers s)" using ids_of_claim [of _ P ord s] by blast
    then show ?thesis using arg_cong [OF crids, of set] by (auto simp: ids_def)
  qed
  have "distinct (map cr_id rows)" unfolding crids using d by simp
  from distinct_card [OF this] have "length rows = card (set (claim_ids P ord s))" using idset by simp
  also have "\<dots> \<le> length (claim_ids P ord s)" by (rule card_length)
  also have "\<dots> \<le> claimBatchSize" by (simp add: claim_ids_def)
  finally show "length rows \<le> claimBatchSize" .
  show "find_row et_id (et_id r) (ext_transfers s') = Some (upd r)"
    if "r \<in> set (ext_transfers s)" "et_id r \<in> set (claim_ids P ord s)"
    using find_row_distinct [OF d', of "f r"] that by (simp add: s' idf) (simp add: f_def ids_def)
qed

lemma claim_oldest:
  assumes "i \<in> set (claim_ids P ord s)"
  shows "\<exists>r\<in>set (ext_transfers s). et_id r = i \<and> P r \<and>
    (\<forall>r'\<in>set (ext_transfers s). P r' \<and> et_id r' \<notin> set (claim_ids P ord s) \<longrightarrow> ord r \<le> ord r')"
proof -
  let ?S = "sort_key ord (filter P (ext_transfers s))"
  from assms obtain r where r: "r \<in> set (take claimBatchSize ?S)" "et_id r = i" by (auto simp: claim_ids_def)
  have "sorted (map ord (take claimBatchSize ?S @ drop claimBatchSize ?S))" by simp
  then have order: "ord r \<le> ord y" if "y \<in> set (drop claimBatchSize ?S)" for y
    using r(1) that unfolding map_append sorted_append by auto
  have "ord r \<le> ord r'" if "r' \<in> set (ext_transfers s)" "P r'" "et_id r' \<notin> set (claim_ids P ord s)" for r'
  proof (rule order)
    have "r' \<in> set (take claimBatchSize ?S @ drop claimBatchSize ?S)" using that by simp
    moreover have "r' \<notin> set (take claimBatchSize ?S)" using that(3) by (auto simp: claim_ids_def)
    ultimately show "r' \<in> set (drop claimBatchSize ?S)" by (simp only: set_append Un_iff) simp
  qed
  moreover have "r \<in> set (ext_transfers s)" "P r" using in_set_takeD [OF r(1)] by simp_all
  ultimately show ?thesis using r(2) by blast
qed

text \<open>
  C21. What \<open>ProcessPending\<close> claims: at most twenty rows, each pending and cleared by risk when it
  was taken and now marked processing, and none of the rows left behind is older than one taken.
\<close>

theorem claim_pending_takes:
  assumes cl: "claim_pending c s = (rows, s')" and d: "distinct (map et_id (ext_transfers s))"
  shows "length rows \<le> 20
    \<and> (\<forall>row\<in>set rows. \<exists>r\<in>set (ext_transfers s). et_id r = cr_id row \<and> (et_status r = StatusPending \<and> et_risk r = RiskClear)
        \<and> map_option et_status (find_row et_id (cr_id row) (ext_transfers s')) = Some StatusProcessing
        \<and> (\<forall>r'\<in>set (ext_transfers s). (et_status r' = StatusPending \<and> et_risk r' = RiskClear)
             \<and> et_id r' \<notin> cr_id ` set rows \<longrightarrow> et_created r \<le> et_created r'))"
proof -
  note t = claim_takes [OF cl [unfolded claim_pending_def] d, simplified]
  show ?thesis
  proof (intro conjI ballI)
    show "length rows \<le> 20" using t(1) by (simp add: claimBatchSize_def)
    fix row assume "row \<in> set rows"
    then have i: "cr_id row \<in> set (claim_ids (\<lambda>r. et_status r = StatusPending \<and> et_risk r = RiskClear) et_created s)"
      using t(2) by blast
    from claim_oldest [OF i] obtain r where r: "r \<in> set (ext_transfers s)" "et_id r = cr_id row"
        "et_status r = StatusPending \<and> et_risk r = RiskClear"
      and old: "\<forall>r'\<in>set (ext_transfers s). (et_status r' = StatusPending \<and> et_risk r' = RiskClear)
             \<and> et_id r' \<notin> cr_id ` set rows \<longrightarrow> et_created r \<le> et_created r'"
      unfolding t(2) by blast
    have "find_row et_id (cr_id row) (ext_transfers s') = Some (r\<lparr>et_status := StatusProcessing, et_attempted := Some (now c)\<rparr>)"
      using t(3) [OF r(1)] r(2) i by simp
    with r old show "\<exists>r\<in>set (ext_transfers s). et_id r = cr_id row \<and> (et_status r = StatusPending \<and> et_risk r = RiskClear)
        \<and> map_option et_status (find_row et_id (cr_id row) (ext_transfers s')) = Some StatusProcessing
        \<and> (\<forall>r'\<in>set (ext_transfers s). (et_status r' = StatusPending \<and> et_risk r' = RiskClear)
             \<and> et_id r' \<notin> cr_id ` set rows \<longrightarrow> et_created r \<le> et_created r')"
      by (intro bexI [of _ r]) simp_all
  qed
qed

theorem claim_pending_takes_witness:
  "length (fst (claim_pending (ext_ctx 2) sample_sent)) \<le> 20 \<and> cr_id (hd (fst (claim_pending (ext_ctx 2) sample_sent))) = ''Bc''"
proof -
  have d: "distinct (map et_id (ext_transfers sample_sent))"
    using ext_reachable_inv [OF sample_sent_reachable] by (simp add: ext_inv_def)
  have "map cr_id (fst (claim_pending (ext_ctx 2) sample_sent)) = [''Bc'']"
    unfolding sample_sent_def by code_simp
  with claim_pending_takes [OF prod.collapse [symmetric] d, of "ext_ctx 2"] show ?thesis by auto
qed

end
