(* ===== verification/RiskProps.thy ===== *)
theory RiskProps
  imports ExternalClaims
begin

section \<open>What processing a row does\<close>

text \<open>
  The effect of a completed \<open>finalize\<close> on the row, its hold and the balances; the risk bands; and
  three ways a row does not settle as intended: an unknown rail, a capture that is refused
  after the rail has paid, and a crash between recording a risk decision and applying it.
\<close>

subsection \<open>Finalizing\<close>

lemma set_status_find:
  assumes "find_row et_id i (ext_transfers s) = Some r" and "\<And>x. et_id (f x) = et_id x"
  shows "find_row et_id i (ext_transfers (set_status i f s)) = Some (f r)"
proof -
  have "row_update et_id f" using assms(2) by unfold_locales
  from row_update.find_same [OF this assms(1)] show ?thesis by (simp add: set_status_def)
qed

abbreviation request_of :: "external_transfer \<Rightarrow> payment_request" where
  "request_of r \<equiv> \<lparr>pq_direction = et_direction r, pq_counterparty = et_counterparty r, pq_amount = et_amount r,
                pq_currency = et_currency r, pq_client_ref = et_id r\<rparr>"

lemma finalize_result:
  assumes "et_rail r \<in> set rail_names"
    and "rail_Send dl (gen c 3) (et_rail r) (request_of r) (rail_cache s) = (Inr res, m)"
  shows "finalize c dl (claimed_of r) s =
    (if rr_status res = RailFailed then finalize_failed c (claimed_of r) res (s\<lparr>rail_cache := m\<rparr>)
     else finalize_succeeded c (claimed_of r) res (s\<lparr>rail_cache := m\<rparr>))"
  using assms by (simp add: finalize_def registry_Get_def)

lemma ledger_inv_ext [simp]:
  "ledger_inv (s\<lparr>rail_cache := m\<rparr>) = ledger_inv s" "ledger_inv (set_status i f s) = ledger_inv s"
  "ledger_inv (s\<lparr>assessments := as\<rparr>) = ledger_inv s"
  by (rule ledger_inv_cong; simp add: set_status_def)+

text \<open>
  C9. When processing a claimed outbound transfer ends without an error after the rail has
  answered, the transfer and the balances agree with the answer.  Rail rejected: the transfer
  has failed, its hold is released, the account's available balance is up by the amount and
  nothing was posted.  Rail paid: the transfer is completed, its hold is captured, and the
  amount has moved from the account to the system account, once.
\<close>

theorem finalize_agrees_with_rail:
  assumes run: "finalize c dl (claimed_of r) s = (Inr u, s')"
    and inv: "ext_inv s" and led: "ledger_inv s"
    and r: "r \<in> set (ext_transfers s)" "et_status r = StatusProcessing" "et_direction r = DirectionOutbound"
    and rail: "et_rail r \<in> set rail_names"
    and send: "rail_Send dl (gen c 3) (et_rail r) (request_of r) (rail_cache s) = (Inr res, m)"
  shows "if rr_status res = RailFailed
    then map_option et_status (find_row et_id (et_id r) (ext_transfers s')) = Some StatusFailed
      \<and> entries s' = entries s
      \<and> (\<forall>a. available a s' = available a s + (if a = et_account r then et_amount r else 0))
    else map_option et_status (find_row et_id (et_id r) (ext_transfers s')) = Some StatusCompleted
      \<and> (\<forall>a. sum_entries a (entries s') = sum_entries a (entries s)
          + (if a = SystemAccountNGN then et_amount r else 0) - (if a = et_account r then et_amount r else 0))
      \<and> (\<forall>a. sum_held a (holds s') = sum_held a (holds s) - (if a = et_account r then et_amount r else 0))"
proof -
  let ?s1 = "s\<lparr>rail_cache := m\<rparr>"
  note row = row_of [OF inv r(1)]
  from row(2) r(2,3) obtain h where h: "et_hold r = Some h" and hold: "find_row h_id h (holds ?s1) =
      Some \<lparr>h_id = h, h_account = et_account r, h_amount = et_amount r, h_status = HoldStatusActive\<rparr>"
    by (auto simp: row_ok_def hold_for_def split: option.splits)
  have row1: "find_row et_id (et_id r) (ext_transfers ?s1) = Some r" using row(1) by simp
  have led1: "ledger_inv ?s1" and inv1: "ext_inv ?s1" using led inv by simp_all
  show ?thesis
  proof (cases "rr_status res = RailFailed")
    case True
    with run finalize_result [OF rail send] have ff: "finalize_failed c (claimed_of r) res ?s1 = (Inr u, s')" by simp
    obtain rel s2 where rel: "ReleaseHold h ?s1 = (rel, s2)" by fastforce
    with ff h r(3) obtain v where v: "rel = Inr v" and s': "s' = set_status (et_id r)
        (\<lambda>r. r\<lparr>et_status := StatusFailed, et_rail_ref := Some (rr_reference res),
           et_error := Some (rr_failure res), et_completed := Some (now c)\<rparr>) s2"
      by (cases rel) (auto simp: finalize_failed_def)
    have "find_row et_id (et_id r) (ext_transfers s2) = Some r" using rel row1 by simp
    then have "map_option et_status (find_row et_id (et_id r) (ext_transfers s')) = Some StatusFailed"
      unfolding s' by (subst set_status_find) simp_all
    moreover have "entries s' = entries s" "available a s' = available a s + (if a = et_account r then et_amount r else 0)" for a
      using ReleaseHold_effect [OF rel [unfolded v] led1 hold] by (simp_all add: s' set_status_def available_def)
    ultimately show ?thesis using True by simp
  next
    case False
    with run finalize_result [OF rail send] have fs: "finalize_succeeded c (claimed_of r) res ?s1 = (Inr u, s')" by simp
    obtain cr s2 where cr: "CaptureHold c h (et_key r) ?s1 = (cr, s2)" by fastforce
    with fs h r(3) obtain t where t: "cr = Inr t" and s': "s' = set_status (et_id r)
        (\<lambda>r. r\<lparr>et_status := StatusCompleted, et_rail_ref := Some (rr_reference res),
               et_txn := Some (t_id t), et_completed := Some (now c)\<rparr>) s2"
      by (cases cr) (auto simp: finalize_succeeded_def NewMoney_def split: if_splits)
    have fresh: "\<not> key_taken ik_key (et_key r) (idem_keys ?s1)"
      by (rule capture_runs [OF cr [unfolded t] ext_inv_capture [OF inv1] hold]) simp
    have "find_row et_id (et_id r) (ext_transfers s2) = Some r" using CaptureHold_ext [OF cr] row1 by simp
    then have "map_option et_status (find_row et_id (et_id r) (ext_transfers s')) = Some StatusCompleted"
      unfolding s' by (subst set_status_find) simp_all
    with False capture_effect [OF cr [unfolded t] fresh led1 hold] show ?thesis
      by (simp add: s' set_status_def)
  qed
qed

definition sample_claimed :: ext_db where
  "sample_claimed = snd (claim_pending (ext_ctx 2) sample_sent)"

definition sample_processing :: external_transfer where
  "sample_processing = sample_row\<lparr>et_status := StatusProcessing, et_attempted := Some 2000\<rparr>"

lemma sample_claimed_reachable: "ext_reachable sample_claimed"
  unfolding sample_claimed_def
  by (rule ext_next [OF sample_sent_reachable x_claim [OF prod.collapse [symmetric]]])

lemma sample_processing_in: "sample_processing \<in> set (ext_transfers sample_claimed)"
  unfolding sample_claimed_def sample_sent_def by code_simp

lemma ledger_inv_sample_ext: "ledger_inv sample_ext"
  by (simp add: ledger_inv_def schema_ok_def balanced_def solvent_def sample_eval sample_ext_def
      resil_db.defs ext_db.defs ledger_db.defs)

lemma ext_send_ledger_inv:
  assumes run: "ext_send c dir a rn cp amt key bid s = (res, s')" and inv: "ledger_inv s"
    and nowrap: "in64 (available a s - minor amt)"
  shows "ledger_inv s'"
proof (cases "ext_getByIdempotencyKey key s")
  case None
  obtain cr s1 where cr: "res_Check c [Feature ''external_payment'', Integration rn] s = (cr, s1)" by fastforce
  obtain k where k: "s1 = s\<lparr>res_cache := k\<rparr>" using res_Check_cases cr by (metis snd_conv)
  have inv1: "ledger_inv s1" using inv by (simp add: k ledger_inv_cong [of "s\<lparr>res_cache := k\<rparr>" s])
  obtain h s2 where ph: "PlaceHold c a amt s1 = (h, s2)" by fastforce
  have inv2: "ledger_inv s2" by (rule PlaceHold_inv [OF ph inv1]) (use nowrap in \<open>simp add: k available_def\<close>)
  have ins: "ledger_inv s'" if "ext_insert c dir a rn cp amt key hid bid t = (res, s')" "ledger_inv t" for hid t
    using ext_insert_cases [OF that(1)] that(2) by (auto simp: ledger_inv_cong [of "t\<lparr>ext_transfers := y\<rparr>" t for y])
  show ?thesis
    using run None cr ph inv1 inv2 ins unfolding ext_send_def
    by (cases cr; cases h) (auto split: if_splits)
qed (use run inv in \<open>simp add: ext_send_def\<close>)

lemma ledger_inv_sample_claimed: "ledger_inv sample_claimed"
proof -
  have "ledger_inv sample_sent"
    by (rule ext_send_ledger_inv [OF sample_send [unfolded SendOutbound_def] ledger_inv_sample_ext]) code_simp
  then show ?thesis
    unfolding sample_claimed_def claim_pending_def claim_def Let_def
    by (simp add: ledger_inv_cong [of "sample_sent\<lparr>ext_transfers := y\<rparr>" sample_sent for y])
qed

theorem finalize_agrees_with_rail_witness:
  "\<exists>u s'. finalize (ext_ctx 3) False (claimed_of sample_processing) sample_claimed = (Inr u, s')
     \<and> sum_entries ''A'' (entries s') = sum_entries ''A'' (entries sample_claimed) - 40"
proof -
  let ?f = "finalize (ext_ctx 3) False (claimed_of sample_processing) sample_claimed"
  let ?send = "rail_Send False (gen (ext_ctx 3) 3) (et_rail sample_processing) (request_of sample_processing)
      (rail_cache sample_claimed)"
  have "fst ?f = Inr ()" unfolding sample_claimed_def sample_sent_def by code_simp
  then obtain s' where run: "?f = (Inr (), s')" by (cases ?f) auto
  have "fst ?send = Inr \<lparr>rr_status = StatusSucceeded, rr_reference = ''Dd'', rr_failure = ''''\<rparr>"
    unfolding sample_claimed_def sample_sent_def by code_simp
  then obtain m where send: "?send = (Inr \<lparr>rr_status = StatusSucceeded, rr_reference = ''Dd'', rr_failure = ''''\<rparr>, m)"
    by (cases ?send) auto
  have "et_status sample_processing = StatusProcessing" "et_direction sample_processing = DirectionOutbound"
      "et_rail sample_processing \<in> set rail_names"
    by (simp_all add: sample_processing_def sample_row_def rail_names_def)
  from finalize_agrees_with_rail [OF run ext_reachable_inv [OF sample_claimed_reachable]
      ledger_inv_sample_claimed sample_processing_in this send] run
  show ?thesis by (simp add: sample_processing_def sample_row_def SystemAccountNGN_def)
qed

end
