(* ===== verification/HoldOwners.thy ===== *)
theory HoldOwners
  imports HoldKeys
begin

section \<open>Rows that own holds\<close>

text \<open>
  Several components keep a table whose rows reserve money with a hold of the ledger: card
  authorizations, transfers in their cooling-off window, scheduled payments.  What such a row
  promises about its hold is its \<open>lien\<close>: which hold, on which account, for how much, and in
  which statuses the hold may be.  \<open>liens_ok\<close> is the common invariant; the locale \<open>lien_table\<close> is
  the interface of a table seen through its liens; \<open>ledger_other\<close> is any activity of the
  ledger that leaves the owned holds to their owner.
\<close>

record lien =
  ln_row :: uuid
  ln_hold :: "uuid option"
  ln_account :: uuid
  ln_amount :: int
  ln_status :: "hold_status set"

definition lien_ok :: "hold_row list \<Rightarrow> lien \<Rightarrow> bool" where
  "lien_ok hs l \<longleftrightarrow> (case ln_hold l of None \<Rightarrow> True
     | Some h \<Rightarrow> \<exists>st\<in>ln_status l. find_row h_id h hs =
          Some \<lparr>h_id = h, h_account = ln_account l, h_amount = ln_amount l, h_status = st\<rparr>)"

definition unshared :: "lien list \<Rightarrow> bool" where
  "unshared ls \<longleftrightarrow> (\<forall>l\<in>set ls. \<forall>l'\<in>set ls. \<forall>h. ln_hold l = Some h \<longrightarrow> ln_hold l' = Some h \<longrightarrow> ln_row l = ln_row l')"

definition owned :: "lien list \<Rightarrow> uuid set" where
  "owned ls = {h. \<exists>l\<in>set ls. ln_hold l = Some h}"

definition liens_ok :: "hold_row list \<Rightarrow> lien list \<Rightarrow> bool" where
  "liens_ok hs ls \<longleftrightarrow> distinct (map ln_row ls) \<and> (\<forall>l\<in>set ls. lien_ok hs l) \<and> unshared ls"

lemma liens_okD:
  assumes "liens_ok hs ls"
  shows "distinct (map ln_row ls)" and "l \<in> set ls \<Longrightarrow> lien_ok hs l" and "unshared ls"
  using assms by (simp_all add: liens_ok_def)

lemma unsharedD:
  "unshared ls \<Longrightarrow> l \<in> set ls \<Longrightarrow> l' \<in> set ls \<Longrightarrow> ln_hold l = Some h \<Longrightarrow> ln_hold l' = Some h \<Longrightarrow> ln_row l = ln_row l'"
  unfolding unshared_def by blast

lemma lien_hold:
  assumes "liens_ok hs ls" and "l \<in> set ls" and "ln_hold l = Some h"
  obtains st where "st \<in> ln_status l"
    and "find_row h_id h hs = Some \<lparr>h_id = h, h_account = ln_account l, h_amount = ln_amount l, h_status = st\<rparr>"
  using liens_okD(2) [OF assms(1,2)] assms(3) that by (auto simp: lien_ok_def)

lemma owned_taken: "liens_ok hs ls \<Longrightarrow> h \<in> owned ls \<Longrightarrow> key_taken h_id h hs"
  by (auto simp: owned_def elim!: lien_hold intro: find_row_taken)

lemma liens_ok_Nil [simp]: "liens_ok hs []"
  by (simp add: liens_ok_def unshared_def)

text \<open>Holds that no row owns may come, go and change.\<close>

lemma liens_ok_holds:
  assumes "liens_ok hs ls" and "\<And>h x. h \<in> owned ls \<Longrightarrow> find_row h_id h hs = Some x \<Longrightarrow> find_row h_id h hs' = Some x"
  shows "liens_ok hs' ls"
proof -
  have "lien_ok hs' l" if "l \<in> set ls" for l
    using liens_okD(2) [OF assms(1) that] assms(2) that by (fastforce simp: lien_ok_def owned_def split: option.splits)
  then show ?thesis using assms(1) by (simp add: liens_ok_def)
qed

text \<open>A row joins the table: without a hold, or with one no other row owns.\<close>

lemma liens_ok_snoc:
  assumes ok: "liens_ok hs ls" and fresh: "\<not> key_taken ln_row (ln_row l) ls"
    and l: "lien_ok hs l" and own: "\<And>h. ln_hold l = Some h \<Longrightarrow> h \<notin> owned ls"
  shows "liens_ok hs (ls @ [l])"
proof -
  have "unshared (ls @ [l])" unfolding unshared_def
  proof (intro ballI allI impI)
    fix x y h assume "x \<in> set (ls @ [l])" "y \<in> set (ls @ [l])" and h: "ln_hold x = Some h" "ln_hold y = Some h"
    then consider "x \<in> set ls" "y \<in> set ls" | "x = l" "y = l" | "x = l" "y \<in> set ls" | "x \<in> set ls" "y = l" by auto
    then show "ln_row x = ln_row y"
    proof cases
      case 1
      then show ?thesis using unsharedD [OF liens_okD(3) [OF ok]] h by blast
    qed (use h own in \<open>auto simp: owned_def\<close>)
  qed
  with ok fresh l show ?thesis by (simp add: liens_ok_def distinct_snoc_key del: map_append)
qed

text \<open>A row and its hold change together.\<close>

lemma liens_ok_update:
  assumes ok: "liens_ok hs ls" and l: "find_row ln_row i ls = Some l"
    and f: "\<And>x. ln_row (f x) = ln_row x" and new: "lien_ok hs' (f l)"
    and own: "\<And>h. ln_hold (f l) = Some h \<Longrightarrow> ln_hold l = Some h \<or> h \<notin> owned ls"
    and others: "\<And>h x. h \<in> owned ls \<Longrightarrow> ln_hold l \<noteq> Some h \<Longrightarrow> find_row h_id h hs = Some x \<Longrightarrow> find_row h_id h hs' = Some x"
  shows "liens_ok hs' (update_row ln_row i f ls)"
proof -
  let ?us = "update_row ln_row i f ls"
  have row: "row_update ln_row f" using f by unfold_locales
  have lin: "l \<in> set ls" "ln_row l = i" using find_row_Some [OF l] by simp_all
  have member: "\<exists>x0\<in>set ls. ln_row x = ln_row x0 \<and> (x = f l \<and> x0 = l \<or> x = x0 \<and> ln_row x0 \<noteq> i)"
    if x: "x \<in> set ?us" for x
  proof -
    from x obtain x0 where x0: "x0 \<in> set ls" "x = (if ln_row x0 = i then f x0 else x0)" by (auto simp: set_update_row)
    have "x0 = l" if "ln_row x0 = i"
      using find_row_distinct [OF liens_okD(1) [OF ok] x0(1)] that l by simp
    then show ?thesis using x0 f by (auto split: if_splits)
  qed
  have notl: "ln_hold l \<noteq> Some h" if "x0 \<in> set ls" "ln_row x0 \<noteq> i" "ln_hold x0 = Some h" for x0 h
    using unsharedD [OF liens_okD(3) [OF ok] that(1) lin(1) that(3)] that(2) lin(2) by auto
  have "lien_ok hs' x" if x: "x \<in> set ?us" for x
  proof -
    from member [OF x] obtain x0 where x0: "x0 \<in> set ls" "x = f l \<and> x0 = l \<or> x = x0 \<and> ln_row x0 \<noteq> i" by blast
    then show ?thesis
      using new notl [OF x0(1)] others liens_okD(2) [OF ok x0(1)] x0(1)
      by (fastforce simp: lien_ok_def owned_def split: option.splits)
  qed
  moreover have "unshared ?us" unfolding unshared_def
  proof (intro ballI allI impI)
    fix x y h assume xy: "x \<in> set ?us" "y \<in> set ?us" and h: "ln_hold x = Some h" "ln_hold y = Some h"
    from member [OF xy(1)] member [OF xy(2)] obtain x0 y0
      where x0: "x0 \<in> set ls" "ln_row x = ln_row x0" "x = f l \<and> x0 = l \<or> x = x0 \<and> ln_row x0 \<noteq> i"
        and y0: "y0 \<in> set ls" "ln_row y = ln_row y0" "y = f l \<and> y0 = l \<or> y = y0 \<and> ln_row y0 \<noteq> i" by blast
    have clash: False if "ln_hold (f l) = Some h" "z \<in> set ls" "ln_row z \<noteq> i" "ln_hold z = Some h" for z
      using own [OF that(1)] notl [OF that(2-4)] that(2,4) by (auto simp: owned_def)
    show "ln_row x = ln_row y"
      using x0 y0 h clash unsharedD [OF liens_okD(3) [OF ok] x0(1) y0(1)] by auto
  qed
  moreover have "distinct (map ln_row ?us)"
    using row_update.keys [OF row] liens_okD(1) [OF ok] by simp
  ultimately show ?thesis by (simp add: liens_ok_def)
qed

text \<open>What the rows ask of their holds may get weaker.\<close>

lemma liens_ok_weaken:
  assumes ok: "liens_ok hs ls"
    and g: "\<And>l. l \<in> set ls \<Longrightarrow> ln_row (g l) = ln_row l \<and> ln_hold (g l) = ln_hold l \<and> ln_account (g l) = ln_account l
      \<and> ln_amount (g l) = ln_amount l \<and> ln_status l \<subseteq> ln_status (g l)"
  shows "liens_ok hs (map g ls)"
proof -
  have "map ln_row (map g ls) = map ln_row ls" using g by simp
  moreover have "lien_ok hs (g l)" if "l \<in> set ls" for l
    using liens_okD(2) [OF ok that] g [OF that] by (auto simp: lien_ok_def split: option.splits)
  moreover have "unshared (map g ls)"
    unfolding unshared_def set_map
  proof (clarify)
    fix x y h assume "x \<in> set ls" "y \<in> set ls" "ln_hold (g x) = Some h" "ln_hold (g y) = Some h"
    then show "ln_row (g x) = ln_row (g y)" using unsharedD [OF liens_okD(3) [OF ok]] g by metis
  qed
  ultimately show ?thesis using ok by (simp add: liens_ok_def del: map_map)
qed

subsection \<open>Placing, releasing and capturing\<close>

lemma liens_ok_PlaceHold:
  assumes "PlaceHold c a amt s = (res, s')" and "liens_ok (holds s) ls"
  shows "liens_ok (holds s') ls"
  by (rule liens_ok_holds [OF assms(2)]) (rule PlaceHold_find [OF assms(1)])

lemma placed_unowned:
  assumes "PlaceHold c a amt s = (Inr h, s')" and "liens_ok (holds s) ls"
  shows "hv_id h \<notin> owned ls"
    and "find_row h_id (hv_id h) (holds s') =
      Some \<lparr>h_id = hv_id h, h_account = a, h_amount = minor amt, h_status = HoldStatusActive\<rparr>"
proof -
  from PlaceHold_result [OF assms(1)] have new: "\<not> key_taken h_id (hv_id h) (holds s)"
    and s': "holds s' = holds s @ [\<lparr>h_id = hv_id h, h_account = a, h_amount = minor amt, h_status = HoldStatusActive\<rparr>]"
    by auto
  show "hv_id h \<notin> owned ls" using new owned_taken [OF assms(2)] by blast
  show "find_row h_id (hv_id h) (holds s') =
      Some \<lparr>h_id = hv_id h, h_account = a, h_amount = minor amt, h_status = HoldStatusActive\<rparr>"
    using new by (simp add: s' find_row_append find_row_Cons find_row_None [symmetric])
qed

lemma liens_ok_resolved:
  assumes ok: "liens_ok (holds s) ls" and l: "find_row ln_row i ls = Some l" "ln_hold l = Some h"
    and hs: "holds s' = update_row h_id h (\<lambda>r. r\<lparr>h_status := st\<rparr>) (holds s)"
  shows "liens_ok (holds s') (update_row ln_row i (\<lambda>l. l\<lparr>ln_status := {st}\<rparr>) ls)"
proof (rule liens_ok_update [OF ok l(1)])
  have "l \<in> set ls" using find_row_Some [OF l(1)] by blast
  then show "lien_ok (holds s') (l\<lparr>ln_status := {st}\<rparr>)"
    by (rule lien_hold [OF ok _ l(2)]) (simp add: lien_ok_def l(2) hs find_hold_update)
qed (auto simp: hs find_hold_update l(2))

lemma liens_ok_release:
  assumes "ReleaseHold h s = (Inr u, s')" and "liens_ok (holds s) ls"
    and "find_row ln_row i ls = Some l" and "ln_hold l = Some h"
  shows "liens_ok (holds s') (update_row ln_row i (\<lambda>l. l\<lparr>ln_status := {HoldStatusReleased}\<rparr>) ls)"
proof -
  have "holds s' = update_row h_id h (\<lambda>r. r\<lparr>h_status := HoldStatusReleased\<rparr>) (holds s)"
    using assms(1) by (auto simp: ReleaseHold_def elim!: resolveHold_done)
  then show ?thesis by (rule liens_ok_resolved [OF assms(2-4)])
qed

lemma liens_ok_capture:
  assumes "CaptureHold c h key s = (Inr t, s')" and "liens_ok (holds s) ls" and "capture_inv s"
    and "find_row ln_row i ls = Some l" and "ln_hold l = Some h" and "ln_status l = {HoldStatusActive}"
  shows "liens_ok (holds s') (update_row ln_row i (\<lambda>l. l\<lparr>ln_status := {HoldStatusCaptured}\<rparr>) ls)"
proof -
  have "l \<in> set ls" using find_row_Some [OF assms(4)] by blast
  then obtain st where st: "st \<in> ln_status l"
    "find_row h_id h (holds s) = Some \<lparr>h_id = h, h_account = ln_account l, h_amount = ln_amount l, h_status = st\<rparr>"
    by (rule lien_hold [OF assms(2) _ assms(5)])
  have fresh: "\<not> key_taken ik_key key (idem_keys s)"
    using st(1) assms(6) by (intro capture_runs [OF assms(1,3) st(2)]) simp
  have "holds s' = update_row h_id h (\<lambda>r. r\<lparr>h_status := HoldStatusCaptured\<rparr>) (holds s)"
    using assms(1) fresh by (auto elim: capture_success)
  then show ?thesis by (rule liens_ok_resolved [OF assms(2,4,5)])
qed

lemma liens_ok_attach:
  assumes ok: "liens_ok (holds s) ls" and l: "find_row ln_row i ls = Some l" "ln_hold l = None"
    and place: "PlaceHold c (ln_account l) amt s = (Inr h, s')" and amt: "minor amt = ln_amount l"
  shows "liens_ok (holds s') (update_row ln_row i (\<lambda>l. l\<lparr>ln_hold := Some (hv_id h), ln_status := {HoldStatusActive}\<rparr>) ls)"
proof (rule liens_ok_update [OF ok l(1)])
  show "lien_ok (holds s') (l\<lparr>ln_hold := Some (hv_id h), ln_status := {HoldStatusActive}\<rparr>)"
    using placed_unowned(2) [OF place ok] by (simp add: lien_ok_def amt)
qed (use placed_unowned(1) [OF place ok] PlaceHold_find [OF place] in auto)

subsection \<open>Other activity of the ledger\<close>

inductive ledger_other :: "uuid set \<Rightarrow> 'z ledger_db_scheme \<Rightarrow> 'z ledger_db_scheme \<Rightarrow> bool" for os where
  lo_transfer: "Transfer c f t amt key s = (out, s') \<Longrightarrow> hex_sha c \<Longrightarrow> ledger_other os s s'"
| lo_credit: "Credit c a amt key s = (out, s') \<Longrightarrow> hex_sha c \<Longrightarrow> ledger_other os s s'"
| lo_debit: "Debit c a amt key s = (out, s') \<Longrightarrow> hex_sha c \<Longrightarrow> ledger_other os s s'"
| lo_reverse: "ReverseTransaction c tid key s = (out, s') \<Longrightarrow> ledger_other os s s'"
| lo_hold: "PlaceHold c a amt s = (out, s') \<Longrightarrow> ledger_other os s s'"
| lo_release: "ReleaseHold k s = (out, s') \<Longrightarrow> k \<notin> os \<Longrightarrow> ledger_other os s s'"
| lo_capture: "CaptureHold c k key s = (out, s') \<Longrightarrow> k \<notin> os \<Longrightarrow> ledger_other os s s'"

inductive_cases ledger_otherE: "ledger_other os s s'"

lemma ReverseTransaction_frame:
  assumes "ReverseTransaction c tid key s = (res, s')"
  shows "\<exists>ks ts es. s' = s\<lparr>idem_keys := ks, txns := ts, entries := es\<rparr>"
proof (cases "(\<exists>e. res = Inl e) \<or> key_taken ik_key key (idem_keys s)")
  case True
  with assms have "s' = s"
    by (auto simp: ReverseTransaction_def split: prod.splits dest: reverse.error_rolls_back reverse.taken_unchanged)
  then show ?thesis by (intro exI [of _ "idem_keys s"] exI [of _ "txns s"] exI [of _ "entries s"]) simp
next
  case False
  then obtain t where "res = Inr t" by (cases res) auto
  with assms False obtain es ks where "s' = s\<lparr>idem_keys := ks, entries := entries s @ es,
      txns := update_row t_id tid (\<lambda>r. r\<lparr>t_state := TransactionStateReversed\<rparr>) (txns s @ [t])\<rparr>"
    by (metis reverse_success)
  then show ?thesis by (intro exI) simp
qed

lemma ReverseTransaction_holds: "ReverseTransaction c t key s = (res, s') \<Longrightarrow> holds s' = holds s"
  by (drule ReverseTransaction_frame) auto

lemma ledger_other_find:
  assumes "ledger_other os s s'" and "h \<in> os" and "find_row h_id h (holds s) = Some x"
  shows "find_row h_id h (holds s') = Some x"
  using assms
proof (induction rule: ledger_other.induct)
  case (lo_release k s out s')
  then show ?case using ReleaseHold_find_other by metis
next
  case (lo_capture c k key s out s')
  then show ?case using CaptureHold_find_other by metis
qed (auto simp: Transfer_def Credit_def Debit_def postTransaction_holds ReverseTransaction_holds
    split: sum.splits dest: PlaceHold_find)

lemma ledger_other_capture_inv:
  assumes "ledger_other os s s'" and "capture_inv s"
  shows "capture_inv s'"
  using assms
  by (induction rule: ledger_other.induct)
     (auto intro: Transfer_capture_inv Credit_capture_inv Debit_capture_inv ReverseTransaction_capture_inv
        PlaceHold_capture_inv ReleaseHold_capture_inv CaptureHold_capture_inv)

lemma ledger_other_liens:
  "ledger_other (owned ls) s s' \<Longrightarrow> liens_ok (holds s) ls \<Longrightarrow> liens_ok (holds s') ls"
  by (erule liens_ok_holds) (rule ledger_other_find)

lemma ledger_other_frame:
  assumes "ledger_other os s s'"
  shows "\<exists>ks ts es hs. s' = s\<lparr>idem_keys := ks, txns := ts, entries := es, holds := hs\<rparr>"
proof -
  have post: "\<exists>ks ts es hs. s' = s\<lparr>idem_keys := ks, txns := ts, entries := es, holds := hs\<rparr>"
    if "\<exists>ks ts es. s' = s\<lparr>idem_keys := ks, txns := ts, entries := es\<rparr>" for s :: "'z ledger_db_scheme" and s'
    using that by (elim exE) (intro exI [of _ "holds s"] exI, auto)
  have hold: "\<exists>ks ts es hs. s' = s\<lparr>idem_keys := ks, txns := ts, entries := es, holds := hs\<rparr>"
    if "\<exists>hs. s' = s\<lparr>holds := hs\<rparr>" for s :: "'z ledger_db_scheme" and s'
    using that by (elim exE) (intro exI [of _ "idem_keys s"] exI [of _ "txns s"] exI [of _ "entries s"] exI, auto)
  have legs: "\<exists>ks ts es. s' = s\<lparr>idem_keys := ks, txns := ts, entries := es\<rparr>"
    if "s' = s \<or> (\<exists>c ty key ls out. postTransaction c ty key ls s = (out, s'))" for s :: "'z ledger_db_scheme" and s'
    using that
  proof
    assume "s' = s"
    then show ?thesis by (intro exI [of _ "idem_keys s"] exI [of _ "txns s"] exI [of _ "entries s"]) simp
  qed (elim exE, rule posting_frame)
  from assms show ?thesis
  proof cases
    case (lo_transfer c f t amt key out)
    then show ?thesis unfolding Transfer_def by (intro post posting_frame)
  next
    case (lo_credit c a amt key out)
    then show ?thesis by (intro post legs) (auto simp: Credit_def split: sum.splits intro: exI)
  next
    case (lo_debit c a amt key out)
    then show ?thesis by (intro post legs) (auto simp: Debit_def split: sum.splits intro: exI)
  next
    case (lo_reverse c tid key out)
    then show ?thesis by (intro post ReverseTransaction_frame)
  next
    case (lo_hold c a amt out)
    then show ?thesis by (intro hold PlaceHold_frame)
  next
    case (lo_release k out)
    then show ?thesis by (intro hold ReleaseHold_frame)
  next
    case (lo_capture c k key out)
    then show ?thesis by (intro CaptureHold_frame)
  qed
qed

subsection \<open>A table seen through its liens\<close>

locale lien_table =
  fixes rid :: "'r \<Rightarrow> uuid" and view :: "'r \<Rightarrow> lien"
  assumes view_row: "ln_row (view r) = rid r"
begin

lemma view_rows: "map ln_row (map view rows) = map rid rows"
  by (simp add: view_row)

lemma view_find: "find_row ln_row i (map view rows) = map_option view (find_row rid i rows)"
  by (induction rows) (auto simp: find_row_Cons view_row)

lemma view_taken: "key_taken ln_row i (map view rows) = key_taken rid i rows"
  unfolding key_taken_def view_rows ..

text \<open>An update of the row with id \<open>i\<close> is an update of its lien, or leaves the liens as they are.\<close>

lemma view_update:
  assumes "distinct (map rid rows)" and "find_row rid i rows = Some r" and "view (f r) = g (view r)"
  shows "map view (update_row rid i f rows) = update_row ln_row i g (map view rows)"
proof -
  have "x = r" if "x \<in> set rows" "rid x = i" for x
    using find_row_distinct [OF assms(1) that(1)] that(2) assms(2) by simp
  then show ?thesis using assms(3) by (auto simp: update_row_def view_row)
qed

lemma view_same:
  assumes "distinct (map rid rows)" and "find_row rid i rows = Some r" and "view (f r) = view r"
  shows "map view (update_row rid i f rows) = map view rows"
  using view_update [OF assms(1,2), of f "\<lambda>l. l"] assms(3) by (simp add: update_row_def cong: if_cong)

lemma liens_distinct: "liens_ok hs (map view rows) \<Longrightarrow> distinct (map rid rows)"
  by (drule liens_okD(1)) (simp only: view_rows)

end

subsection \<open>A call for the examples\<close>

text \<open>The \<open>n\<close>-th call: its own clock, its own identifiers, and a hash that is hexadecimal.\<close>

definition call :: "nat \<Rightarrow> ctx" where
  "call n = \<lparr>now = 1000 * int n, gen = (\<lambda>i. [char_of (65 + n), char_of (97 + i)]), sha256 = (\<lambda>x. ''5f'')\<rparr>"

lemma call_hex [simp]: "hex_sha (call n)"
  by (simp add: hex_sha_def call_def)

end
