(* ===== verification/Cards.thy ===== *)
theory Cards
  imports Payments HoldOwners
begin

section \<open>Cards\<close>

text \<open>
  \<open>internal/cards\<close> (cards.go, authorize.go, network.go, threeds.go): issuing, freezing and limits;
  authorization (controls, daily limit, the simulated network, the 3-D Secure detour), and what
  can follow it: completing the challenge, settling, voiding, charging back.  The tables \<open>cards\<close>,
  \<open>card_limits\<close>, \<open>card_authorizations\<close> and the process-local stash of challenge codes are the
  state.  Random bytes are arguments; each statement is one step of the function that runs it.
\<close>

datatype card_type = CardTypeVirtual | CardTypePhysical

datatype card_status = CardActive | CardFrozen | CardClosed

record card =
  cd_id :: uuid
  cd_identity :: uuid
  cd_account :: uuid
  cd_type :: card_type
  cd_last4 :: string
  cd_brand :: string
  cd_status :: card_status
  cd_created :: int
  cd_updated :: int

record card_limits =
  cl_daily :: int
  cl_per_txn :: int
  cl_blocked :: "string list"

record card_limits_row = card_limits +
  cl_card :: uuid

datatype auth_status = AuthStatusPending | AuthStatusRequires3DS | AuthStatusApproved | AuthStatusDeclined
  | AuthStatusSettled | AuthStatusVoided | AuthStatusChargedBack

record authorization =
  au_id :: uuid
  au_card :: uuid
  au_account :: uuid
  au_merchant :: string
  au_mcc :: string
  au_amount :: money
  au_status :: auth_status
  au_reason :: "string option"
  au_hold :: "uuid option"
  au_txn :: "uuid option"
  au_created :: int
  au_settled :: "int option"

record auth_row = authorization +
  au_code_hash :: "string option"
  au_code_expires :: "int option"
  au_key :: string

record card_db = resil_db +
  cards :: "card list"
  limits_table :: "card_limits_row list"
  auths :: "auth_row list"
  threeDSCodes :: "uuid \<rightharpoonup> string"

subsection \<open>cards.go\<close>

definition defaultLimits :: card_limits where
  "defaultLimits = \<lparr>cl_daily = 50000000, cl_per_txn = 20000000, cl_blocked = []\<rparr>"

text \<open>Four digits from two random bytes (\<open>%04d\<close>), and \<open>n\<close> digits from \<open>n\<close> bytes.\<close>

definition digit :: "nat \<Rightarrow> char" where "digit n = char_of (48 + n mod 10)"

definition randomDigits4 :: "nat \<Rightarrow> nat \<Rightarrow> string" where
  "randomDigits4 b0 b1 =
    (let n = (b0 * 256 + b1) mod 10000
     in [digit (n div 1000), digit (n div 100), digit (n div 10), digit n])"

definition randomDigits :: "nat list \<Rightarrow> string" where
  "randomDigits bytes = map digit bytes"

definition Issue :: "ctx \<Rightarrow> nat \<times> nat \<Rightarrow> uuid \<Rightarrow> uuid \<Rightarrow> card_type \<Rightarrow> 'z card_db_scheme
    \<Rightarrow> (gerror + card) \<times> 'z card_db_scheme" where
  "Issue c bs identityID accountID ty s =
    (if key_taken cd_id (gen c 5) (cards s) then (Inl SqlUnique, s)
     else if \<not> key_taken id_id identityID (identities s) then (Inl SqlForeignKey, s)
     else if \<not> key_taken a_id accountID (accounts s) then (Inl SqlForeignKey, s)
     else if key_taken cl_card (gen c 5) (limits_table s) then (Inl SqlUnique, s)
     else let cd = \<lparr>cd_id = gen c 5, cd_identity = identityID, cd_account = accountID, cd_type = ty,
                    cd_last4 = randomDigits4 (fst bs) (snd bs), cd_brand = ''kolocard'', cd_status = CardActive,
                    cd_created = now c, cd_updated = now c\<rparr>
          in (Inr cd, s\<lparr>cards := cards s @ [cd],
                limits_table := limits_table s @ [card_limits.extend defaultLimits (card_limits_row.fields (gen c 5))]\<rparr>))"

definition setStatus :: "ctx \<Rightarrow> uuid \<Rightarrow> card_status \<Rightarrow> 'z card_db_scheme \<Rightarrow> (gerror + unit) \<times> 'z card_db_scheme" where
  "setStatus c cardID st s =
    (case find_row cd_id cardID (cards s) of
       None \<Rightarrow> (Inl ErrCardNotFound, s)
     | Some cd \<Rightarrow>
        if cd_status cd = CardClosed then (Inl ErrCardNotFound, s)
        else (Inr (), s\<lparr>cards := update_row cd_id cardID (\<lambda>r. r\<lparr>cd_status := st, cd_updated := now c\<rparr>) (cards s)\<rparr>))"

definition Freeze :: "ctx \<Rightarrow> uuid \<Rightarrow> 'z card_db_scheme \<Rightarrow> (gerror + unit) \<times> 'z card_db_scheme" where
  "Freeze c cardID s = setStatus c cardID CardFrozen s"

definition Unfreeze :: "ctx \<Rightarrow> uuid \<Rightarrow> 'z card_db_scheme \<Rightarrow> (gerror + unit) \<times> 'z card_db_scheme" where
  "Unfreeze c cardID s = setStatus c cardID CardActive s"

definition SetLimits :: "uuid \<Rightarrow> int \<Rightarrow> int \<Rightarrow> string list \<Rightarrow> 'z card_db_scheme
    \<Rightarrow> (gerror + unit) \<times> 'z card_db_scheme" where
  "SetLimits cardID daily perTxn blockedMCCs s =
    (if \<not> key_taken cl_card cardID (limits_table s) then (Inl ErrCardNotFound, s)
     else if \<not> in64 daily \<or> \<not> in64 perTxn then (Inl SqlRange, s)
     else if \<not> 0 < daily \<or> \<not> 0 < perTxn then (Inl SqlCheck, s)
     else (Inr (), s\<lparr>limits_table := update_row cl_card cardID
             (\<lambda>r. r\<lparr>cl_daily := daily, cl_per_txn := perTxn, cl_blocked := blockedMCCs\<rparr>) (limits_table s)\<rparr>))"

definition cards_Get :: "uuid \<Rightarrow> 'z card_db_scheme \<Rightarrow> gerror + card" where
  "cards_Get cardID s = (case find_row cd_id cardID (cards s) of None \<Rightarrow> Inl ErrCardNotFound | Some cd \<Rightarrow> Inr cd)"

definition GetLimits :: "uuid \<Rightarrow> 'z card_db_scheme \<Rightarrow> gerror + card_limits" where
  "GetLimits cardID s =
    (case find_row cl_card cardID (limits_table s) of
       None \<Rightarrow> Inl ErrCardNotFound | Some l \<Rightarrow> Inr (card_limits.truncate l))"

text \<open>\<open>ORDER BY created_at DESC\<close>, equal times in insertion order.\<close>

definition cards_ListByIdentity :: "uuid \<Rightarrow> 'z card_db_scheme \<Rightarrow> card list" where
  "cards_ListByIdentity identityID s = sort_key (\<lambda>r. - cd_created r) (filter (\<lambda>r. cd_identity r = identityID) (cards s))"

subsection \<open>network.go and threeds.go\<close>

definition declineMarker :: string where "declineMarker = ''NETWORKDECLINE''"

definition simulateNetwork :: "string \<Rightarrow> bool \<times> string" where
  "simulateNetwork merchantName =
    (if str_contains merchantName declineMarker then (False, ''network_declined'') else (True, ''''))"

definition threeDSThresholdMinor :: int where "threeDSThresholdMinor = 10000000"
definition threeDSChallengeTTL :: int where "threeDSChallengeTTL = 5 * minute"

definition hashThreeDSCode :: "ctx \<Rightarrow> string \<Rightarrow> string" where
  "hashThreeDSCode c code = sha256 c code"

definition issueThreeDSChallenge :: "ctx \<Rightarrow> nat list \<Rightarrow> uuid \<Rightarrow> 'z card_db_scheme \<Rightarrow> 'z card_db_scheme" where
  "issueThreeDSChallenge c bytes authID s =
    (let code = randomDigits bytes
     in s\<lparr>auths := update_row au_id authID
              (\<lambda>r. r\<lparr>au_code_hash := Some (hashThreeDSCode c code),
                     au_code_expires := Some (now c + threeDSChallengeTTL)\<rparr>) (auths s),
          threeDSCodes := (threeDSCodes s)(authID \<mapsto> code)\<rparr>)"

definition PeekThreeDSCode :: "uuid \<Rightarrow> 'z card_db_scheme \<Rightarrow> string option" where
  "PeekThreeDSCode authID s = threeDSCodes s authID"

definition verifyThreeDSCode :: "ctx \<Rightarrow> string \<Rightarrow> string \<Rightarrow> bool" where
  "verifyThreeDSCode c storedHash code \<longleftrightarrow> hashThreeDSCode c code = storedHash"

subsection \<open>authorize.go: authorizing\<close>

datatype card_decision = decisionApprove | decisionDecline string | decisionRequires3DS

definition approvedTodaySum :: "ctx \<Rightarrow> uuid \<Rightarrow> 'z card_db_scheme \<Rightarrow> int" where
  "approvedTodaySum c cardID s = sum_list (map (minor \<circ> au_amount)
     (filter (\<lambda>r. au_card r = cardID \<and> (au_status r = AuthStatusApproved \<or> au_status r = AuthStatusSettled)
                \<and> day_start (now c) \<le> au_created r) (auths s)))"

definition evaluate_card :: "ctx \<Rightarrow> card \<Rightarrow> card_limits \<Rightarrow> string \<Rightarrow> string \<Rightarrow> money \<Rightarrow> 'z card_db_scheme
    \<Rightarrow> card_decision" where
  "evaluate_card c cd l merchantName mcc amount s =
    (if cd_status cd \<noteq> CardActive then decisionDecline ''card_inactive''
     else if mcc \<in> set (cl_blocked l) then decisionDecline ''mcc_blocked''
     else if minor amount > cl_per_txn l then decisionDecline ''limit_exceeded''
     else (case scan64 (approvedTodaySum c (cd_id cd) s) of
             Inl _ \<Rightarrow> decisionDecline ''internal_error''
           | Inr spentToday \<Rightarrow>
              if wrap64 (spentToday + minor amount) > cl_daily l then decisionDecline ''daily_limit_exceeded''
              else (case simulateNetwork merchantName of
                      (approved, reason) \<Rightarrow>
                        if \<not> approved then decisionDecline reason
                        else if minor amount \<ge> threeDSThresholdMinor then decisionRequires3DS
                        else decisionApprove)))"

definition auth_insert :: "ctx \<Rightarrow> card \<Rightarrow> string \<Rightarrow> string \<Rightarrow> money \<Rightarrow> auth_status \<Rightarrow> string \<Rightarrow> uuid option \<Rightarrow> string
    \<Rightarrow> 'z card_db_scheme \<Rightarrow> (gerror + authorization) \<times> 'z card_db_scheme" where
  "auth_insert c cd merchantName mcc amount st reason holdID key s =
    (case char3 (currency amount) of
       Inl e \<Rightarrow> (Inl e, s)
     | Inr cur3 \<Rightarrow>
        if \<not> in64 (minor amount) then (Inl SqlRange, s)
        else if \<not> 0 < minor amount then (Inl SqlCheck, s)
        else if key_taken au_id (gen c 6) (auths s) \<or> key_taken au_key key (auths s) then (Inl SqlUnique, s)
        else if \<not> key_taken a_id (cd_account cd) (accounts s) then (Inl SqlForeignKey, s)
        else let a = \<lparr>au_id = gen c 6, au_card = cd_id cd, au_account = cd_account cd, au_merchant = merchantName,
                      au_mcc = mcc, au_amount = \<lparr>minor = minor amount, currency = cur3\<rparr>, au_status = st,
                      au_reason = (if reason = '''' then None else Some reason), au_hold = holdID, au_txn = None,
                      au_created = now c, au_settled = None\<rparr>
             in (Inr a, s\<lparr>auths := auths s @ [authorization.extend a (auth_row.fields None None key)]\<rparr>))"

definition placeHoldAndRecord :: "ctx \<Rightarrow> card \<Rightarrow> string \<Rightarrow> string \<Rightarrow> money \<Rightarrow> string \<Rightarrow> 'z card_db_scheme
    \<Rightarrow> (gerror + authorization) \<times> 'z card_db_scheme" where
  "placeHoldAndRecord c cd merchantName mcc amount key s =
    (case PlaceHold c (cd_account cd) amount s of
       (Inl e, s1) \<Rightarrow>
         if e = ErrInsufficientBalance
         then auth_insert c cd merchantName mcc amount AuthStatusDeclined ''insufficient_funds'' None key s1
         else (Inl e, s1)
     | (Inr h, s1) \<Rightarrow> auth_insert c cd merchantName mcc amount AuthStatusApproved '''' (Some (hv_id h)) key s1)"

definition recordRequires3DS :: "ctx \<Rightarrow> nat list \<Rightarrow> card \<Rightarrow> string \<Rightarrow> string \<Rightarrow> money \<Rightarrow> string \<Rightarrow> 'z card_db_scheme
    \<Rightarrow> (gerror + authorization) \<times> 'z card_db_scheme" where
  "recordRequires3DS c bytes cd merchantName mcc amount key s =
    (case auth_insert c cd merchantName mcc amount AuthStatusRequires3DS '''' None key s of
       (Inl e, s1) \<Rightarrow> (Inl e, s1)
     | (Inr a, s1) \<Rightarrow> (Inr a, issueThreeDSChallenge c bytes (au_id a) s1))"

definition auth_getByIdempotencyKey :: "string \<Rightarrow> 'z card_db_scheme \<Rightarrow> authorization option" where
  "auth_getByIdempotencyKey key s = map_option authorization.truncate (find_row au_key key (auths s))"

definition Authorize :: "ctx \<Rightarrow> nat list \<Rightarrow> uuid \<Rightarrow> string \<Rightarrow> string \<Rightarrow> money \<Rightarrow> string \<Rightarrow> 'z card_db_scheme
    \<Rightarrow> (gerror + authorization) \<times> 'z card_db_scheme" where
  "Authorize c bytes cardID merchantName mcc amount key s =
    (case auth_getByIdempotencyKey key s of
       Some existing \<Rightarrow> (Inr existing, s)
     | None \<Rightarrow>
        (case res_Check c [Feature ''card_authorize''] s of
           (Inl e, s1) \<Rightarrow> (Inl e, s1)
         | (Inr _, s1) \<Rightarrow>
            (case cards_Get cardID s1 of
               Inl e \<Rightarrow> (Inl e, s1)
             | Inr cd \<Rightarrow>
                (case GetLimits cardID s1 of
                   Inl e \<Rightarrow> (Inl e, s1)
                 | Inr l \<Rightarrow>
                    (case evaluate_card c cd l merchantName mcc amount s1 of
                       decisionDecline reason \<Rightarrow>
                         auth_insert c cd merchantName mcc amount AuthStatusDeclined reason None key s1
                     | decisionRequires3DS \<Rightarrow> recordRequires3DS c bytes cd merchantName mcc amount key s1
                     | decisionApprove \<Rightarrow> placeHoldAndRecord c cd merchantName mcc amount key s1)))))"

definition GetAuthorization :: "uuid \<Rightarrow> 'z card_db_scheme \<Rightarrow> gerror + authorization" where
  "GetAuthorization authID s =
    (case find_row au_id authID (auths s) of None \<Rightarrow> Inl ErrNotAuthorized | Some r \<Rightarrow> Inr (authorization.truncate r))"

definition ListAuthorizationsByCard :: "uuid \<Rightarrow> 'z card_db_scheme \<Rightarrow> authorization list" where
  "ListAuthorizationsByCard cardID s =
    map authorization.truncate (sort_key (\<lambda>r. - au_created r) (filter (\<lambda>r. au_card r = cardID) (auths s)))"

subsection \<open>authorize.go: after the authorization\<close>

definition set_auth :: "uuid \<Rightarrow> (auth_row \<Rightarrow> auth_row) \<Rightarrow> 'z card_db_scheme \<Rightarrow> 'z card_db_scheme" where
  "set_auth authID f s = s\<lparr>auths := update_row au_id authID f (auths s)\<rparr>"

definition mark_declined :: "uuid \<Rightarrow> string \<Rightarrow> 'z card_db_scheme \<Rightarrow> (gerror + authorization) \<times> 'z card_db_scheme" where
  "mark_declined authID reason s =
    (let s1 = set_auth authID (\<lambda>r. r\<lparr>au_status := AuthStatusDeclined, au_reason := Some reason\<rparr>) s
     in (GetAuthorization authID s1, s1))"

definition hold_after_3ds :: "ctx \<Rightarrow> uuid \<Rightarrow> authorization \<Rightarrow> 'z card_db_scheme
    \<Rightarrow> (gerror + authorization) \<times> 'z card_db_scheme" where
  "hold_after_3ds c authID auth s =
    (case cards_Get (au_card auth) s of
       Inl e \<Rightarrow> (Inl e, s)
     | Inr cd \<Rightarrow>
        (case PlaceHold c (cd_account cd) (au_amount auth) s of
           (Inl e, s1) \<Rightarrow>
             if e = ErrInsufficientBalance then mark_declined authID ''insufficient_funds'' s1 else (Inl e, s1)
         | (Inr h, s1) \<Rightarrow>
             (let s2 = set_auth authID (\<lambda>r. r\<lparr>au_status := AuthStatusApproved, au_hold := Some (hv_id h)\<rparr>) s1
              in (GetAuthorization authID s2, s2))))"

definition Complete3DS :: "ctx \<Rightarrow> uuid \<Rightarrow> string \<Rightarrow> 'z card_db_scheme
    \<Rightarrow> (gerror + authorization) \<times> 'z card_db_scheme" where
  "Complete3DS c authID code s =
    (case find_row au_id authID (auths s) of
       None \<Rightarrow> (Inl ErrNotAuthorized, s)
     | Some r \<Rightarrow>
        if au_status r \<noteq> AuthStatusRequires3DS then (Inl ErrNotAuthorized, s)
        else (case (au_code_hash r, au_code_expires r) of
                (Some storedHash, Some expiresAt) \<Rightarrow>
                  if now c > expiresAt \<or> \<not> verifyThreeDSCode c storedHash code
                  then mark_declined authID ''3ds_failed'' s
                  else hold_after_3ds c authID (authorization.truncate r) s
              | _ \<Rightarrow> (Inl SqlScan, s)))"

definition Settle :: "ctx \<Rightarrow> uuid \<Rightarrow> 'z card_db_scheme \<Rightarrow> (gerror + authorization) \<times> 'z card_db_scheme" where
  "Settle c authID s =
    (case GetAuthorization authID s of
       Inl e \<Rightarrow> (Inl e, s)
     | Inr auth \<Rightarrow>
        (case au_hold auth of
           None \<Rightarrow> (Inl ErrNotAuthorized, s)
         | Some h \<Rightarrow>
            if au_status auth \<noteq> AuthStatusApproved then (Inl ErrNotAuthorized, s)
            else (case CaptureHold c h (''settle:'' @ authID) s of
                    (Inl e, s1) \<Rightarrow> (Inl e, s1)
                  | (Inr txn, s1) \<Rightarrow>
                     (let s2 = set_auth authID (\<lambda>r. r\<lparr>au_status := AuthStatusSettled, au_txn := Some (t_id txn),
                                 au_settled := Some (now c)\<rparr>) s1
                      in (GetAuthorization authID s2, s2)))))"

definition Void :: "uuid \<Rightarrow> 'z card_db_scheme \<Rightarrow> (gerror + unit) \<times> 'z card_db_scheme" where
  "Void authID s =
    (case GetAuthorization authID s of
       Inl e \<Rightarrow> (Inl e, s)
     | Inr auth \<Rightarrow>
        (case au_hold auth of
           None \<Rightarrow> (Inl ErrNotAuthorized, s)
         | Some h \<Rightarrow>
            if au_status auth \<noteq> AuthStatusApproved then (Inl ErrNotAuthorized, s)
            else (case ReleaseHold h s of
                    (Inl e, s1) \<Rightarrow> (Inl e, s1)
                  | (Inr _, s1) \<Rightarrow> (Inr (), set_auth authID (\<lambda>r. r\<lparr>au_status := AuthStatusVoided\<rparr>) s1))))"

definition Chargeback :: "ctx \<Rightarrow> uuid \<Rightarrow> string \<Rightarrow> 'z card_db_scheme
    \<Rightarrow> (gerror + authorization) \<times> 'z card_db_scheme" where
  "Chargeback c authID key s =
    (case GetAuthorization authID s of
       Inl e \<Rightarrow> (Inl e, s)
     | Inr auth \<Rightarrow>
        if au_status auth = AuthStatusChargedBack then (Inr auth, s)
        else (case au_txn auth of
                None \<Rightarrow> (Inl ErrNotAuthorized, s)
              | Some t \<Rightarrow>
                 if au_status auth \<noteq> AuthStatusSettled then (Inl ErrNotAuthorized, s)
                 else (case ReverseTransaction c t key s of
                         (Inl e, s1) \<Rightarrow> (Inl e, s1)
                       | (Inr _, s1) \<Rightarrow>
                          (let s2 = set_auth authID (\<lambda>r. if au_status r = AuthStatusSettled
                                        then r\<lparr>au_status := AuthStatusChargedBack\<rparr> else r) s1
                           in (GetAuthorization authID s2, s2)))))"

end
