(* ===== verification/CardInv.thy ===== *)
theory CardInv
  imports Cards
begin

section \<open>The invariant of cards\<close>

text \<open>
  The invariant ties each authorization to the hold it owns and to the status that hold must have;
  it is kept by every card operation and by other ledger activity, in any order.  The locale
  \<open>auth_update\<close> is the contract of the \<open>UPDATE card_authorizations\<close> statements.
\<close>

subsection \<open>Authorizations and their holds\<close>

fun hold_of_auth :: "auth_status \<Rightarrow> hold_status" where
  "hold_of_auth AuthStatusSettled = HoldStatusCaptured"
| "hold_of_auth AuthStatusChargedBack = HoldStatusCaptured"
| "hold_of_auth AuthStatusVoided = HoldStatusReleased"
| "hold_of_auth _ = HoldStatusActive"

definition auth_lien :: "auth_row \<Rightarrow> lien" where
  "auth_lien r = \<lparr>ln_row = au_id r, ln_hold = au_hold r, ln_account = au_account r,
                  ln_amount = minor (au_amount r), ln_status = {hold_of_auth (au_status r)}\<rparr>"

interpretation auth_liens: lien_table au_id auth_lien
  by unfold_locales (simp add: auth_lien_def)

text \<open>Which columns are set, by status.\<close>

definition auth_ok :: "auth_row \<Rightarrow> bool" where
  "auth_ok r \<longleftrightarrow>
     (au_hold r \<noteq> None \<longleftrightarrow> au_status r \<in> {AuthStatusApproved, AuthStatusSettled, AuthStatusVoided, AuthStatusChargedBack}) \<and>
     (au_txn r \<noteq> None \<longleftrightarrow> au_status r \<in> {AuthStatusSettled, AuthStatusChargedBack})"

definition on_card :: "card list \<Rightarrow> auth_row \<Rightarrow> bool" where
  "on_card cs r \<longleftrightarrow> (\<exists>cd. find_row cd_id (au_card r) cs = Some cd \<and> cd_account cd = au_account r)"

definition card_inv :: "'z card_db_scheme \<Rightarrow> bool" where
  "card_inv s \<longleftrightarrow> liens_ok (holds s) (map auth_lien (auths s)) \<and> distinct (map au_key (auths s)) \<and>
     (\<forall>r\<in>set (auths s). auth_ok r \<and> on_card (cards s) r) \<and> capture_inv s"

lemma card_invD:
  assumes "card_inv s"
  shows "liens_ok (holds s) (map auth_lien (auths s))" and "distinct (map au_id (auths s))"
    and "distinct (map au_key (auths s))" and "capture_inv s"
    and "r \<in> set (auths s) \<Longrightarrow> auth_ok r" and "r \<in> set (auths s) \<Longrightarrow> on_card (cards s) r"
  using assms auth_liens.liens_distinct by (auto simp: card_inv_def)

lemma card_inv_cong:
  assumes "auths s' = auths s" and "holds s' = holds s" and "idem_keys s' = idem_keys s" and "cards s' = cards s"
  shows "card_inv s' = card_inv s"
  unfolding card_inv_def capture_inv_def assms ..

lemma card_inv_cache [simp]: "card_inv (s\<lparr>res_cache := k\<rparr>) = card_inv s"
  by (rule card_inv_cong) simp_all

lemma lien_at:
  "find_row au_id i (auths s) = Some r \<Longrightarrow> find_row ln_row i (map auth_lien (auths s)) = Some (auth_lien r)"
  by (simp add: auth_liens.view_find)

subsection \<open>Updates of a row\<close>

locale auth_update = row_update au_id f for f :: "auth_row \<Rightarrow> auth_row" +
  assumes keeps: "au_key (f r) = au_key r \<and> au_card (f r) = au_card r \<and> au_account (f r) = au_account r"
begin

lemma upd_keys: "map au_key (update_row au_id i f rows) = map au_key rows"
  using keeps by (simp add: update_row_def)

lemma card_inv_set:
  assumes inv: "card_inv s" and r: "find_row au_id i (auths s) = Some r"
    and rows: "auths s' = update_row au_id i f (auths s)" and cs: "cards s' = cards s"
    and liens: "liens_ok (holds s') (map auth_lien (auths s'))" and ok: "auth_ok (f r)" and cap: "capture_inv s'"
  shows "card_inv s'"
proof -
  have "auth_ok x \<and> on_card (cards s') x" if x: "x \<in> set (auths s')" for x
  proof -
    from x obtain x0 where x0: "x0 \<in> set (auths s)" "x = (if au_id x0 = i then f x0 else x0)"
      by (auto simp: rows set_update_row)
    have "x0 = r" if "au_id x0 = i" using find_row_distinct [OF card_invD(2) [OF inv] x0(1)] that r by simp
    moreover have "on_card (cards s) (f x0) = on_card (cards s) x0" using keeps by (simp add: on_card_def)
    ultimately show ?thesis using x0 ok card_invD(5,6) [OF inv x0(1)] by (auto simp: cs)
  qed
  then show ?thesis using card_invD(3) [OF inv] liens cap by (simp add: card_inv_def rows upd_keys)
qed

end

interpretation set_declined: auth_update "\<lambda>r. r\<lparr>au_status := AuthStatusDeclined, au_reason := w\<rparr>" for w
  by unfold_locales simp_all

interpretation set_approved: auth_update "\<lambda>r. r\<lparr>au_status := AuthStatusApproved, au_hold := h\<rparr>" for h
  by unfold_locales simp_all

interpretation set_settled: auth_update "\<lambda>r. r\<lparr>au_status := AuthStatusSettled, au_txn := t, au_settled := d\<rparr>" for t d
  by unfold_locales simp_all

interpretation set_voided: auth_update "\<lambda>r. r\<lparr>au_status := AuthStatusVoided\<rparr>"
  by unfold_locales simp_all

interpretation set_charged_back: auth_update
  "\<lambda>r. if au_status r = AuthStatusSettled then r\<lparr>au_status := AuthStatusChargedBack\<rparr> else r"
  by unfold_locales simp_all

interpretation set_challenge: auth_update "\<lambda>r. r\<lparr>au_code_hash := h, au_code_expires := e\<rparr>" for h e
  by unfold_locales simp_all

subsection \<open>Authorizing\<close>

definition new_auth :: "ctx \<Rightarrow> card \<Rightarrow> string \<Rightarrow> string \<Rightarrow> money \<Rightarrow> auth_status \<Rightarrow> string \<Rightarrow> uuid option \<Rightarrow> string \<Rightarrow> auth_row" where
  "new_auth c cd mn mcc amt st reason h key =
    \<lparr>au_id = gen c 6, au_card = cd_id cd, au_account = cd_account cd, au_merchant = mn, au_mcc = mcc,
     au_amount = amt, au_status = st, au_reason = (if reason = '''' then None else Some reason), au_hold = h,
     au_txn = None, au_created = now c, au_settled = None, au_code_hash = None, au_code_expires = None, au_key = key\<rparr>"

lemma auth_insert_cases:
  assumes "auth_insert c cd mn mcc amt st reason h key s = (res, s')"
  shows "(s' = s \<and> (\<exists>e. res = Inl e)) \<or>
    (\<exists>r. res = Inr (authorization.truncate r) \<and> s' = s\<lparr>auths := auths s @ [r]\<rparr> \<and>
       \<not> key_taken au_id (au_id r) (auths s) \<and> \<not> key_taken au_key (au_key r) (auths s) \<and> 0 < minor amt \<and>
       au_id r = gen c 6 \<and> au_key r = key \<and> au_card r = cd_id cd \<and> au_account r = cd_account cd \<and>
       minor (au_amount r) = minor amt \<and> au_status r = st \<and> au_hold r = h \<and> au_txn r = None \<and> au_created r = now c)"
proof (cases "\<exists>e. res = Inl e")
  case True
  with assms show ?thesis by (auto simp: auth_insert_def Let_def split: sum.splits if_splits)
next
  case False
  with assms obtain cur3 where "\<not> key_taken au_id (gen c 6) (auths s)" "\<not> key_taken au_key key (auths s)" "0 < minor amt"
    and "res = Inr (authorization.truncate (new_auth c cd mn mcc \<lparr>minor = minor amt, currency = cur3\<rparr> st reason h key))"
    and "s' = s\<lparr>auths := auths s @ [new_auth c cd mn mcc \<lparr>minor = minor amt, currency = cur3\<rparr> st reason h key]\<rparr>"
    by (cases res) (auto simp: auth_insert_def Let_def new_auth_def authorization.defs auth_row.defs split: sum.splits if_splits)
  then show ?thesis
    by (intro disjI2 exI [of _ "new_auth c cd mn mcc \<lparr>minor = minor amt, currency = cur3\<rparr> st reason h key"])
       (simp add: new_auth_def)
qed

lemma card_inv_append:
  assumes inv: "card_inv s" and fresh: "\<not> key_taken au_id (au_id r) (auths s)" "\<not> key_taken au_key (au_key r) (auths s)"
    and l: "lien_ok (holds s) (auth_lien r)" and own: "\<And>h. au_hold r = Some h \<Longrightarrow> h \<notin> owned (map auth_lien (auths s))"
    and ok: "auth_ok r" "on_card (cards s) r"
  shows "card_inv (s\<lparr>auths := auths s @ [r]\<rparr>)"
proof -
  have "liens_ok (holds s) (map auth_lien (auths s) @ [auth_lien r])"
    using own fresh(1) by (intro liens_ok_snoc [OF card_invD(1) [OF inv] _ l]) (simp_all add: auth_liens.view_row auth_liens.view_taken, simp add: auth_lien_def)
  moreover have "capture_inv (s\<lparr>auths := auths s @ [r]\<rparr>) = capture_inv s" by (simp add: capture_inv_def)
  ultimately show ?thesis using inv fresh ok
    by (simp add: card_inv_def distinct_snoc_key del: map_append) simp
qed

lemma auth_insert_inv:
  assumes run: "auth_insert c cd mn mcc amt st reason None key s = (res, s')" and inv: "card_inv s"
    and st: "st \<in> {AuthStatusDeclined, AuthStatusRequires3DS}" and cd: "find_row cd_id (cd_id cd) (cards s) = Some cd"
  shows "card_inv s'"
proof (cases "s' = s")
  case False
  with auth_insert_cases [OF run] obtain r where s': "s' = s\<lparr>auths := auths s @ [r]\<rparr>"
    and fr: "\<not> key_taken au_id (au_id r) (auths s)" "\<not> key_taken au_key (au_key r) (auths s)"
    and r: "au_card r = cd_id cd" "au_account r = cd_account cd" "au_status r = st" "au_hold r = None" "au_txn r = None"
    by auto
  show ?thesis unfolding s' using r st cd
    by (intro card_inv_append [OF inv fr]) (auto simp: lien_ok_def auth_lien_def auth_ok_def on_card_def)
qed (use inv in simp)

lemma challenge_inv:
  assumes inv: "card_inv s" and r: "find_row au_id i (auths s) = Some r"
  shows "card_inv (issueThreeDSChallenge c bytes i s)"
proof (rule set_challenge.card_inv_set [OF inv r])
  have same: "map auth_lien (update_row au_id i (\<lambda>r. r\<lparr>au_code_hash := h, au_code_expires := e\<rparr>) (auths s)) =
      map auth_lien (auths s)" for h e
    using card_invD(2) [OF inv] r by (intro auth_liens.view_same) (simp_all add: auth_lien_def)
  show "auths (issueThreeDSChallenge c bytes i s) = update_row au_id i (\<lambda>r. r\<lparr>
      au_code_hash := Some (hashThreeDSCode c (randomDigits bytes)), au_code_expires := Some (now c + threeDSChallengeTTL)\<rparr>) (auths s)"
    by (simp add: issueThreeDSChallenge_def Let_def)
  show "liens_ok (holds (issueThreeDSChallenge c bytes i s)) (map auth_lien (auths (issueThreeDSChallenge c bytes i s)))"
    using card_invD(1) [OF inv] by (simp add: issueThreeDSChallenge_def Let_def same)
  show "capture_inv (issueThreeDSChallenge c bytes i s)"
    using card_invD(4) [OF inv] by (simp add: issueThreeDSChallenge_def Let_def capture_inv_def)
  show "auth_ok (r\<lparr>au_code_hash := Some (hashThreeDSCode c (randomDigits bytes)), au_code_expires := Some (now c + threeDSChallengeTTL)\<rparr>)"
    using card_invD(5) [OF inv, of r] find_row_Some [OF r] by (simp add: auth_ok_def)
qed (simp add: issueThreeDSChallenge_def Let_def)

lemma card_inv_PlaceHold:
  assumes place: "PlaceHold c a amt s = (res, s')" and inv: "card_inv s"
  shows "card_inv s'"
proof -
  obtain hs where s': "s' = s\<lparr>holds := hs\<rparr>" using PlaceHold_frame [OF place] by blast
  show ?thesis
    using inv liens_ok_PlaceHold [OF place card_invD(1) [OF inv]] PlaceHold_capture_inv [OF place card_invD(4) [OF inv]]
    by (simp add: card_inv_def s')
qed

lemma placeHoldAndRecord_inv:
  assumes run: "placeHoldAndRecord c cd mn mcc amt key s = (res, s')" and inv: "card_inv s"
    and cd: "find_row cd_id (cd_id cd) (cards s) = Some cd"
  shows "card_inv s'"
proof -
  obtain h s1 where place: "PlaceHold c (cd_account cd) amt s = (h, s1)" by fastforce
  have inv1: "card_inv s1" by (rule card_inv_PlaceHold [OF place inv])
  have s1: "auths s1 = auths s" "cards s1 = cards s" using PlaceHold_frame [OF place] by auto
  show ?thesis
  proof (cases h)
    case (Inl e)
    have "s' = s1 \<or> auth_insert c cd mn mcc amt AuthStatusDeclined ''insufficient_funds'' None key s1 = (res, s')"
      using run place Inl by (auto simp: placeHoldAndRecord_def split: if_splits)
    then show ?thesis using auth_insert_inv inv1 cd s1 by (metis insertI1)
  next
    case (Inr hv)
    with run place have ins: "auth_insert c cd mn mcc amt AuthStatusApproved '''' (Some (hv_id hv)) key s1 = (res, s')"
      by (simp add: placeHoldAndRecord_def)
    show ?thesis
    proof (cases "s' = s1")
      case False
      with auth_insert_cases [OF ins] obtain r where s': "s' = s1\<lparr>auths := auths s1 @ [r]\<rparr>"
        and fr: "\<not> key_taken au_id (au_id r) (auths s1)" "\<not> key_taken au_key (au_key r) (auths s1)"
        and r: "au_card r = cd_id cd" "au_account r = cd_account cd" "minor (au_amount r) = minor amt"
          "au_status r = AuthStatusApproved" "au_hold r = Some (hv_id hv)" "au_txn r = None"
        by auto
      note h = placed_unowned [OF place [unfolded Inr] card_invD(1) [OF inv]]
      show ?thesis unfolding s' using r cd h
        by (intro card_inv_append [OF inv1 fr])
           (auto simp: lien_ok_def auth_lien_def auth_ok_def on_card_def s1)
    qed (use inv1 in simp)
  qed
qed

lemma Authorize_inv:
  assumes run: "Authorize c bytes cardID mn mcc amt key s = (res, s')" and inv: "card_inv s"
  shows "card_inv s'"
proof (cases "auth_getByIdempotencyKey key s")
  case None
  obtain cr s1 where cr: "res_Check c [Feature ''card_authorize''] s = (cr, s1)" by fastforce
  obtain k where k: "s1 = s\<lparr>res_cache := k\<rparr>" using res_Check_cases cr by (metis snd_conv)
  have inv1: "card_inv s1" using inv by (simp add: k)
  show ?thesis
  proof (cases "\<exists>u cd l. cr = Inr u \<and> find_row cd_id cardID (cards s1) = Some cd \<and> GetLimits cardID s1 = Inr l")
    case False
    with run None cr have "s' = s1"
      by (auto simp: Authorize_def cards_Get_def split: sum.splits option.splits)
    then show ?thesis using inv1 by simp
  next
    case True
    then obtain u cd l where ok: "cr = Inr u" "find_row cd_id cardID (cards s1) = Some cd" "GetLimits cardID s1 = Inr l" by blast
    have cd: "find_row cd_id (cd_id cd) (cards s1) = Some cd" using ok(2) find_row_key by metis
    show ?thesis
    proof (cases "evaluate_card c cd l mn mcc amt s1")
      case decisionApprove
      with run None cr ok have "placeHoldAndRecord c cd mn mcc amt key s1 = (res, s')"
        by (simp add: Authorize_def cards_Get_def)
      then show ?thesis by (rule placeHoldAndRecord_inv [OF _ inv1 cd])
    next
      case (decisionDecline reason)
      with run None cr ok have "auth_insert c cd mn mcc amt AuthStatusDeclined reason None key s1 = (res, s')"
        by (simp add: Authorize_def cards_Get_def)
      then show ?thesis by (rule auth_insert_inv [OF _ inv1 _ cd]) simp
    next
      case decisionRequires3DS
      obtain a s2 where ins: "auth_insert c cd mn mcc amt AuthStatusRequires3DS '''' None key s1 = (a, s2)" by fastforce
      with decisionRequires3DS run None cr ok
      have s': "s' = s2 \<or> (\<exists>x. a = Inr x \<and> s' = issueThreeDSChallenge c bytes (au_id x) s2)"
        by (cases a) (auto simp: Authorize_def cards_Get_def recordRequires3DS_def)
      have inv2: "card_inv s2" by (rule auth_insert_inv [OF ins inv1 _ cd]) simp
      have "\<exists>r. find_row au_id (au_id x) (auths s2) = Some r" if "a = Inr x" for x
        using auth_insert_cases [OF ins] that
        by (auto simp: find_row_append find_row_Cons authorization.defs split: option.splits)
      with s' inv2 show ?thesis using challenge_inv by blast
    qed
  qed
qed (use run inv in \<open>simp add: Authorize_def\<close>)

subsection \<open>After the authorization\<close>

lemma find_truncate: "GetAuthorization i s = Inr a \<Longrightarrow> \<exists>r. find_row au_id i (auths s) = Some r \<and> a = authorization.truncate r"
  by (auto simp: GetAuthorization_def split: option.splits)

lemma mark_declined_inv:
  assumes run: "mark_declined i reason s = (res, s')" and inv: "card_inv s"
    and r: "find_row au_id i (auths s) = Some r" "au_status r = AuthStatusRequires3DS"
  shows "card_inv s'"
proof -
  let ?f = "\<lambda>r. r\<lparr>au_status := AuthStatusDeclined, au_reason := Some reason\<rparr>"
  have s': "s' = s\<lparr>auths := update_row au_id i ?f (auths s)\<rparr>"
    using run by (auto simp: mark_declined_def Let_def set_auth_def)
  have ok: "auth_ok r" using card_invD(5) [OF inv, of r] find_row_Some [OF r(1)] by blast
  have "map auth_lien (update_row au_id i ?f (auths s)) = map auth_lien (auths s)"
    using card_invD(2) [OF inv] r(1) by (intro auth_liens.view_same) (simp_all add: auth_lien_def, simp only: r(2) hold_of_auth.simps)
  then show ?thesis using card_invD(1,4) [OF inv] ok r(2)
    by (intro set_declined.card_inv_set [OF inv r(1), where w = "Some reason"])
       (auto simp: s' auth_ok_def capture_inv_def)
qed

lemma Complete3DS_inv:
  assumes run: "Complete3DS c i code s = (res, s')" and inv: "card_inv s"
  shows "card_inv s'"
proof (cases "\<exists>r. find_row au_id i (auths s) = Some r \<and> au_status r = AuthStatusRequires3DS")
  case False
  with run have "s' = s" by (auto simp: Complete3DS_def split: option.splits)
  then show ?thesis using inv by simp
next
  case True
  then obtain r where r: "find_row au_id i (auths s) = Some r" "au_status r = AuthStatusRequires3DS" by blast
  have rin: "r \<in> set (auths s)" using find_row_Some [OF r(1)] by blast
  have ok: "auth_ok r" "on_card (cards s) r" using card_invD(5,6) [OF inv rin] .
  from ok(2) obtain cd where cd: "find_row cd_id (au_card r) (cards s) = Some cd" "cd_account cd = au_account r"
    by (auto simp: on_card_def)
  obtain h s1 where place: "PlaceHold c (cd_account cd) (au_amount r) s = (h, s1)" by fastforce
  have inv1: "card_inv s1" by (rule card_inv_PlaceHold [OF place inv])
  have s1: "auths s1 = auths s" "cards s1 = cards s" using PlaceHold_frame [OF place] by auto
  let ?f = "\<lambda>h r. r\<lparr>au_status := AuthStatusApproved, au_hold := Some (hv_id h)\<rparr>"
  consider "s' = s" | "mark_declined i ''3ds_failed'' s = (res, s')" | "s' = s1"
    | "mark_declined i ''insufficient_funds'' s1 = (res, s')"
    | hv where "h = Inr hv" "s' = set_auth i (?f hv) s1"
    using run r cd place
    by (cases h) (auto simp: Complete3DS_def hold_after_3ds_def cards_Get_def authorization.defs Let_def
        split: option.splits if_splits)
  then show ?thesis
  proof cases
    case 2
    then show ?thesis by (rule mark_declined_inv [OF _ inv r])
  next
    case 4
    then show ?thesis by (rule mark_declined_inv [OF _ inv1]) (use r s1 in simp_all)
  next
    case 5
    have "map auth_lien (update_row au_id i (?f hv) (auths s)) =
        update_row ln_row i (\<lambda>l. l\<lparr>ln_hold := Some (hv_id hv), ln_status := {HoldStatusActive}\<rparr>) (map auth_lien (auths s))"
      using card_invD(2) [OF inv] r(1) by (intro auth_liens.view_update) (simp_all add: auth_lien_def)
    moreover have "liens_ok (holds s1) (update_row ln_row i (\<lambda>l. l\<lparr>ln_hold := Some (hv_id hv), ln_status := {HoldStatusActive}\<rparr>)
        (map auth_lien (auths s)))"
      using ok(1) r(2) cd(2) place [unfolded 5(1)]
      by (intro liens_ok_attach [OF card_invD(1) [OF inv] lien_at [OF r(1)]]) (auto simp: auth_lien_def auth_ok_def)
    ultimately show ?thesis using ok(1) r s1 card_invD(4) [OF inv1]
      by (intro set_approved.card_inv_set [OF inv1, where h = "Some (hv_id hv)"])
         (auto simp: 5(2) set_auth_def auth_ok_def capture_inv_def)
  qed (use inv inv1 in simp_all)
qed

lemma Settle_cases:
  assumes "Settle c i s = (res, s')"
  obtains "s' = s" | r h t s1 where "find_row au_id i (auths s) = Some r" and "au_status r = AuthStatusApproved"
    and "au_hold r = Some h" and "CaptureHold c h (''settle:'' @ i) s = (Inr t, s1)"
    and "s' = set_auth i (\<lambda>r. r\<lparr>au_status := AuthStatusSettled, au_txn := Some (t_id t), au_settled := Some (now c)\<rparr>) s1"
    and "res = GetAuthorization i s'"
proof (cases "GetAuthorization i s")
  case (Inr a)
  then obtain r where r: "find_row au_id i (auths s) = Some r" "a = authorization.truncate r" using find_truncate by blast
  show ?thesis
  proof (cases "au_status r = AuthStatusApproved \<and> (\<exists>h. au_hold r = Some h)")
    case True
    then obtain h where h: "au_status r = AuthStatusApproved" "au_hold r = Some h" by blast
    obtain t s1 where cap: "CaptureHold c h (''settle:'' @ i) s = (t, s1)" by fastforce
    show ?thesis
    proof (cases t)
      case (Inl e)
      then have "s1 = s" using cap by (auto simp: CaptureHold_def split: prod.splits dest: capture.error_rolls_back)
      with Inl cap assms Inr r h show ?thesis by (intro that(1)) (simp add: Settle_def authorization.defs)
    next
      case t: (Inr tx)
      show ?thesis
        using assms Inr r h cap [unfolded t]
        by (intro that(2) [OF r(1) h cap [unfolded t]]) (auto simp: Settle_def authorization.defs Let_def)
    qed
  qed (use assms Inr r that(1) in \<open>auto simp: Settle_def authorization.defs split: option.splits if_splits\<close>)
qed (use assms that(1) in \<open>simp add: Settle_def\<close>)

lemma Settle_inv:
  assumes run: "Settle c i s = (res, s')" and inv: "card_inv s"
  shows "card_inv s'"
  using run
proof (cases rule: Settle_cases)
  case (2 r h t s1)
  let ?f = "\<lambda>r. r\<lparr>au_status := AuthStatusSettled, au_txn := Some (t_id t), au_settled := Some (now c)\<rparr>"
  obtain ks ts es hs where s1: "s1 = s\<lparr>idem_keys := ks, txns := ts, entries := es, holds := hs\<rparr>"
    using CaptureHold_frame [OF 2(4)] by blast
  have cap1: "capture_inv s1" by (rule CaptureHold_capture_inv [OF 2(4) card_invD(4) [OF inv]])
  have "liens_ok (holds s1) (update_row ln_row i (\<lambda>l. l\<lparr>ln_status := {HoldStatusCaptured}\<rparr>) (map auth_lien (auths s)))"
    using 2(2,3) by (intro liens_ok_capture [OF 2(4) card_invD(1,4) [OF inv] lien_at [OF 2(1)]])
      (simp_all add: auth_lien_def)
  moreover have "map auth_lien (update_row au_id i ?f (auths s)) =
      update_row ln_row i (\<lambda>l. l\<lparr>ln_status := {HoldStatusCaptured}\<rparr>) (map auth_lien (auths s))"
    using card_invD(2) [OF inv] 2(1) by (intro auth_liens.view_update) (simp_all add: auth_lien_def)
  ultimately show ?thesis using 2(3) cap1
    by (intro set_settled.card_inv_set [OF inv 2(1), where t = "Some (t_id t)" and d = "Some (now c)"])
       (auto simp: 2(5) set_auth_def s1 auth_ok_def capture_inv_def)
qed (use inv in simp)

lemma Void_inv:
  assumes run: "Void i s = (res, s')" and inv: "card_inv s"
  shows "card_inv s'"
proof (cases "s' = s")
  case False
  with run obtain r h s1 where r: "find_row au_id i (auths s) = Some r" "au_status r = AuthStatusApproved" "au_hold r = Some h"
    and rel: "ReleaseHold h s = (Inr (), s1)" and s': "s' = set_auth i (\<lambda>r. r\<lparr>au_status := AuthStatusVoided\<rparr>) s1"
    by (auto simp: Void_def GetAuthorization_def authorization.defs ReleaseHold_def
        split: option.splits if_splits prod.splits sum.splits dest: resolveHold_error)
  obtain hs where s1: "s1 = s\<lparr>holds := hs\<rparr>" using ReleaseHold_frame [OF rel] by blast
  have cap1: "capture_inv s1" by (rule ReleaseHold_capture_inv [OF rel card_invD(4) [OF inv]])
  have ok: "auth_ok r" using card_invD(5) [OF inv, of r] find_row_Some [OF r(1)] by blast
  have "liens_ok (holds s1) (update_row ln_row i (\<lambda>l. l\<lparr>ln_status := {HoldStatusReleased}\<rparr>) (map auth_lien (auths s)))"
    using r(3) by (intro liens_ok_release [OF rel card_invD(1) [OF inv] lien_at [OF r(1)]]) (simp add: auth_lien_def)
  moreover have "map auth_lien (update_row au_id i (\<lambda>r. r\<lparr>au_status := AuthStatusVoided\<rparr>) (auths s)) =
      update_row ln_row i (\<lambda>l. l\<lparr>ln_status := {HoldStatusReleased}\<rparr>) (map auth_lien (auths s))"
    using card_invD(2) [OF inv] r(1) by (intro auth_liens.view_update) (simp_all add: auth_lien_def)
  ultimately show ?thesis using r ok cap1
    by (intro set_voided.card_inv_set [OF inv r(1)]) (auto simp: s' set_auth_def s1 auth_ok_def capture_inv_def)
qed (use inv in simp)

lemma Chargeback_cases:
  assumes "Chargeback c i key s = (res, s')"
  obtains "s' = s" | r t u s1 where "find_row au_id i (auths s) = Some r" and "au_status r = AuthStatusSettled"
    and "au_txn r = Some t" and "ReverseTransaction c t key s = (Inr u, s1)"
    and "s' = set_auth i (\<lambda>r. if au_status r = AuthStatusSettled then r\<lparr>au_status := AuthStatusChargedBack\<rparr> else r) s1"
    and "res = GetAuthorization i s'"
proof (cases "\<exists>r t. find_row au_id i (auths s) = Some r \<and> au_status r = AuthStatusSettled \<and> au_txn r = Some t")
  case True
  then obtain r t where r: "find_row au_id i (auths s) = Some r" "au_status r = AuthStatusSettled" "au_txn r = Some t" by blast
  obtain u s1 where rev: "ReverseTransaction c t key s = (u, s1)" by fastforce
  show ?thesis
  proof (cases u)
    case (Inl e)
    then have "s1 = s" using rev by (auto simp: ReverseTransaction_def split: prod.splits dest: reverse.error_rolls_back)
    with Inl rev assms r show ?thesis
      by (intro that(1)) (simp add: Chargeback_def GetAuthorization_def authorization.defs)
  next
    case u: (Inr x)
    show ?thesis using assms r rev [unfolded u]
      by (intro that(2) [OF r rev [unfolded u]])
         (auto simp: Chargeback_def GetAuthorization_def authorization.defs Let_def)
  qed
qed (use assms that(1) in \<open>auto simp: Chargeback_def GetAuthorization_def authorization.defs split: option.splits if_splits\<close>)

lemma Chargeback_inv:
  assumes run: "Chargeback c i key s = (res, s')" and inv: "card_inv s"
  shows "card_inv s'"
  using run
proof (cases rule: Chargeback_cases)
  case (2 r t u s1)
  obtain ks ts es where s1: "s1 = s\<lparr>idem_keys := ks, txns := ts, entries := es\<rparr>"
    using ReverseTransaction_frame [OF 2(4)] by blast
  have cap1: "capture_inv s1" by (rule ReverseTransaction_capture_inv [OF 2(4) card_invD(4) [OF inv]])
  have ok: "auth_ok r" using card_invD(5) [OF inv, of r] find_row_Some [OF 2(1)] by blast
  let ?f = "\<lambda>r. if au_status r = AuthStatusSettled then r\<lparr>au_status := AuthStatusChargedBack\<rparr> else r"
  have "map auth_lien (update_row au_id i ?f (auths s)) = map auth_lien (auths s)"
    using card_invD(2) [OF inv] 2(1) by (intro auth_liens.view_same) (simp_all add: auth_lien_def, simp only: 2(2) hold_of_auth.simps simp_thms)
  then show ?thesis using card_invD(1) [OF inv] ok 2(2) cap1
    by (intro set_charged_back.card_inv_set [OF inv 2(1)]) (auto simp: 2(5) set_auth_def s1 auth_ok_def capture_inv_def)
qed (use inv in simp)

subsection \<open>Steps\<close>

inductive card_step :: "'z card_db_scheme \<Rightarrow> 'z card_db_scheme \<Rightarrow> bool" where
  c_issue: "Issue c bs i a ty s = (res, s') \<Longrightarrow> card_step s s'"
| c_freeze: "Freeze c cardID s = (res', s') \<Longrightarrow> card_step s s'"
| c_unfreeze: "Unfreeze c cardID s = (res', s') \<Longrightarrow> card_step s s'"
| c_limits: "SetLimits cardID d p m s = (res', s') \<Longrightarrow> card_step s s'"
| c_authorize: "Authorize c bytes cardID mn mcc amt key s = (a, s') \<Longrightarrow> card_step s s'"
| c_complete: "Complete3DS c i code s = (a, s') \<Longrightarrow> card_step s s'"
| c_settle: "Settle c i s = (a, s') \<Longrightarrow> card_step s s'"
| c_void: "Void i s = (res', s') \<Longrightarrow> card_step s s'"
| c_chargeback: "Chargeback c i key s = (a, s') \<Longrightarrow> card_step s s'"
| c_ledger: "ledger_other (owned (map auth_lien (auths s))) s s' \<Longrightarrow> card_step s s'"

inductive_cases card_stepE: "card_step s s'"

lemma card_inv_cards:
  assumes "card_inv s" and "auths s' = auths s" and "holds s' = holds s" and "idem_keys s' = idem_keys s"
    and "\<And>r. on_card (cards s) r \<Longrightarrow> on_card (cards s') r"
  shows "card_inv s'"
  using assms by (simp add: card_inv_def capture_inv_def)

lemma Issue_inv: "Issue c bs i a ty s = (res, s') \<Longrightarrow> card_inv s \<Longrightarrow> card_inv s'"
  by (auto simp: Issue_def Let_def on_card_def find_row_append split: if_splits option.splits elim!: card_inv_cards)

interpretation card_status_col: row_update cd_id "\<lambda>r. r\<lparr>cd_status := st, cd_updated := t\<rparr>" for st t
  by unfold_locales simp

lemma on_card_status: "on_card (update_row cd_id i (\<lambda>r. r\<lparr>cd_status := st, cd_updated := t\<rparr>) cs) r = on_card cs r"
  by (cases "au_card r = i"; cases "find_row cd_id (au_card r) cs") (simp_all add: on_card_def card_status_col.find)

lemma setStatus_inv: "setStatus c i st s = (res, s') \<Longrightarrow> card_inv s \<Longrightarrow> card_inv s'"
  by (auto simp: setStatus_def on_card_status split: if_splits option.splits elim!: card_inv_cards)

lemma SetLimits_inv: "SetLimits i d p m s = (res, s') \<Longrightarrow> card_inv s \<Longrightarrow> card_inv s'"
  by (auto simp: SetLimits_def split: if_splits elim!: card_inv_cards)

lemma card_inv_ledger:
  assumes "ledger_other (owned (map auth_lien (auths s))) s s'" and "card_inv s"
  shows "card_inv s'"
proof -
  obtain ks ts es hs where s': "s' = s\<lparr>idem_keys := ks, txns := ts, entries := es, holds := hs\<rparr>"
    using ledger_other_frame [OF assms(1)] by blast
  show ?thesis
    using assms(2) ledger_other_liens [OF assms(1) card_invD(1) [OF assms(2)]]
      ledger_other_capture_inv [OF assms(1) card_invD(4) [OF assms(2)]]
    by (simp add: card_inv_def s')
qed

lemma card_step_inv: "card_step s s' \<Longrightarrow> card_inv s \<Longrightarrow> card_inv s'"
  by (induction rule: card_step.induct)
     (auto simp: Freeze_def Unfreeze_def intro: Issue_inv setStatus_inv SetLimits_inv Authorize_inv Complete3DS_inv
        Settle_inv Void_inv Chargeback_inv card_inv_ledger)

definition card_start :: "'z card_db_scheme \<Rightarrow> bool" where
  "card_start s \<longleftrightarrow> auths s = [] \<and> capture_inv s"

inductive card_reachable :: "'z card_db_scheme \<Rightarrow> bool" where
  card_init: "card_start s \<Longrightarrow> card_reachable s"
| card_next: "card_reachable s \<Longrightarrow> card_step s s' \<Longrightarrow> card_reachable s'"

lemma card_start_inv: "card_start s \<Longrightarrow> card_inv s"
  by (simp add: card_start_def card_inv_def)

lemma card_reachable_inv: "card_reachable s \<Longrightarrow> card_inv s"
  by (induction rule: card_reachable.induct) (auto intro: card_step_inv card_start_inv)

end
