(* ===== verification/CardProps.thy ===== *)
theory CardProps
  imports CardInv
begin

section \<open>The properties of cards\<close>

text \<open>
  The properties of the card component: authorizations and their holds, the decision table of
  \<open>Authorize\<close>, the daily limit and how the 3-D Secure detour escapes it, the life of an
  authorization, and the round trip of a purchase that is charged back.
\<close>


subsection \<open>A concrete state\<close>

definition card_seed :: card_db where
  "card_seed = resil_db.extend
     (ledger_db.extend (sample_ledger\<lparr>entries := [sample_entry ''tx-0'' ''A'' 30000000,
          sample_entry ''tx-0'' SystemAccountNGN (- 30000000)]\<rparr>)
        (resil_db.fields [] \<lparr>sm_read_only = False, sm_reason = None, sm_updated_by = None\<rparr>
          \<lparr>cs_read_only = False, cs_tripped = [], cs_fetched = Some 0\<rparr>))
     (card_db.fields [] [] [] (\<lambda>_. None))"

definition card_demo :: card_db where
  "card_demo = snd (SetLimits ''Cf'' 15000000 12000000 [''7995'']
     (snd (Issue (call 2) (1, 2) ''A'' ''A'' CardTypeVirtual card_seed)))"

lemma card_seed_start: "card_start card_seed"
  by (simp add: card_start_def card_seed_def resil_db.defs card_db.defs ledger_db.defs sample_ledger_def
      capture_inv_def hashHoldCapture_def sample_keys_def)

lemmas card_snd = card_next [OF _ c_authorize [OF prod.collapse [symmetric]]]
  card_next [OF _ c_complete [OF prod.collapse [symmetric]]]
  card_next [OF _ c_settle [OF prod.collapse [symmetric]]]
  card_next [OF _ c_limits [OF prod.collapse [symmetric]]]
  card_next [OF _ c_issue [OF prod.collapse [symmetric]]]

lemma card_demo_reachable: "card_reachable card_demo"
  unfolding card_demo_def
  by (intro card_snd card_init [OF card_seed_start])

definition card_bought :: card_db where
  "card_bought = snd (Authorize (call 3) [1,2,3,4,5,6] ''Cf'' ''shop'' ''5411'' (ngn 9000000) ''k1'' card_demo)"

lemma card_bought_reachable: "card_reachable card_bought"
  unfolding card_bought_def by (intro card_snd card_demo_reachable)



subsection \<open>What \<open>Authorize\<close> decides\<close>

lemma approvedTodaySum_cache [simp]: "approvedTodaySum c i (s\<lparr>res_cache := k\<rparr>) = approvedTodaySum c i s"
  by (simp add: approvedTodaySum_def)

text \<open>
  The card's controls on a purchase: an active card, a category that is not blocked, both limits,
  and a merchant the network does not decline.
\<close>

definition controls_pass :: "ctx \<Rightarrow> card \<Rightarrow> card_limits \<Rightarrow> string \<Rightarrow> string \<Rightarrow> int \<Rightarrow> 'z card_db_scheme \<Rightarrow> bool" where
  "controls_pass c cd l mn mcc m s \<longleftrightarrow> cd_status cd = CardActive \<and> mcc \<notin> set (cl_blocked l) \<and> m \<le> cl_per_txn l
     \<and> approvedTodaySum c (cd_id cd) s + m \<le> cl_daily l \<and> \<not> sublist ''NETWORKDECLINE'' mn"

lemma evaluate_card_decides:
  assumes "in64 (approvedTodaySum c (cd_id cd) s)" and "in64 (approvedTodaySum c (cd_id cd) s + minor amt)"
  shows "if controls_pass c cd l mn mcc (minor amt) s
    then evaluate_card c cd l mn mcc amt s =
      (if 10000000 \<le> minor amt then decisionRequires3DS else decisionApprove)
    else \<exists>reason. evaluate_card c cd l mn mcc amt s = decisionDecline reason"
  using assms
  by (auto simp: evaluate_card_def controls_pass_def scan64_def goint simulateNetwork_def str_contains_sublist
      declineMarker_def threeDSThresholdMinor_def)

lemma auth_insert_done:
  assumes "auth_insert c cd mn mcc amt st reason h key s = (Inr a, s')"
  shows "au_status a = st \<and> au_hold a = h \<and> au_created a = now c \<and> au_card a = cd_id cd \<and> minor (au_amount a) = minor amt
    \<and> 0 < minor amt \<and> in64 (minor amt) \<and> holds s' = holds s \<and> entries s' = entries s"
  using assms by (auto simp: auth_insert_def Let_def split: sum.splits if_splits)

lemma auth_insert_row:
  assumes "auth_insert c cd mn mcc amt st reason h key s = (Inr a, s')"
  shows "\<exists>r. auths s' = auths s @ [r] \<and> au_status r = st \<and> au_created r = now c \<and> au_card r = cd_id cd \<and> minor (au_amount r) = minor amt"
  using assms by (auto simp: auth_insert_def Let_def authorization.defs auth_row.defs split: sum.splits if_splits)

text \<open>
  C12. \<open>Authorize\<close> under a fresh key, when it returns an authorization: declined unless the card is
  active, the category is not blocked, the amount is within the per-transaction limit and, with
  what was approved today, within the daily limit, the network accepts the merchant and the
  available balance covers it; at 100 000 naira and more, challenged instead, reserving nothing;
  otherwise approved.  Only an approval lowers the account's available balance, by exactly the
  amount, and no entry is written; an approval keeps the day's total within the daily limit.
\<close>

theorem Authorize_decides:
  assumes run: "Authorize c bytes i mn mcc amt key s = (Inr a, s')" and fresh: "find_row au_key key (auths s) = None"
    and led: "ledger_inv s" and cd: "find_row cd_id i (cards s) = Some cd" and lim: "GetLimits i s = Inr l"
    and acc: "find_row a_id (cd_account cd) (accounts s) = Some acc"
    and uid: "\<not> key_taken h_id (gen c 1) (holds s)" and fits: "in_bigint (cd_account cd) (- minor amt) s"
    and sum: "in64 (approvedTodaySum c i s)" "in64 (approvedTodaySum c i s + minor amt)"
  shows "au_status a =
      (if \<not> controls_pass c cd l mn mcc (minor amt) s then AuthStatusDeclined
       else if 10000000 \<le> minor amt then AuthStatusRequires3DS
       else if available (cd_account cd) s - minor amt < - a_overdraft acc then AuthStatusDeclined
       else AuthStatusApproved)
    \<and> entries s' = entries s
    \<and> (\<forall>b. available b s' = available b s -
         (if b = cd_account cd \<and> au_status a = AuthStatusApproved then minor amt else 0))
    \<and> (if au_status a = AuthStatusApproved then approvedTodaySum c i s' \<le> cl_daily l else True)"
proof -
  obtain cr s1 where cr: "res_Check c [Feature ''card_authorize''] s = (cr, s1)" by fastforce
  obtain k where s1: "s1 = s\<lparr>res_cache := k\<rparr>" using res_Check_cases cr by (metis snd_conv)
  have id: "cd_id cd = i" by (rule find_row_key [OF cd])
  have lim1: "GetLimits i s1 = Inr l" using lim by (simp add: GetLimits_def s1)
  have cp: "controls_pass c cd l mn mcc m s1 = controls_pass c cd l mn mcc m s" for m
    by (simp add: controls_pass_def s1)
  have sums: "approvedTodaySum c i s1 = approvedTodaySum c i s" by (simp add: s1)
  have ev: "if controls_pass c cd l mn mcc (minor amt) s
    then evaluate_card c cd l mn mcc amt s1 = (if 10000000 \<le> minor amt then decisionRequires3DS else decisionApprove)
    else \<exists>reason. evaluate_card c cd l mn mcc amt s1 = decisionDecline reason"
    using evaluate_card_decides [of c cd s1 amt l mn mcc] sum id by (simp add: cp sums)
  have cd1: "find_row cd_id i (cards s1) = Some cd" using cd by (simp add: s1)
  have d: "(case evaluate_card c cd l mn mcc amt s1 of
           decisionDecline reason \<Rightarrow> auth_insert c cd mn mcc amt AuthStatusDeclined reason None key s1
         | decisionRequires3DS \<Rightarrow> recordRequires3DS c bytes cd mn mcc amt key s1
         | decisionApprove \<Rightarrow> placeHoldAndRecord c cd mn mcc amt key s1) = (Inr a, s')"
    using run fresh cr cd1 lim1 by (cases cr) (simp_all add: Authorize_def auth_getByIdempotencyKey_def cards_Get_def)
  have unmoved: "entries x = entries s \<and> (\<forall>b. available b x = available b s)"
    if "holds x = holds s1" "entries x = entries s1" for x :: "'a card_db_scheme"
    using that by (simp add: s1 available_def)
  consider (no) reason where "\<not> controls_pass c cd l mn mcc (minor amt) s"
      "auth_insert c cd mn mcc amt AuthStatusDeclined reason None key s1 = (Inr a, s')"
    | (challenge) "controls_pass c cd l mn mcc (minor amt) s" "10000000 \<le> minor amt"
      "recordRequires3DS c bytes cd mn mcc amt key s1 = (Inr a, s')"
    | (approve) "controls_pass c cd l mn mcc (minor amt) s" "\<not> 10000000 \<le> minor amt"
      "placeHoldAndRecord c cd mn mcc amt key s1 = (Inr a, s')"
    using d ev by (auto split: if_splits)
  then show ?thesis
  proof cases
    case no
    have same: "holds s' = holds s1" "entries s' = entries s1" using auth_insert_done [OF no(2)] by simp_all
    have "entries s' = entries s" and "\<And>b. available b s' = available b s" using unmoved [OF same] by blast+
    then show ?thesis using auth_insert_done [OF no(2)] no(1) by simp
  next
    case challenge
    then obtain s2 where ins: "auth_insert c cd mn mcc amt AuthStatusRequires3DS '''' None key s1 = (Inr a, s2)"
      and s': "s' = issueThreeDSChallenge c bytes (au_id a) s2"
      by (auto simp: recordRequires3DS_def split: prod.splits sum.splits)
    have same: "holds s' = holds s1" "entries s' = entries s1"
      using auth_insert_done [OF ins] by (simp_all add: s' issueThreeDSChallenge_def Let_def)
    have "entries s' = entries s" and "\<And>b. available b s' = available b s" using unmoved [OF same] by blast+
    then show ?thesis using auth_insert_done [OF ins] challenge(1,2) by simp
  next
    case approve
    obtain h s2 where place: "PlaceHold c (cd_account cd) amt s1 = (h, s2)" by fastforce
    have amt: "0 < minor amt" "in64 (minor amt)"
      using approve(3) place by (auto simp: placeHoldAndRecord_def split: sum.splits if_splits dest!: auth_insert_done)
    have led1: "ledger_inv s1" using led by (simp add: s1)
    have av1: "available b s1 = available b s" for b by (simp add: s1 available_def)
    have pd: "PlaceHold c (cd_account cd) amt s1 =
        (if available (cd_account cd) s - minor amt < - a_overdraft acc then (Inl ErrInsufficientBalance, s1)
         else (Inr \<lparr>hv_id = gen c 1, hv_account = cd_account cd, hv_amount = amt, hv_status = HoldStatusActive\<rparr>,
           s1\<lparr>holds := holds s1 @ [\<lparr>h_id = gen c 1, h_account = cd_account cd, h_amount = minor amt,
                                h_status = HoldStatusActive\<rparr>]\<rparr>))"
      using PlaceHold_decision [OF led1 _ amt, of "cd_account cd" acc c] acc uid fits
      by (simp add: s1 in_bigint_def available_def)
    show ?thesis
    proof (cases "available (cd_account cd) s - minor amt < - a_overdraft acc")
      case True
      with pd approve(3) have "auth_insert c cd mn mcc amt AuthStatusDeclined ''insufficient_funds'' None key s1 = (Inr a, s')"
        by (simp add: placeHoldAndRecord_def)
      note ins = auth_insert_done [OF this]
      have same: "holds s' = holds s1" "entries s' = entries s1" using ins by simp_all
      have "entries s' = entries s" and "\<And>b. available b s' = available b s" using unmoved [OF same] by blast+
      then show ?thesis using ins approve(1,2) True by simp
    next
      case False
      let ?s2 = "s1\<lparr>holds := holds s1 @ [\<lparr>h_id = gen c 1, h_account = cd_account cd, h_amount = minor amt,
                                h_status = HoldStatusActive\<rparr>]\<rparr>"
      from False pd approve(3)
      have ins: "auth_insert c cd mn mcc amt AuthStatusApproved '''' (Some (gen c 1)) key ?s2 = (Inr a, s')"
        by (simp add: placeHoldAndRecord_def)
      from auth_insert_row [OF ins] obtain r where r: "auths s' = auths s @ [r]" "au_status r = AuthStatusApproved"
        "au_created r = now c" "au_card r = i" "minor (au_amount r) = minor amt" by (auto simp: s1 id)
      have "approvedTodaySum c i s' = approvedTodaySum c i s + minor amt"
        using r day_start_le [of "now c"] by (simp add: approvedTodaySum_def)
      moreover have "approvedTodaySum c i s + minor amt \<le> cl_daily l" using approve(1) id by (simp add: controls_pass_def)
      moreover have "available b s' = available b s - (if b = cd_account cd then minor amt else 0)" "entries s' = entries s" for b
        using auth_insert_done [OF ins] by (simp_all add: available_def s1)
      ultimately show ?thesis using auth_insert_done [OF ins] approve(1,2) False by simp
    qed
  qed
qed

lemma card_demo_ledger: "ledger_inv card_demo"
proof -
  have "ledger_inv card_seed"
    by (simp add: ledger_inv_def schema_ok_def balanced_def solvent_def sample_eval card_seed_def
        resil_db.defs card_db.defs ledger_db.defs)
  moreover have "accounts card_demo = accounts card_seed" "txns card_demo = txns card_seed"
    "entries card_demo = entries card_seed" "holds card_demo = holds card_seed" "idem_keys card_demo = idem_keys card_seed"
    by (auto simp: card_demo_def SetLimits_def Issue_def Let_def split: option.split)
  ultimately show ?thesis by (simp add: ledger_inv_cong [of card_demo card_seed])
qed

theorem Authorize_decides_witness:
  "\<exists>a s'. Authorize (call 3) [1,2,3,4,5,6] ''Cf'' ''shop'' ''5411'' (ngn 9000000) ''k1'' card_demo = (Inr a, s')
     \<and> au_status a = AuthStatusApproved \<and> available ''A'' s' = 21000000"
proof -
  let ?f = "Authorize (call 3) [1,2,3,4,5,6] ''Cf'' ''shop'' ''5411'' (ngn 9000000) ''k1'' card_demo"
  have "(case fst ?f of Inr a \<Rightarrow> au_status a = AuthStatusApproved | Inl e \<Rightarrow> False)"
    unfolding card_demo_def by code_simp
  then obtain a s' where run: "?f = (Inr a, s')" and st: "au_status a = AuthStatusApproved"
    by (cases ?f) (auto split: sum.splits)
  let ?cd = "\<lparr>cd_id = ''Cf'', cd_identity = ''A'', cd_account = ''A'', cd_type = CardTypeVirtual, cd_last4 = ''0258'',
      cd_brand = ''kolocard'', cd_status = CardActive, cd_created = 2000, cd_updated = 2000\<rparr>"
  let ?acc = "sample_account ''A'' AccountTypeCurrent 0"
  have side: "find_row cd_id ''Cf'' (cards card_demo) = Some ?cd"
    "GetLimits ''Cf'' card_demo = Inr \<lparr>cl_daily = 15000000, cl_per_txn = 12000000, cl_blocked = [''7995'']\<rparr>"
    "find_row a_id (cd_account ?cd) (accounts card_demo) = Some ?acc"
    unfolding card_demo_def sample_account_def by code_simp+
  have nums: "find_row au_key ''k1'' (auths card_demo) = None" "\<not> key_taken h_id (gen (call 3) 1) (holds card_demo)"
    "in_bigint (cd_account ?cd) (- minor (ngn 9000000)) card_demo"
    "in64 (approvedTodaySum (call 3) ''Cf'' card_demo)"
    "in64 (approvedTodaySum (call 3) ''Cf'' card_demo + minor (ngn 9000000))"
    "available ''A'' card_demo = 30000000"
    unfolding card_demo_def ngn_def by code_simp+
  from Authorize_decides [OF run nums(1) card_demo_ledger side nums(2-5)] run st nums(6) show ?thesis by simp
qed

subsection \<open>The life of an authorization\<close>

definition auth_moves :: "(auth_status \<times> auth_status) set" where
  "auth_moves = {(AuthStatusRequires3DS, AuthStatusApproved), (AuthStatusRequires3DS, AuthStatusDeclined),
     (AuthStatusApproved, AuthStatusSettled), (AuthStatusApproved, AuthStatusVoided),
     (AuthStatusSettled, AuthStatusChargedBack)}"

definition kept :: "auth_row list \<Rightarrow> auth_row list \<Rightarrow> bool" where
  "kept rs rs' \<longleftrightarrow> (\<forall>r\<in>set rs. \<exists>r'\<in>set rs'. au_id r' = au_id r \<and> au_key r' = au_key r \<and> au_card r' = au_card r \<and>
     au_account r' = au_account r \<and> au_amount r' = au_amount r \<and> au_created r' = au_created r \<and>
     (au_status r', au_status r) \<in> (auth_moves \<union> Id)\<inverse>)"

lemma kept_refl [simp]: "kept rs rs"
  by (auto simp: kept_def)

lemma kept_append [simp]: "kept rs (rs @ ss)"
  by (auto simp: kept_def)

lemma kept_update:
  assumes d: "distinct (map au_id rs)" and r: "find_row au_id i rs = Some r"
    and f: "\<And>x. au_id (f x) = au_id x \<and> au_key (f x) = au_key x \<and> au_card (f x) = au_card x \<and>
      au_account (f x) = au_account x \<and> au_amount (f x) = au_amount x \<and> au_created (f x) = au_created x"
    and st: "(au_status r, au_status (f r)) \<in> auth_moves \<union> Id"
  shows "kept rs (update_row au_id i f rs)"
  unfolding kept_def
proof
  fix x assume x: "x \<in> set rs"
  show "\<exists>r'\<in>set (update_row au_id i f rs). au_id r' = au_id x \<and> au_key r' = au_key x \<and> au_card r' = au_card x \<and>
     au_account r' = au_account x \<and> au_amount r' = au_amount x \<and> au_created r' = au_created x \<and>
     (au_status r', au_status x) \<in> (auth_moves \<union> Id)\<inverse>"
  proof (cases "au_id x = i")
    case True
    then have "x = r" using find_row_distinct [OF d x] r by simp
    then have "f r \<in> set (update_row au_id i f rs)" using x True by (auto simp: set_update_row)
    then show ?thesis using f [of r] st \<open>x = r\<close> by (intro bexI [of _ "f r"]) simp_all
  next
    case False
    then have "x \<in> set (update_row au_id i f rs)" using x by (force simp: set_update_row)
    then show ?thesis by (intro bexI [of _ x]) simp_all
  qed
qed

lemma kept_challenge: "kept rs (update_row au_id i (\<lambda>r. r\<lparr>au_code_hash := h, au_code_expires := e\<rparr>) (rs @ ss))"
  unfolding kept_def
proof
  fix x assume "x \<in> set rs"
  then have "(if au_id x = i then x\<lparr>au_code_hash := h, au_code_expires := e\<rparr> else x)
      \<in> set (update_row au_id i (\<lambda>r. r\<lparr>au_code_hash := h, au_code_expires := e\<rparr>) (rs @ ss))"
    by (simp only: set_update_row set_append image_Un) blast
  then show "\<exists>r'\<in>set (update_row au_id i (\<lambda>r. r\<lparr>au_code_hash := h, au_code_expires := e\<rparr>) (rs @ ss)).
     au_id r' = au_id x \<and> au_key r' = au_key x \<and> au_card r' = au_card x \<and>
     au_account r' = au_account x \<and> au_amount r' = au_amount x \<and> au_created r' = au_created x \<and>
     (au_status r', au_status x) \<in> (auth_moves \<union> Id)\<inverse>"
    by (rule bexI [rotated]) simp
qed

lemma auth_insert_kept: "auth_insert c cd mn mcc amt st reason h key s = (res, s') \<Longrightarrow> kept (auths s) (auths s')"
  by (drule auth_insert_cases) auto

lemma placeHoldAndRecord_kept:
  assumes "placeHoldAndRecord c cd mn mcc amt key s = (res, s')"
  shows "kept (auths s) (auths s')"
proof -
  obtain h s1 where place: "PlaceHold c (cd_account cd) amt s = (h, s1)" by fastforce
  then have "auths s1 = auths s" using PlaceHold_frame [OF place] by auto
  then show ?thesis using assms place
    by (cases h) (auto simp: placeHoldAndRecord_def split: if_splits dest!: auth_insert_kept)
qed

lemma recordRequires3DS_kept:
  assumes "recordRequires3DS c bytes cd mn mcc amt key s = (res, s')"
  shows "kept (auths s) (auths s')"
proof -
  obtain a s1 where ins: "auth_insert c cd mn mcc amt AuthStatusRequires3DS '''' None key s = (a, s1)" by fastforce
  have "\<exists>ss. auths s1 = auths s @ ss" using auth_insert_cases [OF ins] by (auto intro: exI [of _ "[]"])
  then show ?thesis using assms ins kept_challenge
    by (cases a) (auto simp: recordRequires3DS_def issueThreeDSChallenge_def Let_def)
qed

lemma Authorize_kept:
  assumes "Authorize c bytes i mn mcc amt key s = (res, s')"
  shows "kept (auths s) (auths s')"
proof (cases "auth_getByIdempotencyKey key s")
  case None
  obtain cr s1 where cr: "res_Check c [Feature ''card_authorize''] s = (cr, s1)" by fastforce
  then have same: "auths s1 = auths s" using res_Check_cases by (metis card_db.select_convs(3) card_db.surjective resil_db.update_convs(3) snd_conv)
  show ?thesis
  proof (cases "\<exists>u cd l. cr = Inr u \<and> find_row cd_id i (cards s1) = Some cd \<and> GetLimits i s1 = Inr l")
    case False
    with assms None cr have "s' = s1"
      by (auto simp: Authorize_def cards_Get_def split: sum.splits option.splits)
    then show ?thesis by (simp add: same)
  next
    case True
    then obtain u cd l where ok: "cr = Inr u" "find_row cd_id i (cards s1) = Some cd" "GetLimits i s1 = Inr l" by blast
    then show ?thesis using assms None cr unfolding same [symmetric]
      by (cases "evaluate_card c cd l mn mcc amt s1")
         (auto simp: Authorize_def cards_Get_def dest: auth_insert_kept placeHoldAndRecord_kept recordRequires3DS_kept)
  qed
qed (use assms in \<open>simp add: Authorize_def\<close>)

lemma Complete3DS_kept:
  assumes run: "Complete3DS c i code s = (res, s')" and d: "distinct (map au_id (auths s))"
  shows "kept (auths s) (auths s')"
proof (cases "\<exists>r. find_row au_id i (auths s) = Some r \<and> au_status r = AuthStatusRequires3DS")
  case False
  with run have "s' = s" by (auto simp: Complete3DS_def split: option.splits)
  then show ?thesis by simp
next
  case True
  then obtain r where r: "find_row au_id i (auths s) = Some r" "au_status r = AuthStatusRequires3DS" by blast
  have same: "auths s1 = auths s" if "PlaceHold c a amt s = (h, s1)" for a amt h s1
    using PlaceHold_frame [OF that] by auto
  have dec: "kept (auths s) (update_row au_id i (\<lambda>r. r\<lparr>au_status := AuthStatusDeclined, au_reason := w\<rparr>) (auths s))" for w
    using r by (intro kept_update [OF d r(1)]) (simp_all add: auth_moves_def)
  have app: "kept (auths s) (update_row au_id i (\<lambda>r. r\<lparr>au_status := AuthStatusApproved, au_hold := w\<rparr>) (auths s))" for w
    using r by (intro kept_update [OF d r(1)]) (simp_all add: auth_moves_def)
  show ?thesis using run r dec app
    by (auto simp: Complete3DS_def hold_after_3ds_def mark_declined_def set_auth_def Let_def same
        split: option.splits if_splits sum.splits prod.splits)
qed

lemma Settle_kept:
  assumes run: "Settle c i s = (res, s')" and d: "distinct (map au_id (auths s))"
  shows "kept (auths s) (auths s')"
  using run
proof (cases rule: Settle_cases)
  case (2 r h t s1)
  then have "auths s1 = auths s" using CaptureHold_frame [OF 2(4)] by auto
  then show ?thesis using 2(2)
    by (simp add: 2(5) set_auth_def) (intro kept_update [OF d 2(1)], simp_all add: auth_moves_def)
qed simp

lemma Void_kept:
  assumes run: "Void i s = (res, s')" and d: "distinct (map au_id (auths s))"
  shows "kept (auths s) (auths s')"
proof (cases "\<exists>r h. find_row au_id i (auths s) = Some r \<and> au_status r = AuthStatusApproved \<and> au_hold r = Some h")
  case True
  then obtain r h where r: "find_row au_id i (auths s) = Some r" "au_status r = AuthStatusApproved" "au_hold r = Some h" by blast
  obtain x s1 where rel: "ReleaseHold h s = (x, s1)" by fastforce
  have same: "auths s1 = auths s" using ReleaseHold_frame [OF rel] by auto
  have "kept (auths s) (update_row au_id i (\<lambda>r. r\<lparr>au_status := AuthStatusVoided\<rparr>) (auths s))"
    using r by (intro kept_update [OF d r(1)]) (simp_all add: auth_moves_def)
  then show ?thesis using run r rel same
    by (cases x) (auto simp: Void_def GetAuthorization_def authorization.defs set_auth_def)
qed (use run in \<open>auto simp: Void_def GetAuthorization_def authorization.defs split: option.splits if_splits\<close>)

lemma Chargeback_kept:
  assumes run: "Chargeback c i key s = (res, s')" and d: "distinct (map au_id (auths s))"
  shows "kept (auths s) (auths s')"
  using run
proof (cases rule: Chargeback_cases)
  case (2 r t u s1)
  then have "auths s1 = auths s" using ReverseTransaction_frame [OF 2(4)] by auto
  then show ?thesis using 2(2)
    by (simp add: 2(5) set_auth_def) (intro kept_update [OF d 2(1)], simp_all add: auth_moves_def)
qed simp



subsection \<open>A purchase and its chargeback\<close>

lemma Settle_done:
  assumes "Settle c i s = (Inr a, s')"
  obtains r h t s1 where "find_row au_id i (auths s) = Some r" and "au_status r = AuthStatusApproved"
    and "au_hold r = Some h" and "CaptureHold c h (''settle:'' @ i) s = (Inr t, s1)"
    and "s' = set_auth i (\<lambda>r. r\<lparr>au_status := AuthStatusSettled, au_txn := Some (t_id t), au_settled := Some (now c)\<rparr>) s1"
    and "GetAuthorization i s' = Inr a"
  using assms
  by (auto simp: Settle_def GetAuthorization_def authorization.defs Let_def split: option.splits if_splits prod.splits sum.splits)

lemma Chargeback_done:
  assumes "Chargeback c i key s = (Inr b, s')" and "find_row au_id i (auths s) = Some r" and "au_status r = AuthStatusSettled"
  obtains t u s1 where "au_txn r = Some t" and "ReverseTransaction c t key s = (Inr u, s1)"
    and "s' = set_auth i (\<lambda>r. if au_status r = AuthStatusSettled then r\<lparr>au_status := AuthStatusChargedBack\<rparr> else r) s1"
    and "GetAuthorization i s' = Inr b"
  using assms
  by (auto simp: Chargeback_def GetAuthorization_def authorization.defs Let_def split: option.splits if_splits prod.splits sum.splits)

lemma ledger_inv_set_auth [simp]: "ledger_inv (set_auth i f s) = ledger_inv s"
  by (rule ledger_inv_cong) (simp_all add: set_auth_def)

text \<open>Reversing the transaction a capture posted gives every entry back.\<close>

lemma capture_reversed:
  assumes cap: "CaptureHold c h key1 s = (Inr t, s1)" and k1: "\<not> key_taken ik_key key1 (idem_keys s)" and inv: "ledger_inv s"
    and same: "entries s1' = entries s1" "txns s1' = txns s1" "accounts s1' = accounts s1" "holds s1' = holds s1"
      "idem_keys s1' = idem_keys s1"
    and rev: "ReverseTransaction c2 (t_id t) key2 s1' = (Inr u, s2)" and k2: "\<not> key_taken ik_key key2 (idem_keys s1')"
  shows "sum_entries a (entries s2) = sum_entries a (entries s)"
proof -
  have inv1: "ledger_inv s1'" using CaptureHold_inv [OF cap inv] ledger_inv_cong [of s1' s1] same by simp
  from cap k1 obtain es legs where es: "entries_of c (t_id t) legs es"
    and s1: "entries s1 = entries s @ es" "txns s1 = txns s @ [t]" by (rule capture_success) simp
  have "distinct (map t_id (txns s1'))" using ledger_invD(1) [OF inv1] by (simp add: schema_ok_def)
  then have new: "\<not> key_taken t_id (t_id t) (txns s)" by (simp add: same s1 distinct_snoc_key del: map_append)
  have old: "filter (\<lambda>e. e_txn e = t_id t) (entries s) = []"
    using ledger_invD(1) [OF inv] new by (auto simp: schema_ok_def filter_empty_conv)
  have all: "filter (\<lambda>e. e_txn e = t_id t) es = es" using entries_of_txn [OF es] by simp
  show ?thesis using reverse_effect [OF rev k2 inv1, of a] by (simp add: same s1 old all)
qed

text \<open>
  C14. A settled purchase that is charged back.  Settling moves the held amount from the card's
  account to the system account, and its hold is captured; charging it back afterwards gives
  every account's ledger balance back as it was before the settlement, so the customer's
  available balance is up by the amount that was on hold; a second chargeback changes nothing.
\<close>

theorem chargeback_restores:
  assumes reach: "card_reachable s" and inv: "ledger_inv s"
    and settle: "Settle c1 i s = (Inr a, s1)" and cb: "Chargeback c2 i key s1 = (Inr b, s2)"
    and key: "\<not> key_taken ik_key key (idem_keys s1)"
  shows "(\<forall>x. sum_entries x (entries s1) = sum_entries x (entries s)
        + (if x = SystemAccountNGN then minor (au_amount a) else 0) - (if x = au_account a then minor (au_amount a) else 0))
    \<and> (\<forall>x. sum_entries x (entries s2) = sum_entries x (entries s))
    \<and> (\<forall>x. available x s2 = available x s + (if x = au_account a then minor (au_amount a) else 0))
    \<and> au_status b = AuthStatusChargedBack \<and> Chargeback c3 i key3 s2 = (Inr b, s2)"
proof -
  note cinv = card_reachable_inv [OF reach]
  from settle obtain r h t s0 where r: "find_row au_id i (auths s) = Some r" "au_status r = AuthStatusApproved" "au_hold r = Some h"
    and cap: "CaptureHold c1 h (''settle:'' @ i) s = (Inr t, s0)"
    and s1: "s1 = set_auth i (\<lambda>r. r\<lparr>au_status := AuthStatusSettled, au_txn := Some (t_id t), au_settled := Some (now c1)\<rparr>) s0"
    and a: "GetAuthorization i s1 = Inr a" by (rule Settle_done)
  have auths0: "auths s0 = auths s" using CaptureHold_frame [OF cap] by auto
  let ?r1 = "r\<lparr>au_status := AuthStatusSettled, au_txn := Some (t_id t), au_settled := Some (now c1)\<rparr>"
  have r1: "find_row au_id i (auths s1) = Some ?r1"
    using set_settled.find_same [OF r(1)] by (simp add: s1 set_auth_def auths0)
  from a r1 have am: "au_amount a = au_amount r" "au_account a = au_account r"
    by (auto simp: GetAuthorization_def authorization.defs)
  have "find_row ln_row i (map auth_lien (auths s)) = Some (auth_lien r)" by (rule lien_at [OF r(1)])
  then have hold: "find_row h_id h (holds s) = Some \<lparr>h_id = h, h_account = au_account r, h_amount = minor (au_amount r),
      h_status = HoldStatusActive\<rparr>"
    using lien_hold [OF card_invD(1) [OF cinv], of "auth_lien r" h] find_row_Some r(2,3) by (fastforce simp: auth_lien_def)
  have k1: "\<not> key_taken ik_key (''settle:'' @ i) (idem_keys s)"
    by (rule capture_runs [OF cap card_invD(4) [OF cinv] hold]) simp
  note cap_effect = capture_effect [OF cap k1 inv hold]
  from cb r1 obtain t' u s2' where "au_txn ?r1 = Some t'" and rev: "ReverseTransaction c2 t' key s1 = (Inr u, s2')"
    and s2: "s2 = set_auth i (\<lambda>r. if au_status r = AuthStatusSettled then r\<lparr>au_status := AuthStatusChargedBack\<rparr> else r) s2'"
    and b: "GetAuthorization i s2 = Inr b" by (rule Chargeback_done) simp_all
  then have rev: "ReverseTransaction c2 (t_id t) key s1 = (Inr u, s2')" by simp
  have ents: "sum_entries x (entries s2) = sum_entries x (entries s)" for x
    using capture_reversed [OF cap k1 inv _ _ _ _ _ rev key, of x] by (simp add: s2 s1 set_auth_def)
  have holds2: "holds s2 = holds s0" using ReverseTransaction_holds [OF rev] by (simp add: s2 s1 set_auth_def)
  have "auths s2' = auths s1" using ReverseTransaction_frame [OF rev] by auto
  then have r2: "find_row au_id i (auths s2) = Some (?r1\<lparr>au_status := AuthStatusChargedBack\<rparr>)"
    using set_charged_back.find_same [OF r1] by (simp add: s2 set_auth_def)
  then have stb: "au_status b = AuthStatusChargedBack"
    using b by (auto simp: GetAuthorization_def authorization.defs)
  then have "Chargeback c3 i key3 s2 = (Inr b, s2)" using b by (simp add: Chargeback_def)
  with cap_effect ents holds2 stb show ?thesis
    by (simp add: s1 set_auth_def available_def am)
qed

lemma auth_insert_ledger_inv: "auth_insert c cd mn mcc amt st reason h key s = (res, s') \<Longrightarrow> ledger_inv s' = ledger_inv s"
  by (rule ledger_inv_cong) (auto dest: auth_insert_cases)

lemma placeHoldAndRecord_ledger_inv:
  assumes run: "placeHoldAndRecord c cd mn mcc amt key s = (res, s')" and inv: "ledger_inv s"
    and nowrap: "in64 (available (cd_account cd) s - minor amt)"
  shows "ledger_inv s'"
proof -
  obtain h s1 where place: "PlaceHold c (cd_account cd) amt s = (h, s1)" by fastforce
  have "ledger_inv s1" by (rule PlaceHold_inv [OF place inv nowrap])
  then show ?thesis using run place
    by (cases h) (auto simp: placeHoldAndRecord_def auth_insert_ledger_inv split: if_splits)
qed

lemma Authorize_ledger_inv:
  assumes run: "Authorize c bytes i mn mcc amt key s = (res, s')" and inv: "ledger_inv s"
    and cd: "find_row cd_id i (cards s) = Some cd" and nowrap: "in64 (available (cd_account cd) s - minor amt)"
  shows "ledger_inv s'"
proof (cases "auth_getByIdempotencyKey key s")
  case None
  obtain cr s1 where cr: "res_Check c [Feature ''card_authorize''] s = (cr, s1)" by fastforce
  obtain k where k: "s1 = s\<lparr>res_cache := k\<rparr>" using res_Check_cases cr by (metis snd_conv)
  have inv1: "ledger_inv s1" and cd1: "find_row cd_id i (cards s1) = Some cd"
    and nw1: "in64 (available (cd_account cd) s1 - minor amt)"
    using inv cd nowrap by (simp_all add: k available_def)
  have challenge: "ledger_inv s'" if "recordRequires3DS c bytes cd mn mcc amt key s1 = (res, s')"
  proof -
    obtain a s2 where ins: "auth_insert c cd mn mcc amt AuthStatusRequires3DS '''' None key s1 = (a, s2)" by fastforce
    have "ledger_inv (issueThreeDSChallenge c bytes j s2) = ledger_inv s2" for j
      by (rule ledger_inv_cong) (simp_all add: issueThreeDSChallenge_def Let_def)
    with that ins inv1 auth_insert_ledger_inv [OF ins] show ?thesis by (cases a) (auto simp: recordRequires3DS_def)
  qed
  show ?thesis
  proof (cases "\<exists>u l. cr = Inr u \<and> GetLimits i s1 = Inr l")
    case False
    with run None cr have "s' = s1"
      by (auto simp: Authorize_def cards_Get_def split: sum.splits option.splits)
    then show ?thesis using inv1 by simp
  next
    case True
    then obtain u l where "cr = Inr u" "GetLimits i s1 = Inr l" by blast
    then show ?thesis using run None cr cd1 inv1 challenge placeHoldAndRecord_ledger_inv [OF _ inv1 nw1]
      by (cases "evaluate_card c cd l mn mcc amt s1") (auto simp: Authorize_def cards_Get_def auth_insert_ledger_inv)
  qed
qed (use run inv in \<open>simp add: Authorize_def\<close>)

lemma card_bought_ledger: "ledger_inv card_bought"
  unfolding card_bought_def
proof (rule Authorize_ledger_inv [OF prod.collapse [symmetric] card_demo_ledger])
  show "find_row cd_id ''Cf'' (cards card_demo) = Some \<lparr>cd_id = ''Cf'', cd_identity = ''A'', cd_account = ''A'',
      cd_type = CardTypeVirtual, cd_last4 = ''0258'', cd_brand = ''kolocard'', cd_status = CardActive,
      cd_created = 2000, cd_updated = 2000\<rparr>"
    unfolding card_demo_def by code_simp
  show "in64 (available (cd_account \<lparr>cd_id = ''Cf'', cd_identity = ''A'', cd_account = ''A'',
      cd_type = CardTypeVirtual, cd_last4 = ''0258'', cd_brand = ''kolocard'', cd_status = CardActive,
      cd_created = 2000, cd_updated = 2000\<rparr>) card_demo - minor (ngn 9000000))"
    unfolding card_demo_def by code_simp
qed

theorem chargeback_restores_witness:
  "\<exists>a s1 b s2. Settle (call 4) ''Dg'' card_bought = (Inr a, s1) \<and> Chargeback (call 5) ''Dg'' ''cb'' s1 = (Inr b, s2)
     \<and> available ''A'' s2 = available ''A'' card_bought + 9000000"
proof -
  let ?f = "Settle (call 4) ''Dg'' card_bought"
  let ?g = "Chargeback (call 5) ''Dg'' ''cb'' (snd ?f)"
  have "case fst ?f of Inr a \<Rightarrow> au_account a = ''A'' \<and> minor (au_amount a) = 9000000 | Inl e \<Rightarrow> False"
    unfolding card_bought_def card_demo_def by code_simp
  then obtain a where a: "?f = (Inr a, snd ?f)" "au_account a = ''A''" "minor (au_amount a) = 9000000"
    by (cases ?f) (auto split: sum.splits)
  have "case fst ?g of Inr b \<Rightarrow> True | Inl e \<Rightarrow> False"
    unfolding card_bought_def card_demo_def by code_simp
  then obtain b where b: "?g = (Inr b, snd ?g)" by (cases ?g) (auto split: sum.splits)
  have key: "\<not> key_taken ik_key ''cb'' (idem_keys (snd ?f))"
    unfolding card_bought_def card_demo_def by code_simp
  from chargeback_restores [OF card_bought_reachable card_bought_ledger a(1) b key] a(2,3)
  have "available ''A'' (snd ?g) = available ''A'' card_bought + 9000000" by simp
  with a(1) b show ?thesis by blast
qed

end
