(* ===== verification/Payee.thy ===== *)
theory Payee
  imports Prelude
begin

section \<open>Confirmation of payee\<close>

text \<open>
  \<open>internal/payee\<close>: the comparison of the recipient name a sender typed with the name on the
  account.  Names are ASCII here: a rune is a \<open>char\<close>.  The two-row dynamic programme of
  \<open>levenshtein\<close>, with its two buffers swapped after each row, is shown to compute the least
  number of insertions, deletions and substitutions that turn one name into the other.
\<close>

subsection \<open>payee.go\<close>

datatype payee_result = Match | CloseMatch | NoMatch

definition closeMatchDistance :: int where "closeMatchDistance = 2"

definition is_space :: "char \<Rightarrow> bool" where
  "is_space ch \<longleftrightarrow> of_char ch \<in> {9, 10, 11, 12, 13, 32 :: nat}"

definition to_lower :: "char \<Rightarrow> char" where
  "to_lower ch = (if 65 \<le> (of_char ch :: nat) \<and> (of_char ch :: nat) \<le> 90 then char_of (of_char ch + 32 :: nat) else ch)"

text \<open>\<open>strings.Fields\<close>: the maximal runs of characters that are not spaces.\<close>

fun fields_from :: "string \<Rightarrow> string \<Rightarrow> string list" where
  "fields_from acc [] = (if acc = [] then [] else [rev acc])"
| "fields_from acc (ch # cs) =
    (if is_space ch then (if acc = [] then fields_from [] cs else rev acc # fields_from [] cs)
     else fields_from (ch # acc) cs)"

fun join_space :: "string list \<Rightarrow> string" where
  "join_space [] = []"
| "join_space [w] = w"
| "join_space (w # ws) = w @ '' '' @ join_space ws"

definition normalize :: "string \<Rightarrow> string" where
  "normalize name = join_space (fields_from [] (map to_lower name))"

definition min3 :: "int \<Rightarrow> int \<Rightarrow> int \<Rightarrow> int" where
  "min3 a b c = (let m = a; m = (if b < m then b else m) in if c < m then c else m)"

text \<open>One assignment \<open>curr[j] = ...\<close>, one row, and the loop over the rows.\<close>

definition lev_cell :: "'a \<Rightarrow> 'a list \<Rightarrow> int list \<Rightarrow> nat \<Rightarrow> int list \<Rightarrow> int list" where
  "lev_cell x rb prev j cur =
    cur[j := min3 (cur ! (j - 1) + 1) (prev ! j + 1)
                   (prev ! (j - 1) + (if x = rb ! (j - 1) then 0 else 1))]"

definition lev_row :: "'a list \<Rightarrow> 'a list \<Rightarrow> nat \<Rightarrow> int list \<times> int list \<Rightarrow> int list \<times> int list" where
  "lev_row ra rb i pc =
    (case pc of (prev, cur) \<Rightarrow>
       (fold (lev_cell (ra ! (i - 1)) rb prev) [1..<length rb + 1] (cur[0 := int i]), prev))"

definition levenshtein :: "'a list \<Rightarrow> 'a list \<Rightarrow> int" where
  "levenshtein ra rb =
    fst (fold (lev_row ra rb) [1..<length ra + 1]
           (map int [0..<length rb + 1], replicate (length rb + 1) 0)) ! length rb"

definition payee_Check :: "string \<Rightarrow> string \<Rightarrow> payee_result" where
  "payee_Check typedName actualName =
    (let typed = normalize typedName; actual = normalize actualName
     in if typed = actual then Match
        else if typed = [] \<or> actual = [] then NoMatch
        else if str_contains actual typed \<or> str_contains typed actual then CloseMatch
        else if levenshtein typed actual \<le> closeMatchDistance then CloseMatch
        else NoMatch)"

subsection \<open>Edit distance\<close>

text \<open>
  \<open>edits n xs ys\<close>: \<open>xs\<close> is turned into \<open>ys\<close>, from left to right, by keeping, substituting,
  deleting and inserting elements, \<open>n\<close> times other than by keeping.
\<close>

inductive edits :: "nat \<Rightarrow> 'a list \<Rightarrow> 'a list \<Rightarrow> bool" where
  edits_Nil: "edits 0 [] []"
| edits_keep: "edits n xs ys \<Longrightarrow> edits n (x # xs) (x # ys)"
| edits_subst: "edits n xs ys \<Longrightarrow> edits (Suc n) (x # xs) (y # ys)"
| edits_delete: "edits n xs ys \<Longrightarrow> edits (Suc n) (x # xs) ys"
| edits_insert: "edits n xs ys \<Longrightarrow> edits (Suc n) xs (y # ys)"

inductive_cases edits_NilE: "edits n [] ys"
inductive_cases edits_ConsE: "edits n (x # xs) ys"

text \<open>The recursion the programme tabulates, over lists read from their last element.\<close>

fun dist :: "'a list \<Rightarrow> 'a list \<Rightarrow> int" where
  "dist [] ys = int (length ys)"
| "dist xs [] = int (length xs)"
| "dist (x # xs) (y # ys) =
    min3 (dist (x # xs) ys + 1) (dist xs (y # ys) + 1) (dist xs ys + (if x = y then 0 else 1))"

lemma min3_min: "min3 a b c = min a (min b c)"
  by (simp add: min3_def Let_def)

lemma dist_nonneg [simp]: "0 \<le> dist xs ys"
  by (induction xs ys rule: dist.induct) (simp_all add: min3_min)

lemma dist_Nil2 [simp]: "dist xs [] = int (length xs)"
  by (cases xs) simp_all

lemma edits_Nil_length: "edits (length ys) [] ys"
  by (induction ys) (auto intro: edits.intros)

lemma edits_length_Nil: "edits (length xs) xs []"
  by (induction xs) (auto intro: edits.intros)

lemma edits_dist: "edits (nat (dist xs ys)) xs ys"
proof (induction xs ys rule: dist.induct)
  case (3 x xs y ys)
  have step: "dist (x # xs) (y # ys) = dist (x # xs) ys + 1 \<or> dist (x # xs) (y # ys) = dist xs (y # ys) + 1
    \<or> dist (x # xs) (y # ys) = dist xs ys + (if x = y then 0 else 1)"
    by (simp add: min3_min min_def)
  have suc: "nat (d + 1) = Suc (nat d)" if "0 \<le> d" for d :: int
    using that by simp
  from step 3 show ?case
    by (auto simp del: dist.simps simp: suc intro: edits.intros split: if_splits)
next
  case (2 x xs)
  then show ?case using edits_length_Nil [of "x # xs"] by (simp only: dist.simps nat_int)
qed (simp add: edits_Nil_length)

lemma dist_delete: "dist (x # xs) ys \<le> dist xs ys + 1"
  by (cases ys) (simp_all add: min3_min)

lemma dist_insert: "dist xs (y # ys) \<le> dist xs ys + 1"
  by (cases xs) (simp_all add: min3_min)

lemma dist_least: "edits n xs ys \<Longrightarrow> dist xs ys \<le> int n"
proof (induction rule: edits.induct)
  case (edits_keep n xs ys x)
  then show ?case by (simp add: min3_min)
next
  case (edits_subst n xs ys x y)
  then show ?case by (simp add: min3_min min_le_iff_disj)
next
  case (edits_delete n xs ys x)
  then show ?case using dist_delete [of x xs ys] by simp
next
  case (edits_insert n xs ys y)
  then show ?case using dist_insert [of xs y ys] by simp
qed simp

text \<open>Edits read from the right as well as from the left, so the distance does too.\<close>

lemma edits_snoc_keep: "edits n xs ys \<Longrightarrow> edits n (xs @ [x]) (ys @ [x])"
  by (induction rule: edits.induct) (auto intro: edits.intros)

lemma edits_snoc_subst: "edits n xs ys \<Longrightarrow> edits (Suc n) (xs @ [x]) (ys @ [y])"
  by (induction rule: edits.induct) (auto intro: edits.intros)

lemma edits_snoc_delete: "edits n xs ys \<Longrightarrow> edits (Suc n) (xs @ [x]) ys"
  by (induction rule: edits.induct) (auto intro: edits.intros)

lemma edits_snoc_insert: "edits n xs ys \<Longrightarrow> edits (Suc n) xs (ys @ [y])"
  by (induction rule: edits.induct) (auto intro: edits.intros)

lemma edits_rev: "edits n xs ys \<Longrightarrow> edits n (rev xs) (rev ys)"
  by (induction rule: edits.induct)
     (auto intro: edits.intros edits_snoc_keep edits_snoc_subst edits_snoc_delete edits_snoc_insert)

lemma edits_sym: "edits n xs ys \<Longrightarrow> edits n ys xs"
  by (induction rule: edits.induct) (auto intro: edits.intros)

lemma dist_eqI: "(\<And>n. edits n xs ys \<Longrightarrow> edits n us vs) \<Longrightarrow> (\<And>n. edits n us vs \<Longrightarrow> edits n xs ys) \<Longrightarrow>
    dist xs ys = dist us vs"
  using dist_least [of "nat (dist xs ys)" us vs] dist_least [of "nat (dist us vs)" xs ys]
    edits_dist [of xs ys] edits_dist [of us vs]
  by (simp add: order_antisym)

lemma dist_rev: "dist (rev xs) (rev ys) = dist xs ys"
  by (rule dist_eqI) (use edits_rev [of _ "rev xs" "rev ys"] in simp, rule edits_rev)

lemma dist_sym: "dist xs ys = dist ys xs"
  by (rule dist_eqI) (erule edits_sym)+

subsection \<open>The programme computes it\<close>

definition pre_dist :: "'a list \<Rightarrow> 'a list \<Rightarrow> nat \<Rightarrow> nat \<Rightarrow> int" where
  "pre_dist ra rb i j = dist (rev (take i ra)) (rev (take j rb))"

lemma pre_dist_0: "j \<le> length rb \<Longrightarrow> pre_dist ra rb 0 j = int j"
  by (simp add: pre_dist_def)

lemma pre_dist_col0: "i \<le> length ra \<Longrightarrow> pre_dist ra rb i 0 = int i"
  by (simp add: pre_dist_def)

lemma pre_dist_step: "i < length ra \<Longrightarrow> j < length rb \<Longrightarrow>
  pre_dist ra rb (Suc i) (Suc j) = min3 (pre_dist ra rb (Suc i) j + 1) (pre_dist ra rb i (Suc j) + 1)
    (pre_dist ra rb i j + (if ra ! i = rb ! j then 0 else 1))"
  by (simp add: pre_dist_def take_Suc_conv_app_nth)

text \<open>After the cells \<open>1..j\<close> of row \<open>i + 1\<close> are filled, the row is right up to \<open>j\<close>.\<close>

lemma lev_cells:
  assumes i: "i < length ra" and prev: "\<And>k. k \<le> length rb \<Longrightarrow> prev ! k = pre_dist ra rb i k"
    and c0: "length cur = length rb + 1" "cur ! 0 = int (Suc i)"
  shows "j \<le> length rb \<Longrightarrow>
    length (fold (lev_cell (ra ! i) rb prev) [1..<j + 1] cur) = length rb + 1 \<and>
    (\<forall>k\<le>j. fold (lev_cell (ra ! i) rb prev) [1..<j + 1] cur ! k = pre_dist ra rb (Suc i) k)"
proof (induction j)
  case 0
  then show ?case using c0 i by (simp add: pre_dist_col0)
next
  case (Suc j)
  define row where "row = fold (lev_cell (ra ! i) rb prev) [1..<j + 1] cur"
  from Suc have row: "length row = length rb + 1" "\<forall>k\<le>j. row ! k = pre_dist ra rb (Suc i) k"
    by (simp_all add: row_def)
  have next_row: "fold (lev_cell (ra ! i) rb prev) [1..<Suc j + 1] cur = lev_cell (ra ! i) rb prev (Suc j) row"
    by (simp add: row_def)
  have cell: "lev_cell (ra ! i) rb prev (Suc j) row = row[Suc j := pre_dist ra rb (Suc i) (Suc j)]"
    using Suc.prems i prev row(2) by (simp add: lev_cell_def pre_dist_step)
  show ?case
    unfolding next_row cell using row Suc.prems by (auto simp: nth_list_update le_Suc_eq)
qed

lemma lev_rows:
  assumes "i \<le> length ra"
  shows "case fold (lev_row ra rb) [1..<i + 1] (map int [0..<length rb + 1], replicate (length rb + 1) 0) of
    (prev, cur) \<Rightarrow> length prev = length rb + 1 \<and> length cur = length rb + 1
      \<and> (\<forall>k\<le>length rb. prev ! k = pre_dist ra rb i k)"
  using assms
proof (induction i)
  case 0
  then show ?case by (auto simp: pre_dist_0 nth_append simp del: upt_Suc)
next
  case (Suc i)
  obtain prev cur where pc: "fold (lev_row ra rb) [1..<i + 1]
      (map int [0..<length rb + 1], replicate (length rb + 1) 0) = (prev, cur)" by fastforce
  with Suc have IH: "length prev = length rb + 1" "length cur = length rb + 1"
    "\<forall>k\<le>length rb. prev ! k = pre_dist ra rb i k" by (simp_all del: upt_Suc)
  have "[1..<Suc i + 1] = [1..<i + 1] @ [Suc i]" by simp
  then have "fold (lev_row ra rb) [1..<Suc i + 1] (map int [0..<length rb + 1], replicate (length rb + 1) 0)
      = lev_row ra rb (Suc i) (prev, cur)"
    by (simp only: fold_append o_apply pc fold_simps id_apply)
  then have "fold (lev_row ra rb) [1..<Suc i + 1] (map int [0..<length rb + 1], replicate (length rb + 1) 0)
      = (fold (lev_cell (ra ! i) rb prev) [1..<length rb + 1] (cur[0 := int (Suc i)]), prev)"
    by (simp add: lev_row_def del: upt_Suc)
  moreover have "length (cur[0 := int (Suc i)]) = length rb + 1" "cur[0 := int (Suc i)] ! 0 = int (Suc i)"
    using IH(2) by simp_all
  ultimately show ?case
    using lev_cells [of i ra rb prev "cur[0 := int (Suc i)]" "length rb"] Suc.prems IH by simp
qed

lemma levenshtein_dist: "levenshtein ra rb = dist ra rb"
proof -
  have "levenshtein ra rb = pre_dist ra rb (length ra) (length rb)"
    using lev_rows [of "length ra" ra rb] by (auto simp: levenshtein_def split: prod.splits)
  then show ?thesis by (simp add: pre_dist_def dist_rev)
qed

text \<open>
  C7. \<open>levenshtein\<close> returns the edit distance: that many insertions, deletions and
  substitutions turn the one list into the other, and no fewer do.
\<close>

theorem levenshtein_correct:
  "0 \<le> levenshtein xs ys \<and> edits (nat (levenshtein xs ys)) xs ys \<and> \<not> (\<exists>n. edits n xs ys \<and> int n < levenshtein xs ys)"
  unfolding levenshtein_dist using edits_dist [of xs ys] dist_least [of _ xs ys] by (auto simp: not_less)

text \<open>
  C13. The confirmation is symmetric in the two names, answers \<open>Match\<close> exactly when they are
  equal up to case and spacing, and answers \<open>NoMatch\<close> exactly when they differ, and one is blank
  or neither contains the other and they are more than two edits apart.
\<close>

theorem payee_Check_correct:
  "payee_Check a b = payee_Check b a
   \<and> (payee_Check a b = Match \<longleftrightarrow> normalize a = normalize b)
   \<and> (payee_Check a b = NoMatch \<longleftrightarrow> normalize a \<noteq> normalize b \<and>
       (normalize a = [] \<or> normalize b = [] \<or>
        (\<not> sublist (normalize a) (normalize b) \<and> \<not> sublist (normalize b) (normalize a)
         \<and> \<not> (\<exists>n. n \<le> 2 \<and> edits n (normalize a) (normalize b)))))"
proof -
  have two: "(\<exists>n. n \<le> 2 \<and> edits n xs ys) \<longleftrightarrow> dist xs ys \<le> 2" for xs ys :: string
  proof
    assume "\<exists>n. n \<le> 2 \<and> edits n xs ys"
    then obtain n where "n \<le> 2" "edits n xs ys" by blast
    with dist_least [OF this(2)] show "dist xs ys \<le> 2" by simp
  next
    assume "dist xs ys \<le> 2"
    then have "nat (dist xs ys) \<le> 2" by simp
    with edits_dist [of xs ys] show "\<exists>n. n \<le> 2 \<and> edits n xs ys" by blast
  qed
  show ?thesis
    unfolding two by (auto simp: payee_Check_def Let_def str_contains_sublist levenshtein_dist
        closeMatchDistance_def dist_sym [of "normalize b"])
qed

theorem payee_Check_correct_witness:
  "payee_Check ''Ada  OBI'' '' ada obi'' = Match \<and> payee_Check ''Ada'' '' '' = NoMatch"
proof -
  have "normalize ''Ada  OBI'' = normalize '' ada obi''" and "normalize ''Ada'' \<noteq> []" and "normalize '' '' = []"
    by code_simp+
  then show ?thesis
    using payee_Check_correct [of "''Ada  OBI''" "'' ada obi''"] payee_Check_correct [of "''Ada''" "'' ''"]
    by metis
qed

end
