(* ===== verification/CoolingOff.thy ===== *)
theory CoolingOff
  imports Payments Payee HoldOwners
begin

section \<open>Confirmation of payee and cooling-off\<close>

text \<open>
  \<open>internal/coolingoff\<close> (coolingoff.go, release.go): \<open>Send\<close> resolves the recipient, compares the
  typed name, checks the tier limits and either transfers at once or reserves the amount with a
  hold the sender can cancel; \<open>ReleaseMatured\<close> turns holds whose window has passed into
  transfers.  \<open>Cancel\<close> and \<open>finalizeRelease\<close> run several statements outside a transaction: the
  halves between which a crash or another request can fall are definitions of their own.
\<close>

definition coolingOffWindow :: int where "coolingOffWindow = 2 * minute"
definition cooling_largeAmountMinor :: int where "cooling_largeAmountMinor = 50000000"

datatype send_outcome = OutcomeCompleted | OutcomeHeld

text \<open>\<open>SendResult\<close>; a field the code leaves at its zero value is \<open>None\<close>.\<close>

record send_result =
  sr_outcome :: "send_outcome option"
  sr_payee :: "payee_result option"
  sr_reasons :: "string list"
  sr_txn :: "transaction option"
  sr_pending :: "uuid option"
  sr_release :: "int option"

datatype cooling_status = CoolPending | CoolProcessing | CoolCompleted | CoolCancelled

record cooling_row =
  co_id :: uuid
  co_from :: uuid
  co_from_identity :: uuid
  co_to :: uuid
  co_to_identity :: uuid
  co_amount :: int
  co_currency :: string
  co_reasons :: "string list"
  co_hold :: uuid
  co_status :: cooling_status
  co_release :: int
  co_txn :: "uuid option"
  co_key :: string
  co_created :: int

record cooling_db = resil_db +
  cooling :: "cooling_row list"

subsection \<open>Send\<close>

fun payee_result_str :: "payee_result \<Rightarrow> string" where
  "payee_result_str Match = ''match''"
| "payee_result_str CloseMatch = ''close_match''"
| "payee_result_str NoMatch = ''no_match''"

definition riskReasons :: "payee_result \<Rightarrow> int \<Rightarrow> string list" where
  "riskReasons result amountMinor =
    (if result \<noteq> Match then [''payee_'' @ payee_result_str result] else []) @
    (if amountMinor \<ge> cooling_largeAmountMinor then [''large_amount''] else [])"

text \<open>The \<open>count(*)\<close> of the payee's history.\<close>

definition payee_history :: "uuid \<Rightarrow> uuid \<Rightarrow> 'z ledger_db_scheme \<Rightarrow> nat" where
  "payee_history fromID toID s = length (filter
     (\<lambda>le. e_account le = fromID \<and> e_amount le < 0 \<and>
        (case find_row t_id (e_txn le) (txns s) of
           None \<Rightarrow> False
         | Some lt \<Rightarrow> t_type lt = TransactionTypeTransfer \<and> t_state lt = TransactionStatePosted) \<and>
        list_ex (\<lambda>le2. e_txn le2 = e_txn le \<and> e_account le2 = toID \<and> 0 < e_amount le2) (entries s))
     (entries s))"

definition isFirstTimePayee :: "uuid \<Rightarrow> uuid \<Rightarrow> 'z ledger_db_scheme \<Rightarrow> bool" where
  "isFirstTimePayee fromID toID s \<longleftrightarrow> payee_history fromID toID s = 0"

definition cooling_placeHold :: "ctx \<Rightarrow> uuid \<Rightarrow> uuid \<Rightarrow> uuid \<Rightarrow> uuid \<Rightarrow> money \<Rightarrow> string list \<Rightarrow> string
    \<Rightarrow> 'z cooling_db_scheme \<Rightarrow> (gerror + (uuid \<times> int)) \<times> 'z cooling_db_scheme" where
  "cooling_placeHold c fromID fromIdentity toID toIdentity amount reasons key s =
    (case PlaceHold c fromID amount s of
       (Inl e, s1) \<Rightarrow> (Inl e, s1)
     | (Inr h, s1) \<Rightarrow>
        (case char3 (currency amount) of
           Inl e \<Rightarrow> (Inl e, s1)
         | Inr cur3 \<Rightarrow>
            if \<not> 0 < minor amount then (Inl SqlCheck, s1)
            else if key_taken co_id (gen c 7) (cooling s1) \<or> key_taken co_key key (cooling s1) then (Inl SqlUnique, s1)
            else if \<not> key_taken id_id fromIdentity (identities s1) \<or> \<not> key_taken a_id toID (accounts s1)
            then (Inl SqlForeignKey, s1)
            else let r = \<lparr>co_id = gen c 7, co_from = fromID, co_from_identity = fromIdentity, co_to = toID,
                          co_to_identity = toIdentity, co_amount = minor amount, co_currency = cur3,
                          co_reasons = reasons, co_hold = hv_id h, co_status = CoolPending,
                          co_release = now c + coolingOffWindow, co_txn = None, co_key = key, co_created = now c\<rparr>
                 in (Inr (gen c 7, now c + coolingOffWindow), s1\<lparr>cooling := cooling s1 @ [r]\<rparr>)))"

definition empty_result :: send_result where
  "empty_result = \<lparr>sr_outcome = None, sr_payee = None, sr_reasons = [], sr_txn = None, sr_pending = None, sr_release = None\<rparr>"

text \<open>After the name check and the limits: transfer at once, or hold.\<close>

definition settle_or_hold :: "ctx \<Rightarrow> uuid \<Rightarrow> uuid \<Rightarrow> identity \<Rightarrow> uuid \<Rightarrow> payee_result \<Rightarrow> money \<Rightarrow> string
    \<Rightarrow> 'z cooling_db_scheme \<Rightarrow> (gerror option \<times> send_result) \<times> 'z cooling_db_scheme" where
  "settle_or_hold c fromID fromIdentity recipient toID pr amount key s =
    (let reasons = riskReasons pr (minor amount) @
                   (if isFirstTimePayee fromID toID s then [''first_time_payee''] else [])
     in if reasons = []
        then (case payments_Transfer c fromID toID amount key s of
                (Inl e, s1) \<Rightarrow> ((Some e, empty_result), s1)
              | (Inr t, s1) \<Rightarrow>
                 ((None, empty_result\<lparr>sr_outcome := Some OutcomeCompleted, sr_payee := Some pr, sr_txn := Some t\<rparr>), s1))
        else (case cooling_placeHold c fromID fromIdentity toID (id_id recipient) amount reasons key s of
                (Inl e, s1) \<Rightarrow> ((Some e, empty_result), s1)
              | (Inr (pid, rel), s1) \<Rightarrow>
                 ((None, empty_result\<lparr>sr_outcome := Some OutcomeHeld, sr_payee := Some pr, sr_reasons := reasons,
                            sr_pending := Some pid, sr_release := Some rel\<rparr>), s1)))"

definition Send :: "ctx \<Rightarrow> uuid \<Rightarrow> uuid \<Rightarrow> string \<Rightarrow> string \<Rightarrow> money \<Rightarrow> string \<Rightarrow> bool
    \<Rightarrow> 'z cooling_db_scheme \<Rightarrow> (gerror option \<times> send_result) \<times> 'z cooling_db_scheme" where
  "Send c fromID fromIdentity recipientEmail typedName amount key confirmMismatch s =
    (case res_Check c [Feature ''transfer''] s of
       (Inl e, s1) \<Rightarrow> ((Some e, empty_result), s1)
     | (Inr _, s1) \<Rightarrow>
        (case GetByEmail recipientEmail s1 of
           Inl e \<Rightarrow> ((Some (if e = ErrIdentityNotFound then ErrCoolingRecipientNotFound else e), empty_result), s1)
         | Inr recipient \<Rightarrow>
            (case primary_account (id_id recipient) s1 of
               None \<Rightarrow> ((Some ErrCoolingRecipientNotFound, empty_result), s1)
             | Some toAcc \<Rightarrow>
                (let pr = payee_Check typedName (id_legal_name recipient)
                 in if pr = NoMatch \<and> \<not> confirmMismatch
                    then ((Some ErrPayeeMismatchNotConfirmed, empty_result\<lparr>sr_payee := Some pr\<rparr>), s1)
                    else (case checkLimits c fromID (minor amount) s1 of
                            Inl e \<Rightarrow> ((Some e, empty_result), s1)
                          | Inr _ \<Rightarrow> settle_or_hold c fromID fromIdentity recipient (a_id toAcc) pr amount key s1)))))"

subsection \<open>Cancel\<close>

definition set_cooling :: "uuid \<Rightarrow> (cooling_row \<Rightarrow> cooling_row) \<Rightarrow> 'z cooling_db_scheme \<Rightarrow> 'z cooling_db_scheme" where
  "set_cooling i f s = s\<lparr>cooling := update_row co_id i f (cooling s)\<rparr>"

definition cancel_lookup :: "uuid \<Rightarrow> uuid \<Rightarrow> 'z cooling_db_scheme \<Rightarrow> gerror + uuid" where
  "cancel_lookup pendingID requester s =
    (case find_row co_id pendingID (cooling s) of
       None \<Rightarrow> Inl ErrNotPending
     | Some r \<Rightarrow> if co_from_identity r = requester \<and> co_status r = CoolPending then Inr (co_hold r) else Inl ErrNotPending)"

definition cancel_mark :: "uuid \<Rightarrow> 'z cooling_db_scheme \<Rightarrow> 'z cooling_db_scheme" where
  "cancel_mark pendingID s = set_cooling pendingID (\<lambda>r. r\<lparr>co_status := CoolCancelled\<rparr>) s"

definition Cancel :: "uuid \<Rightarrow> uuid \<Rightarrow> 'z cooling_db_scheme \<Rightarrow> (gerror + unit) \<times> 'z cooling_db_scheme" where
  "Cancel pendingID requester s =
    (case cancel_lookup pendingID requester s of
       Inl e \<Rightarrow> (Inl e, s)
     | Inr h \<Rightarrow>
        (case ReleaseHold h s of
           (Inl e, s1) \<Rightarrow> (Inl e, s1)
         | (Inr _, s1) \<Rightarrow> (Inr (), cancel_mark pendingID s1)))"

record pending_transfer =
  pt_id :: uuid
  pt_to :: uuid
  pt_amount :: int
  pt_currency :: string
  pt_reasons :: "string list"
  pt_status :: cooling_status
  pt_release :: int
  pt_created :: int

definition ListPendingByIdentity :: "uuid \<Rightarrow> 'z cooling_db_scheme \<Rightarrow> pending_transfer list" where
  "ListPendingByIdentity identityID s =
    map (\<lambda>r. \<lparr>pt_id = co_id r, pt_to = co_to r, pt_amount = co_amount r, pt_currency = co_currency r,
              pt_reasons = co_reasons r, pt_status = co_status r, pt_release = co_release r, pt_created = co_created r\<rparr>)
      (sort_key (\<lambda>r. - co_created r)
        (filter (\<lambda>r. co_from_identity r = identityID \<and> co_status r = CoolPending) (cooling s)))"

subsection \<open>release.go\<close>

definition cooling_batch :: nat where "cooling_batch = 20"

text \<open>The two claims: rows a crash left in processing, and rows whose window has passed.\<close>

definition claim_processing :: "'z cooling_db_scheme \<Rightarrow> cooling_row list" where
  "claim_processing s = take cooling_batch (sort_key co_release (filter (\<lambda>r. co_status r = CoolProcessing) (cooling s)))"

definition due_ids :: "ctx \<Rightarrow> 'z cooling_db_scheme \<Rightarrow> uuid list" where
  "due_ids c s = map co_id (take cooling_batch (sort_key co_release
     (filter (\<lambda>r. co_status r = CoolPending \<and> co_release r \<le> now c) (cooling s))))"

definition claim_due :: "ctx \<Rightarrow> 'z cooling_db_scheme \<Rightarrow> cooling_row list \<times> 'z cooling_db_scheme" where
  "claim_due c s =
    (let ids = due_ids c s;
         rows' = map (\<lambda>r. if co_id r \<in> set ids then r\<lparr>co_status := CoolProcessing\<rparr> else r) (cooling s)
     in (filter (\<lambda>r. co_id r \<in> set ids) rows', s\<lparr>cooling := rows'\<rparr>))"

text \<open>\<open>finalizeRelease\<close> up to, and from, the point where the transfer has been posted.\<close>

definition release_transfer :: "ctx \<Rightarrow> cooling_row \<Rightarrow> 'z cooling_db_scheme
    \<Rightarrow> (gerror + transaction) \<times> 'z cooling_db_scheme" where
  "release_transfer c row s =
    (case ReleaseHold (co_hold row) s of
       (rel, s1) \<Rightarrow>
         (let transfer = (case NewMoney (co_amount row) (co_currency row) of
                            Inl e \<Rightarrow> (Inl e, s1)
                          | Inr amount \<Rightarrow> Transfer c (co_from row) (co_to row) amount (co_key row) s1)
          in case rel of
               Inl e \<Rightarrow> if e \<noteq> ErrHoldNotActive then (Inl e, s1) else transfer
             | Inr _ \<Rightarrow> transfer))"

definition release_mark :: "uuid \<Rightarrow> uuid \<Rightarrow> 'z cooling_db_scheme \<Rightarrow> 'z cooling_db_scheme" where
  "release_mark i tid s = set_cooling i (\<lambda>r. r\<lparr>co_status := CoolCompleted, co_txn := Some tid\<rparr>) s"

definition finalizeRelease :: "ctx \<Rightarrow> cooling_row \<Rightarrow> 'z cooling_db_scheme \<Rightarrow> (gerror + unit) \<times> 'z cooling_db_scheme" where
  "finalizeRelease c row s =
    (case release_transfer c row s of
       (Inl e, s1) \<Rightarrow> (Inl e, s1)
     | (Inr t, s1) \<Rightarrow> (Inr (), release_mark (co_id row) (t_id t) s1))"

fun finalize_rows :: "(uuid \<Rightarrow> ctx) \<Rightarrow> cooling_row list \<Rightarrow> 'z cooling_db_scheme \<Rightarrow> 'z cooling_db_scheme" where
  "finalize_rows cs [] s = s"
| "finalize_rows cs (r # rs) s = finalize_rows cs rs (snd (finalizeRelease (cs (co_id r)) r s))"

definition ReleaseMatured :: "ctx \<Rightarrow> (uuid \<Rightarrow> ctx) \<Rightarrow> 'z cooling_db_scheme \<Rightarrow> 'z cooling_db_scheme" where
  "ReleaseMatured c cs s =
    (let stuck = claim_processing s
     in case claim_due c s of (due, s1) \<Rightarrow> finalize_rows cs (stuck @ due) s1)"

end
