(* ===== verification/CoolingInv.thy ===== *)
theory CoolingInv
  imports CoolingOff
begin

section \<open>The invariant of cooling-off transfers\<close>

text \<open>
  A pending transfer owns an active hold of its amount on the sender's account; once it is
  cancelled or completed the hold is released; while it is being processed the hold is one or
  the other.  The invariant is kept by sending, cancelling, claiming, finalizing a claimed row and
  other ledger activity, in any order.
\<close>

fun hold_of_cooling :: "cooling_status \<Rightarrow> hold_status set" where
  "hold_of_cooling CoolPending = {HoldStatusActive}"
| "hold_of_cooling CoolProcessing = {HoldStatusActive, HoldStatusReleased}"
| "hold_of_cooling CoolCompleted = {HoldStatusReleased}"
| "hold_of_cooling CoolCancelled = {HoldStatusReleased}"

definition cooling_lien :: "cooling_row \<Rightarrow> lien" where
  "cooling_lien r = \<lparr>ln_row = co_id r, ln_hold = Some (co_hold r), ln_account = co_from r,
                     ln_amount = co_amount r, ln_status = hold_of_cooling (co_status r)\<rparr>"

interpretation cooling_liens: lien_table co_id cooling_lien
  by unfold_locales (simp add: cooling_lien_def)

definition cool_inv :: "'z cooling_db_scheme \<Rightarrow> bool" where
  "cool_inv s \<longleftrightarrow> liens_ok (holds s) (map cooling_lien (cooling s)) \<and> distinct (map co_key (cooling s)) \<and>
     (\<forall>r\<in>set (cooling s). co_txn r = None \<longleftrightarrow> co_status r \<noteq> CoolCompleted)"

lemma cool_invD:
  assumes "cool_inv s"
  shows "liens_ok (holds s) (map cooling_lien (cooling s))" and "distinct (map co_id (cooling s))"
    and "distinct (map co_key (cooling s))"
    and "r \<in> set (cooling s) \<Longrightarrow> co_txn r = None \<longleftrightarrow> co_status r \<noteq> CoolCompleted"
  using assms cooling_liens.liens_distinct by (auto simp: cool_inv_def)

lemma cool_inv_cong: "cooling s' = cooling s \<Longrightarrow> holds s' = holds s \<Longrightarrow> cool_inv s' = cool_inv s"
  by (simp add: cool_inv_def)

lemma cool_inv_cache [simp]: "cool_inv (s\<lparr>res_cache := k\<rparr>) = cool_inv s"
  by (rule cool_inv_cong) simp_all

lemma cooling_lien_at:
  "find_row co_id i (cooling s) = Some r \<Longrightarrow> find_row ln_row i (map cooling_lien (cooling s)) = Some (cooling_lien r)"
  by (simp add: cooling_liens.view_find)

interpretation set_cancelled: row_update co_id "\<lambda>r. r\<lparr>co_status := CoolCancelled\<rparr>"
  by unfold_locales simp

interpretation set_completed: row_update co_id "\<lambda>r. r\<lparr>co_status := CoolCompleted, co_txn := t\<rparr>" for t
  by unfold_locales simp

lemma cool_inv_set:
  assumes inv: "cool_inv s" and rows: "cooling s' = update_row co_id i f (cooling s)"
    and liens: "liens_ok (holds s') (map cooling_lien (cooling s'))"
    and f: "\<And>r. co_key (f r) = co_key r"
      "\<And>r. r \<in> set (cooling s) \<Longrightarrow> co_id r = i \<Longrightarrow> co_txn (f r) = None \<longleftrightarrow> co_status (f r) \<noteq> CoolCompleted"
  shows "cool_inv s'"
proof -
  have "map co_key (cooling s') = map co_key (cooling s)" using f(1) by (simp add: rows update_row_def)
  then show ?thesis using cool_invD(3,4) [OF inv] liens f(2)
    by (auto simp: cool_inv_def rows set_update_row)
qed

lemma ReleaseHold_cooling: "ReleaseHold h s = (res, s') \<Longrightarrow> cooling s' = cooling s"
  using ReleaseHold_frame by fastforce

lemma Transfer_cooling:
  assumes "Transfer c f t amt key s = (res, s')"
  shows "cooling s' = cooling s" and "holds s' = holds s"
  using posting_frame [OF assms [unfolded Transfer_def]] by auto

lemma payments_Transfer_cooling:
  assumes "payments_Transfer c f t amt key s = (res, s')"
  shows "cooling s' = cooling s" and "holds s' = holds s"
proof -
  obtain k where k: "snd (res_Check c [Feature ''transfer''] s) = s\<lparr>res_cache := k\<rparr>" by (rule res_Check_cases)
  show "cooling s' = cooling s" "holds s' = holds s"
    using assms k by (auto simp: payments_Transfer_def Transfer_cooling split: prod.splits sum.splits)
qed

subsection \<open>Sending\<close>

lemma cooling_placeHold_inv:
  assumes run: "cooling_placeHold c f fi t ti amt reasons key s = (res, s')" and inv: "cool_inv s"
  shows "cool_inv s'"
proof -
  obtain h s1 where place: "PlaceHold c f amt s = (h, s1)" by fastforce
  have s1: "cooling s1 = cooling s" using PlaceHold_frame [OF place] by auto
  have inv1: "cool_inv s1"
    using inv liens_ok_PlaceHold [OF place cool_invD(1) [OF inv]] by (simp add: cool_inv_def s1)
  show ?thesis
  proof (cases "s' = s1")
    case False
    with run place obtain hv cur3 where h: "h = Inr hv"
      and fr: "\<not> key_taken co_id (gen c 7) (cooling s1)" "\<not> key_taken co_key key (cooling s1)"
      and s': "s' = s1\<lparr>cooling := cooling s1 @ [\<lparr>co_id = gen c 7, co_from = f, co_from_identity = fi, co_to = t,
                          co_to_identity = ti, co_amount = minor amt, co_currency = cur3,
                          co_reasons = reasons, co_hold = hv_id hv, co_status = CoolPending,
                          co_release = now c + coolingOffWindow, co_txn = None, co_key = key, co_created = now c\<rparr>]\<rparr>"
      by (cases h) (auto simp: cooling_placeHold_def Let_def split: sum.splits if_splits)
    note hold = placed_unowned [OF place [unfolded h] cool_invD(1) [OF inv]]
    let ?l = "\<lparr>ln_row = gen c 7, ln_hold = Some (hv_id hv), ln_account = f, ln_amount = minor amt, ln_status = {HoldStatusActive}\<rparr>"
    have "liens_ok (holds s1) (map cooling_lien (cooling s) @ [?l])"
      using hold fr(1) cool_invD(1) [OF inv1]
      by (intro liens_ok_snoc) (simp_all add: s1 lien_ok_def cooling_liens.view_taken)
    then have "liens_ok (holds s') (map cooling_lien (cooling s'))" by (simp add: s' s1 cooling_lien_def)
    then show ?thesis using cool_invD(3,4) [OF inv1] fr(2) by (auto simp: cool_inv_def s' key_taken_def)
  qed (use inv1 in simp)
qed

lemma settle_or_hold_inv:
  assumes run: "settle_or_hold c f fi rc t pr amt key s = (res, s')" and inv: "cool_inv s"
  shows "cool_inv s'"
proof -
  have now: "cool_inv x" if "payments_Transfer c f t amt key s = (y, x)" for y x
    using payments_Transfer_cooling [OF that] inv cool_inv_cong [of x s] by simp
  obtain y x where "payments_Transfer c f t amt key s = (y, x)" by fastforce
  moreover obtain z w where "cooling_placeHold c f fi t (id_id rc) amt
      (riskReasons pr (minor amt) @ (if isFirstTimePayee f t s then [''first_time_payee''] else [])) key s = (z, w)" by fastforce
  ultimately show ?thesis
    using run now cooling_placeHold_inv [OF _ inv]
    by (cases y; cases z) (auto simp: settle_or_hold_def Let_def split: if_splits)
qed

lemma Send_inv:
  assumes run: "Send c f fi em nm amt key cf s = (res, s')" and inv: "cool_inv s"
  shows "cool_inv s'"
proof -
  obtain cr s1 where cr: "res_Check c [Feature ''transfer''] s = (cr, s1)" by fastforce
  obtain k where k: "s1 = s\<lparr>res_cache := k\<rparr>" using res_Check_cases cr by (metis snd_conv)
  have inv1: "cool_inv s1" using inv by (simp add: k)
  have "s' = s1 \<or> (\<exists>rc t pr. settle_or_hold c f fi rc t pr amt key s1 = (res, s'))"
    using run cr by (auto simp: Send_def Let_def split: sum.splits option.splits if_splits)
  then show ?thesis using inv1 settle_or_hold_inv by blast
qed

subsection \<open>Cancelling\<close>

lemma Cancel_done:
  assumes "Cancel i who s = (Inr u, s')"
  obtains r s1 where "find_row co_id i (cooling s) = Some r" and "co_from_identity r = who" and "co_status r = CoolPending"
    and "ReleaseHold (co_hold r) s = (Inr (), s1)" and "s' = cancel_mark i s1"
  using assms by (auto simp: Cancel_def cancel_lookup_def split: option.splits if_splits sum.splits prod.splits)

lemma Cancel_inv:
  assumes run: "Cancel i who s = (res, s')" and inv: "cool_inv s"
  shows "cool_inv s'"
proof (cases res)
  case (Inl e)
  with run have "s' = s"
    by (auto simp: Cancel_def ReleaseHold_def split: sum.splits prod.splits dest: resolveHold_error)
  then show ?thesis using inv by simp
next
  case (Inr u)
  with run obtain r s1 where r: "find_row co_id i (cooling s) = Some r" "co_status r = CoolPending"
    and rel: "ReleaseHold (co_hold r) s = (Inr (), s1)" and s': "s' = cancel_mark i s1" by (auto elim: Cancel_done)
  have "liens_ok (holds s1) (update_row ln_row i (\<lambda>l. l\<lparr>ln_status := {HoldStatusReleased}\<rparr>) (map cooling_lien (cooling s)))"
    by (rule liens_ok_release [OF rel cool_invD(1) [OF inv] cooling_lien_at [OF r(1)]]) (simp add: cooling_lien_def)
  moreover have "map cooling_lien (update_row co_id i (\<lambda>r. r\<lparr>co_status := CoolCancelled\<rparr>) (cooling s)) =
      update_row ln_row i (\<lambda>l. l\<lparr>ln_status := {HoldStatusReleased}\<rparr>) (map cooling_lien (cooling s))"
    using cool_invD(2) [OF inv] r(1) by (intro cooling_liens.view_update) (simp_all add: cooling_lien_def)
  moreover have "co_txn r = None" using cool_invD(4) [OF inv, of r] find_row_Some [OF r(1)] r(2) by simp
  then have txn: "co_txn x = None" if "x \<in> set (cooling s)" "co_id x = i" for x
    using that r(1) find_row_distinct [OF cool_invD(2) [OF inv] that(1)] by simp
  ultimately show ?thesis using ReleaseHold_cooling [OF rel] txn
    by (intro cool_inv_set [OF inv, where i = i and f = "\<lambda>r. r\<lparr>co_status := CoolCancelled\<rparr>"])
       (simp_all add: s' cancel_mark_def set_cooling_def)
qed

subsection \<open>Claiming and finalizing\<close>

lemma claim_due_inv:
  assumes run: "claim_due c s = (rows, s')" and inv: "cool_inv s"
  shows "cool_inv s'"
proof -
  let ?f = "\<lambda>r. if co_id r \<in> set (due_ids c s) then r\<lparr>co_status := CoolProcessing\<rparr> else r"
  have s': "s' = s\<lparr>cooling := map ?f (cooling s)\<rparr>" using run by (auto simp: claim_due_def Let_def)
  have pending: "co_status r = CoolPending" if "r \<in> set (cooling s)" "co_id r \<in> set (due_ids c s)" for r
  proof -
    from that(2) obtain r0 where "r0 \<in> set (cooling s)" "co_id r0 = co_id r" "co_status r0 = CoolPending"
      by (auto simp: due_ids_def dest!: in_set_takeD)
    with that(1) show ?thesis using find_row_distinct [OF cool_invD(2) [OF inv]] by (metis option.inject)
  qed
  let ?g = "\<lambda>l. if ln_row l \<in> set (due_ids c s) then l\<lparr>ln_status := {HoldStatusActive, HoldStatusReleased}\<rparr> else l"
  have "map cooling_lien (map ?f (cooling s)) = map ?g (map cooling_lien (cooling s))"
    by (simp add: cooling_lien_def)
  moreover have "liens_ok (holds s) (map ?g (map cooling_lien (cooling s)))"
    by (rule liens_ok_weaken [OF cool_invD(1) [OF inv]]) (auto simp: cooling_lien_def dest!: pending)
  moreover have "map co_key (map ?f (cooling s)) = map co_key (cooling s)" by simp
  moreover have "\<forall>r\<in>set (map ?f (cooling s)). co_txn r = None \<longleftrightarrow> co_status r \<noteq> CoolCompleted"
    using pending cool_invD(4) [OF inv] by auto
  ultimately show ?thesis using cool_invD(3) [OF inv] by (simp add: cool_inv_def s' del: map_map)
qed

lemma release_transfer_cases:
  assumes "release_transfer c r s = (res, s')"
  obtains e s1 where "ReleaseHold (co_hold r) s = (Inl e, s1)" and "e \<noteq> ErrHoldNotActive" and "res = Inl e" and "s' = s"
  | rel s1 where "ReleaseHold (co_hold r) s = (rel, s1)" and "rel = Inl ErrHoldNotActive \<or> rel = Inr ()"
      and "\<exists>e. res = Inl e" and "s' = s1"
  | rel s1 amt t where "ReleaseHold (co_hold r) s = (rel, s1)" and "rel = Inl ErrHoldNotActive \<or> rel = Inr ()"
      and "NewMoney (co_amount r) (co_currency r) = Inr amt" and "res = Inr t"
      and "Transfer c (co_from r) (co_to r) amt (co_key r) s1 = (Inr t, s')"
proof -
  obtain rel s1 where rel: "ReleaseHold (co_hold r) s = (rel, s1)" by fastforce
  have err: "s1 = s" if "rel = Inl e" for e
    using rel that by (auto simp: ReleaseHold_def dest: resolveHold_error)
  show ?thesis
  proof (cases "\<exists>e. rel = Inl e \<and> e \<noteq> ErrHoldNotActive")
    case True
    then show ?thesis using that(1) assms rel err by (auto simp: release_transfer_def Let_def)
  next
    case False
    then have ok: "rel = Inl ErrHoldNotActive \<or> rel = Inr ()" by (cases rel) auto
    show ?thesis
    proof (cases "NewMoney (co_amount r) (co_currency r)")
      case (Inl e)
      then show ?thesis using that(2) [OF rel ok] assms rel ok by (auto simp: release_transfer_def Let_def)
    next
      case (Inr amt)
      then have tr: "Transfer c (co_from r) (co_to r) amt (co_key r) s1 = (res, s')"
        using assms rel ok by (auto simp: release_transfer_def Let_def)
      show ?thesis
      proof (cases res)
        case e: (Inl e)
        then have "s' = s1" using tr
          by (auto simp: Transfer_def postTransaction_def split: prod.splits dest: post.error_rolls_back)
        then show ?thesis using that(2) [OF rel ok] e by simp
      next
        case t: (Inr t)
        then show ?thesis using that(3) [OF rel ok Inr] tr by simp
      qed
    qed
  qed
qed

text \<open>Whatever \<open>finalizeRelease\<close> does after it, the release leaves the row's hold released.\<close>

lemma processing_released:
  assumes rel: "ReleaseHold (co_hold r) s = (x, s1)" and ok: "x = Inl ErrHoldNotActive \<or> x = Inr ()"
    and inv: "cool_inv s" and r: "r \<in> set (cooling s)" "co_status r = CoolProcessing"
  shows "liens_ok (holds s1) (update_row ln_row (co_id r) (\<lambda>l. l\<lparr>ln_status := {HoldStatusReleased}\<rparr>) (map cooling_lien (cooling s)))"
proof -
  have find: "find_row co_id (co_id r) (cooling s) = Some r" by (rule find_row_distinct [OF cool_invD(2) [OF inv] r(1)])
  note lien = cooling_lien_at [OF find]
  from ok show ?thesis
  proof
    assume "x = Inr ()"
    then show ?thesis using rel
      by (intro liens_ok_release [OF _ cool_invD(1) [OF inv] lien]) (simp_all add: cooling_lien_def)
  next
    assume x: "x = Inl ErrHoldNotActive"
    then have s1: "s1 = s" using rel by (auto simp: ReleaseHold_def dest: resolveHold_error)
    have "cooling_lien r \<in> set (map cooling_lien (cooling s))" using r(1) by simp
    then obtain st where st: "st \<in> ln_status (cooling_lien r)"
      "find_row h_id (co_hold r) (holds s) = Some \<lparr>h_id = co_hold r, h_account = ln_account (cooling_lien r),
         h_amount = ln_amount (cooling_lien r), h_status = st\<rparr>"
      by (rule lien_hold [OF cool_invD(1) [OF inv], of _ "co_hold r"]) (simp add: cooling_lien_def)
    with rel x have "st = HoldStatusReleased"
      using r(2) by (auto simp: ReleaseHold_def resolveHold_def cooling_lien_def split: if_splits)
    with st(2) show ?thesis unfolding s1
      by (intro liens_ok_update [OF cool_invD(1) [OF inv] lien]) (auto simp: lien_ok_def cooling_lien_def)
  qed
qed

lemma view_released: "find_row co_id i rows = Some r \<Longrightarrow> distinct (map co_id rows) \<Longrightarrow>
    map cooling_lien (update_row co_id i (\<lambda>r. r\<lparr>co_status := CoolCompleted, co_txn := t\<rparr>) rows) =
    update_row ln_row i (\<lambda>l. l\<lparr>ln_status := {HoldStatusReleased}\<rparr>) (map cooling_lien rows)"
  by (intro cooling_liens.view_update) (simp_all add: cooling_lien_def)

lemma finalizeRelease_inv:
  assumes run: "finalizeRelease c r s = (res, s')" and inv: "cool_inv s"
    and r: "r \<in> set (cooling s)" "co_status r = CoolProcessing"
  shows "cool_inv s'"
proof -
  obtain t s2 where rt: "release_transfer c r s = (t, s2)" by fastforce
  have find: "find_row co_id (co_id r) (cooling s) = Some r" by (rule find_row_distinct [OF cool_invD(2) [OF inv] r(1)])
  from rt show ?thesis
  proof (cases rule: release_transfer_cases)
    case (1 e s1)
    then show ?thesis using run rt inv by (simp add: finalizeRelease_def)
  next
    case (2 rel s1)
    note liens = processing_released [OF 2(1,2) inv r]
    let ?g = "\<lambda>l. if ln_row l = co_id r then l\<lparr>ln_status := {HoldStatusActive, HoldStatusReleased}\<rparr> else l"
    have again: "map ?g (update_row ln_row (co_id r) (\<lambda>l. l\<lparr>ln_status := {HoldStatusReleased}\<rparr>) (map cooling_lien (cooling s)))
        = map cooling_lien (cooling s)"
    proof -
      have "hold_of_cooling (co_status x) = {HoldStatusActive, HoldStatusReleased}"
        if "x \<in> set (cooling s)" "co_id x = co_id r" for x
      proof -
        have "x = r" using find_row_distinct [OF cool_invD(2) [OF inv] that(1)] that(2) find by simp
        then show ?thesis using r(2) by simp
      qed
      then show ?thesis by (auto simp: update_row_def cooling_lien_def)
    qed
    have "liens_ok (holds s1) (map cooling_lien (cooling s))"
      using liens_ok_weaken [OF liens, of ?g] unfolding again by (fastforce simp: set_update_row)
    then have "cool_inv s1" using inv ReleaseHold_cooling [OF 2(1)] by (simp add: cool_inv_def)
    then show ?thesis using run rt 2(3,4) by (auto simp: finalizeRelease_def)
  next
    case (3 rel s1 amt tx)
    note liens = processing_released [OF 3(1,2) inv r]
    have s2: "cooling s2 = cooling s" "holds s2 = holds s1"
      using Transfer_cooling [OF 3(5)] ReleaseHold_cooling [OF 3(1)] by simp_all
    have s': "s' = release_mark (co_id r) (t_id tx) s2" using run rt 3(4) by (simp add: finalizeRelease_def)
    have view: "map cooling_lien (cooling s') =
        update_row ln_row (co_id r) (\<lambda>l. l\<lparr>ln_status := {HoldStatusReleased}\<rparr>) (map cooling_lien (cooling s))"
      unfolding s' release_mark_def set_cooling_def by (simp add: s2 view_released [OF find cool_invD(2) [OF inv]])
    show ?thesis
      using liens by (intro cool_inv_set [OF inv, where f = "\<lambda>r. r\<lparr>co_status := CoolCompleted, co_txn := Some (t_id tx)\<rparr>"])
        (simp_all add: view, simp_all add: s' release_mark_def set_cooling_def s2)
  qed
qed

subsection \<open>Steps\<close>

inductive cool_step :: "'z cooling_db_scheme \<Rightarrow> 'z cooling_db_scheme \<Rightarrow> bool" where
  k_send: "Send c f fi em nm amt key cf s = (res, s') \<Longrightarrow> cool_step s s'"
| k_cancel: "Cancel i who s = (out, s') \<Longrightarrow> cool_step s s'"
| k_claim: "claim_due c s = (rows, s') \<Longrightarrow> cool_step s s'"
| k_finalize: "finalizeRelease c r s = (out, s') \<Longrightarrow> r \<in> set (cooling s) \<Longrightarrow> co_status r = CoolProcessing \<Longrightarrow> cool_step s s'"
| k_ledger: "ledger_other (owned (map cooling_lien (cooling s))) s s' \<Longrightarrow> cool_step s s'"

inductive_cases cool_stepE: "cool_step s s'"

lemma cool_inv_ledger:
  assumes "ledger_other (owned (map cooling_lien (cooling s))) s s'" and "cool_inv s"
  shows "cool_inv s'"
proof -
  obtain ks ts es hs where s': "s' = s\<lparr>idem_keys := ks, txns := ts, entries := es, holds := hs\<rparr>"
    using ledger_other_frame [OF assms(1)] by blast
  show ?thesis using assms(2) ledger_other_liens [OF assms(1) cool_invD(1) [OF assms(2)]]
    by (simp add: cool_inv_def s')
qed

lemma cool_step_inv: "cool_step s s' \<Longrightarrow> cool_inv s \<Longrightarrow> cool_inv s'"
  by (induction rule: cool_step.induct)
     (auto intro: Send_inv Cancel_inv claim_due_inv finalizeRelease_inv cool_inv_ledger)

inductive cool_reachable :: "'z cooling_db_scheme \<Rightarrow> bool" where
  cool_init: "cooling s = [] \<Longrightarrow> cool_reachable s"
| cool_next: "cool_reachable s \<Longrightarrow> cool_step s s' \<Longrightarrow> cool_reachable s'"

lemma cool_reachable_inv: "cool_reachable s \<Longrightarrow> cool_inv s"
  by (induction rule: cool_reachable.induct) (auto intro: cool_step_inv simp: cool_inv_def [of s for s, THEN iffD2])

end
