(* ===== verification/CoolingProps.thy ===== *)
theory CoolingProps
  imports CoolingInv
begin

section \<open>The properties of cooling-off transfers\<close>

text \<open>
  Holds of the transfers in every reachable state; what cancelling gives back; that a release
  interrupted by a crash resumes where it stopped; and two ways the code moves money the
  customer did not ask to move: a cancellation racing with the release, and a negative amount.
\<close>

subsection \<open>A concrete state\<close>

definition cool_seed :: cooling_db where
  "cool_seed = resil_db.extend
     (ledger_db.extend sample_ledger
        (resil_db.fields [] \<lparr>sm_read_only = False, sm_reason = None, sm_updated_by = None\<rparr>
          \<lparr>cs_read_only = False, cs_tripped = [], cs_fetched = Some 0\<rparr>))
     (cooling_db.fields [])"

definition cool_held :: cooling_db where
  "cool_held = snd (Send (call 1) ''A'' ''A'' ''b@kolo.ng'' ''B'' (ngn 30) ''k1'' False cool_seed)"

definition late :: ctx where
  "late = (call 3)\<lparr>now := 200000000\<rparr>"

definition cool_claimed :: cooling_db where
  "cool_claimed = snd (claim_due late cool_held)"

definition cool_row :: cooling_row where
  "cool_row = \<lparr>co_id = ''Bh'', co_from = ''A'', co_from_identity = ''A'', co_to = ''B'', co_to_identity = ''B'',
     co_amount = 30, co_currency = ''NGN'', co_reasons = [''first_time_payee''], co_hold = ''Bb'',
     co_status = CoolProcessing, co_release = 120001000, co_txn = None, co_key = ''k1'', co_created = 1000\<rparr>"

definition cool_done :: cooling_db where
  "cool_done = snd (finalizeRelease late cool_row cool_claimed)"

lemma cool_held_reachable: "cool_reachable cool_held"
  unfolding cool_held_def
  by (intro cool_next [OF cool_init k_send [OF prod.collapse [symmetric]]])
     (simp add: cool_seed_def resil_db.defs cooling_db.defs ledger_db.defs)

lemma cool_claimed_reachable: "cool_reachable cool_claimed"
  unfolding cool_claimed_def
  by (intro cool_next [OF cool_held_reachable k_claim [OF prod.collapse [symmetric]]])

lemma cool_row_in: "cool_row \<in> set (cooling cool_claimed)"
  unfolding cool_claimed_def cool_held_def by code_simp

lemma cool_done_reachable: "cool_reachable cool_done"
  unfolding cool_done_def
  by (intro cool_next [OF cool_claimed_reachable k_finalize [OF prod.collapse [symmetric] cool_row_in]])
     (simp add: cool_row_def)

lemma cool_seed_ledger: "ledger_inv cool_seed"
  by (simp add: ledger_inv_def schema_ok_def balanced_def solvent_def sample_eval cool_seed_def
      resil_db.defs cooling_db.defs ledger_db.defs)

subsection \<open>Transfers and their holds\<close>



subsection \<open>A crash during the release\<close>

lemma released_stays:
  assumes "ReleaseHold h s = (rel, s1)" and "rel = Inl ErrHoldNotActive \<or> rel = Inr ()" and "holds s2 = holds s1"
  shows "ReleaseHold h s2 = (Inl ErrHoldNotActive, s2)"
proof -
  obtain x where "find_row h_id h (holds s2) = Some x" "h_status x \<noteq> HoldStatusActive"
    using assms by (auto simp: ReleaseHold_def resolveHold_def find_hold_update split: option.splits if_splits)
  then show ?thesis by (rule resolved_release)
qed

text \<open>
  C17. A release that a crash interrupts resumes where it stopped.  If the hold has been released
  and the transfer posted, but the row is still marked processing, then finalizing the row
  again, at any later time, ends in exactly the state the uninterrupted release would have ended
  in: the money has moved once.
\<close>

theorem crashed_release_resumes:
  assumes crash: "release_transfer c r s = (Inr t, s1)" and sha: "sha256 c' = sha256 c"
  shows "finalizeRelease c' r s1 = finalizeRelease c r s"
  using crash
proof (cases rule: release_transfer_cases)
  case (3 rel s0 amt t')
  have tr: "Transfer c (co_from r) (co_to r) amt (co_key r) s0 = (Inr t, s1)" using 3(4,5) by simp
  have h1: "ReleaseHold (co_hold r) s1 = (Inl ErrHoldNotActive, s1)"
    by (rule released_stays [OF 3(1,2)]) (rule Transfer_cooling(2) [OF tr])
  from Transfer_replays [OF tr sha] have "release_transfer c' r s1 = (Inr t, s1)"
    using h1 3(3) by (simp add: release_transfer_def Let_def)
  then show ?thesis using crash by (simp add: finalizeRelease_def)
qed (use crash in auto)

theorem crashed_release_resumes_witness:
  "\<exists>t s1. release_transfer late cool_row cool_claimed = (Inr t, s1)
     \<and> finalizeRelease (late\<lparr>now := 300000000\<rparr>) cool_row s1 = finalizeRelease late cool_row cool_claimed
     \<and> sum_entries ''B'' (entries (snd (finalizeRelease late cool_row cool_claimed))) = 30"
proof -
  have "case fst (release_transfer late cool_row cool_claimed) of Inr t \<Rightarrow> True | Inl e \<Rightarrow> False"
    unfolding cool_claimed_def cool_held_def by code_simp
  then obtain t s1 where run: "release_transfer late cool_row cool_claimed = (Inr t, s1)"
    by (cases "release_transfer late cool_row cool_claimed") (auto split: sum.splits)
  have "sum_entries ''B'' (entries (snd (finalizeRelease late cool_row cool_claimed))) = 30"
    unfolding cool_claimed_def cool_held_def by code_simp
  with run crashed_release_resumes [OF run, of "late\<lparr>now := 300000000\<rparr>"] show ?thesis by auto
qed

subsection \<open>Cancelling\<close>

lemma Send_held:
  assumes run: "Send c f fi em nm amt key cf s = ((None, sr), s')" and held: "sr_outcome sr = Some OutcomeHeld"
  obtains k t ti reasons rel where "cooling_placeHold c f fi t ti amt reasons key (s\<lparr>res_cache := k\<rparr>) = (Inr (the (sr_pending sr), rel), s')"
proof -
  obtain cr s1 where cr: "res_Check c [Feature ''transfer''] s = (cr, s1)" by fastforce
  obtain k where k: "s1 = s\<lparr>res_cache := k\<rparr>" using res_Check_cases cr by (metis snd_conv)
  from run cr obtain rc t pr where "settle_or_hold c f fi rc t pr amt key s1 = ((None, sr), s')"
    by (auto simp: Send_def Let_def split: sum.splits option.splits if_splits)
  with held show thesis
    by (auto simp: settle_or_hold_def Let_def empty_result_def k split: if_splits prod.splits sum.splits intro: that)
qed

text \<open>
  C29. Cancelling gives back what sending took.  When \<open>Send\<close> has held a transfer and the sender
  cancels it, every account's available balance is what it was before, no entry has been
  written, and the transfer can not be cancelled again.
\<close>

theorem cancel_restores:
  assumes reach: "cool_reachable s" and inv: "ledger_inv s" and nowrap: "in64 (available f s - minor amt)"
    and send: "Send c f fi em nm amt key cf s = ((None, sr), s1)" and held: "sr_outcome sr = Some OutcomeHeld"
    and cancel: "Cancel (the (sr_pending sr)) fi s1 = (Inr (), s2)"
  shows "(\<forall>a. available a s2 = available a s) \<and> entries s2 = entries s
    \<and> Cancel (the (sr_pending sr)) who s2 = (Inl ErrNotPending, s2)"
proof -
  from send held obtain k t ti reasons rel where
    ph: "cooling_placeHold c f fi t ti amt reasons key (s\<lparr>res_cache := k\<rparr>) = (Inr (the (sr_pending sr), rel), s1)"
    by (rule Send_held)
  let ?s0 = "s\<lparr>res_cache := k\<rparr>"
  have av0: "available a ?s0 = available a s" for a by (simp add: available_def)
  from ph obtain h sh cur3 where place: "PlaceHold c f amt ?s0 = (Inr h, sh)"
    and pid: "the (sr_pending sr) = gen c 7" and new: "\<not> key_taken co_id (gen c 7) (cooling sh)"
    and s1: "s1 = sh\<lparr>cooling := cooling sh @ [\<lparr>co_id = gen c 7, co_from = f, co_from_identity = fi, co_to = t,
                          co_to_identity = ti, co_amount = minor amt, co_currency = cur3,
                          co_reasons = reasons, co_hold = hv_id h, co_status = CoolPending,
                          co_release = now c + coolingOffWindow, co_txn = None, co_key = key, co_created = now c\<rparr>]\<rparr>"
    by (auto simp: cooling_placeHold_def Let_def split: prod.splits sum.splits if_splits)
  have inv0: "ledger_inv ?s0" using inv by simp
  have nw: "in64 (available f ?s0 - minor amt)" using nowrap by (simp add: av0)
  note placed = placed_hold [OF place inv0 nw]
  have invh: "ledger_inv sh" by (rule PlaceHold_inv [OF place inv0 nw])
  have inv1: "ledger_inv s1" using invh ledger_inv_cong [of s1 sh] by (simp add: s1)
  from cancel obtain r sc where r: "find_row co_id (the (sr_pending sr)) (cooling s1) = Some r"
    and rel: "ReleaseHold (co_hold r) s1 = (Inr (), sc)" and s2: "s2 = cancel_mark (the (sr_pending sr)) sc"
    by (rule Cancel_done)
  have hr: "co_hold r = hv_id h"
    using r new by (auto simp: s1 pid find_row_append find_row_Cons find_row_None [symmetric])
  have find: "find_row h_id (co_hold r) (holds s1) =
      Some \<lparr>h_id = hv_id h, h_account = f, h_amount = minor amt, h_status = HoldStatusActive\<rparr>"
    using placed(1) by (simp add: s1 hr)
  note eff = ReleaseHold_effect [OF rel inv1 find]
  have "available a s2 = available a s" for a
    using eff(1) [of a] placed(2) [of a] av0 [of a] by (simp add: s2 cancel_mark_def set_cooling_def available_def s1)
  moreover have "entries s2 = entries s"
    using eff(2) placed(3) by (simp add: s2 cancel_mark_def set_cooling_def s1)
  moreover have "find_row co_id (the (sr_pending sr)) (cooling s2) = Some (r\<lparr>co_status := CoolCancelled\<rparr>)"
    using set_cancelled.find_same [OF r] ReleaseHold_cooling [OF rel] by (simp add: s2 cancel_mark_def set_cooling_def)
  ultimately show ?thesis by (simp add: Cancel_def cancel_lookup_def)
qed

theorem cancel_restores_witness:
  "\<exists>sr s1 s2. Send (call 1) ''A'' ''A'' ''b@kolo.ng'' ''B'' (ngn 30) ''k1'' False cool_seed = ((None, sr), s1)
     \<and> Cancel (the (sr_pending sr)) ''A'' s1 = (Inr (), s2) \<and> available ''A'' s1 = 70 \<and> available ''A'' s2 = 100"
proof -
  let ?f = "Send (call 1) ''A'' ''A'' ''b@kolo.ng'' ''B'' (ngn 30) ''k1'' False cool_seed"
  have "fst (fst ?f) = None" "sr_outcome (snd (fst ?f)) = Some OutcomeHeld" by code_simp+
  then obtain sr where send: "?f = ((None, sr), snd ?f)" and held: "sr_outcome sr = Some OutcomeHeld"
    by (cases ?f) auto
  have "fst (Cancel (the (sr_pending (snd (fst ?f)))) ''A'' (snd ?f)) = Inr ()" by code_simp
  then have cancel: "Cancel (the (sr_pending sr)) ''A'' (snd ?f) = (Inr (), snd (Cancel (the (sr_pending sr)) ''A'' (snd ?f)))"
    using send by (simp add: prod_eq_iff)
  have start: "cool_reachable cool_seed"
    by (rule cool_init) (simp add: cool_seed_def resil_db.defs cooling_db.defs ledger_db.defs)
  have num: "in64 (available ''A'' cool_seed - minor (ngn 30))" "available ''A'' (snd ?f) = 70" "available ''A'' cool_seed = 100"
    by code_simp+
  show ?thesis using cancel_restores [OF start cool_seed_ledger num(1) send held cancel] send cancel num(2,3) by metis
qed

lemma Send_ledger_inv:
  assumes run: "Send c f fi em nm amt key cf s = ((eo, sr), s')" and inv: "ledger_inv s"
    and nowrap: "in64 (available f s - minor amt)"
  shows "ledger_inv s'"
proof -
  obtain cr s1 where cr: "res_Check c [Feature ''transfer''] s = (cr, s1)" by fastforce
  obtain k where k: "s1 = s\<lparr>res_cache := k\<rparr>" using res_Check_cases cr by (metis snd_conv)
  have inv1: "ledger_inv s1" and nw: "in64 (available f s1 - minor amt)"
    using inv nowrap by (simp_all add: k available_def)
  have hold: "ledger_inv s2" if ph: "cooling_placeHold c f fi t ti amt reasons key s1 = (res, s2)" for t ti reasons res s2
  proof -
    obtain h sh where place: "PlaceHold c f amt s1 = (h, sh)" by fastforce
    have "ledger_inv sh" by (rule PlaceHold_inv [OF place inv1 nw])
    moreover have "ledger_inv s2 = ledger_inv sh"
      by (rule ledger_inv_cong)
         (use ph place in \<open>auto simp: cooling_placeHold_def Let_def split: sum.splits if_splits prod.splits\<close>)
    ultimately show ?thesis by simp
  qed
  have "ledger_inv s2" if "settle_or_hold c f fi rc t pr amt key s1 = (res, s2)" for rc t pr res s2
    using that inv1 by (auto simp: settle_or_hold_def Let_def split: if_splits prod.splits sum.splits
        dest: hold payments_Transfer_inv)
  with run cr inv1 show ?thesis
    by (auto simp: Send_def Let_def split: sum.splits option.splits if_splits)
qed

lemma finalizeRelease_ledger_inv:
  assumes run: "finalizeRelease c r s = (res, s')" and inv: "ledger_inv s"
  shows "ledger_inv s'"
proof -
  have "ledger_inv (release_mark i t x) = ledger_inv x" for i t x
    by (rule ledger_inv_cong) (simp_all add: release_mark_def set_cooling_def)
  with run inv show ?thesis
    by (auto simp: finalizeRelease_def release_transfer_def Let_def split: prod.splits sum.splits if_splits
        dest!: ReleaseHold_inv Transfer_inv)
qed

subsection \<open>What cancelling and sending do not check\<close>

text \<open>
  C25. Cancelling races with the release.  \<open>Cancel\<close> reads the status, releases the hold and
  writes the status in three statements with no transaction around them.  A worker that releases
  the transfer between the second and the third posts it; the cancellation then reports success
  and marks the row cancelled, although the money has gone.
\<close>

theorem cancel_races_with_release:
  "\<exists>h s1 s2. cancel_lookup ''Bh'' ''A'' cool_held = Inr h \<and> ReleaseHold h cool_held = (Inr (), s1)
     \<and> s2 = cancel_mark ''Bh'' (ReleaseMatured late (\<lambda>_. late) s1)
     \<and> map co_status (cooling s2) = [CoolCancelled] \<and> sum_entries ''B'' (entries s2) = 30"
proof -
  let ?s1 = "snd (ReleaseHold ''Bb'' cool_held)"
  have "cancel_lookup ''Bh'' ''A'' cool_held = Inr ''Bb''" "fst (ReleaseHold ''Bb'' cool_held) = Inr ()"
    "map co_status (cooling (cancel_mark ''Bh'' (ReleaseMatured late (\<lambda>_. late) ?s1))) = [CoolCancelled]"
    "sum_entries ''B'' (entries (cancel_mark ''Bh'' (ReleaseMatured late (\<lambda>_. late) ?s1))) = 30"
    unfolding cool_held_def by code_simp+
  then show ?thesis by (metis prod.collapse)
qed

lemma Send_completed:
  assumes run: "Send c f fi em nm amt key cf s = ((None, sr), s')" and res: "sr_outcome sr = Some OutcomeCompleted"
  obtains k rc acc t where "GetByEmail em s = Inr rc" and "primary_account (id_id rc) s = Some acc"
    and "checkLimits c f (minor amt) s = Inr ()"
    and "payments_Transfer c f (a_id acc) amt key (s\<lparr>res_cache := k\<rparr>) = (Inr t, s')"
proof -
  obtain cr s1 where cr: "res_Check c [Feature ''transfer''] s = (cr, s1)" by fastforce
  obtain k where k: "s1 = s\<lparr>res_cache := k\<rparr>" using res_Check_cases cr by (metis snd_conv)
  from run cr obtain rc acc pr where "GetByEmail em s1 = Inr rc" "primary_account (id_id rc) s1 = Some acc"
      "checkLimits c f (minor amt) s1 = Inr ()" "settle_or_hold c f fi rc (a_id acc) pr amt key s1 = ((None, sr), s')"
    by (auto simp: Send_def Let_def split: sum.splits option.splits if_splits)
  with res show thesis
    by (auto simp: settle_or_hold_def Let_def empty_result_def k GetByEmail_def primary_account_def
        split: if_splits prod.splits sum.splits intro: that)
qed

text \<open>
  C24. What \<open>Send\<close> moves when it completes at once.  Under a fresh key the named recipient's
  account gains exactly the amount and the sender's loses it, and the amount is within the
  sender's single-transfer limit.  Nothing asks that the amount be positive: with a negative one
  the sender takes money from the recipient, as the witness shows for a payee paid before.
\<close>

theorem Send_completed_moves:
  assumes send: "Send c f fi em nm amt key cf s = ((None, sr), s')" and completed: "sr_outcome sr = Some OutcomeCompleted"
    and inv: "ledger_inv s" and key: "\<not> key_taken ik_key key (idem_keys s)"
  shows "\<exists>rc acc t l. GetByEmail em s = Inr rc \<and> primary_account (id_id rc) s = Some acc
    \<and> (\<forall>a. sum_entries a (entries s') = sum_entries a (entries s)
          + (if a = a_id acc then minor amt else 0) - (if a = f then minor amt else 0))
    \<and> tierLimits t = Some l \<and> minor amt \<le> MaxSingleMinor l \<and> ledger_inv s' \<and> holds s' = holds s"
proof -
  from send completed obtain k rc acc t where rc: "GetByEmail em s = Inr rc" "primary_account (id_id rc) s = Some acc"
    and chk: "checkLimits c f (minor amt) s = Inr ()"
    and pay: "payments_Transfer c f (a_id acc) amt key (s\<lparr>res_cache := k\<rparr>) = (Inr t, s')" by (rule Send_completed)
  from pay obtain k' where tr: "Transfer c f (a_id acc) amt key (s\<lparr>res_cache := k'\<rparr>) = (Inr t, s')"
    by (rule payments_Transfer_done) simp
  have "sum_entries a (entries s') = sum_entries a (entries s)
          + (if a = a_id acc then minor amt else 0) - (if a = f then minor amt else 0)" for a
    using move_effect [OF tr [unfolded Transfer_def move_legs_eq], of a] key inv by simp
  moreover have "ledger_inv s'" using Transfer_inv [OF tr] inv by simp
  moreover have "holds s' = holds s" using Transfer_cooling(2) [OF tr] by simp
  ultimately show ?thesis using rc chk by (elim checkLimits_ok) blast
qed

lemma claim_due_ledger_inv: "ledger_inv (snd (claim_due c s)) = ledger_inv s"
  by (rule ledger_inv_cong) (simp_all add: claim_due_def Let_def)

lemma cool_done_ledger: "ledger_inv cool_done"
proof -
  let ?send = "Send (call 1) ''A'' ''A'' ''b@kolo.ng'' ''B'' (ngn 30) ''k1'' False cool_seed"
  have send: "?send = ((fst (fst ?send), snd (fst ?send)), cool_held)" unfolding cool_held_def by simp
  have num: "in64 (available ''A'' cool_seed - minor (ngn 30))" by code_simp
  have held: "ledger_inv cool_held" by (rule Send_ledger_inv [OF send cool_seed_ledger num])
  from held have claimed: "ledger_inv cool_claimed" unfolding cool_claimed_def by (simp only: claim_due_ledger_inv)
  show ?thesis unfolding cool_done_def by (rule finalizeRelease_ledger_inv [OF prod.collapse [symmetric] claimed])
qed

theorem Send_completed_moves_witness:
  "\<exists>sr s'. Send (call 4) ''A'' ''A'' ''b@kolo.ng'' ''B'' (ngn (-30)) ''k2'' False cool_done = ((None, sr), s')
     \<and> sum_entries ''A'' (entries cool_done) = 70 \<and> sum_entries ''B'' (entries cool_done) = 30
     \<and> sum_entries ''A'' (entries s') = 100 \<and> sum_entries ''B'' (entries s') = 0"
proof -
  let ?f = "Send (call 4) ''A'' ''A'' ''b@kolo.ng'' ''B'' (ngn (-30)) ''k2'' False cool_done"
  have "fst (fst ?f) = None" "sr_outcome (snd (fst ?f)) = Some OutcomeCompleted"
    unfolding cool_done_def cool_claimed_def cool_held_def by code_simp+
  then obtain sr s' where send: "?f = ((None, sr), s')" and st: "sr_outcome sr = Some OutcomeCompleted"
    by (cases ?f) auto
  have key: "\<not> key_taken ik_key ''k2'' (idem_keys cool_done)"
    unfolding cool_done_def cool_claimed_def cool_held_def by code_simp
  have bal: "sum_entries ''A'' (entries cool_done) = 70" "sum_entries ''B'' (entries cool_done) = 30"
    unfolding cool_done_def cool_claimed_def cool_held_def by code_simp+
  have rc: "case GetByEmail ''b@kolo.ng'' cool_done of Inr rc \<Rightarrow> map_option a_id (primary_account (id_id rc) cool_done) = Some ''B''
      | Inl e \<Rightarrow> False"
    unfolding cool_done_def cool_claimed_def cool_held_def by code_simp
  from Send_completed_moves [OF send st cool_done_ledger key] rc bal send show ?thesis
    by (auto split: sum.splits)
qed

end
