(* ===== verification/Disputes.thy ===== *)
theory Disputes
  imports HoldOwners
begin

section \<open>Disputes\<close>

text \<open>
  \<open>internal/disputes\<close> (disputes.go): cases of back-office investigators, their state machine and
  the append-only table of its transitions.  \<open>Advance\<close> reads the current status in one statement
  and updates it in a later transaction: the two halves are definitions of their own, and the
  property is about calls that do not overlap.
\<close>

datatype dispute_status = DisputeOpen | DisputeInvestigating | DisputeResolved | DisputeRejected

fun validTransitions :: "dispute_status \<Rightarrow> dispute_status list" where
  "validTransitions DisputeOpen = [DisputeInvestigating, DisputeRejected]"
| "validTransitions DisputeInvestigating = [DisputeResolved, DisputeRejected]"
| "validTransitions _ = []"

definition isValidTransition :: "dispute_status \<Rightarrow> dispute_status \<Rightarrow> bool" where
  "isValidTransition from_st to_st \<longleftrightarrow> to_st \<in> set (validTransitions from_st)"

record dispute =
  ds_id :: uuid
  ds_identity :: uuid
  ds_source_type :: string
  ds_source_id :: uuid
  ds_reason :: string
  ds_status :: dispute_status
  ds_resolution :: "string option"
  ds_created :: int
  ds_updated :: int

record dispute_event =
  de_id :: uuid
  de_dispute :: uuid
  de_from :: dispute_status
  de_to :: dispute_status
  de_note :: string
  de_created :: int

record dispute_db = ledger_db +
  disputes :: "dispute list"
  dispute_events :: "dispute_event list"

definition dispute_source_types :: "string list" where
  "dispute_source_types =
    [''charge'', ''payout'', ''external_transfer'', ''cooling_off_transfer'', ''card_authorization'']"

definition disputes_Create :: "ctx \<Rightarrow> uuid \<Rightarrow> string \<Rightarrow> uuid \<Rightarrow> string \<Rightarrow> 'z dispute_db_scheme
    \<Rightarrow> (gerror + dispute) \<times> 'z dispute_db_scheme" where
  "disputes_Create c identityID sourceType sourceID reason s =
    (if sourceType \<notin> set dispute_source_types then (Inl SqlCheck, s)
     else if key_taken ds_id (gen c 8) (disputes s) then (Inl SqlUnique, s)
     else if \<not> key_taken id_id identityID (identities s) then (Inl SqlForeignKey, s)
     else let d = \<lparr>ds_id = gen c 8, ds_identity = identityID, ds_source_type = sourceType,
                   ds_source_id = sourceID, ds_reason = reason, ds_status = DisputeOpen, ds_resolution = None,
                   ds_created = now c, ds_updated = now c\<rparr>
          in (Inr d, s\<lparr>disputes := disputes s @ [d]\<rparr>))"

definition disputes_Get :: "uuid \<Rightarrow> 'z dispute_db_scheme \<Rightarrow> gerror + dispute" where
  "disputes_Get disputeID s =
    (case find_row ds_id disputeID (disputes s) of None \<Rightarrow> Inl ErrNoRows | Some d \<Rightarrow> Inr d)"

text \<open>The row after the \<open>UPDATE\<close>; only the two final statuses store the note as the resolution.\<close>

definition terminal_status :: "dispute_status \<Rightarrow> bool" where
  "terminal_status st \<longleftrightarrow> st = DisputeResolved \<or> st = DisputeRejected"

definition moved_dispute :: "ctx \<Rightarrow> dispute_status \<Rightarrow> string \<Rightarrow> dispute \<Rightarrow> dispute" where
  "moved_dispute c newStatus note d =
    (if terminal_status newStatus then d\<lparr>ds_status := newStatus, ds_resolution := Some note, ds_updated := now c\<rparr>
     else d\<lparr>ds_status := newStatus, ds_updated := now c\<rparr>)"

definition advance_check :: "uuid \<Rightarrow> dispute_status \<Rightarrow> 'z dispute_db_scheme \<Rightarrow> gerror + dispute_status" where
  "advance_check disputeID newStatus s =
    (case disputes_Get disputeID s of
       Inl e \<Rightarrow> Inl e
     | Inr current \<Rightarrow>
        if \<not> isValidTransition (ds_status current) newStatus then Inl ErrDisputeTransition
        else Inr (ds_status current))"

definition advance_apply :: "ctx \<Rightarrow> uuid \<Rightarrow> dispute_status \<Rightarrow> dispute_status \<Rightarrow> string \<Rightarrow> 'z dispute_db_scheme
    \<Rightarrow> (gerror + dispute) \<times> 'z dispute_db_scheme" where
  "advance_apply c disputeID current newStatus note s =
    (case find_row ds_id disputeID (disputes s) of
       None \<Rightarrow> (Inl ErrNoRows, s)
     | Some d \<Rightarrow>
        if key_taken de_id (gen c 9) (dispute_events s) then (Inl SqlUnique, s)
        else (Inr (moved_dispute c newStatus note d),
          s\<lparr>disputes := update_row ds_id disputeID (moved_dispute c newStatus note) (disputes s),
            dispute_events := dispute_events s @
              [\<lparr>de_id = gen c 9, de_dispute = disputeID, de_from = current, de_to = newStatus, de_note = note,
                de_created = now c\<rparr>]\<rparr>))"

definition Advance :: "ctx \<Rightarrow> uuid \<Rightarrow> dispute_status \<Rightarrow> string \<Rightarrow> 'z dispute_db_scheme
    \<Rightarrow> (gerror + dispute) \<times> 'z dispute_db_scheme" where
  "Advance c disputeID newStatus note s =
    (case advance_check disputeID newStatus s of
       Inl e \<Rightarrow> (Inl e, s)
     | Inr current \<Rightarrow> advance_apply c disputeID current newStatus note s)"

text \<open>\<open>ORDER BY created_at DESC LIMIT $2\<close>, equal times in insertion order.\<close>

definition disputes_ListByIdentity :: "uuid \<Rightarrow> nat \<Rightarrow> 'z dispute_db_scheme \<Rightarrow> dispute list" where
  "disputes_ListByIdentity identityID n s =
    take n (sort_key (\<lambda>d. - ds_created d) (filter (\<lambda>d. ds_identity d = identityID) (disputes s)))"

subsection \<open>The log of a dispute\<close>

interpretation move_row: row_update ds_id "moved_dispute c st note"
  by unfold_locales (simp add: moved_dispute_def)

text \<open>Running a log from a status; \<open>None\<close> when an entry does not continue it by an allowed move.\<close>

fun run_log :: "dispute_status \<Rightarrow> dispute_event list \<Rightarrow> dispute_status option" where
  "run_log st [] = Some st"
| "run_log st (e # es) =
    (if de_from e = st \<and> isValidTransition st (de_to e) then run_log (de_to e) es else None)"

lemma run_log_snoc: "run_log st (es @ [e]) =
    (case run_log st es of None \<Rightarrow> None
     | Some st' \<Rightarrow> if de_from e = st' \<and> isValidTransition st' (de_to e) then Some (de_to e) else None)"
  by (induction es arbitrary: st) auto

definition log_of :: "uuid \<Rightarrow> 'z dispute_db_scheme \<Rightarrow> dispute_event list" where
  "log_of i s = filter (\<lambda>e. de_dispute e = i) (dispute_events s)"

text \<open>The log leads from \<open>open\<close> to the row's status and ends with the row's resolution.\<close>

definition log_agrees :: "dispute \<Rightarrow> dispute_event list \<Rightarrow> bool" where
  "log_agrees d es \<longleftrightarrow> run_log DisputeOpen es = Some (ds_status d)
    \<and> ds_resolution d = (if terminal_status (ds_status d) then Some (de_note (last es)) else None)"

lemma log_agrees_new: "ds_status d = DisputeOpen \<Longrightarrow> ds_resolution d = None \<Longrightarrow> log_agrees d []"
  by (simp add: log_agrees_def terminal_status_def)

lemma log_agrees_moved:
  assumes "log_agrees d es" and "de_from e = ds_status d" and "de_to e = st" and "de_note e = note"
    and "isValidTransition (ds_status d) st"
  shows "log_agrees (moved_dispute c st note d) (es @ [e])"
  using assms by (cases "ds_status d")
    (auto simp: log_agrees_def run_log_snoc moved_dispute_def terminal_status_def isValidTransition_def)

definition dispute_inv :: "'z dispute_db_scheme \<Rightarrow> bool" where
  "dispute_inv s \<longleftrightarrow> distinct (map ds_id (disputes s))
    \<and> (\<forall>e\<in>set (dispute_events s). key_taken ds_id (de_dispute e) (disputes s))
    \<and> (\<forall>d\<in>set (disputes s). log_agrees d (log_of (ds_id d) s))"

lemma disputes_Create_inv:
  assumes "disputes_Create c i ty src reason s = (res, s')" and "dispute_inv s"
  shows "dispute_inv s'"
proof (cases "s' = s")
  case False
  let ?d = "\<lparr>ds_id = gen c 8, ds_identity = i, ds_source_type = ty, ds_source_id = src, ds_reason = reason,
             ds_status = DisputeOpen, ds_resolution = None, ds_created = now c, ds_updated = now c\<rparr>"
  from False have new: "\<not> key_taken ds_id (gen c 8) (disputes s)" and s': "s' = s\<lparr>disputes := disputes s @ [?d]\<rparr>"
    using assms(1) by (auto simp: disputes_Create_def Let_def split: if_splits)
  have empty: "log_of (gen c 8) s = []"
    using assms(2) new by (auto simp: dispute_inv_def log_of_def filter_empty_conv)
  have same: "log_of x s' = log_of x s" for x by (simp add: s' log_of_def)
  have "log_agrees ?d (log_of (ds_id ?d) s')" using empty by (simp add: same log_agrees_new)
  moreover have "distinct (map ds_id (disputes s'))"
    using assms(2) new by (simp add: s' dispute_inv_def distinct_snoc_key del: map_append)
  ultimately show ?thesis using assms(2) by (simp add: dispute_inv_def same) (simp add: s')
qed (use assms(2) in simp)

lemma Advance_cases:
  assumes "Advance c i st nt s = (res, s')"
  obtains (refused) "s' = s" | (moved) d e where "find_row ds_id i (disputes s) = Some d"
    "isValidTransition (ds_status d) st"
    "e = \<lparr>de_id = gen c 9, de_dispute = i, de_from = ds_status d, de_to = st, de_note = nt, de_created = now c\<rparr>"
    "s' = s\<lparr>disputes := update_row ds_id i (moved_dispute c st nt) (disputes s), dispute_events := dispute_events s @ [e]\<rparr>"
    "res = Inr (moved_dispute c st nt d)"
  using assms
  by (auto simp: Advance_def advance_check_def advance_apply_def disputes_Get_def split: option.splits if_splits)

lemma Advance_inv:
  assumes run: "Advance c i st nt s = (res, s')" and inv: "dispute_inv s"
  shows "dispute_inv s'"
  using run
proof (cases rule: Advance_cases)
  case (moved d e)
  have d: "d \<in> set (disputes s)" "ds_id d = i" using find_row_Some [OF moved(1)] by auto
  have "log_agrees x (log_of (ds_id x) s')" if "x \<in> set (disputes s')" for x
  proof -
    from that obtain y where y: "y \<in> set (disputes s)" and x: "x = (if ds_id y = i then moved_dispute c st nt y else y)"
      by (auto simp: moved(4) set_update_row)
    have old: "log_agrees y (log_of (ds_id y) s)" using inv y by (simp add: dispute_inv_def)
    show ?thesis
    proof (cases "ds_id y = i")
      case True
      have "y = d" using find_row_distinct [of ds_id "disputes s" y] inv y moved(1) True by (simp add: dispute_inv_def)
      then show ?thesis using log_agrees_moved [OF old, of e st nt c] moved x True d
        by (simp add: log_of_def move_row.key_kept)
    next
      case False
      then show ?thesis using old x by (simp add: moved(3,4) log_of_def)
    qed
  qed
  then show ?thesis using inv find_row_taken [OF moved(1)]
    by (auto simp: dispute_inv_def moved(3,4) move_row.keys move_row.taken)
qed (use inv in simp)

text \<open>Other components write neither table.\<close>

inductive dispute_reachable :: "'z dispute_db_scheme \<Rightarrow> bool" where
  d_init: "disputes s = [] \<Longrightarrow> dispute_events s = [] \<Longrightarrow> dispute_reachable s"
| d_create: "dispute_reachable s \<Longrightarrow> disputes_Create c i ty src reason s = (res, s') \<Longrightarrow> dispute_reachable s'"
| d_advance: "dispute_reachable s \<Longrightarrow> Advance c i st nt s = (res', s') \<Longrightarrow> dispute_reachable s'"
| d_other: "dispute_reachable s \<Longrightarrow> disputes s' = disputes s \<Longrightarrow> dispute_events s' = dispute_events s
     \<Longrightarrow> dispute_reachable s'"

lemma dispute_reachable_inv: "dispute_reachable s \<Longrightarrow> dispute_inv s"
proof (induction rule: dispute_reachable.induct)
  case (d_create s c i ty src reason res s')
  then show ?case by (blast intro: disputes_Create_inv)
next
  case (d_advance s c i st nt res' s')
  then show ?case by (blast intro: Advance_inv)
qed (simp_all add: dispute_inv_def log_of_def)

fun log_rank :: "dispute_status \<Rightarrow> nat" where
  "log_rank DisputeOpen = 2"
| "log_rank DisputeInvestigating = 1"
| "log_rank _ = 0"

lemma run_log_length: "run_log st es = Some st' \<Longrightarrow> length es \<le> log_rank st"
proof (induction es arbitrary: st)
  case (Cons e es)
  then have "length es \<le> log_rank (de_to e)" and "isValidTransition st (de_to e)" by (auto split: if_splits)
  then show ?case by (cases st) (auto simp: isValidTransition_def)
qed simp


definition dispute_seed :: dispute_db where
  "dispute_seed = ledger_db.extend sample_ledger (dispute_db.fields [] [])"

definition dispute_case :: dispute_db where
  "dispute_case = snd (Advance (call 2) ''Bi'' DisputeInvestigating ''called the merchant''
     (snd (disputes_Create (call 1) ''A'' ''charge'' ''x'' ''not mine'' dispute_seed)))"

definition dispute_decided :: dispute_db where
  "dispute_decided = snd (Advance (call 3) ''Bi'' DisputeResolved ''refunded'' dispute_case)"

lemma dispute_case_reachable: "dispute_reachable dispute_case"
  unfolding dispute_case_def
  by (intro d_advance [OF d_create [OF d_init prod.collapse [symmetric]] prod.collapse [symmetric]])
     (simp_all add: dispute_seed_def dispute_db.defs ledger_db.defs)


text \<open>
  Calls that overlap break it: two investigators read \<open>investigating\<close>, one resolves and the other
  rejects, and the dispute ends rejected with a log that resolves it first.
\<close>

lemma dispute_advance_race:
  "\<exists>st1 st2 s1. advance_check ''Bi'' DisputeResolved dispute_case = Inr st1
     \<and> advance_check ''Bi'' DisputeRejected dispute_case = Inr st2
     \<and> s1 = snd (advance_apply (call 4) ''Bi'' st2 DisputeRejected ''no''
              (snd (advance_apply (call 3) ''Bi'' st1 DisputeResolved ''yes'' dispute_case)))
     \<and> map ds_status (disputes s1) = [DisputeRejected] \<and> run_log DisputeOpen (log_of ''Bi'' s1) = None"
proof -
  have run: "advance_check ''Bi'' DisputeResolved dispute_case = Inr DisputeInvestigating"
    "advance_check ''Bi'' DisputeRejected dispute_case = Inr DisputeInvestigating"
    "map ds_status (disputes (snd (advance_apply (call 4) ''Bi'' DisputeInvestigating DisputeRejected ''no''
      (snd (advance_apply (call 3) ''Bi'' DisputeInvestigating DisputeResolved ''yes'' dispute_case))))) = [DisputeRejected]"
    "run_log DisputeOpen (log_of ''Bi'' (snd (advance_apply (call 4) ''Bi'' DisputeInvestigating DisputeRejected ''no''
      (snd (advance_apply (call 3) ''Bi'' DisputeInvestigating DisputeResolved ''yes'' dispute_case))))) = None"
    unfolding dispute_case_def by code_simp+
  show ?thesis by (intro exI conjI) (rule run refl)+
qed

end
