(* ===== verification/ExternalLife.thy ===== *)
theory ExternalLife
  imports ExternalClaims
begin

section \<open>The life of an external transfer\<close>

text \<open>
  No step removes an external transfer or rewrites what it is (its account, amount, counterparty,
  hold, key), and its status moves only forwards to completed or failed, where it stays.  What
  reads transfers without owning them (charges, payouts, fees, settlement, reconciliation)
  rests on this.
\<close>

definition same_transfer :: "external_transfer \<Rightarrow> external_transfer \<Rightarrow> bool" where
  "same_transfer r r' \<longleftrightarrow> et_id r' = et_id r \<and> et_direction r' = et_direction r \<and> et_account r' = et_account r
    \<and> et_rail r' = et_rail r \<and> et_counterparty r' = et_counterparty r \<and> et_amount r' = et_amount r
    \<and> et_currency r' = et_currency r \<and> et_key r' = et_key r \<and> et_hold r' = et_hold r
    \<and> et_batch r' = et_batch r \<and> et_created r' = et_created r"

definition ext_final :: "ext_status \<Rightarrow> bool" where
  "ext_final st \<longleftrightarrow> st = StatusCompleted \<or> st = StatusFailed"

definition ext_moves :: "external_transfer \<Rightarrow> external_transfer \<Rightarrow> bool" where
  "ext_moves r r' \<longleftrightarrow> same_transfer r r' \<and> (ext_final (et_status r) \<longrightarrow> r' = r)
     \<and> (et_status r = StatusPending \<longrightarrow> et_status r' \<noteq> StatusCompleted)"

definition ext_kept :: "external_transfer list \<Rightarrow> external_transfer list \<Rightarrow> bool" where
  "ext_kept rows rows' \<longleftrightarrow> (\<forall>r\<in>set rows. \<exists>r'\<in>set rows'. ext_moves r r')"

lemma ext_moves_refl [simp]: "ext_moves r r"
  by (auto simp: ext_moves_def same_transfer_def ext_final_def)

lemma ext_kept_map: "(\<And>r. r \<in> set rows \<Longrightarrow> ext_moves r (f r)) \<Longrightarrow> ext_kept rows (map f rows)"
  by (auto simp: ext_kept_def)

lemma ext_kept_refl [simp]: "ext_kept rows rows"
  using ext_kept_map [of rows id] by simp

lemma ext_kept_append [simp]: "ext_kept rows (rows @ new)"
  using ext_kept_refl [of rows] unfolding ext_kept_def by auto

lemma ext_kept_update:
  assumes d: "distinct (map et_id rows)" and r: "r \<in> set rows" and moves: "ext_moves r (f r)"
  shows "ext_kept rows (update_row et_id (et_id r) f rows)"
proof -
  have "ext_moves x (if et_id x = et_id r then f x else x)" if x: "x \<in> set rows" for x
  proof (cases "et_id x = et_id r")
    case True
    have "x = r" by (metis True d find_row_distinct option.inject r x)
    then show ?thesis using moves by simp
  qed simp
  then show ?thesis unfolding update_row_def by (rule ext_kept_map)
qed

text \<open>A statement that writes one row and leaves its identity alone.\<close>

definition touches :: "uuid \<Rightarrow> external_transfer list \<Rightarrow> external_transfer list \<Rightarrow> bool" where
  "touches tid rows rows' \<longleftrightarrow> (\<exists>f. rows' = update_row et_id tid f rows \<and> (\<forall>r. same_transfer r (f r)))"

lemma touches_refl [simp]: "touches tid rows rows"
  unfolding touches_def by (rule exI [of _ "\<lambda>r. r"]) (simp add: same_transfer_def update_row_def)

lemma touches_update: "(\<And>r. same_transfer r (f r)) \<Longrightarrow> touches tid rows (update_row et_id tid f rows)"
  unfolding touches_def by blast

lemma touches_kept:
  assumes "touches (et_id r) rows rows'" and d: "distinct (map et_id rows)" and r: "r \<in> set rows"
    and st: "et_status r = StatusProcessing"
  shows "ext_kept rows rows'"
proof -
  from assms(1) obtain f where rows': "rows' = update_row et_id (et_id r) f rows" and f: "\<And>x. same_transfer x (f x)"
    unfolding touches_def by blast
  have "ext_moves r (f r)" using f [of r] st by (simp add: ext_moves_def ext_final_def)
  then show ?thesis unfolding rows' by (rule ext_kept_update [OF d r])
qed

lemma finalize_failed_touches:
  "finalize_failed c row res s = (out, s') \<Longrightarrow> touches (cr_id row) (ext_transfers s) (ext_transfers s')"
  by (auto simp: finalize_failed_def set_status_def split: if_splits option.splits prod.splits sum.splits
      dest: ReleaseHold_error intro!: touches_update) (simp_all add: same_transfer_def)

lemma finalize_succeeded_touches:
  "finalize_succeeded c row res s = (out, s') \<Longrightarrow> touches (cr_id row) (ext_transfers s) (ext_transfers s')"
  by (auto simp: finalize_succeeded_def set_status_def CaptureHold_ext Credit_ext
      split: if_splits option.splits prod.splits sum.splits
      dest: CaptureHold_error Credit_error intro!: touches_update) (simp_all add: same_transfer_def)

lemma finalize_touches:
  "finalize c dl row s = (out, s') \<Longrightarrow> touches (cr_id row) (ext_transfers s) (ext_transfers s')"
  by (auto simp: finalize_def split: sum.splits prod.splits if_splits
      dest!: finalize_failed_touches finalize_succeeded_touches)

lemma failAndRelease_touches:
  "failAndRelease c tid h reason s = (res, s') \<Longrightarrow> touches tid (ext_transfers s) (ext_transfers s')"
  by (auto simp: failAndRelease_def split: option.splits prod.splits sum.splits
      dest: ReleaseHold_error intro!: touches_update) (simp_all add: same_transfer_def)

lemma processRow_touches:
  assumes "processRow c screen dl row s = (out, s')"
  shows "touches (cr_id row) (ext_transfers s) (ext_transfers s')"
  using assms
proof (cases rule: processRow_cases)
  case (final as)
  then show ?thesis using finalize_touches by fastforce
next
  case (held as)
  then show ?thesis
    by (simp add: set_status_def update_row_twice) (rule touches_update, simp add: same_transfer_def)
next
  case (blocked as tf res)
  then show ?thesis using failAndRelease_touches by fastforce
qed simp

lemma ext_insert_kept: "ext_insert c dir a rn cp amt key h bid s = (res, s') \<Longrightarrow> ext_kept (ext_transfers s) (ext_transfers s')"
  using ext_insert_cases by fastforce

lemma PlaceHold_ext: "PlaceHold c a amt s = (res, s') \<Longrightarrow> ext_transfers s' = ext_transfers s"
  using PlaceHold_frame by fastforce

lemma ext_send_kept:
  assumes "ext_send c dir a rn cp amt key bid s = (res, s')"
  shows "ext_kept (ext_transfers s) (ext_transfers s')"
  using assms
proof (cases rule: ext_send_cases)
  case (outbound k h s2)
  then show ?thesis using PlaceHold_ext [OF outbound(2)] ext_insert_kept [OF outbound(3)] by simp
next
  case (inbound k)
  then show ?thesis using ext_insert_kept [OF inbound(2)] by simp
qed (use PlaceHold_ext in fastforce)+

lemma claim_kept:
  assumes "claim P ord upd s = (rows, s')" and d: "distinct (map et_id (ext_transfers s))"
    and upd: "\<And>r. P r \<Longrightarrow> ext_moves r (upd r)"
  shows "ext_kept (ext_transfers s) (ext_transfers s')"
proof -
  let ?ids = "claim_ids P ord s"
  have s': "ext_transfers s' = map (\<lambda>r. if et_id r \<in> set ?ids then upd r else r) (ext_transfers s)"
    using assms(1) by (auto simp: claim_def Let_def)
  have "P r" if "r \<in> set (ext_transfers s)" "et_id r \<in> set ?ids" for r
    using ids_of_claim [OF that(2)] find_row_distinct [OF d] that(1) by (metis option.inject)
  with upd show ?thesis unfolding s' by (intro ext_kept_map) simp
qed

lemma Approve_kept:
  assumes run: "Approve tid s = (res, s')" and inv: "ext_inv s"
  shows "ext_kept (ext_transfers s) (ext_transfers s')"
proof (cases "s' = s")
  case False
  with run obtain r where r: "find_row et_id tid (ext_transfers s) = Some r" "et_risk r = RiskHeld"
    and s': "s' = s\<lparr>ext_transfers := update_row et_id tid (\<lambda>r. r\<lparr>et_risk := RiskClear\<rparr>) (ext_transfers s)\<rparr>"
    by (auto simp: Approve_def split: option.splits if_splits)
  have rin: "r \<in> set (ext_transfers s)" "et_id r = tid" using find_row_Some [OF r(1)] by auto
  have "et_status r = StatusPending" using row_of(2) [OF inv rin(1)] r(2) by (simp add: row_ok_def)
  then have "ext_moves r (r\<lparr>et_risk := RiskClear\<rparr>)" by (simp add: ext_moves_def same_transfer_def ext_final_def)
  with rin inv show ?thesis using ext_kept_update [of "ext_transfers s" r] by (simp add: s' ext_inv_def)
qed simp

lemma Block_kept:
  assumes run: "Block c tid s = (res, s')" and inv: "ext_inv s"
  shows "ext_kept (ext_transfers s) (ext_transfers s')"
proof (cases "ext_transfers s' = ext_transfers s")
  case False
  with run obtain r where r: "find_row et_id tid (ext_transfers s) = Some r" "et_risk r = RiskHeld"
    and fr: "failAndRelease c tid (et_hold r) ''blocked by investigator'' s = (res, s')"
    by (auto simp: Block_def split: option.splits if_splits)
  have rin: "r \<in> set (ext_transfers s)" "et_id r = tid" using find_row_Some [OF r(1)] by auto
  let ?f = "\<lambda>r. r\<lparr>et_status := StatusFailed, et_risk := RiskBlocked, et_error := Some ''blocked by investigator'',
                  et_completed := Some (now c)\<rparr>"
  have s': "ext_transfers s' = update_row et_id tid ?f (ext_transfers s)"
    using fr False by (auto simp: failAndRelease_def split: option.splits prod.splits sum.splits dest: ReleaseHold_error)
  have "et_status r = StatusPending" using row_of(2) [OF inv rin(1)] r(2) by (simp add: row_ok_def)
  then have "ext_moves r (?f r)" by (simp add: ext_moves_def same_transfer_def ext_final_def)
  with rin inv show ?thesis using ext_kept_update [of "ext_transfers s" r ?f] by (simp add: s' ext_inv_def)
qed simp

lemma Debit_ext: "Debit c a amt key s = (res, s1) \<Longrightarrow> ext_transfers s1 = ext_transfers s"
  using posting_ext(1) by (auto simp: Debit_def split: sum.splits)

lemma ext_step_kept:
  assumes "ext_step s s'" and inv: "ext_inv s"
  shows "ext_kept (ext_transfers s) (ext_transfers s')"
  using assms(1)
proof cases
  case x_send
  then show ?thesis by (rule ext_send_kept)
next
  case x_claim
  then show ?thesis using inv unfolding claim_pending_def
    by (elim claim_kept) (auto simp: ext_inv_def ext_moves_def same_transfer_def ext_final_def)
next
  case x_stuck
  then show ?thesis using inv unfolding claim_stuck_def
    by (elim claim_kept) (auto simp: ext_inv_def ext_moves_def same_transfer_def ext_final_def)
next
  case x_process
  then show ?thesis using inv processRow_touches touches_kept by (fastforce simp: ext_inv_def)
next
  case x_approve
  then show ?thesis using inv by (rule Approve_kept)
next
  case x_block
  then show ?thesis using inv by (rule Block_kept)
next
  case x_transfer
  then show ?thesis by (simp add: Transfer_def posting_ext)
qed (simp_all add: Credit_ext Debit_ext PlaceHold_ext CaptureHold_ext)

text \<open>The other way round: a row after a step was there before, or is new and well-formed.\<close>

definition ext_from :: "external_transfer list \<Rightarrow> external_transfer list \<Rightarrow> bool" where
  "ext_from rows rows' \<longleftrightarrow> (\<forall>r'\<in>set rows'. (\<exists>r\<in>set rows. same_transfer r r') \<or> (0 < et_amount r' \<and> in64 (et_amount r')))"

lemma same_transfer_refl [simp]: "same_transfer r r"
  by (simp add: same_transfer_def)

lemma ext_from_refl [simp]: "ext_from rows rows"
  by (auto simp: ext_from_def intro: same_transfer_refl)

lemma ext_from_snoc: "0 < et_amount r \<Longrightarrow> in64 (et_amount r) \<Longrightarrow> ext_from rows (rows @ [r])"
  using ext_from_refl [of rows] unfolding ext_from_def by auto

lemma ext_from_map: "(\<And>r. same_transfer r (f r)) \<Longrightarrow> ext_from rows (map f rows)"
  by (auto simp: ext_from_def)

lemma touches_from: "touches tid rows rows' \<Longrightarrow> ext_from rows rows'"
  by (auto simp: touches_def update_row_def intro!: ext_from_map)

lemma ext_insert_from: "ext_insert c dir a rn cp amt key h bid s = (res, s') \<Longrightarrow> ext_from (ext_transfers s) (ext_transfers s')"
  by (auto simp: ext_insert_def Let_def split: sum.splits if_splits intro!: ext_from_snoc)

lemma ext_send_from:
  assumes "ext_send c dir a rn cp amt key bid s = (res, s')"
  shows "ext_from (ext_transfers s) (ext_transfers s')"
  using assms
proof (cases rule: ext_send_cases)
  case (outbound k h s2)
  then show ?thesis using PlaceHold_ext [OF outbound(2)] ext_insert_from [OF outbound(3)] by simp
next
  case (inbound k)
  then show ?thesis using ext_insert_from [OF inbound(2)] by simp
qed (use PlaceHold_ext in fastforce)+

lemma claim_from:
  "claim P ord upd s = (rows, s') \<Longrightarrow> (\<And>r. same_transfer r (upd r)) \<Longrightarrow> ext_from (ext_transfers s) (ext_transfers s')"
  by (auto simp: claim_def Let_def intro!: ext_from_map)

lemma ext_step_from:
  assumes "ext_step s s'"
  shows "ext_from (ext_transfers s) (ext_transfers s')"
  using assms
proof cases
  case x_send
  then show ?thesis by (rule ext_send_from)
next
  case x_claim
  then show ?thesis unfolding claim_pending_def by (elim claim_from) (simp add: same_transfer_def)
next
  case x_stuck
  then show ?thesis unfolding claim_stuck_def by (elim claim_from) (simp add: same_transfer_def)
next
  case x_process
  then show ?thesis using processRow_touches touches_from by fastforce
next
  case x_approve
  then show ?thesis
    by (auto simp: Approve_def update_row_def same_transfer_def split: option.splits if_splits intro!: ext_from_map)
next
  case x_block
  then show ?thesis by (auto simp: Block_def split: option.splits if_splits intro: touches_from [OF failAndRelease_touches])
next
  case x_transfer
  then show ?thesis by (simp add: Transfer_def posting_ext)
qed (simp_all add: Credit_ext Debit_ext PlaceHold_ext CaptureHold_ext)

lemma ext_reachable_amounts:
  "ext_reachable s \<Longrightarrow> \<forall>r\<in>set (ext_transfers s). 0 < et_amount r \<and> in64 (et_amount r)"
proof (induction rule: ext_reachable.induct)
  case (ext_next s s')
  then show ?case using ext_step_from [OF ext_next(2)] unfolding ext_from_def same_transfer_def by metis
qed (simp add: ext_start_def)

text \<open>No step of external payments writes accounts, identities or a table of a component built on top of them.\<close>

abbreviation ext_fixed :: "'z ext_db_scheme \<Rightarrow> 'z ext_db_scheme \<Rightarrow> bool" where
  "ext_fixed s s' \<equiv> ext_db.more s' = ext_db.more s \<and> accounts s' = accounts s \<and> identities s' = identities s"

lemma ledger_more:
  "ReleaseHold h s = (r1, s') \<Longrightarrow> ext_fixed s s'"
  "CaptureHold c h key s = (r2, s') \<Longrightarrow> ext_fixed s s'"
  "PlaceHold c a amt s = (r3, s') \<Longrightarrow> ext_fixed s s'"
  "postTransaction c ty key legs s = (r4, s') \<Longrightarrow> ext_fixed s s'"
  using ReleaseHold_frame CaptureHold_frame PlaceHold_frame posting_frame by fastforce+

lemma posting_more:
  "Credit c a amt key s = (r1, s') \<Longrightarrow> ext_fixed s s'"
  "Debit c a amt key s = (r1, s') \<Longrightarrow> ext_fixed s s'"
  "Transfer c f t amt key s = (r1, s') \<Longrightarrow> ext_fixed s s'"
  by (auto simp: Credit_def Debit_def Transfer_def split: sum.splits dest!: ledger_more(4))

lemma finalize_more: "finalize c dl row s = (out, s') \<Longrightarrow> ext_fixed s s'"
proof -
  have failed: "finalize_failed c row res s1 = (out, s2) \<Longrightarrow> ext_fixed s1 s2" for res s1 s2
    by (auto simp: finalize_failed_def set_status_def split: if_splits option.splits prod.splits sum.splits dest: ledger_more)
  have succeeded: "finalize_succeeded c row res s1 = (out, s2) \<Longrightarrow> ext_fixed s1 s2" for res s1 s2
    by (auto simp: finalize_succeeded_def set_status_def split: if_splits option.splits prod.splits sum.splits
        dest: ledger_more posting_more)
  show "finalize c dl row s = (out, s') \<Longrightarrow> ext_fixed s s'"
    by (auto simp: finalize_def split: sum.splits prod.splits if_splits dest!: failed succeeded)
qed

lemma failAndRelease_more: "failAndRelease c tid h reason s = (res, s') \<Longrightarrow> ext_fixed s s'"
  by (auto simp: failAndRelease_def split: option.splits prod.splits sum.splits dest: ledger_more)

lemma processRow_more:
  assumes "processRow c screen dl row s = (out, s')"
  shows "ext_fixed s s'"
  using assms
proof (cases rule: processRow_cases)
  case (final as)
  then show ?thesis using finalize_more by fastforce
next
  case (held as)
  then show ?thesis by (simp add: set_status_def)
next
  case (blocked as tf res)
  then show ?thesis using failAndRelease_more by fastforce
qed simp

lemma ext_send_more:
  assumes "ext_send c dir a rn cp amt key bid s = (res, s')"
  shows "ext_fixed s s'"
proof -
  have ins: "ext_insert c dir a rn cp amt key h bid s1 = (res, s2) \<Longrightarrow> ext_fixed s1 s2" for h s1 s2
    using ext_insert_cases by fastforce
  show ?thesis
    using assms
  proof (cases rule: ext_send_cases)
    case (outbound k h s2)
    then show ?thesis using ledger_more(3) ins by fastforce
  next
    case (inbound k)
    then show ?thesis using ins by fastforce
  next
    case (no_hold k h s2)
    then show ?thesis using ledger_more(3) by fastforce
  qed auto
qed

lemma ext_step_fixed:
  assumes "ext_step s s'"
  shows "ext_fixed s s'"
  using assms
proof cases
  case (x_approve tid out)
  then show ?thesis by (auto simp: Approve_def split: option.splits if_splits)
next
  case (x_block c tid out)
  then show ?thesis by (auto simp: Block_def split: option.splits if_splits dest: failAndRelease_more)
qed (auto simp: claim_pending_def claim_stuck_def claim_def Let_def
    dest: ext_send_more processRow_more ledger_more posting_more)

lemma ext_step_more: "ext_step s s' \<Longrightarrow> ext_db.more s' = ext_db.more s"
  by (blast dest: ext_step_fixed)

subsection \<open>Reachable states\<close>

inductive ext_steps :: "'z ext_db_scheme \<Rightarrow> 'z ext_db_scheme \<Rightarrow> bool" where
  steps_refl: "ext_steps s s"
| steps_next: "ext_steps s s' \<Longrightarrow> ext_step s' s'' \<Longrightarrow> ext_steps s s''"

lemma ext_moves_trans: "ext_moves r1 r2 \<Longrightarrow> ext_moves r2 r3 \<Longrightarrow> same_transfer r1 r3 \<and> (ext_final (et_status r1) \<longrightarrow> r3 = r1)"
  by (auto simp: ext_moves_def same_transfer_def)

text \<open>
  A queued external transfer is never lost or rewritten.  However long the workers, the
  investigators and the ledger go on from a reachable state, the transfer is still there with
  the same account, counterparty, amount, direction, key and hold; and once it is completed or
  failed its row does not change at all.
\<close>

theorem external_transfer_stays:
  assumes "ext_reachable s" and "ext_steps s s'" and "r \<in> set (ext_transfers s)"
  shows "\<exists>r'\<in>set (ext_transfers s'). same_transfer r r' \<and> (ext_final (et_status r) \<longrightarrow> r' = r)"
proof -
  have "ext_reachable s' \<and> (\<exists>r'\<in>set (ext_transfers s'). same_transfer r r' \<and> (ext_final (et_status r) \<longrightarrow> r' = r))"
    using assms(2,1,3)
  proof (induction rule: ext_steps.induct)
    case (steps_refl s)
    then show ?case by (auto simp: same_transfer_def intro: bexI [of _ r])
  next
    case (steps_next s s1 s2)
    then obtain r1 where r1: "r1 \<in> set (ext_transfers s1)" "same_transfer r r1" "ext_final (et_status r) \<longrightarrow> r1 = r"
      and reach: "ext_reachable s1" by auto
    from ext_step_kept [OF steps_next(2) ext_reachable_inv [OF reach]] r1(1)
    obtain r2 where "r2 \<in> set (ext_transfers s2)" "ext_moves r1 r2" by (auto simp: ext_kept_def)
    with r1(2,3) have "r2 \<in> set (ext_transfers s2)" "same_transfer r r2" "ext_final (et_status r) \<longrightarrow> r2 = r"
      by (auto simp: ext_moves_def same_transfer_def)
    with ext_next [OF reach steps_next(2)] show ?case by blast
  qed
  then show ?thesis ..
qed

theorem external_transfer_stays_witness:
  "\<exists>r'\<in>set (ext_transfers (snd (claim_pending (ext_ctx 2) sample_sent))). same_transfer sample_row r'"
proof -
  have "ext_steps sample_sent (snd (claim_pending (ext_ctx 2) sample_sent))"
    by (rule steps_next [OF steps_refl x_claim [OF prod.collapse [symmetric]]])
  moreover have "sample_row \<in> set (ext_transfers sample_sent)"
    unfolding sample_sent_def sample_row_def by code_simp
  ultimately show ?thesis using external_transfer_stays [OF sample_sent_reachable] by blast
qed

end
