(* ===== verification/Reconciliation.thy ===== *)
theory Reconciliation
  imports ExternalLife
begin

section \<open>Reconciliation\<close>

text \<open>
  \<open>internal/reconciliation\<close> (reconciliation.go, match.go): the simulated partner statement and its
  matching against the external transfers.  Both queries end in \<open>LIMIT 100\<close> without an order, so
  which rows they take is Postgres' choice: the parameter \<open>pick\<close>, with the law \<open>limit_ok\<close>.  The
  loops run over the rows read at the start; the context of each row's statements is \<open>cs\<close>.
\<close>

definition breakMarker :: string where "breakMarker = ''RECONBREAK''"
definition breakDelta :: int where "breakDelta = 10000"
definition recon_batch :: nat where "recon_batch = 100"

datatype line_status = LineUnmatched | LineMatched | LineBreak

record stmt_line =
  sl_id :: uuid
  sl_transfer :: uuid
  sl_reported :: int
  sl_currency :: string
  sl_status :: line_status
  sl_created :: int

record recon_break =
  rb_id :: uuid
  rb_line :: uuid
  rb_transfer :: uuid
  rb_reason :: string
  rb_expected :: int
  rb_reported :: int
  rb_open :: bool
  rb_created :: int

record recon_db = ext_db +
  stmt_lines :: "stmt_line list"
  recon_breaks :: "recon_break list"

text \<open>\<open>LIMIT n\<close>: some \<open>n\<close> of the rows, all of them when there are no more.\<close>

definition limit_ok :: "(nat \<Rightarrow> uuid list \<Rightarrow> uuid list) \<Rightarrow> bool" where
  "limit_ok pick \<longleftrightarrow> (\<forall>n xs. distinct xs \<longrightarrow> distinct (pick n xs) \<and> set (pick n xs) \<subseteq> set xs
     \<and> length (pick n xs) = min n (length xs))"

subsection \<open>GenerateStatementLines\<close>

definition unreported :: "'z recon_db_scheme \<Rightarrow> uuid list" where
  "unreported s = map et_id (filter (\<lambda>et. \<not> key_taken sl_transfer (et_id et) (stmt_lines s)) (ext_transfers s))"

text \<open>What the partner reports of a transfer.\<close>

definition reported :: "external_transfer \<Rightarrow> int" where
  "reported t = (if str_contains (et_counterparty t) breakMarker then wrap64 (et_amount t + breakDelta) else et_amount t)"

definition new_line :: "ctx \<Rightarrow> external_transfer \<Rightarrow> stmt_line" where
  "new_line c t = \<lparr>sl_id = gen c 10, sl_transfer = et_id t, sl_reported = reported t, sl_currency = et_currency t,
     sl_status = LineUnmatched, sl_created = now c\<rparr>"

definition insert_line :: "ctx \<Rightarrow> external_transfer \<Rightarrow> 'z recon_db_scheme \<Rightarrow> 'z recon_db_scheme" where
  "insert_line c t s =
    (if key_taken sl_transfer (et_id t) (stmt_lines s) then s
     else if key_taken sl_id (gen c 10) (stmt_lines s) then s
     else s\<lparr>stmt_lines := stmt_lines s @ [new_line c t]\<rparr>)"

fun insert_lines :: "(uuid \<Rightarrow> ctx) \<Rightarrow> external_transfer list \<Rightarrow> 'z recon_db_scheme \<Rightarrow> 'z recon_db_scheme" where
  "insert_lines cs [] s = s"
| "insert_lines cs (t # ts) s = insert_lines cs ts (insert_line (cs (et_id t)) t s)"

definition GenerateStatementLines :: "(nat \<Rightarrow> uuid list \<Rightarrow> uuid list) \<Rightarrow> (uuid \<Rightarrow> ctx) \<Rightarrow> 'z recon_db_scheme
    \<Rightarrow> 'z recon_db_scheme" where
  "GenerateStatementLines pick cs s =
    insert_lines cs (List.map_filter (\<lambda>i. find_row et_id i (ext_transfers s)) (pick recon_batch (unreported s))) s"

subsection \<open>RunReconciliation\<close>

record unmatched_line =
  ul_line :: uuid
  ul_reported :: int
  ul_transfer :: uuid
  ul_amount :: int
  ul_status :: ext_status

definition unmatched_of :: "'z recon_db_scheme \<Rightarrow> stmt_line \<Rightarrow> unmatched_line option" where
  "unmatched_of s l =
    (case find_row et_id (sl_transfer l) (ext_transfers s) of
       None \<Rightarrow> None
     | Some t \<Rightarrow>
        if sl_status l \<noteq> LineUnmatched then None
        else Some \<lparr>ul_line = sl_id l, ul_reported = sl_reported l, ul_transfer = et_id t, ul_amount = et_amount t,
                   ul_status = et_status t\<rparr>)"

definition set_line :: "uuid \<Rightarrow> line_status \<Rightarrow> 'z recon_db_scheme \<Rightarrow> 'z recon_db_scheme" where
  "set_line i st s = s\<lparr>stmt_lines := update_row sl_id i (\<lambda>l. l\<lparr>sl_status := st\<rparr>) (stmt_lines s)\<rparr>"

definition markMatched :: "uuid \<Rightarrow> 'z recon_db_scheme \<Rightarrow> (gerror + unit) \<times> 'z recon_db_scheme" where
  "markMatched lineID s = (Inr (), set_line lineID LineMatched s)"

definition raiseBreak :: "ctx \<Rightarrow> unmatched_line \<Rightarrow> string \<Rightarrow> int \<Rightarrow> 'z recon_db_scheme
    \<Rightarrow> (gerror + unit) \<times> 'z recon_db_scheme" where
  "raiseBreak c l reason expected s =
    (if key_taken rb_id (gen c 11) (recon_breaks s) then (Inl SqlUnique, s)
     else if \<not> key_taken sl_id (ul_line l) (stmt_lines s) \<or> \<not> key_taken et_id (ul_transfer l) (ext_transfers s)
     then (Inl SqlForeignKey, s)
     else (Inr (), set_line (ul_line l) LineBreak
       (s\<lparr>recon_breaks := recon_breaks s @ [\<lparr>rb_id = gen c 11, rb_line = ul_line l, rb_transfer = ul_transfer l,
            rb_reason = reason, rb_expected = expected, rb_reported = ul_reported l, rb_open = True,
            rb_created = now c\<rparr>]\<rparr>)))"

definition resolveLine :: "ctx \<Rightarrow> unmatched_line \<Rightarrow> 'z recon_db_scheme \<Rightarrow> (gerror + unit) \<times> 'z recon_db_scheme" where
  "resolveLine c l s =
    (case ul_status l of
       StatusPending \<Rightarrow> (Inr (), s)
     | StatusProcessing \<Rightarrow> (Inr (), s)
     | StatusCompleted \<Rightarrow>
        if ul_reported l = ul_amount l then markMatched (ul_line l) s
        else raiseBreak c l ''amount_mismatch'' (ul_amount l) s
     | StatusFailed \<Rightarrow>
        if ul_reported l = 0 then markMatched (ul_line l) s
        else raiseBreak c l ''unexpected_settlement'' 0 s)"

fun resolve_lines :: "(uuid \<Rightarrow> ctx) \<Rightarrow> unmatched_line list \<Rightarrow> 'z recon_db_scheme \<Rightarrow> 'z recon_db_scheme" where
  "resolve_lines cs [] s = s"
| "resolve_lines cs (l # ls) s = resolve_lines cs ls (snd (resolveLine (cs (ul_line l)) l s))"

definition unmatched :: "'z recon_db_scheme \<Rightarrow> unmatched_line list" where
  "unmatched s = List.map_filter (unmatched_of s) (stmt_lines s)"

definition RunReconciliation :: "(nat \<Rightarrow> uuid list \<Rightarrow> uuid list) \<Rightarrow> (uuid \<Rightarrow> ctx) \<Rightarrow> 'z recon_db_scheme
    \<Rightarrow> 'z recon_db_scheme" where
  "RunReconciliation pick cs s =
    resolve_lines cs (List.map_filter (\<lambda>i. find_row ul_line i (unmatched s))
      (pick recon_batch (map ul_line (unmatched s)))) s"

subsection \<open>Lines, breaks and the transfers they describe\<close>

interpretation set_line: row_update sl_id "\<lambda>l. l\<lparr>sl_status := st\<rparr>"
  by unfold_locales simp

text \<open>How a line about a transfer is resolved, once the transfer has ended.\<close>

definition verdict :: "int \<Rightarrow> int \<Rightarrow> ext_status \<Rightarrow> line_status" where
  "verdict rep amount st =
    (case st of StatusCompleted \<Rightarrow> if rep = amount then LineMatched else LineBreak
              | StatusFailed \<Rightarrow> if rep = 0 then LineMatched else LineBreak
              | _ \<Rightarrow> LineUnmatched)"

definition line_ok :: "external_transfer list \<Rightarrow> stmt_line \<Rightarrow> bool" where
  "line_ok ts l \<longleftrightarrow> (\<exists>t. find_row et_id (sl_transfer l) ts = Some t \<and> sl_reported l = reported t
     \<and> (sl_status l \<noteq> LineUnmatched \<longrightarrow> sl_status l = verdict (reported t) (et_amount t) (et_status t)))"

definition break_ok :: "external_transfer list \<Rightarrow> stmt_line list \<Rightarrow> recon_break \<Rightarrow> bool" where
  "break_ok ts ls b \<longleftrightarrow> (\<exists>l t. find_row sl_id (rb_line b) ls = Some l \<and> sl_status l = LineBreak
     \<and> rb_transfer b = sl_transfer l \<and> find_row et_id (sl_transfer l) ts = Some t \<and> rb_reported b = reported t
     \<and> rb_expected b = (if et_status t = StatusCompleted then et_amount t else 0)
     \<and> rb_reason b = (if et_status t = StatusCompleted then ''amount_mismatch'' else ''unexpected_settlement''))"

definition recon_inv :: "'z recon_db_scheme \<Rightarrow> bool" where
  "recon_inv s \<longleftrightarrow> distinct (map sl_id (stmt_lines s)) \<and> distinct (map sl_transfer (stmt_lines s))
    \<and> (\<forall>l\<in>set (stmt_lines s). line_ok (ext_transfers s) l)
    \<and> distinct (map rb_line (recon_breaks s))
    \<and> (\<forall>b\<in>set (recon_breaks s). break_ok (ext_transfers s) (stmt_lines s) b)
    \<and> (\<forall>l\<in>set (stmt_lines s). sl_status l = LineBreak \<longrightarrow> key_taken rb_line (sl_id l) (recon_breaks s))"

lemma recon_invD:
  assumes "recon_inv s"
  shows "distinct (map sl_id (stmt_lines s))" and "distinct (map sl_transfer (stmt_lines s))"
    and "l \<in> set (stmt_lines s) \<Longrightarrow> line_ok (ext_transfers s) l" and "distinct (map rb_line (recon_breaks s))"
    and "b \<in> set (recon_breaks s) \<Longrightarrow> break_ok (ext_transfers s) (stmt_lines s) b"
    and "l \<in> set (stmt_lines s) \<Longrightarrow> sl_status l = LineBreak \<Longrightarrow> key_taken rb_line (sl_id l) (recon_breaks s)"
  using assms by (simp_all add: recon_inv_def)

text \<open>Transfers may move on: lines and breaks stay right.\<close>

lemma find_kept:
  assumes kept: "ext_kept ts ts'" and d: "distinct (map et_id ts')" and f: "find_row et_id i ts = Some t"
  obtains t' where "find_row et_id i ts' = Some t'" and "ext_moves t t'"
proof -
  from find_row_Some [OF f] kept obtain t' where "t' \<in> set ts'" "ext_moves t t'" by (auto simp: ext_kept_def)
  moreover have "et_id t' = i" using calculation(2) find_row_Some [OF f] by (simp add: ext_moves_def same_transfer_def)
  ultimately show thesis using that find_row_distinct [OF d] by blast
qed

lemma moved_same: "ext_moves t t' \<Longrightarrow> reported t' = reported t \<and> et_amount t' = et_amount t"
  by (simp add: ext_moves_def same_transfer_def reported_def)

lemma verdict_final: "verdict r a st \<noteq> LineUnmatched \<longleftrightarrow> ext_final st"
  by (simp add: verdict_def ext_final_def split: ext_status.split)

lemma line_ok_kept:
  assumes "ext_kept ts ts'" and "distinct (map et_id ts')" and ok: "line_ok ts l"
  shows "line_ok ts' l"
proof -
  from ok obtain t where t: "find_row et_id (sl_transfer l) ts = Some t" "sl_reported l = reported t"
    and st: "sl_status l \<noteq> LineUnmatched \<longrightarrow> sl_status l = verdict (reported t) (et_amount t) (et_status t)"
    by (auto simp: line_ok_def)
  from find_kept [OF assms(1,2) t(1)] obtain t' where t': "find_row et_id (sl_transfer l) ts' = Some t'" "ext_moves t t'" .
  have "t' = t" if "sl_status l \<noteq> LineUnmatched"
    using st that t'(2) verdict_final by (metis ext_moves_def)
  then show ?thesis using t' t(2) st moved_same [OF t'(2)] by (auto simp: line_ok_def)
qed

lemma break_ok_kept:
  assumes "ext_kept ts ts'" and "distinct (map et_id ts')" and ok: "break_ok ts ls b"
    and lines: "\<forall>l\<in>set ls. line_ok ts l"
  shows "break_ok ts' ls b"
proof -
  from ok obtain l t where l: "find_row sl_id (rb_line b) ls = Some l" "sl_status l = LineBreak"
    and t: "find_row et_id (sl_transfer l) ts = Some t" by (auto simp: break_ok_def)
  from find_kept [OF assms(1,2) t] obtain t' where t': "find_row et_id (sl_transfer l) ts' = Some t'" "ext_moves t t'" .
  have "ext_final (et_status t)"
    using lines find_row_Some [OF l(1)] l(2) t verdict_final [of "reported t" "et_amount t"]
    by (force simp: line_ok_def)
  then have "t' = t" using t'(2) by (simp add: ext_moves_def)
  then show ?thesis using ok l t t'(1) by (auto simp: break_ok_def)
qed

subsection \<open>The two ticks keep them\<close>

lemma break_ok_append: "break_ok ts ls b \<Longrightarrow> break_ok ts (ls @ ls') b"
  by (auto simp: break_ok_def find_row_append)

lemma insert_line_inv:
  assumes inv: "recon_inv s" and t: "find_row et_id (et_id t) (ext_transfers s) = Some t"
  shows "recon_inv (insert_line c t s)"
proof (cases "insert_line c t s = s")
  case False
  then have new: "\<not> key_taken sl_transfer (et_id t) (stmt_lines s)" "\<not> key_taken sl_id (gen c 10) (stmt_lines s)"
    and s': "insert_line c t s = s\<lparr>stmt_lines := stmt_lines s @ [new_line c t]\<rparr>"
    by (auto simp: insert_line_def split: if_splits)
  have "line_ok (ext_transfers s) (new_line c t)" using t by (simp add: line_ok_def new_line_def)
  moreover have "sl_status (new_line c t) \<noteq> LineBreak" by (simp add: new_line_def)
  moreover have "distinct (map sl_id (stmt_lines s @ [new_line c t]))" "distinct (map sl_transfer (stmt_lines s @ [new_line c t]))"
    using recon_invD(1,2) [OF inv] new by (simp_all only: distinct_snoc_key) (simp_all add: new_line_def)
  ultimately show ?thesis using recon_invD [OF inv]
    unfolding s' recon_inv_def by (auto simp: break_ok_append)
qed (use inv in simp)

lemma insert_line_ext [simp]: "ext_transfers (insert_line c t s) = ext_transfers s"
  by (simp add: insert_line_def)

lemma insert_lines_inv:
  "recon_inv s \<Longrightarrow> (\<forall>t\<in>set ts. find_row et_id (et_id t) (ext_transfers s) = Some t) \<Longrightarrow> recon_inv (insert_lines cs ts s)"
  by (induction ts arbitrary: s) (simp_all add: insert_line_inv)

lemma insert_lines_ext [simp]: "ext_transfers (insert_lines cs ts s) = ext_transfers s"
  by (induction ts arbitrary: s) simp_all

lemma picked_found:
  assumes "r \<in> set (List.map_filter (\<lambda>i. find_row key i rows) is)"
  shows "find_row key (key r) rows = Some r"
proof -
  from assms obtain i where "find_row key i rows = Some r" by (auto simp: map_filter_def)
  then show ?thesis using find_row_key [of key i rows r] by simp
qed

lemma Generate_inv: "recon_inv s \<Longrightarrow> recon_inv (GenerateStatementLines pick cs s)"
  unfolding GenerateStatementLines_def by (rule insert_lines_inv) (simp_all add: picked_found)

text \<open>A line that an unmatched record stands for, and what resolving the record does to it.\<close>

definition stands_for :: "unmatched_line \<Rightarrow> stmt_line \<Rightarrow> external_transfer \<Rightarrow> 'z recon_db_scheme \<Rightarrow> bool" where
  "stands_for u l t s \<longleftrightarrow> find_row sl_id (ul_line u) (stmt_lines s) = Some l \<and> sl_status l = LineUnmatched
    \<and> find_row et_id (sl_transfer l) (ext_transfers s) = Some t \<and> sl_reported l = reported t
    \<and> u = \<lparr>ul_line = sl_id l, ul_reported = reported t, ul_transfer = et_id t, ul_amount = et_amount t, ul_status = et_status t\<rparr>"

lemma stands_line: "stands_for u l t s \<Longrightarrow> find_row sl_id (ul_line u) (stmt_lines s) = Some l"
  unfolding stands_for_def by blast

lemma unmatched_stands:
  assumes inv: "recon_inv s" and u: "u \<in> set (unmatched s)"
  shows "\<exists>l t. stands_for u l t s"
proof -
  from u obtain l where l: "l \<in> set (stmt_lines s)" "unmatched_of s l = Some u"
    by (auto simp: unmatched_def map_filter_def split: option.splits)
  then obtain t where t: "find_row et_id (sl_transfer l) (ext_transfers s) = Some t" "sl_status l = LineUnmatched"
    and u: "u = \<lparr>ul_line = sl_id l, ul_reported = sl_reported l, ul_transfer = et_id t, ul_amount = et_amount t, ul_status = et_status t\<rparr>"
    by (auto simp: unmatched_of_def split: option.splits if_splits)
  have "sl_reported l = reported t" using recon_invD(3) [OF inv l(1)] t(1) by (auto simp: line_ok_def)
  with t u find_row_distinct [OF recon_invD(1) [OF inv] l(1)] show ?thesis
    by (intro exI [of _ l] exI [of _ t]) (simp add: stands_for_def)
qed

lemma set_line_ok:
  assumes inv: "recon_inv s" and st: "stands_for u l t s"
    and v: "st = verdict (reported t) (et_amount t) (et_status t)"
    and x: "x \<in> set (update_row sl_id (ul_line u) (\<lambda>l. l\<lparr>sl_status := st\<rparr>) (stmt_lines s))"
  shows "line_ok (ext_transfers s) x"
proof -
  from x obtain y where y: "y \<in> set (stmt_lines s)" and xy: "x = (if sl_id y = ul_line u then y\<lparr>sl_status := st\<rparr> else y)"
    by (auto simp: set_update_row)
  show ?thesis
  proof (cases "sl_id y = ul_line u")
    case True
    then have "y = l" using stands_line [OF st] find_row_distinct [OF recon_invD(1) [OF inv] y] by simp
    then show ?thesis using xy True st v by (auto simp: line_ok_def stands_for_def)
  qed (use xy y recon_invD(3) [OF inv] in simp)
qed

lemma set_line_break_ok:
  assumes st: "stands_for u l t s" and ok: "break_ok ts (stmt_lines s) b"
  shows "break_ok ts (update_row sl_id (ul_line u) (\<lambda>l. l\<lparr>sl_status := v\<rparr>) (stmt_lines s)) b"
proof -
  have "rb_line b \<noteq> ul_line u" using st ok by (auto simp: break_ok_def stands_for_def)
  then show ?thesis using ok by (simp add: break_ok_def set_line.find_other)
qed

lemma matched_inv:
  assumes inv: "recon_inv s" and st: "stands_for u l t s"
    and v: "verdict (reported t) (et_amount t) (et_status t) = LineMatched"
  shows "recon_inv (set_line (ul_line u) LineMatched s)"
proof -
  let ?ls = "update_row sl_id (ul_line u) (\<lambda>l. l\<lparr>sl_status := LineMatched\<rparr>) (stmt_lines s)"
  have "map sl_transfer ?ls = map sl_transfer (stmt_lines s)" by (simp add: update_row_def)
  moreover have "key_taken rb_line (sl_id x) (recon_breaks s)" if "x \<in> set ?ls" "sl_status x = LineBreak" for x
    using that recon_invD(6) [OF inv] by (auto simp: set_update_row split: if_splits)
  ultimately show ?thesis
    using recon_invD [OF inv] set_line_ok [OF inv st v [symmetric]] set_line_break_ok [OF st]
    by (simp add: recon_inv_def set_line_def set_line.keys)
qed

lemma break_inv:
  assumes inv: "recon_inv s" and st: "stands_for u l t s"
    and v: "verdict (reported t) (et_amount t) (et_status t) = LineBreak"
    and b: "rb_line b = ul_line u" "rb_transfer b = ul_transfer u" "rb_reported b = ul_reported u"
      "rb_expected b = (if et_status t = StatusCompleted then et_amount t else 0)"
      "rb_reason b = (if et_status t = StatusCompleted then ''amount_mismatch'' else ''unexpected_settlement'')"
  shows "recon_inv (set_line (ul_line u) LineBreak (s\<lparr>recon_breaks := recon_breaks s @ [b]\<rparr>))"
proof -
  let ?ls = "update_row sl_id (ul_line u) (\<lambda>l. l\<lparr>sl_status := LineBreak\<rparr>) (stmt_lines s)"
  have l: "find_row sl_id (ul_line u) (stmt_lines s) = Some l" using st by (rule stands_line)
  have tr: "map sl_transfer ?ls = map sl_transfer (stmt_lines s)" by (simp add: update_row_def)
  have new: "\<not> key_taken rb_line (rb_line b) (recon_breaks s)"
  proof
    assume "key_taken rb_line (rb_line b) (recon_breaks s)"
    then obtain b' where "b' \<in> set (recon_breaks s)" "rb_line b' = ul_line u" using b(1) by (auto simp: key_taken_def)
    then show False using recon_invD(5) [OF inv, of b'] st by (auto simp: break_ok_def stands_for_def)
  qed
  have "break_ok (ext_transfers s) ?ls b"
    using st b set_line.find_same [OF l] find_row_key [of et_id "sl_transfer l" "ext_transfers s" t]
    by (auto simp: break_ok_def stands_for_def)
  moreover have "key_taken rb_line (sl_id x) (recon_breaks s @ [b])" if "x \<in> set ?ls" "sl_status x = LineBreak" for x
    using that recon_invD(6) [OF inv] b(1) by (auto simp: set_update_row split: if_splits)
  moreover have "distinct (map rb_line (recon_breaks s @ [b]))"
    using recon_invD(4) [OF inv] new by (simp add: distinct_snoc_key del: map_append)
  ultimately show ?thesis
    using recon_invD [OF inv] set_line_ok [OF inv st v [symmetric]] set_line_break_ok [OF st]
    unfolding recon_inv_def set_line_def by (auto simp: set_line.keys tr)
qed

lemma resolveLine_inv:
  assumes inv: "recon_inv s" and st: "stands_for u l t s" and run: "resolveLine c u s = (res, s')"
  shows "recon_inv s' \<and> ext_transfers s' = ext_transfers s
    \<and> (\<forall>i. i \<noteq> ul_line u \<longrightarrow> find_row sl_id i (stmt_lines s') = find_row sl_id i (stmt_lines s))"
proof -
  have u: "ul_reported u = reported t" "ul_amount u = et_amount t" "ul_status u = et_status t"
    using st by (simp_all add: stands_for_def)
  consider "s' = s" | "s' = set_line (ul_line u) LineMatched s" "verdict (reported t) (et_amount t) (et_status t) = LineMatched"
    | b where "s' = set_line (ul_line u) LineBreak (s\<lparr>recon_breaks := recon_breaks s @ [b]\<rparr>)"
      "verdict (reported t) (et_amount t) (et_status t) = LineBreak"
      "rb_line b = ul_line u" "rb_transfer b = ul_transfer u" "rb_reported b = ul_reported u"
      "rb_expected b = (if et_status t = StatusCompleted then et_amount t else 0)"
      "rb_reason b = (if et_status t = StatusCompleted then ''amount_mismatch'' else ''unexpected_settlement'')"
    using run
    by (auto simp: resolveLine_def markMatched_def raiseBreak_def verdict_def u split: ext_status.splits if_splits)
  then show ?thesis
  proof cases
    case 2
    then show ?thesis using matched_inv [OF inv st 2(2)] by (simp add: set_line_def set_line.find_other)
  next
    case (3 b)
    then show ?thesis using break_inv [OF inv st 3(2-7)] by (simp add: set_line_def set_line.find_other)
  qed (use inv in simp)
qed

lemma stands_for_cong:
  assumes "ext_transfers s' = ext_transfers s" and "find_row sl_id (ul_line u) (stmt_lines s') = find_row sl_id (ul_line u) (stmt_lines s)"
  shows "stands_for u l t s' = stands_for u l t s"
  using assms by (simp add: stands_for_def)

lemma resolve_lines_inv:
  assumes "recon_inv s" and "\<forall>u\<in>set us. \<exists>l t. stands_for u l t s" and "distinct (map ul_line us)"
  shows "recon_inv (resolve_lines cs us s) \<and> ext_transfers (resolve_lines cs us s) = ext_transfers s
    \<and> (\<forall>i. i \<notin> ul_line ` set us \<longrightarrow> find_row sl_id i (stmt_lines (resolve_lines cs us s)) = find_row sl_id i (stmt_lines s))"
  using assms
proof (induction us arbitrary: s)
  case (Cons u us)
  from Cons.prems(2) obtain l t where st: "stands_for u l t s" by auto
  obtain res s1 where run: "resolveLine (cs (ul_line u)) u s = (res, s1)" by fastforce
  from resolveLine_inv [OF Cons.prems(1) st run] have inv1: "recon_inv s1" and e1: "ext_transfers s1 = ext_transfers s"
    and o1: "\<And>i. i \<noteq> ul_line u \<Longrightarrow> find_row sl_id i (stmt_lines s1) = find_row sl_id i (stmt_lines s)" by auto
  have "\<forall>u'\<in>set us. \<exists>l t. stands_for u' l t s1"
  proof
    fix u' assume u': "u' \<in> set us"
    then have "ul_line u' \<noteq> ul_line u" using Cons.prems(3) by (auto simp: image_iff)
    then show "\<exists>l t. stands_for u' l t s1" using Cons.prems(2) u' stands_for_cong [of s1 s u', OF e1] o1 by auto
  qed
  then show ?case using Cons.IH [OF inv1] Cons.prems(3) run e1 o1 by simp
qed simp

lemma resolveLine_verdict:
  assumes st: "stands_for u l t s" and run: "resolveLine c u s = (res, s')"
    and fresh: "\<not> key_taken rb_id (gen c 11) (recon_breaks s)"
  shows "find_row sl_id (ul_line u) (stmt_lines s') = Some (l\<lparr>sl_status := verdict (reported t) (et_amount t) (et_status t)\<rparr>)"
    and "key_taken rb_id i (recon_breaks s') \<Longrightarrow> key_taken rb_id i (recon_breaks s) \<or> i = gen c 11"
proof -
  note l = stands_line [OF st]
  have u: "ul_reported u = reported t" "ul_amount u = et_amount t" "ul_status u = et_status t" "ul_transfer u = et_id t"
    "sl_status l = LineUnmatched" and t: "find_row et_id (sl_transfer l) (ext_transfers s) = Some t"
    using st by (auto simp: stands_for_def)
  have fk: "key_taken sl_id (ul_line u) (stmt_lines s)" "key_taken et_id (et_id t) (ext_transfers s)"
    using find_row_taken [OF l] find_row_taken [OF t] find_row_key [OF t] by simp_all
  show "find_row sl_id (ul_line u) (stmt_lines s') = Some (l\<lparr>sl_status := verdict (reported t) (et_amount t) (et_status t)\<rparr>)"
    using run fresh fk l set_line.find_same [OF l] u(5)
    by (cases "et_status t") (auto simp: resolveLine_def markMatched_def raiseBreak_def verdict_def u set_line_def)
  show "key_taken rb_id i (recon_breaks s') \<Longrightarrow> key_taken rb_id i (recon_breaks s) \<or> i = gen c 11"
    using run by (auto simp: resolveLine_def markMatched_def raiseBreak_def set_line_def split: ext_status.splits if_splits)
qed

lemma resolve_lines_verdict:
  assumes "recon_inv s" and "\<forall>u\<in>set us. \<exists>l t. stands_for u l t s" and "distinct (map ul_line us)"
    and "distinct (map (\<lambda>u. gen (cs (ul_line u)) 11) us)"
    and "\<forall>u\<in>set us. \<not> key_taken rb_id (gen (cs (ul_line u)) 11) (recon_breaks s)"
    and "u \<in> set us" and "stands_for u l t s"
  shows "find_row sl_id (ul_line u) (stmt_lines (resolve_lines cs us s)) =
    Some (l\<lparr>sl_status := verdict (reported t) (et_amount t) (et_status t)\<rparr>)"
  using assms
proof (induction us arbitrary: s)
  case (Cons v us)
  from Cons.prems(2) obtain l' t' where st: "stands_for v l' t' s" by auto
  obtain res s1 where run: "resolveLine (cs (ul_line v)) v s = (res, s1)" by fastforce
  from resolveLine_inv [OF Cons.prems(1) st run] have inv1: "recon_inv s1" and e1: "ext_transfers s1 = ext_transfers s"
    and o1: "\<And>i. i \<noteq> ul_line v \<Longrightarrow> find_row sl_id i (stmt_lines s1) = find_row sl_id i (stmt_lines s)" by auto
  have fresh: "\<not> key_taken rb_id (gen (cs (ul_line v)) 11) (recon_breaks s)" using Cons.prems(5) by simp
  have keep: "stands_for w a b s1 = stands_for w a b s" if "w \<in> set us" for w a b
    using Cons.prems(3) that by (intro stands_for_cong [OF e1] o1) (auto simp: image_iff)
  have stand1: "\<forall>w\<in>set us. \<exists>l t. stands_for w l t s1" using Cons.prems(2) keep by simp
  have d: "distinct (map ul_line us)" using Cons.prems(3) by simp
  show ?case
  proof (cases "u = v")
    case True
    have "ul_line v \<notin> ul_line ` set us" using Cons.prems(3) by auto
    then have "find_row sl_id (ul_line v) (stmt_lines (resolve_lines cs us s1)) = find_row sl_id (ul_line v) (stmt_lines s1)"
      using resolve_lines_inv [OF inv1 stand1 d] by blast
    then show ?thesis using True run resolveLine_verdict(1) [OF _ run fresh] Cons.prems(7) by simp
  next
    case False
    then have u: "u \<in> set us" using Cons.prems(6) by simp
    have "\<forall>w\<in>set us. \<not> key_taken rb_id (gen (cs (ul_line w)) 11) (recon_breaks s1)"
      using Cons.prems(4,5) resolveLine_verdict(2) [OF st run fresh] by (fastforce simp: image_iff)
    then show ?thesis
      using Cons.IH [OF inv1 stand1 d _ _ u] Cons.prems(4,7) keep [OF u] run by simp
  qed
qed simp

subsection \<open>Picking rows\<close>

lemma map_picked:
  "set is \<subseteq> set (map key rows) \<Longrightarrow> map key (List.map_filter (\<lambda>i. find_row key i rows) is) = is"
proof (induction "is")
  case (Cons i "is")
  then obtain r where "find_row key i rows = Some r" using key_taken_find [of key i rows] by (auto simp: key_taken_def)
  then show ?case using Cons find_row_key [of key i rows r] by (simp add: map_filter_def)
qed (simp add: map_filter_def)

lemma limit_okD:
  assumes "limit_ok pick" and "distinct xs"
  shows "distinct (pick n xs)" and "set (pick n xs) \<subseteq> set xs" and "length xs \<le> n \<Longrightarrow> set (pick n xs) = set xs"
proof -
  have p: "distinct (pick n xs)" "set (pick n xs) \<subseteq> set xs" "length (pick n xs) = min n (length xs)"
    using assms by (simp_all add: limit_ok_def)
  then show "distinct (pick n xs)" "set (pick n xs) \<subseteq> set xs" by simp_all
  assume "length xs \<le> n"
  then have "card (set (pick n xs)) = card (set xs)" using p assms(2) by (simp add: distinct_card)
  then show "set (pick n xs) = set xs" using p(2) by (intro card_subset_eq) simp_all
qed

lemma unmatched_lines: "map ul_line (unmatched s) = map sl_id (filter (\<lambda>l. unmatched_of s l \<noteq> None) (stmt_lines s))"
proof -
  have "map ul_line (List.map_filter (unmatched_of s) ls) = map sl_id (filter (\<lambda>l. unmatched_of s l \<noteq> None) ls)" for ls
    by (induction ls) (auto simp: map_filter_def unmatched_of_def split: option.splits if_splits)
  then show ?thesis by (simp add: unmatched_def)
qed

lemma distinct_unmatched: "recon_inv s \<Longrightarrow> distinct (map ul_line (unmatched s))"
  unfolding unmatched_lines by (rule distinct_map_filter) (rule recon_invD(1))

definition picked_lines :: "(nat \<Rightarrow> uuid list \<Rightarrow> uuid list) \<Rightarrow> 'z recon_db_scheme \<Rightarrow> unmatched_line list" where
  "picked_lines pick s = List.map_filter (\<lambda>i. find_row ul_line i (unmatched s)) (pick recon_batch (map ul_line (unmatched s)))"

lemma picked_lines:
  assumes "limit_ok pick" and inv: "recon_inv s"
  shows "map ul_line (picked_lines pick s) = pick recon_batch (map ul_line (unmatched s))"
    and "distinct (map ul_line (picked_lines pick s))" and "\<forall>u\<in>set (picked_lines pick s). \<exists>l t. stands_for u l t s"
proof -
  note p = limit_okD [OF assms(1) distinct_unmatched [OF inv], of recon_batch]
  show "map ul_line (picked_lines pick s) = pick recon_batch (map ul_line (unmatched s))"
    unfolding picked_lines_def by (rule map_picked) (rule p(2))
  with p(1) show "distinct (map ul_line (picked_lines pick s))" by simp
  show "\<forall>u\<in>set (picked_lines pick s). \<exists>l t. stands_for u l t s"
    using unmatched_stands [OF inv] picked_found [of _ ul_line "unmatched s"] find_row_Some
    unfolding picked_lines_def by metis
qed

lemma Run_picked: "RunReconciliation pick cs s = resolve_lines cs (picked_lines pick s) s"
  by (simp add: RunReconciliation_def picked_lines_def)

lemma Run_inv: "limit_ok pick \<Longrightarrow> recon_inv s \<Longrightarrow> recon_inv (RunReconciliation pick cs s)"
  unfolding Run_picked using resolve_lines_inv [of s _ cs] picked_lines(2,3) by blast

subsection \<open>Everything is reported\<close>

lemma insert_lines_all:
  assumes "\<forall>t\<in>set ts. \<not> key_taken sl_transfer (et_id t) (stmt_lines s)" and "distinct (map et_id ts)"
    and "distinct (map (\<lambda>t. gen (cs (et_id t)) 10) ts)"
    and "\<forall>t\<in>set ts. \<not> key_taken sl_id (gen (cs (et_id t)) 10) (stmt_lines s)"
  shows "stmt_lines (insert_lines cs ts s) = stmt_lines s @ map (\<lambda>t. new_line (cs (et_id t)) t) ts"
  using assms
proof (induction ts arbitrary: s)
  case (Cons t ts)
  let ?s1 = "insert_line (cs (et_id t)) t s"
  have s1: "stmt_lines ?s1 = stmt_lines s @ [new_line (cs (et_id t)) t]"
    using Cons.prems by (simp add: insert_line_def)
  have "stmt_lines (insert_lines cs ts ?s1) = stmt_lines ?s1 @ map (\<lambda>t. new_line (cs (et_id t)) t) ts"
    using Cons.prems by (intro Cons.IH) (auto simp: s1 new_line_def image_iff)
  then show ?case by (simp add: s1)
qed simp

lemma generate_covers:
  assumes pick: "limit_ok pick" and d: "distinct (map et_id (ext_transfers s))" and room: "length (unreported s) \<le> recon_batch"
    and fresh: "distinct (map (\<lambda>i. gen (cs i) 10) (unreported s))"
      "\<forall>i\<in>set (unreported s). \<not> key_taken sl_id (gen (cs i) 10) (stmt_lines s)"
    and t: "t \<in> set (ext_transfers s)"
  shows "key_taken sl_transfer (et_id t) (stmt_lines (GenerateStatementLines pick cs s))"
proof -
  let ?is = "pick recon_batch (unreported s)"
  let ?ts = "List.map_filter (\<lambda>i. find_row et_id i (ext_transfers s)) ?is"
  have du: "distinct (unreported s)" unfolding unreported_def by (rule distinct_map_filter [OF d])
  note p = limit_okD [OF pick du, of recon_batch]
  have sub: "set (unreported s) \<subseteq> set (map et_id (ext_transfers s))" by (auto simp: unreported_def)
  have ids: "map et_id ?ts = ?is" by (rule map_picked) (use p(2) sub in blast)
  have un: "et_id x \<in> set (unreported s)" if "x \<in> set ?ts" for x
  proof -
    have "et_id x \<in> set (map et_id ?ts)" using that by simp
    then show ?thesis using p(2) unfolding ids by blast
  qed
  have "inj_on (\<lambda>i. gen (cs i) 10) (set (unreported s))" using fresh(1) by (simp add: distinct_map)
  then have "inj_on (\<lambda>i. gen (cs i) 10) (set (map et_id ?ts))" using p(2) unfolding ids by (rule inj_on_subset)
  moreover have dt: "distinct (map et_id ?ts)" using p(1) by (simp only: ids)
  ultimately have "distinct (map (\<lambda>i. gen (cs i) 10) (map et_id ?ts))" by (simp only: distinct_map)
  then have "distinct (map (\<lambda>t. gen (cs (et_id t)) 10) ?ts)" by (simp add: comp_def)
  moreover have "\<forall>x\<in>set ?ts. \<not> key_taken sl_transfer (et_id x) (stmt_lines s)"
    using un by (fastforce simp: unreported_def)
  ultimately have ls: "stmt_lines (GenerateStatementLines pick cs s) =
      stmt_lines s @ map (\<lambda>t. new_line (cs (et_id t)) t) ?ts"
    unfolding GenerateStatementLines_def using un fresh(2) dt by (intro insert_lines_all) auto
  show ?thesis
  proof (cases "et_id t \<in> set (unreported s)")
    case True
    then have "et_id t \<in> set (map et_id ?ts)" unfolding ids using p(3) room by simp
    then show ?thesis unfolding ls by (auto simp: key_taken_def new_line_def)
  next
    case False
    then have "key_taken sl_transfer (et_id t) (stmt_lines s)" using t by (auto simp: unreported_def)
    then show ?thesis by (simp add: ls)
  qed
qed

subsection \<open>Reachable states\<close>

text \<open>Neither tick writes what external payments own.\<close>

definition same_ext :: "'z recon_db_scheme \<Rightarrow> 'z recon_db_scheme \<Rightarrow> bool" where
  "same_ext s s' \<longleftrightarrow> ext_transfers s' = ext_transfers s \<and> holds s' = holds s \<and> idem_keys s' = idem_keys s"

lemma insert_lines_same: "same_ext s (insert_lines cs ts s)"
  by (induction ts arbitrary: s) (auto simp: same_ext_def insert_line_def)

lemma resolve_lines_same: "same_ext s (resolve_lines cs us s)"
proof (induction us arbitrary: s)
  case (Cons u us)
  have "same_ext s (snd (resolveLine c u s))" for c
    by (simp add: same_ext_def resolveLine_def markMatched_def raiseBreak_def set_line_def split: ext_status.split)
  then show ?case using Cons [of "snd (resolveLine (cs (ul_line u)) u s)"] by (simp add: same_ext_def)
qed (simp add: same_ext_def)

lemma same_ext_inv: "same_ext s s' \<Longrightarrow> ext_inv s' = ext_inv s"
  by (rule ext_inv_cong) (simp_all add: same_ext_def)

inductive recon_reachable :: "'z recon_db_scheme \<Rightarrow> bool" where
  rc_start: "ext_start s \<Longrightarrow> stmt_lines s = [] \<Longrightarrow> recon_breaks s = [] \<Longrightarrow> recon_reachable s"
| rc_ext: "recon_reachable s \<Longrightarrow> ext_step s s' \<Longrightarrow> recon_reachable s'"
| rc_generate: "recon_reachable s \<Longrightarrow> recon_reachable (GenerateStatementLines pick cs s)"
| rc_run: "recon_reachable s \<Longrightarrow> limit_ok pick \<Longrightarrow> recon_reachable (RunReconciliation pick cs s)"

lemma ext_step_lines: "ext_step s s' \<Longrightarrow> stmt_lines s' = stmt_lines s \<and> recon_breaks s' = recon_breaks s"
  using ext_step_more [of s s'] by (cases s; cases s') simp

lemma recon_reachable_inv:
  "recon_reachable s \<Longrightarrow> recon_inv s \<and> ext_inv s \<and> (\<forall>t\<in>set (ext_transfers s). 0 < et_amount t \<and> in64 (et_amount t))"
proof (induction rule: recon_reachable.induct)
  case (rc_start s)
  then show ?case using ext_start_inv by (auto simp: recon_inv_def ext_start_def)
next
  case (rc_ext s s')
  note step = rc_ext.hyps(2)
  have inv: "ext_inv s'" using ext_step_inv [OF step] rc_ext.IH by blast
  have d: "distinct (map et_id (ext_transfers s'))" using inv by (simp add: ext_inv_def)
  have kept: "ext_kept (ext_transfers s) (ext_transfers s')" using ext_step_kept [OF step] rc_ext.IH by blast
  have lines: "\<forall>l\<in>set (stmt_lines s). line_ok (ext_transfers s) l" using rc_ext.IH by (simp add: recon_inv_def)
  have "recon_inv s'"
    using rc_ext.IH line_ok_kept [OF kept d] break_ok_kept [OF kept d _ lines] ext_step_lines [OF step]
    by (simp add: recon_inv_def)
  moreover have "\<forall>t\<in>set (ext_transfers s'). 0 < et_amount t \<and> in64 (et_amount t)"
    using ext_step_from [OF step] rc_ext.IH unfolding ext_from_def same_transfer_def by metis
  ultimately show ?case using inv by blast
next
  case (rc_generate s pick cs)
  have same: "same_ext s (GenerateStatementLines pick cs s)" unfolding GenerateStatementLines_def by (rule insert_lines_same)
  then show ?case using Generate_inv [of s pick cs] rc_generate.IH same_ext_inv [OF same] by (simp add: same_ext_def)
next
  case (rc_run s pick cs)
  have same: "same_ext s (RunReconciliation pick cs s)" unfolding Run_picked by (rule resolve_lines_same)
  then show ?case using Run_inv [OF rc_run.hyps(2), of s cs] rc_run.IH same_ext_inv [OF same] by (simp add: same_ext_def)
qed

lemma wrap64_above:
  assumes "max64 < x" and "x \<le> 2 * max64"
  shows "wrap64 x = x - 18446744073709551616"
proof -
  have "(x + 9223372036854775808) mod 18446744073709551616 = (x + 9223372036854775808 - 18446744073709551616) mod 18446744073709551616"
    by (rule minus_mod_self2 [symmetric])
  also have "\<dots> = x + 9223372036854775808 - 18446744073709551616"
    using assms by (intro mod_pos_pos_trivial) (simp_all add: max64_def)
  finally show ?thesis by (simp add: wrap64_def)
qed

lemma reported_differs:
  assumes "0 < et_amount t" and "in64 (et_amount t)"
  shows "reported t \<noteq> 0" and "reported t = et_amount t \<longleftrightarrow> \<not> str_contains (et_counterparty t) breakMarker"
proof -
  have "wrap64 (et_amount t + 10000) = et_amount t + 10000 \<or> wrap64 (et_amount t + 10000) = et_amount t + 10000 - 18446744073709551616"
    using assms wrap64_id [of "et_amount t + 10000"] wrap64_above [of "et_amount t + 10000"]
    by (cases "et_amount t + 10000 \<le> max64") (simp_all add: in64_def min64_def max64_def)
  then show "reported t \<noteq> 0" "reported t = et_amount t \<longleftrightarrow> \<not> str_contains (et_counterparty t) breakMarker"
    using assms by (auto simp: reported_def breakDelta_def in64_def max64_def)
qed

subsection \<open>Properties\<close>


text \<open>
  C20. Two ticks settle the books.  When no more than a batch is waiting and fresh ids are drawn,
  generating the statement and reconciling it leaves every external transfer with a line: still
  unmatched while the transfer is in flight, matched when it completed and the partner agrees,
  and a break when it completed and the partner's report carries the marker - and also whenever
  it failed, because the report is never zero.
\<close>

theorem reconciliation_settles:
  assumes reach: "recon_reachable s" and pick: "limit_ok pick1" "limit_ok pick2"
    and s1: "s1 = GenerateStatementLines pick1 cs1 s" and s2: "s2 = RunReconciliation pick2 cs2 s1"
    and room: "length (unreported s) \<le> recon_batch" "length (unmatched s1) \<le> recon_batch"
    and lines: "distinct (map (\<lambda>i. gen (cs1 i) 10) (unreported s))"
      "\<forall>i\<in>set (unreported s). \<not> key_taken sl_id (gen (cs1 i) 10) (stmt_lines s)"
    and breaks: "distinct (map (\<lambda>i. gen (cs2 i) 11) (map ul_line (unmatched s1)))"
      "\<forall>i\<in>set (map ul_line (unmatched s1)). \<not> key_taken rb_id (gen (cs2 i) 11) (recon_breaks s1)"
    and t: "t \<in> set (ext_transfers s2)"
  shows "\<exists>l\<in>set (stmt_lines s2). sl_transfer l = et_id t \<and> sl_status l =
    (case et_status t of
       StatusCompleted \<Rightarrow> if str_contains (et_counterparty t) breakMarker then LineBreak else LineMatched
     | StatusFailed \<Rightarrow> LineBreak
     | _ \<Rightarrow> LineUnmatched)"
proof -
  note inv = recon_reachable_inv [OF reach]
  have same1: "ext_transfers s1 = ext_transfers s"
    unfolding s1 GenerateStatementLines_def by (rule insert_lines_ext)
  have inv1: "recon_inv s1" unfolding s1 by (rule Generate_inv) (use inv in blast)
  have d: "distinct (map et_id (ext_transfers s))" using inv by (simp add: ext_inv_def)
  have P: "distinct (map ul_line (picked_lines pick2 s1))" "\<forall>u\<in>set (picked_lines pick2 s1). \<exists>l t. stands_for u l t s1"
    and ids: "map ul_line (picked_lines pick2 s1) = pick2 recon_batch (map ul_line (unmatched s1))"
    using picked_lines [OF pick(2) inv1] by blast+
  have all: "set (pick2 recon_batch (map ul_line (unmatched s1))) = set (map ul_line (unmatched s1))"
    using limit_okD(3) [OF pick(2) distinct_unmatched [OF inv1]] room(2) by simp
  have s2': "s2 = resolve_lines cs2 (picked_lines pick2 s1) s1" by (simp add: s2 Run_picked)
  note kept = resolve_lines_inv [OF inv1 P(2,1), of cs2]
  have t1: "t \<in> set (ext_transfers s1)" "t \<in> set (ext_transfers s)" using t kept same1 by (simp_all add: s2')
  have ft: "find_row et_id (et_id t) (ext_transfers s1) = Some t"
    using find_row_distinct [OF d t1(2)] by (simp add: same1)
  have "key_taken sl_transfer (et_id t) (stmt_lines s1)"
    unfolding s1 by (rule generate_covers [OF pick(1) d room(1) lines t1(2)])
  then obtain l where l: "l \<in> set (stmt_lines s1)" "sl_transfer l = et_id t" by (auto simp: key_taken_def)
  have lok: "line_ok (ext_transfers s1) l" by (rule recon_invD(3) [OF inv1 l(1)])
  have rep: "sl_reported l = reported t" using lok ft l(2) by (auto simp: line_ok_def)
  have fl: "find_row sl_id (sl_id l) (stmt_lines s1) = Some l" by (rule find_row_distinct [OF recon_invD(1) [OF inv1] l(1)])
  have "\<exists>l'\<in>set (stmt_lines s2). sl_transfer l' = et_id t \<and> sl_status l' = verdict (reported t) (et_amount t) (et_status t)"
  proof (cases "sl_status l = LineUnmatched")
    case False
    then have "sl_id l \<notin> set (map ul_line (unmatched s1))"
    proof -
      have "x = l" if "x \<in> set (stmt_lines s1)" "sl_id x = sl_id l" for x
        using that fl find_row_distinct [OF recon_invD(1) [OF inv1] that(1)] by simp
      moreover have "unmatched_of s1 l = None" using False by (simp add: unmatched_of_def split: option.split)
      ultimately show ?thesis unfolding unmatched_lines by auto
    qed
    then have "sl_id l \<notin> ul_line ` set (picked_lines pick2 s1)" using all ids by (metis list.set_map)
    then have "find_row sl_id (sl_id l) (stmt_lines s2) = Some l" using kept fl by (simp add: s2')
    then show ?thesis using lok ft l(2) False find_row_Some by (fastforce simp: line_ok_def)
  next
    case True
    let ?u = "\<lparr>ul_line = sl_id l, ul_reported = reported t, ul_transfer = et_id t, ul_amount = et_amount t, ul_status = et_status t\<rparr>"
    have st: "stands_for ?u l t s1" using True ft l(2) fl rep by (simp add: stands_for_def)
    have "sl_id l \<in> set (map ul_line (unmatched s1))"
      unfolding unmatched_lines using True l ft by (auto simp: unmatched_of_def)
    then have "sl_id l \<in> set (map ul_line (picked_lines pick2 s1))" using all ids by simp
    then obtain u where u: "u \<in> set (picked_lines pick2 s1)" "ul_line u = sl_id l" by auto
    then obtain l' t' where st': "stands_for u l' t' s1" using P(2) by blast
    have "u = ?u" using st st' u(2) fl by (auto simp: stands_for_def)
    have inj: "inj_on (\<lambda>i. gen (cs2 i) 11) (set (map ul_line (picked_lines pick2 s1)))"
      using breaks(1) all unfolding ids by (simp only: distinct_map [of _ "map ul_line (unmatched s1)"])
    then have "distinct (map (\<lambda>u. gen (cs2 (ul_line u)) 11) (picked_lines pick2 s1))"
      using P(1) by (auto simp: distinct_map inj_on_def)
    moreover have "\<forall>u\<in>set (picked_lines pick2 s1). \<not> key_taken rb_id (gen (cs2 (ul_line u)) 11) (recon_breaks s1)"
      using breaks(2) all ids by (metis imageI list.set_map)
    ultimately have "find_row sl_id (ul_line ?u) (stmt_lines s2) =
        Some (l\<lparr>sl_status := verdict (reported t) (et_amount t) (et_status t)\<rparr>)"
      unfolding s2' using u(1) \<open>u = ?u\<close> st by (intro resolve_lines_verdict [OF inv1 P(2,1)]) simp_all
    from find_row_Some [OF this] l(2) show ?thesis by (intro bexI) simp_all
  qed
  then show ?thesis using reported_differs [of t] inv t1(2)
    by (auto simp: verdict_def split: ext_status.splits)
qed

lemma limit_ok_take: "limit_ok take"
  by (simp add: limit_ok_def set_take_subset min.commute)

definition recon_seed :: recon_db where
  "recon_seed = ext_db.extend sample_ext (recon_db.fields [] [])"

definition recon_claimed :: recon_db where
  "recon_claimed = snd (claim_pending (ext_ctx 2) (snd (ext_send (ext_ctx 1) DirectionOutbound ''A'' ''instant'' ''RAILFAIL'' (ngn 40) ''e1'' None recon_seed)))"

definition recon_row :: external_transfer where
  "recon_row = sample_row\<lparr>et_counterparty := ''RAILFAIL'', et_status := StatusProcessing, et_attempted := Some 2000\<rparr>"

definition recon_failed :: recon_db where
  "recon_failed = snd (processRow (ext_ctx 3) (\<lambda>_. Inr []) False (claimed_of recon_row) recon_claimed)"

lemma recon_failed_reachable: "recon_reachable recon_failed"
proof -
  have start: "recon_reachable recon_seed"
    using sample_ext_start
    by (intro rc_start) (simp_all add: recon_seed_def ext_start_def capture_inv_def ext_db.defs recon_db.defs)
  have claimed: "recon_reachable recon_claimed"
    unfolding recon_claimed_def
    by (rule rc_ext [OF rc_ext [OF start x_send [OF prod.collapse [symmetric]]] x_claim [OF prod.collapse [symmetric]]])
  have row: "recon_row \<in> set (ext_transfers recon_claimed)"
    unfolding recon_claimed_def by code_simp
  show ?thesis unfolding recon_failed_def
    by (rule rc_ext [OF claimed x_process [OF prod.collapse [symmetric] row _ ext_ctx_hex]]) (simp add: recon_row_def)
qed

definition recon_generated :: recon_db where
  "recon_generated = GenerateStatementLines take (\<lambda>_. ext_ctx 4) recon_failed"


theorem reconciliation_settles_witness:
  "\<exists>l\<in>set (stmt_lines (RunReconciliation take (\<lambda>_. ext_ctx 5) recon_generated)).
     sl_transfer l = ''Bc'' \<and> sl_status l = LineBreak"
proof -
  have ids: "unreported recon_failed = [''Bc'']" "stmt_lines recon_failed = []"
    "map ul_line (unmatched recon_generated) = [''Ek'']" "recon_breaks recon_generated = []"
    unfolding recon_generated_def recon_failed_def recon_claimed_def by code_simp+
  have rows: "map (\<lambda>t. (et_id t, et_status t)) (ext_transfers (RunReconciliation take (\<lambda>_. ext_ctx 5) recon_generated)) =
      [(''Bc'', StatusFailed)]"
    unfolding recon_generated_def recon_failed_def recon_claimed_def by code_simp
  then obtain t where t: "t \<in> set (ext_transfers (RunReconciliation take (\<lambda>_. ext_ctx 5) recon_generated))"
    "et_id t = ''Bc''" "et_status t = StatusFailed" by auto
  have len: "length (unmatched recon_generated) \<le> recon_batch"
    using arg_cong [OF ids(3), of length] by (simp add: recon_batch_def)
  show ?thesis
    using reconciliation_settles [OF recon_failed_reachable limit_ok_take limit_ok_take recon_generated_def refl _ len _ _ _ _ t(1)]
      t(2,3) ids by (simp add: recon_batch_def key_taken_def)
qed

end
