(* ===== verification/Credentials.thy ===== *)
theory Credentials
  imports Identity
begin

section \<open>Bearer credentials\<close>

text \<open>
  API keys and login sessions are kept in the same way: the caller holds a random value, the table
  holds its hash, a lookup goes by the hash, and revoking a row sets a column that no operation clears.
  The locale \<open>bearer\<close> states that contract; its lemmas say that a revoked credential is never accepted
  again and that revoking one leaves the others as they were.  Both tables interpret it.
\<close>

type_synonym byte = "8 word"

definition hex_char :: "nat \<Rightarrow> char" where
  "hex_char n = char_of (if n < 10 then 48 + n else 87 + n)"

definition hex_byte :: "byte \<Rightarrow> string" where
  "hex_byte b = [hex_char (unat b div 16), hex_char (unat b mod 16)]"

text \<open>Go's \<open>hex.EncodeToString\<close>.\<close>

definition hex_encode :: "byte list \<Rightarrow> string" where
  "hex_encode bs = concat (map hex_byte bs)"

definition ascii :: "string \<Rightarrow> byte list" where
  "ascii s = map (\<lambda>ch. word_of_nat (of_char ch)) s"

lemma hex_char_inj: "n < 16 \<Longrightarrow> m < 16 \<Longrightarrow> hex_char n = hex_char m \<longleftrightarrow> n = m"
proof -
  assume lt: "n < 16" "m < 16"
  define f :: "nat \<Rightarrow> nat" where "f k = (if k < 10 then 48 + k else 87 + k)" for k
  have inv: "of_char (hex_char k) = f k" if "k < 16" for k using that by (simp add: hex_char_def f_def)
  have "n = m" if "f n = f m" using that lt by (simp add: f_def split: if_splits)
  then show ?thesis using inv [OF lt(1)] inv [OF lt(2)] by metis
qed

lemma hex_byte_inj: "hex_byte a = hex_byte b \<Longrightarrow> a = b"
proof -
  assume "hex_byte a = hex_byte b"
  moreover have lt: "unat x < 256" for x :: byte using unsigned_less [of x] by simp
  have "unat x div 16 < 16" for x :: byte using lt [of x] by (simp add: less_mult_imp_div_less)
  ultimately have "unat a div 16 = unat b div 16" "unat a mod 16 = unat b mod 16"
    by (simp_all add: hex_byte_def hex_char_inj)
  then have "unat a = unat b" by (metis div_mult_mod_eq)
  then show ?thesis by (rule unsigned_word_eqI)
qed

lemma hex_encode_length: "length (hex_encode bs) = 2 * length bs"
  by (induction bs) (simp_all add: hex_encode_def hex_byte_def)

lemma hex_encode_inj: "hex_encode as = hex_encode bs \<Longrightarrow> as = bs"
proof (induction as arbitrary: bs)
  case Nil
  then have "length (hex_encode bs) = 0" by (simp add: hex_encode_def)
  then show ?case by (simp add: hex_encode_length)
next
  case (Cons a as)
  then obtain b bs' where bs: "bs = b # bs'"
    using arg_cong [OF Cons.prems, of length, unfolded hex_encode_length] by (cases bs) auto
  have "hex_byte a @ hex_encode as = hex_byte b @ hex_encode bs'" using Cons.prems by (simp add: bs hex_encode_def)
  then have "hex_byte a = hex_byte b" "hex_encode as = hex_encode bs'" by (auto simp: hex_byte_def)
  with Cons.IH show ?case by (auto simp: bs dest: hex_byte_inj)
qed

subsection \<open>The contract\<close>

locale bearer =
  fixes rid :: "'r \<Rightarrow> uuid" and hash :: "'r \<Rightarrow> string" and usable :: "int \<Rightarrow> 'r \<Rightarrow> bool" and revoke :: "int \<Rightarrow> 'r \<Rightarrow> 'r"
  assumes revoke_id: "rid (revoke t r) = rid r"
    and revoke_hash: "hash (revoke t r) = hash r"
    and revoke_dead: "\<not> usable u (revoke t r)"
begin

lemma lookup_revoked:
  "find_row hash h (update_row rid i (revoke t) rows) =
     map_option (\<lambda>r. if rid r = i then revoke t r else r) (find_row hash h rows)"
proof (induction rows)
  case (Cons r rows)
  then show ?case by (cases "rid r = i") (simp_all add: update_row_def find_row_Cons revoke_hash)
qed (simp add: update_row_def)

text \<open>Whatever is presented afterwards, the revoked row is not accepted; every other lookup is as before.\<close>

lemma revoked_refused:
  "find_row hash h (update_row rid i (revoke t) rows) = Some r \<Longrightarrow> rid r = i \<Longrightarrow> \<not> usable u r"
  unfolding lookup_revoked by (cases "find_row hash h rows") (auto simp: revoke_dead revoke_id split: if_split_asm)

lemma others_kept:
  "find_row hash h rows = Some r \<Longrightarrow> rid r \<noteq> i \<Longrightarrow> find_row hash h (update_row rid i (revoke t) rows) = Some r"
  by (simp add: lookup_revoked)

lemma unknown_kept:
  "find_row hash h (update_row rid i (revoke t) rows) = None \<longleftrightarrow> find_row hash h rows = None"
  by (simp add: lookup_revoked)

lemma revoke_keys: "map rid (update_row rid i (revoke t) rows) = map rid rows"
    "map hash (update_row rid i (revoke t) rows) = map hash rows"
  by (simp_all add: update_row_def revoke_id revoke_hash)

end

end
