(* ===== verification/ApiKeys.thy ===== *)
theory ApiKeys
  imports Credentials
begin

section \<open>API keys\<close>

text \<open>
  \<open>internal/apikeys/apikeys.go\<close> and migration 00022: issuing, authenticating, rotating, revoking and
  listing the keys of a merchant.  The random bytes are an argument of the call; a rotation is three
  statements without a transaction, so an error in between leaves what was done.
\<close>

datatype api_mode = ModeSandbox | ModeLive

datatype api_status = KeyActive | KeyRevoked

record api_key =
  ak_id :: uuid
  ak_merchant :: uuid
  ak_mode :: api_mode
  ak_name :: string
  ak_prefix :: string
  ak_scopes :: "string list"
  ak_status :: api_status
  ak_created :: int
  ak_revoked :: "int option"

record api_key_row = api_key +
  ak_hash :: string

record key_db = identity_db +
  api_keys :: "api_key_row list"

definition hashKey :: "ctx \<Rightarrow> string \<Rightarrow> string" where
  "hashKey c rawKey = sha256 c rawKey"

text \<open>The raw key, its prefix and its hash, from 24 random bytes.\<close>

definition generateKey :: "ctx \<Rightarrow> api_mode \<Rightarrow> byte list \<Rightarrow> string \<times> string \<times> string" where
  "generateKey c mode b =
    (let rawKey = ''kolo_'' @ (if mode = ModeSandbox then ''test'' else ''live'') @ ''_'' @ hex_encode b
     in (rawKey, take (min (length rawKey) 12) rawKey, hashKey c rawKey))"

text \<open>\<open>None\<close> is a nil slice of scopes.\<close>

definition apikeys_Create :: "ctx \<Rightarrow> byte list \<Rightarrow> uuid \<Rightarrow> api_mode \<Rightarrow> string \<Rightarrow> string list option \<Rightarrow> 'z key_db_scheme
    \<Rightarrow> (gerror + string \<times> api_key) \<times> 'z key_db_scheme" where
  "apikeys_Create c b merchantID mode name scopes s =
    (case generateKey c mode b of
       (rawKey, pfx, hash) \<Rightarrow>
         let row = \<lparr>ak_id = gen c 19, ak_merchant = merchantID, ak_mode = mode, ak_name = name, ak_prefix = pfx,
                    ak_scopes = (case scopes of None \<Rightarrow> [] | Some xs \<Rightarrow> xs), ak_status = KeyActive, ak_created = now c,
                    ak_revoked = None, ak_hash = hash\<rparr>
         in if key_taken ak_id (gen c 19) (api_keys s) \<or> key_taken ak_hash hash (api_keys s) then (Inl SqlUnique, s)
            else if \<not> key_taken id_id merchantID (identities s) then (Inl SqlForeignKey, s)
            else (Inr (rawKey, api_key.truncate row), s\<lparr>api_keys := api_keys s @ [row]\<rparr>))"

definition apikeys_Authenticate :: "ctx \<Rightarrow> string \<Rightarrow> 'z key_db_scheme \<Rightarrow> gerror + api_key" where
  "apikeys_Authenticate c rawKey s =
    (case find_row ak_hash (hashKey c rawKey) (api_keys s) of
       None \<Rightarrow> Inl ErrInvalidKey
     | Some r \<Rightarrow> if ak_status r \<noteq> KeyActive then Inl ErrInvalidKey else Inr (api_key.truncate r))"

definition apikeys_Get :: "uuid \<Rightarrow> 'z key_db_scheme \<Rightarrow> gerror + api_key" where
  "apikeys_Get keyID s =
    (case find_row ak_id keyID (api_keys s) of None \<Rightarrow> Inl ErrApiKeyNotFound | Some r \<Rightarrow> Inr (api_key.truncate r))"

definition revoke_key :: "int \<Rightarrow> api_key_row \<Rightarrow> api_key_row" where
  "revoke_key t r = r\<lparr>ak_status := KeyRevoked, ak_revoked := Some t\<rparr>"

definition apikeys_Revoke :: "ctx \<Rightarrow> uuid \<Rightarrow> 'z key_db_scheme \<Rightarrow> (gerror + unit) \<times> 'z key_db_scheme" where
  "apikeys_Revoke c keyID s =
    (case find_row ak_id keyID (api_keys s) of
       None \<Rightarrow> (Inl ErrApiKeyNotFound, s)
     | Some r \<Rightarrow>
        if ak_status r \<noteq> KeyActive then (Inl ErrApiKeyNotFound, s)
        else (Inr (), s\<lparr>api_keys := update_row ak_id keyID (revoke_key (now c)) (api_keys s)\<rparr>))"

definition apikeys_Rotate :: "ctx \<Rightarrow> byte list \<Rightarrow> uuid \<Rightarrow> 'z key_db_scheme
    \<Rightarrow> (gerror + string \<times> api_key) \<times> 'z key_db_scheme" where
  "apikeys_Rotate c b oldKeyID s =
    (case apikeys_Get oldKeyID s of
       Inl e \<Rightarrow> (Inl e, s)
     | Inr old \<Rightarrow>
        (case apikeys_Create c b (ak_merchant old) (ak_mode old) (ak_name old) (Some (ak_scopes old)) s of
           (Inl e, s1) \<Rightarrow> (Inl e, s1)
         | (Inr (rawKey, newKey), s1) \<Rightarrow>
            (case apikeys_Revoke c oldKeyID s1 of
               (Inl e, s2) \<Rightarrow> (Inl e, s2)
             | (Inr _, s2) \<Rightarrow> (Inr (rawKey, newKey), s2))))"

text \<open>\<open>ORDER BY created_at DESC\<close>; rows of one time in the order of insertion, which Postgres does not promise.\<close>

definition apikeys_List :: "uuid \<Rightarrow> 'z key_db_scheme \<Rightarrow> api_key list" where
  "apikeys_List merchantID s =
    map api_key.truncate (sort_key (\<lambda>r. - ak_created r) (filter (\<lambda>r. ak_merchant r = merchantID) (api_keys s)))"

definition key_HasScope :: "'z api_key_scheme \<Rightarrow> string \<Rightarrow> bool" where
  "key_HasScope k scope \<longleftrightarrow> list_ex (\<lambda>x. x = scope) (ak_scopes k)"

subsection \<open>Keys as bearer credentials\<close>

interpretation api_bearer: bearer ak_id ak_hash "\<lambda>_ r. ak_status r = KeyActive" revoke_key
  by unfold_locales (simp_all add: revoke_key_def)

text \<open>Constraints of the table.\<close>

definition keys_ok :: "'z key_db_scheme \<Rightarrow> bool" where
  "keys_ok s \<longleftrightarrow> distinct (map ak_id (api_keys s)) \<and> distinct (map ak_hash (api_keys s))
     \<and> (\<forall>r\<in>set (api_keys s). key_taken id_id (ak_merchant r) (identities s))"

inductive key_step :: "'z key_db_scheme \<Rightarrow> 'z key_db_scheme \<Rightarrow> bool" where
  ks_create: "apikeys_Create c b m mode name scs s = (out, s') \<Longrightarrow> key_step s s'"
| ks_revoke: "apikeys_Revoke c i s = (out, s') \<Longrightarrow> key_step s s'"
| ks_rotate: "apikeys_Rotate c b i s = (out, s') \<Longrightarrow> key_step s s'"

inductive_cases key_stepE: "key_step s s'"

lemma generateKey_hash: "generateKey c mode b = (raw, pfx, h) \<Longrightarrow> h = hashKey c raw"
  by (auto simp: generateKey_def Let_def)

lemma create_cases:
  assumes "apikeys_Create c b m mode name scs s = (out, s')"
  obtains (refused) e where "out = Inl e" and "s' = s"
    | (created) raw r where "out = Inr (raw, api_key.truncate r)" and "s' = s\<lparr>api_keys := api_keys s @ [r]\<rparr>"
      and "\<not> key_taken ak_id (ak_id r) (api_keys s)" and "\<not> key_taken ak_hash (ak_hash r) (api_keys s)"
      and "key_taken id_id m (identities s)" and "ak_hash r = hashKey c raw" and "ak_status r = KeyActive"
      and "ak_merchant r = m" and "ak_mode r = mode" and "ak_name r = name"
      and "ak_scopes r = (case scs of None \<Rightarrow> [] | Some xs \<Rightarrow> xs)" and "ak_id r = gen c 19"
proof -
  obtain raw pfx hash where g: "generateKey c mode b = (raw, pfx, hash)" by (cases "generateKey c mode b")
  then have "hash = hashKey c raw" by (rule generateKey_hash)
  let ?r = "\<lparr>ak_id = gen c 19, ak_merchant = m, ak_mode = mode, ak_name = name, ak_prefix = pfx,
                    ak_scopes = (case scs of None \<Rightarrow> [] | Some xs \<Rightarrow> xs), ak_status = KeyActive, ak_created = now c,
                    ak_revoked = None, ak_hash = hash\<rparr>"
  show thesis
  proof (cases "key_taken ak_id (gen c 19) (api_keys s) \<or> key_taken ak_hash hash (api_keys s) \<or> \<not> key_taken id_id m (identities s)")
    case True
    with assms g show thesis by (auto simp: apikeys_Create_def Let_def split: if_split_asm intro: refused)
  next
    case False
    with assms g \<open>hash = hashKey c raw\<close> show thesis
      by (intro created [of raw ?r]) (simp_all add: apikeys_Create_def Let_def)
  qed
qed

lemma truncate_key: "ak_status (api_key.truncate r) = ak_status r" "ak_merchant (api_key.truncate r) = ak_merchant r"
  "ak_mode (api_key.truncate r) = ak_mode r" "ak_name (api_key.truncate r) = ak_name r"
  "ak_scopes (api_key.truncate r) = ak_scopes r" "ak_id (api_key.truncate r) = ak_id r"
  by (simp_all add: api_key.defs)

lemma create_keeps_ok: "apikeys_Create c b m mode name scs s = (out, s') \<Longrightarrow> keys_ok s \<Longrightarrow> keys_ok s'"
  by (erule create_cases) (auto simp: keys_ok_def distinct_snoc_key simp del: map_append)

lemma revoke_cases:
  assumes "apikeys_Revoke c i s = (out, s')"
  obtains (refused) "out = Inl ErrApiKeyNotFound" and "s' = s"
      and "\<And>r. find_row ak_id i (api_keys s) = Some r \<Longrightarrow> ak_status r \<noteq> KeyActive"
    | (revoked) r where "out = Inr ()" and "find_row ak_id i (api_keys s) = Some r" and "ak_status r = KeyActive"
      and "s' = s\<lparr>api_keys := update_row ak_id i (revoke_key (now c)) (api_keys s)\<rparr>"
  using assms by (auto simp: apikeys_Revoke_def split: option.splits if_splits intro: refused revoked)

lemma revoke_keeps_ok: "apikeys_Revoke c i s = (out, s') \<Longrightarrow> keys_ok s \<Longrightarrow> keys_ok s'"
  by (erule revoke_cases)
     (auto simp: keys_ok_def api_bearer.revoke_keys set_update_row revoke_key_def)

lemma rotate_cases:
  assumes "apikeys_Rotate c b i s = (out, s')"
  obtains (unknown) "out = Inl ErrApiKeyNotFound" and "s' = s" and "find_row ak_id i (api_keys s) = None"
    | (failed) e old where "out = Inl e" and "s' = s" and "find_row ak_id i (api_keys s) = Some old"
    | (rotated) old raw key s1 u where "find_row ak_id i (api_keys s) = Some old"
      and "apikeys_Create c b (ak_merchant old) (ak_mode old) (ak_name old) (Some (ak_scopes old)) s = (Inr (raw, key), s1)"
      and "apikeys_Revoke c i s1 = (u, s')" and "out = (case u of Inl e \<Rightarrow> Inl e | Inr _ \<Rightarrow> Inr (raw, key))"
proof (cases "find_row ak_id i (api_keys s)")
  case None
  with assms show thesis by (intro unknown) (auto simp: apikeys_Rotate_def apikeys_Get_def)
next
  case (Some old)
  obtain o1 s1 where cr: "apikeys_Create c b (ak_merchant old) (ak_mode old) (ak_name old) (Some (ak_scopes old)) s = (o1, s1)"
    by (cases "apikeys_Create c b (ak_merchant old) (ak_mode old) (ak_name old) (Some (ak_scopes old)) s")
  obtain u s2 where re: "apikeys_Revoke c i s1 = (u, s2)" by (cases "apikeys_Revoke c i s1")
  show thesis
  proof (cases o1)
    case (Inl e)
    then have "s1 = s" using cr by (auto elim: create_cases)
    with assms Some cr Inl show thesis by (intro failed) (auto simp: apikeys_Rotate_def apikeys_Get_def truncate_key)
  next
    case (Inr x)
    obtain raw key where x: "x = (raw, key)" by (cases x)
    have "s' = s2" "out = (case u of Inl e \<Rightarrow> Inl e | Inr _ \<Rightarrow> Inr (raw, key))"
      using assms Some cr Inr x re by (auto simp: apikeys_Rotate_def apikeys_Get_def truncate_key split: sum.splits)
    with Some cr Inr x re show thesis by (intro rotated) simp_all
  qed
qed

lemma key_step_keeps_ok: "key_step s s' \<Longrightarrow> keys_ok s \<Longrightarrow> keys_ok s'"
  by (erule key_stepE)
     (auto intro: create_keeps_ok revoke_keeps_ok elim!: rotate_cases)

text \<open>A revoked key stays refused, whatever is issued, rotated or revoked afterwards.\<close>

definition key_dead :: "uuid \<Rightarrow> 'z key_db_scheme \<Rightarrow> bool" where
  "key_dead i s \<longleftrightarrow> key_taken ak_id i (api_keys s) \<and> (\<forall>r\<in>set (api_keys s). ak_id r = i \<longrightarrow> ak_status r = KeyRevoked)"

lemma key_dead_create: "apikeys_Create c b m mode name scs s = (out, s') \<Longrightarrow> key_dead i s \<Longrightarrow> key_dead i s'"
  by (erule create_cases) (auto simp: key_dead_def key_taken_def)

lemma key_dead_revoke: "apikeys_Revoke c j s = (out, s') \<Longrightarrow> key_dead i s \<Longrightarrow> key_dead i s'"
  by (erule revoke_cases) (auto simp: key_dead_def key_taken_map [OF api_bearer.revoke_keys(1)] set_update_row revoke_key_def)

lemma key_dead_revoked:
  "key_taken ak_id i (api_keys s) \<Longrightarrow> key_dead i (s\<lparr>api_keys := update_row ak_id i (revoke_key t) (api_keys s)\<rparr>)"
proof -
  assume taken: "key_taken ak_id i (api_keys s)"
  have "ak_status x = KeyRevoked" if x: "x \<in> set (update_row ak_id i (revoke_key t) (api_keys s))" "ak_id x = i" for x
  proof -
    obtain r where "r \<in> set (api_keys s)" "x = (if ak_id r = i then revoke_key t r else r)"
      using x(1) unfolding set_update_row by blast
    with x(2) show ?thesis by (cases "ak_id r = i") (simp_all add: revoke_key_def)
  qed
  with taken show ?thesis by (simp add: key_dead_def key_taken_map [OF api_bearer.revoke_keys(1)])
qed

lemma key_dead_step: "key_step s s' \<Longrightarrow> key_dead i s \<Longrightarrow> key_dead i s'"
  by (erule key_stepE) (auto intro: key_dead_create key_dead_revoke elim!: rotate_cases)

lemma key_dead_steps: "key_step\<^sup>*\<^sup>* s s' \<Longrightarrow> key_dead i s \<Longrightarrow> key_dead i s'"
  by (induction rule: rtranclp_induct) (auto intro: key_dead_step)

lemma key_dead_refused: "key_dead i s \<Longrightarrow> apikeys_Authenticate c raw s = Inr k \<Longrightarrow> ak_id k \<noteq> i"
  by (auto simp: key_dead_def apikeys_Authenticate_def truncate_key split: option.splits if_splits dest!: find_row_Some)

subsection \<open>Properties\<close>

text \<open>
  C27. Rotating an active key replaces it.  The new key answers to the raw value returned, for the same
  merchant, mode and scopes; the old one is refused at once and for ever, whatever is issued, rotated or revoked
  later; and a raw value that belongs to another key authenticates as before.  Rotating a key that is already
  revoked reports \<open>ErrNotFound\<close> and yet leaves a new active key behind, whose raw value nobody was given.
\<close>

theorem Rotate_replaces:
  assumes ok: "keys_ok s" and old: "find_row ak_id i (api_keys s) = Some old"
    and free: "\<not> key_taken ak_id (gen c 19) (api_keys s)" "generateKey c (ak_mode old) b = (raw, pfx, h)"
      "\<not> key_taken ak_hash h (api_keys s)"
    and sha: "\<And>x. sha256 c' x = sha256 c x"
  shows "if ak_status old = KeyActive
    then \<exists>k s'. apikeys_Rotate c b i s = (Inr (raw, k), s') \<and> keys_ok s'
      \<and> apikeys_Authenticate c' raw s' = Inr k \<and> ak_merchant k = ak_merchant old \<and> ak_mode k = ak_mode old \<and> ak_scopes k = ak_scopes old
      \<and> (\<forall>s'' c'' x k'. key_step\<^sup>*\<^sup>* s' s'' \<longrightarrow> apikeys_Authenticate c'' x s'' = Inr k' \<longrightarrow> ak_id k' \<noteq> i)
      \<and> (\<forall>x k'. apikeys_Authenticate c' x s = Inr k' \<longrightarrow> ak_id k' \<noteq> i \<longrightarrow> apikeys_Authenticate c' x s' = Inr k')
    else \<exists>r. apikeys_Rotate c b i s = (Inl ErrApiKeyNotFound, s\<lparr>api_keys := api_keys s @ [r]\<rparr>)
      \<and> ak_status r = KeyActive \<and> ak_merchant r = ak_merchant old"
proof -
  have m: "key_taken id_id (ak_merchant old) (identities s)" using ok find_row_Some [OF old] by (auto simp: keys_ok_def)
  have h: "h = hashKey c raw" using free(2) by (rule generateKey_hash)
  let ?r = "\<lparr>ak_id = gen c 19, ak_merchant = ak_merchant old, ak_mode = ak_mode old, ak_name = ak_name old, ak_prefix = pfx,
                    ak_scopes = ak_scopes old, ak_status = KeyActive, ak_created = now c, ak_revoked = None, ak_hash = h\<rparr>"
  let ?s1 = "s\<lparr>api_keys := api_keys s @ [?r]\<rparr>"
  have cr: "apikeys_Create c b (ak_merchant old) (ak_mode old) (ak_name old) (Some (ak_scopes old)) s = (Inr (raw, api_key.truncate ?r), ?s1)"
    using free m by (simp add: apikeys_Create_def Let_def)
  have get: "apikeys_Get i s = Inr (api_key.truncate old)" using old by (simp add: apikeys_Get_def)
  have old1: "find_row ak_id i (api_keys ?s1) = Some old" using old by (simp add: find_row_append)
  have ne: "ak_id ?r \<noteq> i" using free(1) old by (auto dest: find_row_taken)
  show ?thesis
  proof (cases "ak_status old = KeyActive")
    case False
    then have "apikeys_Rotate c b i s = (Inl ErrApiKeyNotFound, ?s1)"
      using old1 by (simp add: apikeys_Rotate_def get cr truncate_key apikeys_Revoke_def)
    with False show ?thesis by (intro if_not_P [THEN iffD2] exI [of _ ?r]) simp_all
  next
    case True
    let ?s' = "?s1\<lparr>api_keys := update_row ak_id i (revoke_key (now c)) (api_keys ?s1)\<rparr>"
    have rev: "apikeys_Revoke c i ?s1 = (Inr (), ?s')" using old1 True by (simp add: apikeys_Revoke_def)
    have rot: "apikeys_Rotate c b i s = (Inr (raw, api_key.truncate ?r), ?s')"
      by (simp add: apikeys_Rotate_def get cr truncate_key rev)
    have ok': "keys_ok ?s'" using revoke_keeps_ok [OF rev] create_keeps_ok [OF cr ok] by simp
    have hk: "hashKey c' x = hashKey c x" for x by (simp add: hashKey_def sha)
    have none: "find_row ak_hash h (api_keys s) = None" using free(3) by (simp add: find_row_None)
    have auth: "apikeys_Authenticate c' raw ?s' = Inr (api_key.truncate ?r)"
      using none ne by (simp add: apikeys_Authenticate_def hk h api_bearer.lookup_revoked find_row_append find_row_Cons)
    have "key_dead i ?s'" by (rule key_dead_revoked [OF find_row_taken [OF old1]])
    note dead = key_dead_steps [OF _ this]
    have others: "apikeys_Authenticate c' x ?s' = Inr k'" if "apikeys_Authenticate c' x s = Inr k'" "ak_id k' \<noteq> i" for x k'
    proof -
      from that(1) obtain r where r: "find_row ak_hash (hashKey c' x) (api_keys s) = Some r" "ak_status r = KeyActive" "k' = api_key.truncate r"
        by (auto simp: apikeys_Authenticate_def split: option.splits if_splits)
      then have "find_row ak_hash (hashKey c' x) (api_keys ?s1) = Some r" by (simp add: find_row_append)
      moreover have "ak_id r \<noteq> i" using that(2) r(3) by (simp add: truncate_key)
      ultimately have "find_row ak_hash (hashKey c' x) (update_row ak_id i (revoke_key (now c)) (api_keys ?s1)) = Some r"
        by (rule api_bearer.others_kept)
      then have "find_row ak_hash (hashKey c' x) (api_keys ?s') = Some r" by simp
      then show ?thesis using r by (simp add: apikeys_Authenticate_def)
    qed
    have "ak_id k' \<noteq> i" if "key_step\<^sup>*\<^sup>* ?s' s''" "apikeys_Authenticate c'' x s'' = Inr k'" for s'' c'' x k'
      using key_dead_refused [OF dead [OF that(1)] that(2)] .
    then show ?thesis
      using True rot ok' auth others
      by (intro if_P [THEN iffD2] exI [of _ "api_key.truncate ?r"] exI [of _ ?s']) (simp_all add: truncate_key)
  qed
qed

text \<open>Merchant \<open>M\<close> with one key, rotated.\<close>

definition key_seed :: key_db where
  "key_seed = \<lparr>identities = [\<lparr>id_id = ''M'', id_kind = KindBusiness, id_stat = IdActive, id_tier = 2, id_email = ''m@kolo.ng'',
     id_phone = None, id_password_hash = ''hash'', id_legal_name = ''M'', id_role = RoleCustomer\<rparr>],
     beneficial_owners = [], kyc_checks = [], audit_log = [], api_keys = []\<rparr>"

definition key_call :: "nat \<Rightarrow> ctx" where
  "key_call n = \<lparr>now = int n, gen = (\<lambda>_. [char_of (65 + n)]), sha256 = (\<lambda>x. x)\<rparr>"

definition key_issued :: key_db where
  "key_issued = snd (apikeys_Create (key_call 1) [1] ''M'' ModeLive ''shop'' (Some [''charges:write'']) key_seed)"

theorem Rotate_replaces_witness:
  "\<exists>k s'. apikeys_Rotate (key_call 2) [2] ''B'' key_issued = (Inr (''kolo_live_02'', k), s')
     \<and> apikeys_Authenticate (key_call 3) ''kolo_live_02'' s' = Inr k \<and> ak_scopes k = [''charges:write'']
     \<and> apikeys_Authenticate (key_call 3) ''kolo_live_01'' s' = Inl ErrInvalidKey"
proof -
  let ?old = "\<lparr>ak_id = ''B'', ak_merchant = ''M'', ak_mode = ModeLive, ak_name = ''shop'', ak_prefix = ''kolo_live_01'',
     ak_scopes = [''charges:write''], ak_status = KeyActive, ak_created = 1, ak_revoked = None, ak_hash = ''kolo_live_01''\<rparr>"
  have keys: "api_keys key_issued = [?old]" "identities key_issued = identities key_seed"
    unfolding key_issued_def by code_simp+
  have hex: "generateKey (key_call 2) ModeLive [2] = (''kolo_live_02'', ''kolo_live_02'', ''kolo_live_02'')" by code_simp
  have ok: "keys_ok key_issued" using keys by (simp add: keys_ok_def key_taken_def key_seed_def)
  note r = Rotate_replaces [where s = key_issued and i = "''B''" and old = ?old and c = "key_call 2" and b = "[2]" and c' = "key_call 3", OF ok]
  have gen2: "gen (key_call 2) 19 = ''C''" by code_simp
  obtain k s' where run: "apikeys_Rotate (key_call 2) [2] ''B'' key_issued = (Inr (''kolo_live_02'', k), s')"
    and auth: "apikeys_Authenticate (key_call 3) ''kolo_live_02'' s' = Inr k" "ak_scopes k = [''charges:write'']"
    and dead: "\<forall>s'' c'' x k'. key_step\<^sup>*\<^sup>* s' s'' \<longrightarrow> apikeys_Authenticate c'' x s'' = Inr k' \<longrightarrow> ak_id k' \<noteq> ''B''"
    using r hex keys gen2 by (auto simp: find_row_Cons key_taken_def key_call_def)
  have "fst (apikeys_Rotate (key_call 2) [2] ''B'' key_issued) = Inr (''kolo_live_02'', k)" by (simp add: run)
  have "apikeys_Authenticate (key_call 3) ''kolo_live_01'' (snd (apikeys_Rotate (key_call 2) [2] ''B'' key_issued)) = Inl ErrInvalidKey"
    unfolding key_issued_def by code_simp
  with run auth show ?thesis by auto
qed

end
