(* ===== verification/Merchants.thy ===== *)
theory Merchants
  imports ExternalLife ApiKeys
begin

section \<open>Tokens, charges and payouts\<close>

text \<open>
  \<open>internal/tokens\<close>, \<open>internal/charges\<close> and \<open>internal/payouts\<close>: what a merchant asks for through the
  public API.  A charge is an inbound and a payout an outbound external transfer with a row of
  its own; the row's status is read from the transfer.  Creating one is a lookup by the
  merchant's idempotency key, the kill switches, the transfer, and an \<open>INSERT ... ON CONFLICT\<close>
  outside any transaction: the insert is a definition of its own, because a concurrent call can
  put its row there first.
\<close>

subsection \<open>tokens.go\<close>

record token =
  tk_id :: uuid
  tk_merchant :: uuid
  tk_mode :: api_mode
  tk_masked :: string
  tk_brand :: string
  tk_will_fail :: bool
  tk_key :: string
  tk_created :: int

datatype pay_status = PayPending | PaySucceeded | PayFailed

record charge_base =
  ch_id :: uuid
  ch_merchant :: uuid
  ch_mode :: api_mode
  ch_token :: uuid
  ch_account :: uuid
  ch_amount :: money
  ch_key :: string
  ch_transfer :: uuid
  ch_created :: int

record charge = charge_base +
  ch_status :: pay_status

record charge_row = charge_base +
  ch_notified :: "int option"

record payout_base =
  po_id :: uuid
  po_merchant :: uuid
  po_mode :: api_mode
  po_account :: uuid
  po_rail :: string
  po_recipient :: string
  po_amount :: money
  po_key :: string
  po_transfer :: uuid
  po_created :: int

record payout = payout_base +
  po_status :: pay_status

record payout_row = payout_base +
  po_notified :: "int option"

record merchant_db = ext_db +
  tokens :: "token list"
  charges :: "charge_row list"
  payouts :: "payout_row list"

definition declineSuffix :: string where "declineSuffix = ''0002''"

text \<open>The regular expression \<open>^\d{12,19}$\<close>.\<close>

definition is_digit :: "char \<Rightarrow> bool" where
  "is_digit ch \<longleftrightarrow> 48 \<le> (of_char ch :: nat) \<and> (of_char ch :: nat) \<le> 57"

definition digitsOnly :: "string \<Rightarrow> bool" where
  "digitsOnly s \<longleftrightarrow> 12 \<le> length s \<and> length s \<le> 19 \<and> list_all is_digit s"

text \<open>The comparison of the first two bytes with \<open>"51"\<close> and \<open>"55"\<close>.\<close>

definition detectBrand :: "string \<Rightarrow> string" where
  "detectBrand cardNumber =
    (case cardNumber of
       CHR ''4'' # _ \<Rightarrow> ''visa''
     | CHR ''5'' # d # _ \<Rightarrow> (if 49 \<le> (of_char d :: nat) \<and> (of_char d :: nat) \<le> 53 then ''mastercard'' else ''unknown'')
     | _ \<Rightarrow> ''unknown'')"

definition tk_mkey :: "'z token_scheme \<Rightarrow> uuid \<times> string" where "tk_mkey t = (tk_merchant t, tk_key t)"
definition ch_mkey :: "'z charge_base_scheme \<Rightarrow> uuid \<times> string" where "ch_mkey r = (ch_merchant r, ch_key r)"
definition po_mkey :: "'z payout_base_scheme \<Rightarrow> uuid \<times> string" where "po_mkey r = (po_merchant r, po_key r)"

definition tokens_getByIdempotencyKey :: "uuid \<Rightarrow> string \<Rightarrow> 'z merchant_db_scheme \<Rightarrow> token option" where
  "tokens_getByIdempotencyKey merchantID key s = find_row tk_mkey (merchantID, key) (tokens s)"

definition tokens_Create :: "ctx \<Rightarrow> uuid \<Rightarrow> api_mode \<Rightarrow> string \<Rightarrow> string \<Rightarrow> 'z merchant_db_scheme
    \<Rightarrow> (gerror + token) \<times> 'z merchant_db_scheme" where
  "tokens_Create c merchantID mode cardNumber key s =
    (case tokens_getByIdempotencyKey merchantID key s of
       Some existing \<Rightarrow> (Inr existing, s)
     | None \<Rightarrow>
        if \<not> digitsOnly cardNumber then (Inl ErrInvalidCardNumber, s)
        else let last4 = drop (length cardNumber - 4) cardNumber;
                 tok = \<lparr>tk_id = gen c 14, tk_merchant = merchantID, tk_mode = mode,
                        tk_masked = ''**** **** **** '' @ last4, tk_brand = detectBrand cardNumber,
                        tk_will_fail = (last4 = declineSuffix), tk_key = key, tk_created = now c\<rparr>
             in if key_taken tk_id (gen c 14) (tokens s) then (Inl SqlUnique, s)
                else if \<not> key_taken id_id merchantID (identities s) then (Inl SqlForeignKey, s)
                else (Inr tok, s\<lparr>tokens := tokens s @ [tok]\<rparr>))"

definition tokens_Get :: "uuid \<Rightarrow> 'z merchant_db_scheme \<Rightarrow> gerror + token" where
  "tokens_Get tokenID s = (case find_row tk_id tokenID (tokens s) of None \<Rightarrow> Inl ErrNoRows | Some t \<Rightarrow> Inr t)"

subsection \<open>charges.go\<close>

definition cardRail :: string where "cardRail = ''card''"
definition railFailMarker :: string where "railFailMarker = ''RAILFAIL''"

definition statusFromExternalTransfer :: "ext_status \<Rightarrow> pay_status" where
  "statusFromExternalTransfer st =
    (case st of StatusCompleted \<Rightarrow> PaySucceeded | StatusFailed \<Rightarrow> PayFailed | _ \<Rightarrow> PayPending)"

definition resolveSettlementAccount :: "uuid \<Rightarrow> string \<Rightarrow> 'z ledger_db_scheme \<Rightarrow> gerror + uuid" where
  "resolveSettlementAccount merchantID cur s =
    (case earliest (filter (\<lambda>a. a_owner a = merchantID \<and> a_currency a = cur \<and> a_state a = AccountStateOpen) (accounts s)) of
       None \<Rightarrow> Inl ErrNoSettlementAccount
     | Some a \<Rightarrow> Inr (a_id a))"

text \<open>A row joined with its transfer.\<close>

definition charge_of :: "'z merchant_db_scheme \<Rightarrow> charge_row \<Rightarrow> charge option" where
  "charge_of s r = map_option
     (\<lambda>et. charge_base.extend (charge_base.truncate r) (charge.fields (statusFromExternalTransfer (et_status et))))
     (find_row et_id (ch_transfer r) (ext_transfers s))"

definition charges_getByIdempotencyKey :: "uuid \<Rightarrow> string \<Rightarrow> 'z merchant_db_scheme \<Rightarrow> charge option" where
  "charges_getByIdempotencyKey merchantID key s =
    Option.bind (find_row ch_mkey (merchantID, key) (charges s)) (charge_of s)"

definition charges_Get :: "uuid \<Rightarrow> 'z merchant_db_scheme \<Rightarrow> gerror + charge" where
  "charges_Get i s =
    (case Option.bind (find_row ch_id i (charges s)) (charge_of s) of None \<Rightarrow> Inl ErrNoRows | Some ch \<Rightarrow> Inr ch)"

definition charges_List :: "uuid \<Rightarrow> api_mode \<Rightarrow> nat \<Rightarrow> 'z merchant_db_scheme \<Rightarrow> charge list" where
  "charges_List merchantID mode n s = take n (sort_key (\<lambda>ch. - ch_created ch)
     (List.map_filter (charge_of s) (filter (\<lambda>r. ch_merchant r = merchantID \<and> ch_mode r = mode) (charges s))))"

definition new_charge :: "ctx \<Rightarrow> uuid \<Rightarrow> api_mode \<Rightarrow> uuid \<Rightarrow> uuid \<Rightarrow> money \<Rightarrow> string \<Rightarrow> uuid \<Rightarrow> charge_base" where
  "new_charge c merchantID mode tokenID accountID amount key etID =
    \<lparr>ch_id = gen c 12, ch_merchant = merchantID, ch_mode = mode, ch_token = tokenID, ch_account = accountID,
     ch_amount = amount, ch_key = key, ch_transfer = etID, ch_created = now c\<rparr>"

definition charge_record :: "ctx \<Rightarrow> uuid \<Rightarrow> api_mode \<Rightarrow> uuid \<Rightarrow> uuid \<Rightarrow> money \<Rightarrow> string \<Rightarrow> uuid
    \<Rightarrow> 'z merchant_db_scheme \<Rightarrow> (gerror + charge) \<times> 'z merchant_db_scheme" where
  "charge_record c merchantID mode tokenID accountID amount key etID s =
    (case char3 (currency amount) of
       Inl e \<Rightarrow> (Inl e, s)
     | Inr cur3 \<Rightarrow>
        if \<not> in64 (minor amount) then (Inl SqlRange, s)
        else if \<not> 0 < minor amount then (Inl SqlCheck, s)
        else (case find_row ch_mkey (merchantID, key) (charges s) of
                Some r \<Rightarrow> (Inr (charge_base.extend (charge_base.truncate r) (charge.fields PayPending)), s)
              | None \<Rightarrow>
                 if key_taken ch_id (gen c 12) (charges s) then (Inl SqlUnique, s)
                 else if \<not> key_taken id_id merchantID (identities s) \<or> \<not> key_taken tk_id tokenID (tokens s)
                       \<or> \<not> key_taken a_id accountID (accounts s) \<or> \<not> key_taken et_id etID (ext_transfers s)
                 then (Inl SqlForeignKey, s)
                 else let b = new_charge c merchantID mode tokenID accountID \<lparr>minor = minor amount, currency = cur3\<rparr> key etID
                      in (Inr (charge_base.extend b (charge.fields PayPending)),
                          s\<lparr>charges := charges s @ [charge_base.extend b (charge_row.fields None)]\<rparr>)))"

definition counterparty_of :: "token \<Rightarrow> string" where
  "counterparty_of tok = ''card:'' @ tk_id tok @ (if tk_will_fail tok then '':'' @ railFailMarker else '''')"

definition charges_Create :: "ctx \<Rightarrow> uuid \<Rightarrow> api_mode \<Rightarrow> uuid \<Rightarrow> money \<Rightarrow> string \<Rightarrow> 'z merchant_db_scheme
    \<Rightarrow> (gerror + charge) \<times> 'z merchant_db_scheme" where
  "charges_Create c merchantID mode tokenID amount key s =
    (case charges_getByIdempotencyKey merchantID key s of
       Some existing \<Rightarrow> (Inr existing, s)
     | None \<Rightarrow>
        (case res_Check c [Feature ''charge'', Merchant merchantID] s of
           (Inl e, s1) \<Rightarrow> (Inl e, s1)
         | (Inr _, s1) \<Rightarrow>
            (case tokens_Get tokenID s1 of
               Inl e \<Rightarrow> (Inl e, s1)
             | Inr tok \<Rightarrow>
                (case resolveSettlementAccount merchantID (currency amount) s1 of
                   Inl e \<Rightarrow> (Inl e, s1)
                 | Inr accountID \<Rightarrow>
                    (case SendInbound c accountID cardRail (counterparty_of tok) amount key s1 of
                       (Inl e, s2) \<Rightarrow> (Inl e, s2)
                     | (Inr et, s2) \<Rightarrow> charge_record c merchantID mode tokenID accountID amount key (et_id et) s2)))))"

subsection \<open>payouts.go\<close>

definition payout_of :: "'z merchant_db_scheme \<Rightarrow> payout_row \<Rightarrow> payout option" where
  "payout_of s r = map_option
     (\<lambda>et. payout_base.extend (payout_base.truncate r) (payout.fields (statusFromExternalTransfer (et_status et))))
     (find_row et_id (po_transfer r) (ext_transfers s))"

definition payouts_getByIdempotencyKey :: "uuid \<Rightarrow> string \<Rightarrow> 'z merchant_db_scheme \<Rightarrow> payout option" where
  "payouts_getByIdempotencyKey merchantID key s =
    Option.bind (find_row po_mkey (merchantID, key) (payouts s)) (payout_of s)"

definition payouts_Get :: "uuid \<Rightarrow> 'z merchant_db_scheme \<Rightarrow> gerror + payout" where
  "payouts_Get i s =
    (case Option.bind (find_row po_id i (payouts s)) (payout_of s) of None \<Rightarrow> Inl ErrNoRows | Some p \<Rightarrow> Inr p)"

definition payouts_List :: "uuid \<Rightarrow> api_mode \<Rightarrow> nat \<Rightarrow> 'z merchant_db_scheme \<Rightarrow> payout list" where
  "payouts_List merchantID mode n s = take n (sort_key (\<lambda>p. - po_created p)
     (List.map_filter (payout_of s) (filter (\<lambda>r. po_merchant r = merchantID \<and> po_mode r = mode) (payouts s))))"

definition new_payout :: "ctx \<Rightarrow> uuid \<Rightarrow> api_mode \<Rightarrow> uuid \<Rightarrow> string \<Rightarrow> string \<Rightarrow> money \<Rightarrow> string \<Rightarrow> uuid \<Rightarrow> payout_base" where
  "new_payout c merchantID mode accountID railName recipientRef amount key etID =
    \<lparr>po_id = gen c 13, po_merchant = merchantID, po_mode = mode, po_account = accountID, po_rail = railName,
     po_recipient = recipientRef, po_amount = amount, po_key = key, po_transfer = etID, po_created = now c\<rparr>"

definition payout_record :: "ctx \<Rightarrow> uuid \<Rightarrow> api_mode \<Rightarrow> uuid \<Rightarrow> string \<Rightarrow> string \<Rightarrow> money \<Rightarrow> string \<Rightarrow> uuid
    \<Rightarrow> 'z merchant_db_scheme \<Rightarrow> (gerror + payout) \<times> 'z merchant_db_scheme" where
  "payout_record c merchantID mode accountID railName recipientRef amount key etID s =
    (case char3 (currency amount) of
       Inl e \<Rightarrow> (Inl e, s)
     | Inr cur3 \<Rightarrow>
        if \<not> in64 (minor amount) then (Inl SqlRange, s)
        else if \<not> 0 < minor amount then (Inl SqlCheck, s)
        else (case find_row po_mkey (merchantID, key) (payouts s) of
                Some r \<Rightarrow> (Inr (payout_base.extend (payout_base.truncate r) (payout.fields PayPending)), s)
              | None \<Rightarrow>
                 if key_taken po_id (gen c 13) (payouts s) then (Inl SqlUnique, s)
                 else if \<not> key_taken id_id merchantID (identities s) \<or> \<not> key_taken a_id accountID (accounts s)
                       \<or> \<not> key_taken et_id etID (ext_transfers s)
                 then (Inl SqlForeignKey, s)
                 else let b = new_payout c merchantID mode accountID railName recipientRef
                                \<lparr>minor = minor amount, currency = cur3\<rparr> key etID
                      in (Inr (payout_base.extend b (payout.fields PayPending)),
                          s\<lparr>payouts := payouts s @ [payout_base.extend b (payout_row.fields None)]\<rparr>)))"

definition payouts_Create :: "ctx \<Rightarrow> uuid \<Rightarrow> api_mode \<Rightarrow> string \<Rightarrow> string \<Rightarrow> money \<Rightarrow> string \<Rightarrow> 'z merchant_db_scheme
    \<Rightarrow> (gerror + payout) \<times> 'z merchant_db_scheme" where
  "payouts_Create c merchantID mode railName recipientRef amount key s =
    (case payouts_getByIdempotencyKey merchantID key s of
       Some existing \<Rightarrow> (Inr existing, s)
     | None \<Rightarrow>
        (case res_Check c [Feature ''payout'', Merchant merchantID] s of
           (Inl e, s1) \<Rightarrow> (Inl e, s1)
         | (Inr _, s1) \<Rightarrow>
            (case registry_Get railName of
               Inl _ \<Rightarrow> (Inl ErrUnknownRail, s1)
             | Inr _ \<Rightarrow>
                (case resolveSettlementAccount merchantID (currency amount) s1 of
                   Inl e \<Rightarrow> (Inl e, s1)
                 | Inr accountID \<Rightarrow>
                    (case SendOutbound c accountID railName recipientRef amount key s1 of
                       (Inl e, s2) \<Rightarrow> (Inl e, s2)
                     | (Inr et, s2) \<Rightarrow>
                        payout_record c merchantID mode accountID railName recipientRef amount key (et_id et) s2)))))"

end
