(* ===== verification/MerchantProps.thy ===== *)
theory MerchantProps
  imports Merchants HoldOwners
begin

section \<open>The properties of charges and payouts\<close>

text \<open>
  The rows a merchant's calls leave behind are well-formed in every reachable state; what one
  charge does; and the two things the code does not check: that the token is the merchant's,
  and that no other merchant has used the same idempotency key.
\<close>

subsection \<open>Well-formed rows\<close>

definition charge_ok :: "'z merchant_db_scheme \<Rightarrow> charge_row \<Rightarrow> bool" where
  "charge_ok s r \<longleftrightarrow> key_taken tk_id (ch_token r) (tokens s)
    \<and> (\<exists>a. find_row a_id (ch_account r) (accounts s) = Some a \<and> a_owner a = ch_merchant r)
    \<and> (\<exists>t. find_row et_id (ch_transfer r) (ext_transfers s) = Some t \<and> et_key t = ch_key r)
    \<and> 0 < minor (ch_amount r) \<and> in64 (minor (ch_amount r)) \<and> length (currency (ch_amount r)) = 3"

definition payout_ok :: "'z merchant_db_scheme \<Rightarrow> payout_row \<Rightarrow> bool" where
  "payout_ok s r \<longleftrightarrow> po_rail r \<in> set rail_names
    \<and> (\<exists>a. find_row a_id (po_account r) (accounts s) = Some a \<and> a_owner a = po_merchant r)
    \<and> (\<exists>t. find_row et_id (po_transfer r) (ext_transfers s) = Some t \<and> et_key t = po_key r)
    \<and> 0 < minor (po_amount r) \<and> in64 (minor (po_amount r)) \<and> length (currency (po_amount r)) = 3"

definition merchant_inv :: "'z merchant_db_scheme \<Rightarrow> bool" where
  "merchant_inv s \<longleftrightarrow> distinct (map tk_id (tokens s))
    \<and> distinct (map ch_id (charges s)) \<and> distinct (map ch_mkey (charges s)) \<and> (\<forall>r\<in>set (charges s). charge_ok s r)
    \<and> distinct (map po_id (payouts s)) \<and> distinct (map po_mkey (payouts s)) \<and> (\<forall>r\<in>set (payouts s). payout_ok s r)"

text \<open>What a row needs from the rest of the database stays.\<close>

definition merchant_grows :: "'z merchant_db_scheme \<Rightarrow> 'z merchant_db_scheme \<Rightarrow> bool" where
  "merchant_grows s s' \<longleftrightarrow> (\<forall>i. key_taken tk_id i (tokens s) \<longrightarrow> key_taken tk_id i (tokens s'))
    \<and> (\<forall>i a. find_row a_id i (accounts s) = Some a \<longrightarrow> (\<exists>a'. find_row a_id i (accounts s') = Some a' \<and> a_owner a' = a_owner a))
    \<and> (\<forall>i t. find_row et_id i (ext_transfers s) = Some t \<longrightarrow> (\<exists>t'. find_row et_id i (ext_transfers s') = Some t' \<and> same_transfer t t'))"

lemma merchant_grows_refl [simp]: "merchant_grows s s"
  by (auto simp: merchant_grows_def)

lemma charge_ok_grows: "merchant_grows s s' \<Longrightarrow> charge_ok s r \<Longrightarrow> charge_ok s' r"
  unfolding charge_ok_def merchant_grows_def same_transfer_def by metis

lemma payout_ok_grows: "merchant_grows s s' \<Longrightarrow> payout_ok s r \<Longrightarrow> payout_ok s' r"
  unfolding payout_ok_def merchant_grows_def same_transfer_def by metis

lemma merchant_inv_grows:
  assumes "merchant_inv s" and "merchant_grows s s'" and "charges s' = charges s" and "payouts s' = payouts s"
    and "distinct (map tk_id (tokens s'))"
  shows "merchant_inv s'"
  using assms(1,3,4,5) charge_ok_grows [OF assms(2)] payout_ok_grows [OF assms(2)] by (simp add: merchant_inv_def)

lemma merchant_grows_simps [simp]:
  "merchant_grows s (s\<lparr>charges := cs\<rparr>)" "merchant_grows s (s\<lparr>payouts := ps\<rparr>)" "merchant_grows s (s\<lparr>res_cache := k\<rparr>)"
  "merchant_grows s (s\<lparr>tokens := tokens s @ ts\<rparr>)"
  by (auto simp: merchant_grows_def)

lemma merchant_inv_cache [simp]: "merchant_inv (s\<lparr>res_cache := k\<rparr>) = merchant_inv s"
  by (simp add: merchant_inv_def charge_ok_def payout_ok_def)

lemma ext_step_grows:
  assumes step: "ext_step s s'" and inv: "ext_inv s"
  shows "merchant_grows s s'" and "tokens s' = tokens s" and "charges s' = charges s" and "payouts s' = payouts s"
proof -
  have fixed: "ext_fixed s s'" by (rule ext_step_fixed [OF step])
  then show same: "tokens s' = tokens s" "charges s' = charges s" "payouts s' = payouts s"
    by (cases s; cases s'; simp)+
  have d: "distinct (map et_id (ext_transfers s'))" using ext_step_inv [OF step inv] by (simp add: ext_inv_def)
  have "\<exists>t'. find_row et_id i (ext_transfers s') = Some t' \<and> same_transfer t t'"
    if "find_row et_id i (ext_transfers s) = Some t" for i t
  proof -
    from find_row_Some [OF that] ext_step_kept [OF step inv] obtain t' where "t' \<in> set (ext_transfers s')" "ext_moves t t'"
      by (auto simp: ext_kept_def)
    then show ?thesis using find_row_distinct [OF d] find_row_Some [OF that]
      by (intro exI [of _ t']) (auto simp: ext_moves_def same_transfer_def)
  qed
  with fixed same show "merchant_grows s s'" by (auto simp: merchant_grows_def)
qed

lemma merchant_inv_ext_step: "ext_step s s' \<Longrightarrow> ext_inv s \<Longrightarrow> merchant_inv s \<Longrightarrow> merchant_inv s'"
  by (rule merchant_inv_grows [of s s']) (simp_all add: ext_step_grows merchant_inv_def)

subsection \<open>The calls keep them\<close>

lemma char3_length: "char3 cur = Inr cur3 \<Longrightarrow> length cur3 = 3"
proof -
  assume "char3 cur = Inr cur3"
  then have "cur3 = take 3 cur @ replicate (3 - length cur) (CHR '' '')"
    unfolding char3_def by (simp only: sum.inject sum.distinct split: if_splits)
  then show "length cur3 = 3" by simp
qed

lemma earliest_in: "earliest as = Some a \<Longrightarrow> a \<in> set as"
  by (induction "as" arbitrary: a) (auto split: option.splits if_splits)

lemma settlement_account:
  assumes "resolveSettlementAccount m cur s = Inr i"
  obtains a where "a \<in> set (accounts s)" "a_id a = i" "a_owner a = m" "a_currency a = cur" "a_state a = AccountStateOpen"
  using assms earliest_in by (fastforce simp: resolveSettlementAccount_def split: option.splits)

abbreviation charge_row_of :: "charge_base \<Rightarrow> charge_row" where
  "charge_row_of b \<equiv> charge_base.extend b (charge_row.fields None)"

abbreviation payout_row_of :: "payout_base \<Rightarrow> payout_row" where
  "payout_row_of b \<equiv> payout_base.extend b (payout_row.fields None)"

lemma new_row_fields [simp]:
  "ch_id (charge_row_of b) = ch_id b" "ch_mkey (charge_row_of b) = ch_mkey b" "ch_token (charge_row_of b) = ch_token b"
  "ch_account (charge_row_of b) = ch_account b" "ch_merchant (charge_row_of b) = ch_merchant b"
  "ch_transfer (charge_row_of b) = ch_transfer b" "ch_key (charge_row_of b) = ch_key b" "ch_amount (charge_row_of b) = ch_amount b"
  "po_id (payout_row_of p) = po_id p" "po_mkey (payout_row_of p) = po_mkey p" "po_rail (payout_row_of p) = po_rail p"
  "po_account (payout_row_of p) = po_account p" "po_merchant (payout_row_of p) = po_merchant p"
  "po_transfer (payout_row_of p) = po_transfer p" "po_key (payout_row_of p) = po_key p" "po_amount (payout_row_of p) = po_amount p"
  by (simp_all add: charge_base.defs charge_row.defs payout_base.defs payout_row.defs ch_mkey_def po_mkey_def)

lemma charge_record_cases:
  assumes "charge_record c m mode tok acc amt key et s = (res, s')"
  obtains (same) "s' = s" "(\<exists>e. res = Inl e) \<or> key_taken ch_mkey (m, key) (charges s)"
  | (new) b cur3 where "b = new_charge c m mode tok acc \<lparr>minor = minor amt, currency = cur3\<rparr> key et"
      "s' = s\<lparr>charges := charges s @ [charge_row_of b]\<rparr>" "res = Inr (charge_base.extend b (charge.fields PayPending))"
      "\<not> key_taken ch_id (ch_id b) (charges s)" "\<not> key_taken ch_mkey (ch_mkey b) (charges s)"
      "key_taken tk_id tok (tokens s)" "0 < minor amt" "in64 (minor amt)" "length cur3 = 3" "char3 (currency amt) = Inr cur3"
proof (cases "find_row ch_mkey (m, key) (charges s) = None \<and> 0 < minor amt \<and> in64 (minor amt) \<and> (\<exists>cur3. char3 (currency amt) = Inr cur3)
    \<and> \<not> key_taken ch_id (gen c 12) (charges s) \<and> key_taken id_id m (identities s) \<and> key_taken tk_id tok (tokens s) \<and> key_taken a_id acc (accounts s) \<and> key_taken et_id et (ext_transfers s)")
  case True
  then obtain cur3 where cur: "char3 (currency amt) = Inr cur3" by blast
  let ?b = "new_charge c m mode tok acc \<lparr>minor = minor amt, currency = cur3\<rparr> key et"
  have "ch_id ?b = gen c 12" "ch_mkey ?b = (m, key)" by (simp_all add: new_charge_def ch_mkey_def)
  moreover have "(res, s') = (Inr (charge_base.extend ?b (charge.fields PayPending)), s\<lparr>charges := charges s @ [charge_row_of ?b]\<rparr>)"
    using assms cur True by (simp add: charge_record_def Let_def)
  ultimately show thesis
    using True char3_length [OF cur] cur by (intro new [of ?b cur3]) (simp_all add: find_row_None)
next
  case False
  show thesis
  proof (cases "find_row ch_mkey (m, key) (charges s)")
    case None
    with False have "s' = s \<and> (\<exists>e. res = Inl e)"
      using assms by (cases "char3 (currency amt)") (auto simp: charge_record_def split: if_splits)
    then show thesis using same by blast
  next
    case (Some r)
    then have "s' = s" using assms by (auto simp: charge_record_def split: if_splits sum.splits)
    then show thesis using same find_row_taken [OF Some] by blast
  qed
qed

lemma payout_record_cases:
  assumes "payout_record c m mode acc rn rcp amt key et s = (res, s')"
  obtains (same) "s' = s" "(\<exists>e. res = Inl e) \<or> key_taken po_mkey (m, key) (payouts s)"
  | (new) b cur3 where "b = new_payout c m mode acc rn rcp \<lparr>minor = minor amt, currency = cur3\<rparr> key et"
      "s' = s\<lparr>payouts := payouts s @ [payout_row_of b]\<rparr>" "res = Inr (payout_base.extend b (payout.fields PayPending))"
      "\<not> key_taken po_id (po_id b) (payouts s)" "\<not> key_taken po_mkey (po_mkey b) (payouts s)"
      "0 < minor amt" "in64 (minor amt)" "length cur3 = 3" "char3 (currency amt) = Inr cur3"
proof (cases "find_row po_mkey (m, key) (payouts s) = None \<and> 0 < minor amt \<and> in64 (minor amt) \<and> (\<exists>cur3. char3 (currency amt) = Inr cur3)
    \<and> \<not> key_taken po_id (gen c 13) (payouts s) \<and> key_taken id_id m (identities s) \<and> key_taken a_id acc (accounts s) \<and> key_taken et_id et (ext_transfers s)")
  case True
  then obtain cur3 where cur: "char3 (currency amt) = Inr cur3" by blast
  let ?b = "new_payout c m mode acc rn rcp \<lparr>minor = minor amt, currency = cur3\<rparr> key et"
  have "po_id ?b = gen c 13" "po_mkey ?b = (m, key)" by (simp_all add: new_payout_def po_mkey_def)
  moreover have "(res, s') = (Inr (payout_base.extend ?b (payout.fields PayPending)), s\<lparr>payouts := payouts s @ [payout_row_of ?b]\<rparr>)"
    using assms cur True by (simp add: payout_record_def Let_def)
  ultimately show thesis
    using True char3_length [OF cur] cur by (intro new [of ?b cur3]) (simp_all add: find_row_None)
next
  case False
  show thesis
  proof (cases "find_row po_mkey (m, key) (payouts s)")
    case None
    with False have "s' = s \<and> (\<exists>e. res = Inl e)"
      using assms by (cases "char3 (currency amt)") (auto simp: payout_record_def split: if_splits)
    then show thesis using same by blast
  next
    case (Some r)
    then have "s' = s" using assms by (auto simp: payout_record_def split: if_splits sum.splits)
    then show thesis using same find_row_taken [OF Some] by blast
  qed
qed

lemma charge_record_inv:
  assumes run: "charge_record c m mode tok acc amt key et s = (res, s')" and inv: "merchant_inv s"
    and acc: "\<exists>a. find_row a_id acc (accounts s) = Some a \<and> a_owner a = m"
    and t: "\<exists>t. find_row et_id et (ext_transfers s) = Some t \<and> et_key t = key"
  shows "merchant_inv s'"
  using run
proof (cases rule: charge_record_cases)
  case (new b cur3)
  have grows: "merchant_grows s s'" by (simp add: new(2))
  have "charge_ok s' (charge_row_of b)" using new acc t by (simp add: charge_ok_def new_charge_def)
  moreover have "distinct (map ch_id (charges s @ [charge_row_of b]))" "distinct (map ch_mkey (charges s @ [charge_row_of b]))"
    using inv new(4,5) by (simp_all add: distinct_snoc_key merchant_inv_def del: map_append)
  ultimately show ?thesis
    using inv charge_ok_grows [OF grows] payout_ok_grows [OF grows]
    unfolding merchant_inv_def by (auto simp: new(2))
qed (use inv in simp)

lemma payout_record_inv:
  assumes run: "payout_record c m mode acc rn rcp amt key et s = (res, s')" and inv: "merchant_inv s"
    and acc: "\<exists>a. find_row a_id acc (accounts s) = Some a \<and> a_owner a = m" and rail: "rn \<in> set rail_names"
    and t: "\<exists>t. find_row et_id et (ext_transfers s) = Some t \<and> et_key t = key"
  shows "merchant_inv s'"
  using run
proof (cases rule: payout_record_cases)
  case (new b cur3)
  have grows: "merchant_grows s s'" by (simp add: new(2))
  have "payout_ok s' (payout_row_of b)" using new acc t rail by (simp add: payout_ok_def new_payout_def)
  moreover have "distinct (map po_id (payouts s @ [payout_row_of b]))" "distinct (map po_mkey (payouts s @ [payout_row_of b]))"
    using inv new(4,5) by (simp_all add: distinct_snoc_key merchant_inv_def del: map_append)
  ultimately show ?thesis
    using inv charge_ok_grows [OF grows] payout_ok_grows [OF grows]
    unfolding merchant_inv_def by (auto simp: new(2))
qed (use inv in simp)

text \<open>A call is refused, or sends, or sends and records.\<close>

lemma charges_Create_cases:
  assumes "charges_Create c m mode tok amt key s = (res, s')"
  obtains (same) "s' = s" "charges_getByIdempotencyKey m key s \<noteq> None" | (refused) k where "s' = s\<lparr>res_cache := k\<rparr>" "\<exists>e. res = Inl e"
  | (sent) k tk acc et s2 where "find_row tk_id tok (tokens s) = Some tk" "resolveSettlementAccount m (currency amt) s = Inr acc"
      "ext_send c DirectionInbound acc cardRail (counterparty_of tk) amt key None (s\<lparr>res_cache := k\<rparr>) = (et, s2)"
      "case et of Inl e \<Rightarrow> res = Inl e \<and> s' = s2 | Inr t \<Rightarrow> charge_record c m mode tok acc amt key (et_id t) s2 = (res, s')"
proof -
  obtain cr s1 where cr: "res_Check c [Feature ''charge'', Merchant m] s = (cr, s1)" by fastforce
  obtain k where s1: "s1 = s\<lparr>res_cache := k\<rparr>" using res_Check_cases cr by (metis snd_conv)
  have acc: "resolveSettlementAccount m (currency amt) s1 = resolveSettlementAccount m (currency amt) s"
    by (simp add: resolveSettlementAccount_def s1)
  show thesis
  proof (cases "charges_getByIdempotencyKey m key s")
    case (Some ch)
    then show thesis using assms same by (simp add: charges_Create_def)
  next
    case none: None
    show thesis
    proof (cases "\<exists>u tk a. cr = Inr u \<and> tokens_Get tok s1 = Inr tk \<and> resolveSettlementAccount m (currency amt) s1 = Inr a")
      case False
      then have "s' = s1 \<and> (\<exists>e. res = Inl e)" using assms none cr
        by (cases cr; cases "tokens_Get tok s1"; cases "resolveSettlementAccount m (currency amt) s1")
           (auto simp: charges_Create_def)
      then show thesis using refused [of k] s1 by blast
    next
      case True
      then obtain u tk a where ok: "cr = Inr u" "tokens_Get tok s1 = Inr tk" "resolveSettlementAccount m (currency amt) s1 = Inr a" by blast
      obtain et s2 where send: "ext_send c DirectionInbound a cardRail (counterparty_of tk) amt key None s1 = (et, s2)" by fastforce
      show thesis
      proof (rule sent)
        show "find_row tk_id tok (tokens s) = Some tk" using ok(2) by (simp add: tokens_Get_def s1 split: option.splits)
        show "resolveSettlementAccount m (currency amt) s = Inr a" using ok(3) acc by simp
        show "ext_send c DirectionInbound a cardRail (counterparty_of tk) amt key None (s\<lparr>res_cache := k\<rparr>) = (et, s2)"
          using send unfolding s1 .
        show "case et of Inl e \<Rightarrow> res = Inl e \<and> s' = s2 | Inr t \<Rightarrow> charge_record c m mode tok a amt key (et_id t) s2 = (res, s')"
          using assms by (cases et) (simp_all add: charges_Create_def SendInbound_def none cr ok send)
      qed
    qed
  qed
qed

lemma payouts_Create_cases:
  assumes "payouts_Create c m mode rn rcp amt key s = (res, s')"
  obtains (same) "s' = s" "payouts_getByIdempotencyKey m key s \<noteq> None" | (refused) k where "s' = s\<lparr>res_cache := k\<rparr>" "\<exists>e. res = Inl e"
  | (sent) k acc et s2 where "rn \<in> set rail_names" "resolveSettlementAccount m (currency amt) s = Inr acc"
      "ext_send c DirectionOutbound acc rn rcp amt key None (s\<lparr>res_cache := k\<rparr>) = (et, s2)"
      "case et of Inl e \<Rightarrow> res = Inl e \<and> s' = s2 | Inr t \<Rightarrow> payout_record c m mode acc rn rcp amt key (et_id t) s2 = (res, s')"
proof -
  obtain cr s1 where cr: "res_Check c [Feature ''payout'', Merchant m] s = (cr, s1)" by fastforce
  obtain k where s1: "s1 = s\<lparr>res_cache := k\<rparr>" using res_Check_cases cr by (metis snd_conv)
  have acc: "resolveSettlementAccount m (currency amt) s1 = resolveSettlementAccount m (currency amt) s"
    by (simp add: resolveSettlementAccount_def s1)
  show thesis
  proof (cases "payouts_getByIdempotencyKey m key s")
    case (Some ch)
    then show thesis using assms same by (simp add: payouts_Create_def)
  next
    case none: None
    show thesis
    proof (cases "\<exists>u r a. cr = Inr u \<and> registry_Get rn = Inr r \<and> resolveSettlementAccount m (currency amt) s1 = Inr a")
      case False
      then have "s' = s1 \<and> (\<exists>e. res = Inl e)" using assms none cr
        by (cases cr; cases "registry_Get rn"; cases "resolveSettlementAccount m (currency amt) s1")
           (auto simp: payouts_Create_def)
      then show thesis using refused [of k] s1 by blast
    next
      case True
      then obtain u r a where ok: "cr = Inr u" "registry_Get rn = Inr r" "resolveSettlementAccount m (currency amt) s1 = Inr a" by blast
      obtain et s2 where send: "ext_send c DirectionOutbound a rn rcp amt key None s1 = (et, s2)" by fastforce
      show thesis
      proof (rule sent)
        show "rn \<in> set rail_names" using ok(2) by (simp add: registry_Get_def split: if_splits)
        show "resolveSettlementAccount m (currency amt) s = Inr a" using ok(3) acc by simp
        show "ext_send c DirectionOutbound a rn rcp amt key None (s\<lparr>res_cache := k\<rparr>) = (et, s2)"
          using send unfolding s1 .
        show "case et of Inl e \<Rightarrow> res = Inl e \<and> s' = s2 | Inr t \<Rightarrow> payout_record c m mode a rn rcp amt key (et_id t) s2 = (res, s')"
          using assms by (cases et) (simp_all add: payouts_Create_def SendOutbound_def none cr ok send)
      qed
    qed
  qed
qed

text \<open>What \<open>send\<close> returns is a row of the table, under the caller's key.\<close>

lemma ext_send_row:
  assumes "ext_send c dir a rn cp amt key bid s = (Inr t, s')" and "ext_inv s"
  shows "find_row et_id (et_id t) (ext_transfers s') = Some t" and "et_key t = key"
proof -
  have d: "distinct (map et_id (ext_transfers s'))" using ext_send_inv [OF assms] by (simp add: ext_inv_def)
  have ins: "t \<in> set (ext_transfers s') \<and> et_key t = key"
    if "ext_insert c dir a rn cp amt key h bid s1 = (Inr t, s')" for h s1
    using ext_insert_cases [OF that] by auto
  have "t \<in> set (ext_transfers s') \<and> et_key t = key"
  proof (cases "ext_getByIdempotencyKey key s")
    case (Some x)
    then show ?thesis using assms(1) find_row_Some by (fastforce simp: ext_send_def ext_getByIdempotencyKey_def)
  next
    case None
    then show ?thesis using assms(1) ins by (auto simp: ext_send_def split: prod.splits sum.splits if_splits)
  qed
  then show "find_row et_id (et_id t) (ext_transfers s') = Some t" "et_key t = key"
    using find_row_distinct [OF d] by simp_all
qed

subsection \<open>Reachable states\<close>

definition merchant_all :: "'z merchant_db_scheme \<Rightarrow> bool" where
  "merchant_all s \<longleftrightarrow> merchant_inv s \<and> ext_inv s \<and> distinct (map a_id (accounts s))"

lemma merchant_all_cache [simp]: "merchant_all (s\<lparr>res_cache := k\<rparr>) = merchant_all s"
  by (simp add: merchant_all_def)

lemma merchant_all_ext_step: "ext_step s s' \<Longrightarrow> merchant_all s \<Longrightarrow> merchant_all s'"
  using ext_step_fixed [of s s'] by (auto simp: merchant_all_def intro: merchant_inv_ext_step ext_step_inv)

lemma record_ext:
  "charge_record c m mode tok acc amt key et s = (res, s') \<Longrightarrow>
     ext_transfers s' = ext_transfers s \<and> holds s' = holds s \<and> idem_keys s' = idem_keys s \<and> accounts s' = accounts s"
  "payout_record c m mode acc rn rcp amt key et s = (res', s') \<Longrightarrow>
     ext_transfers s' = ext_transfers s \<and> holds s' = holds s \<and> idem_keys s' = idem_keys s \<and> accounts s' = accounts s"
  by (auto elim: charge_record_cases payout_record_cases)

text \<open>The account a call resolves stays the merchant's, whatever the external payment does.\<close>

lemma sent_account:
  assumes all: "merchant_all s" and acc: "resolveSettlementAccount m cur s = Inr i"
    and step: "ext_step (s\<lparr>res_cache := k\<rparr>) s2"
  shows "\<exists>a. find_row a_id i (accounts s2) = Some a \<and> a_owner a = m"
proof -
  from acc obtain a where a: "a \<in> set (accounts s)" "a_id a = i" "a_owner a = m" by (rule settlement_account)
  have "find_row a_id i (accounts s) = Some a"
    using find_row_distinct [of a_id "accounts s" a] all a by (simp add: merchant_all_def)
  then show ?thesis using ext_step_fixed [OF step] a(3) by simp
qed

lemma charges_Create_all:
  assumes run: "charges_Create c m mode tok amt key s = (res, s')" and all: "merchant_all s"
  shows "merchant_all s'"
  using run
proof (cases rule: charges_Create_cases)
  case (sent k tk acc et s2)
  have step: "ext_step (s\<lparr>res_cache := k\<rparr>) s2" using sent(3) by (rule x_send)
  have all2: "merchant_all s2" using merchant_all_ext_step [OF step] all by simp
  show ?thesis
  proof (cases et)
    case (Inr t)
    have "ext_inv (s\<lparr>res_cache := k\<rparr>)" using all by (simp add: merchant_all_def)
    note t = ext_send_row [OF sent(3) [unfolded Inr] this]
    have rec: "charge_record c m mode tok acc amt key (et_id t) s2 = (res, s')" using sent(4) Inr by simp
    have "merchant_inv s'"
      using charge_record_inv [OF rec _ sent_account [OF all sent(2) step]] all2 t by (simp add: merchant_all_def)
    moreover have "ext_inv s' = ext_inv s2" by (rule ext_inv_cong) (simp_all add: record_ext(1) [OF rec])
    ultimately show ?thesis using all2 record_ext(1) [OF rec] by (simp add: merchant_all_def)
  qed (use sent(4) all2 in simp)
qed (use all in simp_all)

lemma payouts_Create_all:
  assumes run: "payouts_Create c m mode rn rcp amt key s = (res, s')" and all: "merchant_all s"
  shows "merchant_all s'"
  using run
proof (cases rule: payouts_Create_cases)
  case (sent k acc et s2)
  have step: "ext_step (s\<lparr>res_cache := k\<rparr>) s2" using sent(3) by (rule x_send)
  have all2: "merchant_all s2" using merchant_all_ext_step [OF step] all by simp
  show ?thesis
  proof (cases et)
    case (Inr t)
    have "ext_inv (s\<lparr>res_cache := k\<rparr>)" using all by (simp add: merchant_all_def)
    note t = ext_send_row [OF sent(3) [unfolded Inr] this]
    have rec: "payout_record c m mode acc rn rcp amt key (et_id t) s2 = (res, s')" using sent(4) Inr by simp
    have "merchant_inv s'"
      using payout_record_inv [OF rec _ sent_account [OF all sent(2) step] sent(1)] all2 t by (simp add: merchant_all_def)
    moreover have "ext_inv s' = ext_inv s2" by (rule ext_inv_cong) (simp_all add: record_ext(2) [OF rec])
    ultimately show ?thesis using all2 record_ext(2) [OF rec] by (simp add: merchant_all_def)
  qed (use sent(4) all2 in simp)
qed (use all in simp_all)

lemma tokens_Create_all:
  assumes run: "tokens_Create c m mode pan key s = (res, s')" and all: "merchant_all s"
  shows "merchant_all s'"
proof (cases "s' = s")
  case False
  define tk where "tk = \<lparr>tk_id = gen c 14, tk_merchant = m, tk_mode = mode,
     tk_masked = ''**** **** **** '' @ drop (length pan - 4) pan, tk_brand = detectBrand pan,
     tk_will_fail = (drop (length pan - 4) pan = declineSuffix), tk_key = key, tk_created = now c\<rparr>"
  have "\<not> key_taken tk_id (gen c 14) (tokens s) \<and> s' = s\<lparr>tokens := tokens s @ [tk]\<rparr>"
    using run False unfolding tokens_Create_def Let_def tk_def [symmetric] by (simp split: option.splits if_splits)
  then have new: "\<not> key_taken tk_id (tk_id tk) (tokens s)" and s': "s' = s\<lparr>tokens := tokens s @ [tk]\<rparr>"
    by (simp_all add: tk_def)
  have "merchant_inv s'"
    by (rule merchant_inv_grows [of s]) (use all new in \<open>simp_all add: merchant_all_def s' merchant_inv_def distinct_snoc_key del: map_append\<close>)
  moreover have "ext_inv s' = ext_inv s" by (rule ext_inv_cong) (simp_all add: s')
  ultimately show ?thesis using all by (simp add: merchant_all_def s')
qed (use all in simp)

lemma OpenAccount_all:
  assumes run: "OpenAccount c ow ty cur od s = (res, s')" and all: "merchant_all s"
  shows "merchant_all s'"
proof (cases "s' = s")
  case False
  with run obtain cur3 where cur: "char3 cur = Inr cur3" by (cases "char3 cur") (simp_all add: OpenAccount_def)
  define a where "a = \<lparr>a_id = gen c 0, a_owner = ow, a_type = ty, a_currency = cur3, a_state = AccountStateOpen,
     a_overdraft = od, a_created = now c\<rparr>"
  have "\<not> key_taken a_id (gen c 0) (accounts s) \<and> s' = s\<lparr>accounts := accounts s @ [a]\<rparr>"
    using run False cur unfolding OpenAccount_def Let_def a_def by (simp split: if_splits)
  then have new: "\<not> key_taken a_id (a_id a) (accounts s)" and s': "s' = s\<lparr>accounts := accounts s @ [a]\<rparr>"
    by (simp_all add: a_def)
  have grows: "merchant_grows s s'" by (auto simp: merchant_grows_def s' find_row_append)
  have "merchant_inv s'"
    by (rule merchant_inv_grows [OF _ grows]) (use all in \<open>simp_all add: merchant_all_def s' merchant_inv_def\<close>)
  moreover have "ext_inv s' = ext_inv s" by (rule ext_inv_cong) (simp_all add: s')
  ultimately show ?thesis using all new by (simp add: merchant_all_def s' distinct_snoc_key del: map_append)
qed (use all in simp)

lemma TransitionAccountState_all:
  assumes run: "TransitionAccountState a st s = (res, s')" and all: "merchant_all s"
  shows "merchant_all s'"
proof (cases "s' = s")
  case False
  with run have s': "s' = s\<lparr>accounts := update_row a_id a (\<lambda>r. r\<lparr>a_state := st\<rparr>) (accounts s)\<rparr>"
    by (auto simp: TransitionAccountState_def split: option.splits if_splits)
  have grows: "merchant_grows s s'" by (auto simp: merchant_grows_def s' account_state_col.find)
  have "merchant_inv s'"
    by (rule merchant_inv_grows [OF _ grows]) (use all in \<open>simp_all add: merchant_all_def s' merchant_inv_def\<close>)
  moreover have "ext_inv s' = ext_inv s" by (rule ext_inv_cong) (simp_all add: s')
  ultimately show ?thesis using all by (simp add: merchant_all_def s' account_state_col.keys)
qed (use all in simp)

text \<open>
  The insert of a row is a step of its own too: another call may have run between the transfer
  and the insert.
\<close>

inductive merchant_step :: "'z merchant_db_scheme \<Rightarrow> 'z merchant_db_scheme \<Rightarrow> bool" where
  mc_token: "tokens_Create c m mode pan key s = (res, s') \<Longrightarrow> merchant_step s s'"
| mc_charge: "charges_Create c m mode tok amt key s = (res, s') \<Longrightarrow> merchant_step s s'"
| mc_payout: "payouts_Create c m mode rn rcp amt key s = (res, s') \<Longrightarrow> merchant_step s s'"
| mc_late_charge: "charge_record c m mode tok acc amt key et s = (res, s') \<Longrightarrow>
    \<exists>a. find_row a_id acc (accounts s) = Some a \<and> a_owner a = m \<Longrightarrow>
    \<exists>t. find_row et_id et (ext_transfers s) = Some t \<and> et_key t = key \<Longrightarrow> merchant_step s s'"
| mc_late_payout: "payout_record c m mode acc rn rcp amt key et s = (res, s') \<Longrightarrow> rn \<in> set rail_names \<Longrightarrow>
    \<exists>a. find_row a_id acc (accounts s) = Some a \<and> a_owner a = m \<Longrightarrow>
    \<exists>t. find_row et_id et (ext_transfers s) = Some t \<and> et_key t = key \<Longrightarrow> merchant_step s s'"
| mc_ext: "ext_step s s' \<Longrightarrow> merchant_step s s'"
| mc_open: "OpenAccount c ow ty cur od s = (res, s') \<Longrightarrow> merchant_step s s'"
| mc_state: "TransitionAccountState a st s = (res, s') \<Longrightarrow> merchant_step s s'"

inductive merchant_reachable :: "'z merchant_db_scheme \<Rightarrow> bool" where
  merchant_init: "ext_start s \<Longrightarrow> tokens s = [] \<Longrightarrow> charges s = [] \<Longrightarrow> payouts s = [] \<Longrightarrow>
    distinct (map a_id (accounts s)) \<Longrightarrow> merchant_reachable s"
| merchant_next: "merchant_reachable s \<Longrightarrow> merchant_step s s' \<Longrightarrow> merchant_reachable s'"

lemma merchant_step_all: "merchant_step s s' \<Longrightarrow> merchant_all s \<Longrightarrow> merchant_all s'"
proof (induction rule: merchant_step.induct)
  case (mc_late_charge c m mode tok acc amt key et s res s')
  note rec = mc_late_charge.hyps(1)
  have "merchant_inv s'"
    using charge_record_inv [OF rec _ mc_late_charge.hyps(2,3)] mc_late_charge.prems by (simp add: merchant_all_def)
  moreover have "ext_inv s' = ext_inv s" by (rule ext_inv_cong) (simp_all add: record_ext(1) [OF rec])
  ultimately show ?case using mc_late_charge.prems record_ext(1) [OF rec] by (simp add: merchant_all_def)
next
  case (mc_late_payout c m mode acc rn rcp amt key et s res s')
  note rec = mc_late_payout.hyps(1)
  have "merchant_inv s'"
    using payout_record_inv [OF rec _ mc_late_payout.hyps(3,2,4)] mc_late_payout.prems by (simp add: merchant_all_def)
  moreover have "ext_inv s' = ext_inv s" by (rule ext_inv_cong) (simp_all add: record_ext(2) [OF rec])
  ultimately show ?case using mc_late_payout.prems record_ext(2) [OF rec] by (simp add: merchant_all_def)
qed (blast intro: tokens_Create_all charges_Create_all payouts_Create_all merchant_all_ext_step OpenAccount_all
    TransitionAccountState_all)+

lemma merchant_reachable_all: "merchant_reachable s \<Longrightarrow> merchant_all s"
proof (induction rule: merchant_reachable.induct)
  case (merchant_init s)
  then show ?case using ext_start_inv by (auto simp: merchant_all_def merchant_inv_def)
qed (rule merchant_step_all)

subsection \<open>Properties\<close>

text \<open>
  C21. The tables of the public API stay well-typed.  In every reachable state, with calls of any
  merchants interleaved between the transfer and its row: charge and payout ids are unique, each
  merchant has at most one row per idempotency key, and every row points to a token, to an
  account its merchant owns and to an external transfer queued under the same key, names a rail the
  registry knows, and has a positive amount in a three-letter currency.
\<close>

theorem merchant_rows_typed:
  assumes "merchant_reachable s"
  shows "distinct (map ch_id (charges s)) \<and> distinct (map ch_mkey (charges s)) \<and> (\<forall>r\<in>set (charges s). charge_ok s r)
    \<and> distinct (map po_id (payouts s)) \<and> distinct (map po_mkey (payouts s)) \<and> (\<forall>r\<in>set (payouts s). payout_ok s r)"
  using merchant_reachable_all [OF assms] by (simp add: merchant_all_def merchant_inv_def)

lemma ext_send_inbound:
  assumes run: "ext_send c DirectionInbound acc rn cp amt key None s = (Inr t, s2)"
    and new: "\<not> key_taken et_key key (ext_transfers s)"
  obtains k where "s2 = s\<lparr>res_cache := k, ext_transfers := ext_transfers s @ [t]\<rparr>" and "et_direction t = DirectionInbound"
    and "et_account t = acc" and "et_counterparty t = cp" and "et_amount t = minor amt" and "et_status t = StatusPending"
    and "et_rail t = rn" and "et_risk t = RiskClear"
proof -
  obtain cr s1 where cr: "res_Check c [Feature ''external_payment'', Integration rn] s = (cr, s1)" by fastforce
  obtain k where s1: "s1 = s\<lparr>res_cache := k\<rparr>" using res_Check_cases cr by (metis snd_conv)
  have "ext_getByIdempotencyKey key s = None" using new by (simp add: ext_getByIdempotencyKey_def find_row_None)
  with run cr have ins: "ext_insert c DirectionInbound acc rn cp amt key None None s1 = (Inr t, s2)"
    by (simp add: ext_send_def split: sum.splits)
  then have "s2 = s1\<lparr>ext_transfers := ext_transfers s1 @ [t]\<rparr>" and t: "et_direction t = DirectionInbound" "et_account t = acc"
    "et_counterparty t = cp" "et_amount t = minor amt" "et_status t = StatusPending" "et_rail t = rn" "et_risk t = RiskClear"
    by (auto simp: ext_insert_def Let_def split: sum.splits if_splits)
  then show thesis using that [of k] s1 by simp
qed

lemma charge_found:
  assumes "\<not> key_taken ch_mkey (ch_mkey b) (charges s)" and "charges s' = charges s @ [charge_row_of b]"
    and "find_row et_id (ch_transfer b) (ext_transfers s') = Some t" and "et_status t = StatusPending"
  shows "charges_getByIdempotencyKey (ch_merchant b) (ch_key b) s' = Some (charge_base.extend b (charge.fields PayPending))"
proof -
  have "charge_base.truncate (charge_row_of b) = b" by (simp add: charge_base.defs charge_row.defs)
  moreover have "find_row ch_mkey (ch_merchant b, ch_key b) (charges s') = Some (charge_row_of b)"
    using assms(1,2) by (simp add: find_row_append find_row_Cons ch_mkey_def find_row_None [symmetric])
  ultimately show ?thesis
    using assms(3,4) by (simp add: charges_getByIdempotencyKey_def charge_of_def statusFromExternalTransfer_def)
qed

text \<open>
  What a first charge does.  It queues exactly one inbound transfer of the amount to an open
  account of the merchant in that currency, marked to fail when the token's card declines,
  records the charge as pending and moves no money; a retry under the same key, with whatever
  arguments, returns the same charge and changes nothing.  The token may be anyone's.
\<close>

theorem charge_created:
  assumes reach: "merchant_reachable s" and run: "charges_Create c m mode tok amt key s = (Inr ch, s')"
    and first: "\<not> key_taken ch_mkey (m, key) (charges s)" "\<not> key_taken et_key key (ext_transfers s)"
  shows "\<exists>tk a t k. find_row tk_id tok (tokens s) = Some tk
    \<and> a \<in> set (accounts s) \<and> a_owner a = m \<and> a_currency a = currency amt \<and> a_state a = AccountStateOpen
    \<and> s' = s\<lparr>res_cache := k, ext_transfers := ext_transfers s @ [t],
             charges := charges s @ [charge_row_of (charge_base.truncate ch)]\<rparr>
    \<and> et_direction t = DirectionInbound \<and> et_account t = a_id a \<and> et_amount t = minor amt \<and> et_status t = StatusPending
    \<and> et_counterparty t = ''card:'' @ tok @ (if tk_will_fail tk then '':RAILFAIL'' else '''')
    \<and> ch_merchant ch = m \<and> ch_token ch = tok \<and> ch_transfer ch = et_id t \<and> minor (ch_amount ch) = minor amt
    \<and> 0 < minor amt \<and> ch_status ch = PayPending \<and> charges_Create c' m mode' tok' amt' key s' = (Inr ch, s')"
proof -
  have all: "merchant_all s" by (rule merchant_reachable_all [OF reach])
  have none: "charges_getByIdempotencyKey m key s = None"
    using first(1) by (simp add: charges_getByIdempotencyKey_def find_row_None [symmetric])
  from run show ?thesis
  proof (cases rule: charges_Create_cases)
    case (sent k tk acc et s2)
    then obtain t where et: "et = Inr t" and rec: "charge_record c m mode tok acc amt key (et_id t) s2 = (Inr ch, s')"
      by (cases et) auto
    have send: "ext_send c DirectionInbound acc cardRail (counterparty_of tk) amt key None (s\<lparr>res_cache := k\<rparr>) = (Inr t, s2)"
      using sent(3) et by simp
    have "ext_inv (s\<lparr>res_cache := k\<rparr>)" using all by (simp add: merchant_all_def)
    note row = ext_send_row [OF send this]
    from first(2) obtain k' where s2: "s2 = s\<lparr>res_cache := k', ext_transfers := ext_transfers s @ [t]\<rparr>"
      and t: "et_direction t = DirectionInbound" "et_account t = acc" "et_counterparty t = counterparty_of tk"
        "et_amount t = minor amt" "et_status t = StatusPending"
      using ext_send_inbound [OF send] by auto
    from sent(2) obtain a where a: "a \<in> set (accounts s)" "a_id a = acc" "a_owner a = m" "a_currency a = currency amt"
      "a_state a = AccountStateOpen" by (rule settlement_account)
    have fresh: "\<not> key_taken ch_mkey (m, key) (charges s2)" using first(1) by (simp add: s2)
    from rec show ?thesis
    proof (cases rule: charge_record_cases)
      case (new b cur3)
      have bf: "ch_merchant b = m" "ch_key b = key" "ch_transfer b = et_id t" "ch_token b = tok" "minor (ch_amount b) = minor amt"
        by (simp_all add: new(1) new_charge_def)
      have ch: "ch = charge_base.extend b (charge.fields PayPending)" using new(3) by simp
      have found: "charges_getByIdempotencyKey m key s' = Some ch"
        using charge_found [OF new(5), of s' t] row(1) t(5) by (simp add: new(2) bf ch)
      have tr: "charge_base.truncate ch = b" "ch_merchant ch = m" "ch_token ch = tok" "ch_transfer ch = et_id t"
        "minor (ch_amount ch) = minor amt" "ch_status ch = PayPending"
        using bf by (simp_all add: ch charge_base.defs charge.defs)
      have "tk_id tk = tok" by (rule find_row_key [OF sent(1)])
      then have cp: "et_counterparty t = ''card:'' @ tok @ (if tk_will_fail tk then '':RAILFAIL'' else '''')"
        by (simp add: t(3) counterparty_of_def railFailMarker_def)
      have s': "s' = s\<lparr>res_cache := k', ext_transfers := ext_transfers s @ [t],
             charges := charges s @ [charge_row_of (charge_base.truncate ch)]\<rparr>"
        unfolding tr(1) new(2) s2 by simp
      have retry: "charges_Create c' m mode' tok' amt' key s' = (Inr ch, s')" by (simp add: charges_Create_def found)
      show ?thesis using sent(1) a t(1,2,4,5) cp s' new(7) tr(2-6) retry by blast
    qed (use fresh in simp)
  qed (use none in simp_all)
qed

definition merch_seed :: merchant_db where
  "merch_seed = ext_db.extend sample_ext (merchant_db.fields [] [] [])"

text \<open>Merchant \<open>A\<close> tokenizes a card, and so does \<open>B\<close>.\<close>

definition merch_tokens :: merchant_db where
  "merch_tokens = snd (tokens_Create (call 2) ''B'' ModeLive ''5555555555554444'' ''t1''
     (snd (tokens_Create (call 1) ''A'' ModeLive ''4242424242424242'' ''t1'' merch_seed)))"

lemma merch_tokens_reachable: "merchant_reachable merch_tokens"
proof -
  have start: "merchant_reachable merch_seed"
    by (rule merchant_init) (use sample_ext_start in \<open>simp_all add: merch_seed_def ext_start_def capture_inv_def
        ext_db.defs merchant_db.defs sample_ext_def resil_db.defs ledger_db.defs sample_ledger_def sample_tables\<close>)
  show ?thesis unfolding merch_tokens_def
    by (rule merchant_next [OF merchant_next [OF start mc_token [OF prod.collapse [symmetric]]] mc_token [OF prod.collapse [symmetric]]])
qed

text \<open>\<open>A\<close> charges 60 under the key \<open>k1\<close>, then \<open>B\<close> charges 10 under the same key.\<close>

definition merch_first :: merchant_db where
  "merch_first = snd (charges_Create (call 3) ''A'' ModeLive ''Bo'' (ngn 60) ''k1'' merch_tokens)"

definition merch_both :: merchant_db where
  "merch_both = snd (charges_Create (call 4) ''B'' ModeLive ''Co'' (ngn 10) ''k1'' merch_first)"

lemma merch_both_reachable: "merchant_reachable merch_both"
  unfolding merch_both_def merch_first_def
  by (rule merchant_next [OF merchant_next [OF merch_tokens_reachable mc_charge [OF prod.collapse [symmetric]]]
        mc_charge [OF prod.collapse [symmetric]]])

theorem merchant_rows_typed_witness:
  "\<exists>r\<in>set (charges merch_both). ch_merchant r = ''B'' \<and> charge_ok merch_both r"
proof -
  have "map ch_merchant (charges merch_both) = [''A'', ''B'']"
    unfolding merch_both_def merch_first_def merch_tokens_def by code_simp
  then have "''B'' \<in> set (map ch_merchant (charges merch_both))" by simp
  then obtain r where "r \<in> set (charges merch_both)" "ch_merchant r = ''B''" by auto
  with merchant_rows_typed [OF merch_both_reachable] show ?thesis by blast
qed

theorem charge_created_witness:
  "\<exists>ch s'. charges_Create (call 3) ''B'' ModeLive ''Bo'' (ngn 60) ''k9'' merch_tokens = (Inr ch, s')
     \<and> (\<exists>tk\<in>set (tokens merch_tokens). tk_id tk = ''Bo'' \<and> tk_merchant tk = ''A'')
     \<and> charges_Create (call 7) ''B'' ModeSandbox ''x'' (ngn 1) ''k9'' s' = (Inr ch, s')"
proof -
  let ?f = "charges_Create (call 3) ''B'' ModeLive ''Bo'' (ngn 60) ''k9'' merch_tokens"
  have "case fst ?f of Inr ch \<Rightarrow> True | Inl e \<Rightarrow> False" unfolding merch_tokens_def by code_simp
  then obtain ch where run: "?f = (Inr ch, snd ?f)" by (cases ?f) (auto split: sum.splits)
  have fresh: "\<not> key_taken ch_mkey (''B'', ''k9'') (charges merch_tokens)" "\<not> key_taken et_key ''k9'' (ext_transfers merch_tokens)"
    unfolding merch_tokens_def by code_simp+
  have "map (\<lambda>tk. (tk_id tk, tk_merchant tk)) (tokens merch_tokens) = [(''Bo'', ''A''), (''Co'', ''B'')]"
    unfolding merch_tokens_def by code_simp
  then have "\<exists>tk\<in>set (tokens merch_tokens). tk_id tk = ''Bo'' \<and> tk_merchant tk = ''A''" by auto
  moreover have "charges_Create (call 7) ''B'' ModeSandbox ''x'' (ngn 1) ''k9'' (snd ?f) = (Inr ch, snd ?f)"
    using charge_created [OF merch_tokens_reachable run fresh, of "call 7" ModeSandbox "''x''" "ngn 1"] by blast
  ultimately show ?thesis using run by blast
qed


end
