(* ===== verification/Fees.thy ===== *)
theory Fees
  imports MerchantProps
begin

section \<open>Fees\<close>

text \<open>
  \<open>internal/fees\<close> (fees.go, apply.go): the most specific rule of the price list, the fee and tax
  it gives in \<open>int64\<close> arithmetic, and the worker that posts the fee of each completed charge and
  payout.  The transfer of the fee and the row that records it are two transactions; the halves
  are definitions of their own.  The \<open>LIMIT 50\<close> of the worker's query has no order: \<open>pick\<close>, with
  the law \<open>limit_ok\<close>, says which rows it takes.
\<close>

definition PlatformFeesAccountNGN :: uuid where
  "PlatformFeesAccountNGN = ''00000000-0000-0000-0000-000000000003''"

datatype flow = FlowCharge | FlowPayout

record breakdown =
  bd_rule :: string
  bd_fee :: int
  bd_tax :: int
  bd_total :: int

record fee_rule =
  fr_id :: uuid
  fr_merchant :: "uuid option"
  fr_flow :: flow
  fr_rail :: string
  fr_currency :: string
  fr_min :: int
  fr_max :: "int option"
  fr_percent_bps :: int
  fr_fixed :: int
  fr_cap :: "int option"
  fr_tax_bps :: int
  fr_active :: bool

record fee_charge =
  fc_id :: uuid
  fc_type :: flow
  fc_source :: uuid
  fc_rule :: "uuid option"
  fc_fee :: int
  fc_tax :: int
  fc_total :: int
  fc_currency :: string
  fc_txn :: "uuid option"
  fc_created :: int

record fee_db = merchant_db +
  fee_rules :: "fee_rule list"
  fee_charges :: "fee_charge list"

subsection \<open>fees.go\<close>

definition rule_applies :: "uuid \<Rightarrow> flow \<Rightarrow> string \<Rightarrow> string \<Rightarrow> int \<Rightarrow> fee_rule \<Rightarrow> bool" where
  "rule_applies merchantID fl rail cur amountMinor r \<longleftrightarrow> fr_active r \<and> fr_flow r = fl \<and> fr_currency r = cur
    \<and> (fr_rail r = rail \<or> fr_rail r = ''*'') \<and> fr_min r \<le> amountMinor
    \<and> (case fr_max r of None \<Rightarrow> True | Some mx \<Rightarrow> amountMinor \<le> mx)
    \<and> (case fr_merchant r of None \<Rightarrow> True | Some m \<Rightarrow> m = merchantID)"

text \<open>The sort key: a merchant's own rule before a default one, then an exact rail before the wildcard.\<close>

definition specificity :: "fee_rule \<Rightarrow> nat" where
  "specificity r = (if fr_merchant r \<noteq> None then 2 else 0) + (if fr_rail r \<noteq> ''*'' then 1 else 0)"

text \<open>\<open>ORDER BY ... LIMIT 1\<close>; between equals, which Postgres leaves open, the earlier row here.\<close>

fun best_rule :: "fee_rule list \<Rightarrow> fee_rule option" where
  "best_rule [] = None"
| "best_rule (r # rs) =
    (case best_rule rs of None \<Rightarrow> Some r | Some q \<Rightarrow> Some (if specificity r < specificity q then q else r))"

definition breakdown_of :: "fee_rule \<Rightarrow> int \<Rightarrow> breakdown" where
  "breakdown_of r amountMinor =
    (let fee0 = wrap64 (go_quot (wrap64 (amountMinor * fr_percent_bps r)) 10000 + fr_fixed r);
         fee = (case fr_cap r of None \<Rightarrow> fee0 | Some cap \<Rightarrow> if fee0 > cap then cap else fee0);
         tax = go_quot (wrap64 (fee * fr_tax_bps r)) 10000
     in \<lparr>bd_rule = fr_id r, bd_fee = fee, bd_tax = tax, bd_total = wrap64 (fee + tax)\<rparr>)"

definition fees_Resolve :: "uuid \<Rightarrow> flow \<Rightarrow> string \<Rightarrow> string \<Rightarrow> int \<Rightarrow> 'z fee_db_scheme \<Rightarrow> breakdown" where
  "fees_Resolve merchantID fl rail cur amountMinor s =
    (case best_rule (filter (rule_applies merchantID fl rail cur amountMinor) (fee_rules s)) of
       None \<Rightarrow> \<lparr>bd_rule = '''', bd_fee = 0, bd_tax = 0, bd_total = 0\<rparr>
     | Some r \<Rightarrow> breakdown_of r amountMinor)"

subsection \<open>apply.go\<close>

definition applyBatchSize :: nat where "applyBatchSize = 50"

record feeable_row =
  fe_source :: uuid
  fe_merchant :: uuid
  fe_account :: uuid
  fe_amount :: int
  fe_currency :: string
  fe_rail :: string

fun source_type_str :: "flow \<Rightarrow> string" where
  "source_type_str FlowCharge = ''charge''"
| "source_type_str FlowPayout = ''payout''"

definition fc_key :: "'z fee_charge_scheme \<Rightarrow> flow \<times> uuid" where "fc_key f = (fc_type f, fc_source f)"

text \<open>The query of \<open>applyFor\<close> before its limit: completed, and without a fee.\<close>

definition feeable_of :: "'z fee_db_scheme \<Rightarrow> flow \<Rightarrow> uuid \<Rightarrow> uuid \<Rightarrow> uuid \<Rightarrow> uuid \<Rightarrow> money \<Rightarrow> feeable_row option" where
  "feeable_of s fl src merchantID accountID etID amount =
    (case find_row et_id etID (ext_transfers s) of
       None \<Rightarrow> None
     | Some et \<Rightarrow>
        if et_status et \<noteq> StatusCompleted \<or> key_taken fc_key (fl, src) (fee_charges s) then None
        else Some \<lparr>fe_source = src, fe_merchant = merchantID, fe_account = accountID, fe_amount = minor amount,
                   fe_currency = currency amount, fe_rail = et_rail et\<rparr>)"

definition feeable :: "flow \<Rightarrow> 'z fee_db_scheme \<Rightarrow> feeable_row list" where
  "feeable fl s =
    (case fl of
       FlowCharge \<Rightarrow> List.map_filter
         (\<lambda>c. feeable_of s fl (ch_id c) (ch_merchant c) (ch_account c) (ch_transfer c) (ch_amount c)) (charges s)
     | FlowPayout \<Rightarrow> List.map_filter
         (\<lambda>p. feeable_of s fl (po_id p) (po_merchant p) (po_account p) (po_transfer p) (po_amount p)) (payouts s))"

definition fee_idem_key :: "flow \<Rightarrow> uuid \<Rightarrow> string" where
  "fee_idem_key fl src = ''fee:'' @ source_type_str fl @ '':'' @ src"

definition fee_transfer :: "ctx \<Rightarrow> flow \<Rightarrow> feeable_row \<Rightarrow> breakdown \<Rightarrow> 'z fee_db_scheme
    \<Rightarrow> (gerror + uuid option) \<times> 'z fee_db_scheme" where
  "fee_transfer c fl item b s =
    (if bd_total b > 0
     then (case NewMoney (bd_total b) (fe_currency item) of
             Inl e \<Rightarrow> (Inl e, s)
           | Inr amount \<Rightarrow>
              (case Transfer c (fe_account item) PlatformFeesAccountNGN amount (fee_idem_key fl (fe_source item)) s of
                 (Inl e, s1) \<Rightarrow> (Inl e, s1)
               | (Inr t, s1) \<Rightarrow> (Inr (Some (t_id t)), s1)))
     else (Inr None, s))"

definition fee_record :: "ctx \<Rightarrow> flow \<Rightarrow> feeable_row \<Rightarrow> breakdown \<Rightarrow> uuid option \<Rightarrow> 'z fee_db_scheme
    \<Rightarrow> (gerror + unit) \<times> 'z fee_db_scheme" where
  "fee_record c fl item b txn s =
    (case char3 (fe_currency item) of
       Inl e \<Rightarrow> (Inl e, s)
     | Inr cur3 \<Rightarrow>
        if bd_fee b < 0 \<or> bd_tax b < 0 \<or> bd_total b < 0 then (Inl SqlCheck, s)
        else if key_taken fc_id (gen c 15) (fee_charges s) \<or> key_taken fc_key (fl, fe_source item) (fee_charges s)
        then (Inl SqlUnique, s)
        else if (bd_rule b \<noteq> '''' \<and> \<not> key_taken fr_id (bd_rule b) (fee_rules s))
              \<or> (case txn of None \<Rightarrow> False | Some t \<Rightarrow> \<not> key_taken t_id t (txns s)) then (Inl SqlForeignKey, s)
        else (Inr (), s\<lparr>fee_charges := fee_charges s @
               [\<lparr>fc_id = gen c 15, fc_type = fl, fc_source = fe_source item,
                 fc_rule = (if bd_rule b \<noteq> '''' then Some (bd_rule b) else None), fc_fee = bd_fee b, fc_tax = bd_tax b,
                 fc_total = bd_total b, fc_currency = cur3, fc_txn = txn, fc_created = now c\<rparr>]\<rparr>))"

definition applyOne :: "ctx \<Rightarrow> flow \<Rightarrow> feeable_row \<Rightarrow> 'z fee_db_scheme \<Rightarrow> (gerror + unit) \<times> 'z fee_db_scheme" where
  "applyOne c fl item s =
    (let b = fees_Resolve (fe_merchant item) fl (fe_rail item) (fe_currency item) (fe_amount item) s
     in case fee_transfer c fl item b s of
          (Inl e, s1) \<Rightarrow> (Inl e, s1)
        | (Inr txn, s1) \<Rightarrow> fee_record c fl item b txn s1)"

fun apply_rows :: "(uuid \<Rightarrow> ctx) \<Rightarrow> flow \<Rightarrow> feeable_row list \<Rightarrow> 'z fee_db_scheme \<Rightarrow> 'z fee_db_scheme" where
  "apply_rows cs fl [] s = s"
| "apply_rows cs fl (r # rs) s = apply_rows cs fl rs (snd (applyOne (cs (fe_source r)) fl r s))"

definition applyFor :: "(nat \<Rightarrow> uuid list \<Rightarrow> uuid list) \<Rightarrow> (uuid \<Rightarrow> ctx) \<Rightarrow> flow \<Rightarrow> 'z fee_db_scheme \<Rightarrow> 'z fee_db_scheme" where
  "applyFor pick cs fl s =
    apply_rows cs fl (List.map_filter (\<lambda>i. find_row fe_source i (feeable fl s))
      (pick applyBatchSize (map fe_source (feeable fl s)))) s"

definition ApplyFees :: "(nat \<Rightarrow> uuid list \<Rightarrow> uuid list) \<Rightarrow> (uuid \<Rightarrow> ctx) \<Rightarrow> 'z fee_db_scheme \<Rightarrow> 'z fee_db_scheme" where
  "ApplyFees pick cs s = applyFor pick cs FlowPayout (applyFor pick cs FlowCharge s)"

text \<open>Migration 00030's default price list and migration 00029's account.\<close>

definition default_fee_rules :: "uuid \<Rightarrow> uuid \<Rightarrow> fee_rule list" where
  "default_fee_rules i j =
    [\<lparr>fr_id = i, fr_merchant = None, fr_flow = FlowCharge, fr_rail = ''*'', fr_currency = ''NGN'', fr_min = 0, fr_max = None,
      fr_percent_bps = 150, fr_fixed = 10000, fr_cap = Some 200000, fr_tax_bps = 750, fr_active = True\<rparr>,
     \<lparr>fr_id = j, fr_merchant = None, fr_flow = FlowPayout, fr_rail = ''*'', fr_currency = ''NGN'', fr_min = 0, fr_max = None,
      fr_percent_bps = 0, fr_fixed = 5000, fr_cap = None, fr_tax_bps = 750, fr_active = True\<rparr>]"

definition platform_account :: account where
  "platform_account = \<lparr>a_id = PlatformFeesAccountNGN, a_owner = ''00000000-0000-0000-0000-000000000000'',
     a_type = AccountTypeSystem, a_currency = ''NGN'', a_state = AccountStateOpen, a_overdraft = 0, a_created = 0\<rparr>"

end
