(* ===== verification/FeeProps.thy ===== *)
theory FeeProps
  imports Fees
begin

section \<open>What a fee is, and that it is taken once\<close>

text \<open>
  First the price list: the rule chosen and the amount it gives.  Then the worker: a crash between the
  transfer of a fee and the row that records it does not charge the fee twice.
\<close>

subsection \<open>The rule and the amount\<close>

lemma best_rule_None: "best_rule rs = None \<longleftrightarrow> rs = []"
  by (cases rs) (auto split: option.splits)

lemma best_rule_Some:
  "best_rule rs = Some r \<Longrightarrow> r \<in> set rs \<and> (\<forall>q\<in>set rs. specificity q \<le> specificity r)"
proof (induction rs arbitrary: r)
  case (Cons q rs)
  show ?case
  proof (cases "best_rule rs")
    case None
    then show ?thesis using Cons.prems by (simp add: best_rule_None)
  next
    case (Some p)
    then show ?thesis using Cons.prems Cons.IH [OF Some] by (fastforce split: if_splits)
  qed
qed simp

text \<open>The price in unbounded integers, and the amounts that stay within \<open>int64\<close> on the way.\<close>

definition exact_fee :: "fee_rule \<Rightarrow> int \<Rightarrow> int" where
  "exact_fee r amt =
    (let fee = amt * fr_percent_bps r div 10000 + fr_fixed r
     in case fr_cap r of None \<Rightarrow> fee | Some cap \<Rightarrow> min cap fee)"

definition exact_tax :: "fee_rule \<Rightarrow> int \<Rightarrow> int" where
  "exact_tax r amt = exact_fee r amt * fr_tax_bps r div 10000"

text \<open>The constraints of migration 00030.\<close>

definition fee_rule_ok :: "fee_rule \<Rightarrow> bool" where
  "fee_rule_ok r \<longleftrightarrow> 0 \<le> fr_percent_bps r \<and> 0 \<le> fr_fixed r \<and> 0 \<le> fr_tax_bps r
    \<and> (case fr_cap r of None \<Rightarrow> True | Some cap \<Rightarrow> 0 \<le> cap)"

definition fee_fits :: "fee_rule \<Rightarrow> int \<Rightarrow> bool" where
  "fee_fits r amt \<longleftrightarrow> amt * fr_percent_bps r \<le> max64 \<and> amt * fr_percent_bps r div 10000 + fr_fixed r \<le> max64
    \<and> exact_fee r amt * fr_tax_bps r \<le> max64 \<and> exact_fee r amt + exact_tax r amt \<le> max64"

lemma in64_nonneg: "0 \<le> x \<Longrightarrow> x \<le> max64 \<Longrightarrow> in64 x"
  by (simp add: in64_def min64_def)

lemma exact_nonneg:
  assumes "fee_rule_ok r" and "0 \<le> amt"
  shows "0 \<le> exact_fee r amt" and "0 \<le> exact_tax r amt"
proof -
  have "0 \<le> amt * fr_percent_bps r div 10000 + fr_fixed r"
    using assms by (simp add: fee_rule_ok_def pos_imp_zdiv_nonneg_iff)
  then show f: "0 \<le> exact_fee r amt"
    using assms by (auto simp: exact_fee_def fee_rule_ok_def Let_def split: option.splits)
  then show "0 \<le> exact_tax r amt"
    using assms by (simp add: exact_tax_def fee_rule_ok_def pos_imp_zdiv_nonneg_iff)
qed

lemma breakdown_exact:
  assumes ok: "fee_rule_ok r" and amt: "0 \<le> amt" and fits: "fee_fits r amt"
  shows "breakdown_of r amt = \<lparr>bd_rule = fr_id r, bd_fee = exact_fee r amt, bd_tax = exact_tax r amt,
    bd_total = exact_fee r amt + exact_tax r amt\<rparr>"
proof -
  note nn = exact_nonneg [OF ok amt]
  have p: "0 \<le> amt * fr_percent_bps r" using ok amt by (simp add: fee_rule_ok_def)
  then have q: "0 \<le> amt * fr_percent_bps r div 10000 + fr_fixed r"
    using ok by (simp add: fee_rule_ok_def pos_imp_zdiv_nonneg_iff)
  have w1: "wrap64 (amt * fr_percent_bps r) = amt * fr_percent_bps r"
    and w2: "wrap64 (amt * fr_percent_bps r div 10000 + fr_fixed r) = amt * fr_percent_bps r div 10000 + fr_fixed r"
    using p q fits by (auto simp: fee_fits_def intro!: wrap64_id in64_nonneg)
  have q1: "go_quot (amt * fr_percent_bps r) 10000 = amt * fr_percent_bps r div 10000"
    using p fits by (intro go_quot_nonneg in64_nonneg) (auto simp: fee_fits_def)
  have f: "(case fr_cap r of None \<Rightarrow> amt * fr_percent_bps r div 10000 + fr_fixed r
      | Some cap \<Rightarrow> if amt * fr_percent_bps r div 10000 + fr_fixed r > cap then cap
                    else amt * fr_percent_bps r div 10000 + fr_fixed r) = exact_fee r amt"
    by (simp add: exact_fee_def Let_def split: option.splits)
  have ft: "0 \<le> exact_fee r amt * fr_tax_bps r" using nn(1) ok by (simp add: fee_rule_ok_def)
  have w3: "wrap64 (exact_fee r amt * fr_tax_bps r) = exact_fee r amt * fr_tax_bps r"
    and q2: "go_quot (exact_fee r amt * fr_tax_bps r) 10000 = exact_tax r amt"
    and w4: "wrap64 (exact_fee r amt + exact_tax r amt) = exact_fee r amt + exact_tax r amt"
    using ft nn fits by (auto simp: fee_fits_def exact_tax_def intro!: wrap64_id in64_nonneg go_quot_nonneg)
  show ?thesis
    unfolding breakdown_of_def Let_def w1 q1 w2 f w3 q2 w4 ..
qed

text \<open>
  The most specific rule of the price list sets the fee.  If no active rule covers the flow,
  rail, currency, amount and merchant, the fee is nothing.  Otherwise it is that of a rule that does and that
  none that does beats in naming the merchant or the rail: the percentage of the amount, rounded
  down, plus the fixed part, no more than the cap, and the tax on that, with nothing lost to
  overflow while the products fit into 64 bits.
\<close>

theorem fee_resolved:
  assumes "\<And>r. r \<in> set (fee_rules s) \<Longrightarrow> fee_rule_ok r \<and> fee_fits r amt" and "0 \<le> amt"
  shows "(if \<exists>r\<in>set (fee_rules s). rule_applies m fl rail cur amt r
     then \<exists>r\<in>set (fee_rules s). rule_applies m fl rail cur amt r
       \<and> (\<forall>q\<in>set (fee_rules s). rule_applies m fl rail cur amt q \<longrightarrow> specificity q \<le> specificity r)
       \<and> fees_Resolve m fl rail cur amt s = \<lparr>bd_rule = fr_id r, bd_fee = exact_fee r amt,
            bd_tax = exact_tax r amt, bd_total = exact_fee r amt + exact_tax r amt\<rparr>
     else bd_total (fees_Resolve m fl rail cur amt s) = 0 \<and> bd_rule (fees_Resolve m fl rail cur amt s) = '''')"
proof (cases "best_rule (filter (rule_applies m fl rail cur amt) (fee_rules s))")
  case None
  then show ?thesis by (auto simp: fees_Resolve_def best_rule_None filter_empty_conv)
next
  case (Some r)
  note r = best_rule_Some [OF Some]
  then have "fees_Resolve m fl rail cur amt s = \<lparr>bd_rule = fr_id r, bd_fee = exact_fee r amt,
            bd_tax = exact_tax r amt, bd_total = exact_fee r amt + exact_tax r amt\<rparr>"
    using breakdown_exact assms by (simp add: fees_Resolve_def Some)
  with r show ?thesis by auto
qed

text \<open>The price list of the migration, with a rule of its own for merchant \<open>B\<close>: the sums of the Go tests.\<close>

definition fee_seed :: fee_db where
  "fee_seed = merchant_db.extend merch_seed (fee_db.fields
     (default_fee_rules ''ra'' ''rb'' @ [(hd (default_fee_rules ''rc'' ''rb''))\<lparr>fr_merchant := Some ''B'', fr_percent_bps := 0, fr_fixed := 5\<rparr>]) [])"

lemma fee_seed_rules: "r \<in> set (fee_rules fee_seed) \<Longrightarrow> fee_rule_ok r \<and> fee_fits r 100000"
  by (auto simp: fee_seed_def merchant_db.defs fee_db.defs default_fee_rules_def fee_rule_ok_def fee_fits_def
      exact_fee_def exact_tax_def max64_def)

theorem fee_resolved_witness:
  "(\<exists>r\<in>set (fee_rules fee_seed). fr_merchant r = None \<and> fees_Resolve ''A'' FlowCharge ''card'' ''NGN'' 100000 fee_seed
      = \<lparr>bd_rule = fr_id r, bd_fee = 11500, bd_tax = 862, bd_total = 12362\<rparr>)
   \<and> bd_fee (fees_Resolve ''B'' FlowCharge ''card'' ''NGN'' 100000 fee_seed) = 5"
proof -
  note fr = fee_resolved [where s = fee_seed and amt = 100000, OF fee_seed_rules, simplified]
  have rules: "fee_rules fee_seed = default_fee_rules ''ra'' ''rb'' @
      [(hd (default_fee_rules ''rc'' ''rb''))\<lparr>fr_merchant := Some ''B'', fr_percent_bps := 0, fr_fixed := 5\<rparr>]"
    by (simp add: fee_seed_def merchant_db.defs fee_db.defs)
  note fs = fr [where m = "''A''" and fl = FlowCharge and rail = "''card''" and cur = "''NGN''"]
    fr [where m = "''B''" and fl = FlowCharge and rail = "''card''" and cur = "''NGN''"]
  show ?thesis
    using fs by (auto simp: rules default_fee_rules_def rule_applies_def specificity_def exact_fee_def exact_tax_def)
qed

subsection \<open>Taken once\<close>

lemma Transfer_fees:
  assumes "Transfer c f t amt key s = (res, s')"
  shows "fee_rules s' = fee_rules s" and "fee_charges s' = fee_charges s"
  using posting_frame [OF assms [unfolded Transfer_def]] by auto

lemma fee_transfer_rules:
  assumes "fee_transfer c fl item b s = (Inr txn, s1)"
  shows "fee_rules s1 = fee_rules s" and "fee_charges s1 = fee_charges s"
  using assms by (auto simp: fee_transfer_def Transfer_fees split: sum.splits if_splits prod.splits)

lemma fee_transfer_replays:
  assumes "fee_transfer c fl item b s = (Inr txn, s1)" and "sha256 c' = sha256 c"
  shows "fee_transfer c' fl item b s1 = (Inr txn, s1)"
  using assms Transfer_replays
  by (fastforce simp: fee_transfer_def split: sum.splits if_splits prod.splits)

lemma fees_Resolve_cong: "fee_rules s' = fee_rules s \<Longrightarrow> fees_Resolve m fl rail cur amt s' = fees_Resolve m fl rail cur amt s"
  by (simp add: fees_Resolve_def)

lemma applyOne_resumes:
  assumes crash: "fee_transfer c fl item b s = (Inr txn, s1)" and sha: "sha256 c' = sha256 c"
    and b: "b = fees_Resolve (fe_merchant item) fl (fe_rail item) (fe_currency item) (fe_amount item) s"
  shows "applyOne c' fl item s1 = fee_record c' fl item b txn s1"
  using fee_transfer_replays [OF crash sha] fees_Resolve_cong [OF fee_transfer_rules(1) [OF crash]]
  by (simp add: applyOne_def Let_def b)

lemma fee_recorded:
  assumes "fee_record c fl item b txn s = (Inr u, s')"
  obtains f where "s' = s\<lparr>fee_charges := fee_charges s @ [f]\<rparr>" and "fc_key f = (fl, fe_source item)"
    and "fc_total f = bd_total b" and "fc_txn f = txn"
  using assms by (auto simp: fee_record_def fc_key_def split: sum.splits if_splits intro: that)

lemma recorded_not_feeable:
  assumes "key_taken fc_key (fl, src) (fee_charges s)" and "r \<in> set (feeable fl s)"
  shows "fe_source r \<noteq> src"
  using assms
  by (auto simp: feeable_def feeable_of_def map_filter_def split: flow.splits option.splits if_splits)

text \<open>
  C23. A fee is taken once, whatever is interrupted.  Suppose the worker posts the fee of a charge or
  payout and dies before it records it.  When it comes to the item again, at any later time, it
  posts nothing more and only records the fee: the merchant's account has lost the total once, the
  platform's account has gained it, and the item is no longer waiting for a fee.
\<close>

theorem fee_taken_once:
  assumes inv: "ledger_inv s" and fresh: "\<not> key_taken ik_key (fee_idem_key fl (fe_source item)) (idem_keys s)"
    and b: "b = fees_Resolve (fe_merchant item) fl (fe_rail item) (fe_currency item) (fe_amount item) s" and pos: "0 < bd_total b"
    and crash: "fee_transfer c fl item b s = (Inr txn, s1)" and sha: "sha256 c' = sha256 c"
    and again: "applyOne c' fl item s1 = (Inr u, s2)"
  shows "(\<forall>a. sum_entries a (entries s2) = sum_entries a (entries s)
            + (if a = PlatformFeesAccountNGN then bd_total b else 0) - (if a = fe_account item then bd_total b else 0))
    \<and> (\<exists>f. fee_charges s2 = fee_charges s @ [f] \<and> fc_key f = (fl, fe_source item) \<and> fc_total f = bd_total b \<and> fc_txn f = txn)
    \<and> (\<forall>r\<in>set (feeable fl s2). fe_source r \<noteq> fe_source item)"
proof -
  from again applyOne_resumes [OF crash sha b] have "fee_record c' fl item b txn s1 = (Inr u, s2)" by simp
  then obtain f where s2: "s2 = s1\<lparr>fee_charges := fee_charges s1 @ [f]\<rparr>" and f: "fc_key f = (fl, fe_source item)"
    "fc_total f = bd_total b" "fc_txn f = txn" by (rule fee_recorded)
  from crash pos obtain amount t where amt: "NewMoney (bd_total b) (fe_currency item) = Inr amount"
    and tr: "Transfer c (fe_account item) PlatformFeesAccountNGN amount (fee_idem_key fl (fe_source item)) s = (Inr t, s1)"
    by (auto simp: fee_transfer_def split: sum.splits prod.splits)
  have minor: "minor amount = bd_total b" using amt by (auto simp: NewMoney_def split: if_splits)
  have "sum_entries a (entries s1) = sum_entries a (entries s)
      + (if a = PlatformFeesAccountNGN then bd_total b else 0) - (if a = fe_account item then bd_total b else 0)" for a
    using move_effect [of c TransactionTypeTransfer _ "fe_account item" PlatformFeesAccountNGN amount s t s1 a] tr fresh inv minor
    by (simp add: Transfer_def transfer_legs_def move_legs_def)
  moreover have "fee_charges s1 = fee_charges s" by (rule fee_transfer_rules(2) [OF crash])
  moreover have "key_taken fc_key (fl, fe_source item) (fee_charges s2)" by (simp add: s2 f(1) [symmetric])
  ultimately show ?thesis
    using f recorded_not_feeable [of fl "fe_source item" s2] by (auto simp: s2 simp del: key_taken_append)
qed

text \<open>A charge of 60 that has completed, and a fee of 5 with as much tax.\<close>

definition fee_demo :: fee_db where
  "fee_demo = (merchant_db.extend merch_first (fee_db.fields
      [\<lparr>fr_id = ''ra'', fr_merchant = None, fr_flow = FlowCharge, fr_rail = ''*'', fr_currency = ''NGN'', fr_min = 0, fr_max = None,
        fr_percent_bps = 0, fr_fixed = 5, fr_cap = None, fr_tax_bps = 10000, fr_active = True\<rparr>] []))
      \<lparr>accounts := sample_accounts @ [platform_account],
       ext_transfers := map (\<lambda>r. r\<lparr>et_status := StatusCompleted\<rparr>) (ext_transfers merch_first)\<rparr>"

definition fee_item :: feeable_row where
  "fee_item = \<lparr>fe_source = ''Dm'', fe_merchant = ''A'', fe_account = ''A'', fe_amount = 60, fe_currency = ''NGN'', fe_rail = ''card''\<rparr>"

definition fee_posted :: fee_db where
  "fee_posted = snd (fee_transfer (call 7) FlowCharge fee_item \<lparr>bd_rule = ''ra'', bd_fee = 5, bd_tax = 5, bd_total = 10\<rparr> fee_demo)"

lemma fee_demo_ledger: "ledger_inv fee_demo"
proof -
  have "ledger_inv (sample_ledger\<lparr>accounts := sample_accounts @ [platform_account]\<rparr>)"
    by (simp add: ledger_inv_def schema_ok_def balanced_def solvent_def sample_eval platform_account_def PlatformFeesAccountNGN_def)
  moreover have "accounts fee_demo = sample_accounts @ [platform_account]" "txns fee_demo = sample_txns"
    "entries fee_demo = sample_entries" "holds fee_demo = []" "idem_keys fee_demo = sample_keys"
    unfolding fee_demo_def merch_first_def merch_tokens_def by code_simp+
  ultimately show ?thesis
    by (subst ledger_inv_cong [of _ "sample_ledger\<lparr>accounts := sample_accounts @ [platform_account]\<rparr>"])
       (simp_all add: sample_ledger_def)
qed

theorem fee_taken_once_witness:
  "\<exists>s2. fe_source ` set (feeable FlowCharge fee_demo) = {fe_source fee_item}
     \<and> applyOne (call 8) FlowCharge fee_item fee_posted = (Inr (), s2)
     \<and> sum_entries ''A'' (entries s2) = sum_entries ''A'' (entries fee_demo) - 10 \<and> fe_source fee_item \<notin> fe_source ` set (feeable FlowCharge s2)"
proof -
  let ?b = "\<lparr>bd_rule = ''ra'', bd_fee = 5, bd_tax = 5, bd_total = 10\<rparr>"
  have run: "feeable FlowCharge fee_demo = [fee_item]"
    "?b = fees_Resolve (fe_merchant fee_item) FlowCharge (fe_rail fee_item) (fe_currency fee_item) (fe_amount fee_item) fee_demo"
    "key_taken ik_key (fee_idem_key FlowCharge (fe_source fee_item)) (idem_keys fee_demo) = False"
    "fst (fee_transfer (call 7) FlowCharge fee_item ?b fee_demo) = Inr (Some ''Ha'')"
    "fst (applyOne (call 8) FlowCharge fee_item fee_posted) = Inr ()"
    unfolding fee_posted_def fee_demo_def merch_first_def merch_tokens_def by code_simp+
  have crash: "fee_transfer (call 7) FlowCharge fee_item ?b fee_demo = (Inr (Some ''Ha''), fee_posted)"
    using run(4) by (simp add: fee_posted_def prod_eq_iff)
  obtain s2 where again: "applyOne (call 8) FlowCharge fee_item fee_posted = (Inr (), s2)"
    using run(5) by (cases "applyOne (call 8) FlowCharge fee_item fee_posted") auto
  have "sha256 (call 8) = sha256 (call 7)" by (simp add: call_def)
  from fee_taken_once [OF fee_demo_ledger _ run(2) _ crash this again] run(1,3) again show ?thesis
    by (intro exI [of _ s2]) (auto simp: fee_item_def PlatformFeesAccountNGN_def)
qed

text \<open>
  If the price list changes in between, the repeated transfer is another request under the same key and
  is refused for as long as the new price stands: the item is never recorded.
\<close>

lemma fee_stuck_after_price_change:
  assumes crash: "fee_transfer c fl item b s = (Inr (Some txn), s1)" and s1': "s1' = s1\<lparr>fee_rules := rules\<rparr>"
    and b': "b' = fees_Resolve (fe_merchant item) fl (fe_rail item) (fe_currency item) (fe_amount item) s1'"
    and pos: "0 < bd_total b'" "NewMoney (bd_total b') (fe_currency item) = Inr amount'"
    and hash: "NewMoney (bd_total b) (fe_currency item) = Inr amount \<Longrightarrow>
        hashLegs c' TransactionTypeTransfer (transfer_legs (fe_account item) PlatformFeesAccountNGN amount')
      \<noteq> hashLegs c TransactionTypeTransfer (transfer_legs (fe_account item) PlatformFeesAccountNGN amount)"
    and amount: "NewMoney (bd_total b) (fe_currency item) = Inr amount"
  shows "applyOne c' fl item s1' = (Inl ErrKeyReused, s1')"
proof -
  from crash amount obtain t where tr: "Transfer c (fe_account item) PlatformFeesAccountNGN amount
      (fee_idem_key fl (fe_source item)) s = (Inr t, s1)"
    by (auto simp: fee_transfer_def split: sum.splits prod.splits if_splits)
  from tr obtain x where ex: "Execute c ledger_commit (fee_idem_key fl (fe_source item))
        (hashLegs c TransactionTypeTransfer (transfer_legs (fe_account item) PlatformFeesAccountNGN amount)) idempotencyTTL
        (post_body c TransactionTypeTransfer (fee_idem_key fl (fe_source item))
          (transfer_legs (fe_account item) PlatformFeesAccountNGN amount)) s = (Inr x, s1)"
    by (auto simp: Transfer_def postTransaction_def split: prod.splits)
  from post.success_row [OF ex] have "Transfer c' (fe_account item) PlatformFeesAccountNGN amount'
      (fee_idem_key fl (fe_source item)) s1' = (Inl ErrKeyReused, s1')"
    using hash [OF amount]
    by (auto simp: Transfer_def postTransaction_def Execute_def fetchCompleted_def as_transaction_def s1' dest: find_row_taken)
  then have "fee_transfer c' fl item b' s1' = (Inl ErrKeyReused, s1')"
    using pos by (simp add: fee_transfer_def)
  then show ?thesis by (simp add: applyOne_def b' Let_def)
qed

end
