(* ===== verification/Calendar.thy ===== *)
theory Calendar
  imports Prelude
begin

section \<open>Dates\<close>

text \<open>
  What \<open>scheduler\<close>, \<open>bills\<close> and \<open>settlement\<close> use of Go's \<open>time\<close>: \<open>Time.AddDate\<close>, which takes a
  time apart into its civil date and its clock, adds to the fields and lets \<open>time.Date\<close>
  normalise what overflows.  Times are microseconds since 1970, in UTC; the calendar is the proleptic
  Gregorian one.  The lemmas say that taking a day apart and putting it together again is the
  identity, both ways, and how far one month reaches.
\<close>

definition leap :: "int \<Rightarrow> bool" where
  "leap y \<longleftrightarrow> y mod 4 = 0 \<and> (y mod 100 \<noteq> 0 \<or> y mod 400 = 0)"

text \<open>Days from 1 January of year 1 to 1 January of year \<open>y\<close>, and from there to the first of a month.\<close>

definition days_before_year :: "int \<Rightarrow> int" where
  "days_before_year y = 365 * (y - 1) + (y - 1) div 4 - (y - 1) div 100 + (y - 1) div 400"

definition days_before_month :: "int \<Rightarrow> int \<Rightarrow> int" where
  "days_before_month y m =
    [0, 31, 59, 90, 120, 151, 181, 212, 243, 273, 304, 334, 365] ! nat (m - 1) + (if leap y \<and> 2 < m then 1 else 0)"

definition month_length :: "int \<Rightarrow> int \<Rightarrow> int" where
  "month_length y m = days_before_month y (m + 1) - days_before_month y m"

text \<open>Days from 1 January of year 1 to 1 January 1970.\<close>

definition epoch_days :: int where "epoch_days = 719162"

definition days_of_civil :: "int \<times> int \<times> int \<Rightarrow> int" where
  "days_of_civil = (\<lambda>(y, m, d). days_before_year y + days_before_month y m + (d - 1) - epoch_days)"

text \<open>Cycles of 400, 100, 4 and 1 years; the last of four centuries, and of four years, is longer by a day.\<close>

definition year_of :: "int \<Rightarrow> int" where
  "year_of n =
    (let q = n div 146097; r = n mod 146097;
         c = min 3 (r div 36524); r1 = r - 36524 * c;
         f = r1 div 1461; r2 = r1 mod 1461
     in 400 * q + 100 * c + 4 * f + min 3 (r2 div 365) + 1)"

definition month_of :: "int \<Rightarrow> int \<Rightarrow> int" where
  "month_of y yday = int (length (filter (\<lambda>m. days_before_month y m \<le> yday) [1..12]))"

definition civil_of_days :: "int \<Rightarrow> int \<times> int \<times> int" where
  "civil_of_days k =
    (let n = k + epoch_days; y = year_of n; yday = n - days_before_year y; m = month_of y yday
     in (y, m, yday - days_before_month y m + 1))"

definition valid_civil :: "int \<times> int \<times> int \<Rightarrow> bool" where
  "valid_civil = (\<lambda>(y, m, d). 1 \<le> m \<and> m \<le> 12 \<and> 1 \<le> d \<and> d \<le> month_length y m)"

text \<open>\<open>t.AddDate(years, months, days)\<close>.\<close>

definition add_date :: "int \<Rightarrow> int \<Rightarrow> int \<Rightarrow> int \<Rightarrow> int" where
  "add_date t years months days =
    (case civil_of_days (t div day) of
       (y, m, d) \<Rightarrow>
         let m0 = m - 1 + months
         in (days_of_civil (y + years + m0 div 12, m0 mod 12 + 1, 1) + (d - 1 + days)) * day + t mod day)"

text \<open>
  The intervals of schedules.  The Go types are strings with these constants; a string the
  database's \<open>CHECK\<close> refuses is \<open>IntervalOther\<close>.
\<close>

datatype interval = IntervalDaily | IntervalWeekly | IntervalMonthly | IntervalOther string

subsection \<open>Round trips\<close>

lemma div_next:
  fixes z n :: int
  assumes "0 < n"
  shows "z div n = (z - 1) div n + of_bool (z mod n = 0)"
proof (cases "z mod n = 0")
  case True
  have "(z - 1) div n = z div n - 1"
    by (rule int_div_pos_eq [where r = "n - 1"]) (use True assms in \<open>auto simp: algebra_simps\<close>)
  with True show ?thesis by simp
next
  case False
  then have "1 \<le> z mod n" using pos_mod_sign [OF assms, of z] by linarith
  then have "(z - 1) div n = z div n"
    using pos_mod_bound [OF assms, of z]
    by (intro int_div_pos_eq [where r = "z mod n - 1"]) (auto simp: algebra_simps)
  with False show ?thesis by simp
qed

lemma year_steps: "days_before_year (y + 1) = days_before_year y + (if leap y then 366 else 365)"
proof -
  have imp: "y mod 400 = 0 \<Longrightarrow> y mod 100 = 0" "y mod 100 = 0 \<Longrightarrow> y mod 4 = 0" by presburger+
  have sum: "365 * y + (a + p) - (b + q) + (d + r) = 365 * (y - 1) + a - b + d + 365 + p - q + r" for a b d p q r :: int
    by simp
  have "days_before_year (y + 1) = days_before_year y + 365 + of_bool (y mod 4 = 0) - of_bool (y mod 100 = 0)
      + of_bool (y mod 400 = 0)"
    unfolding days_before_year_def add_diff_cancel_right'
      div_next [of 4 y, simplified] div_next [of 100 y, simplified] div_next [of 400 y, simplified]
    by (rule sum)
  with imp show ?thesis by (cases "y mod 4 = 0"; cases "y mod 100 = 0"; cases "y mod 400 = 0"; simp add: leap_def)
qed

lemma month_table:
  "days_before_month y 1 = 0" "days_before_month y 2 = 31"
  "days_before_month y 3 = 59 + of_bool (leap y)" "days_before_month y 4 = 90 + of_bool (leap y)"
  "days_before_month y 5 = 120 + of_bool (leap y)" "days_before_month y 6 = 151 + of_bool (leap y)"
  "days_before_month y 7 = 181 + of_bool (leap y)" "days_before_month y 8 = 212 + of_bool (leap y)"
  "days_before_month y 9 = 243 + of_bool (leap y)" "days_before_month y 10 = 273 + of_bool (leap y)"
  "days_before_month y 11 = 304 + of_bool (leap y)" "days_before_month y 12 = 334 + of_bool (leap y)"
  "days_before_month y 13 = 365 + of_bool (leap y)"
  by (simp_all add: days_before_month_def)

text \<open>The cycles add up: the day lies in the year found.\<close>

lemma year_of_cycles:
  fixes n :: int
  shows "days_before_year (year_of n) \<le> n" and "n < days_before_year (year_of n + 1)"
proof -
  define q r where "q = n div 146097" and "r = n mod 146097"
  define c where "c = min 3 (r div 36524)"
  define r1 where "r1 = r - 36524 * c"
  define f r2 where "f = r1 div 1461" and "r2 = r1 mod 1461"
  define a where "a = min 3 (r2 div 365)"
  have y: "year_of n = 400 * q + 100 * c + 4 * f + a + 1"
    by (simp add: year_of_def Let_def q_def r_def c_def r1_def f_def r2_def a_def)
  have n: "n = 146097 * q + r" "0 \<le> r" "r < 146097" by (simp_all add: q_def r_def)
  have "r = 36524 * (r div 36524) + r mod 36524" "0 \<le> r mod 36524" "r mod 36524 < 36524" by simp_all
  then have c: "0 \<le> c" "c \<le> 3" "0 \<le> r1" "r1 \<le> 36524" "c < 3 \<Longrightarrow> r1 < 36524"
    using n(2,3) unfolding r1_def c_def by linarith+
  have f: "r1 = 1461 * f + r2" "0 \<le> r2" "r2 < 1461" unfolding f_def r2_def by simp_all
  have f': "0 \<le> f" "f \<le> 24" using c(3,4) f by linarith+
  have "r2 = 365 * (r2 div 365) + r2 mod 365" "0 \<le> r2 mod 365" "r2 mod 365 < 365" by simp_all
  then have a: "0 \<le> a" "a \<le> 3" "365 * a \<le> r2" "r2 \<le> 365 * a + 365" "a < 3 \<Longrightarrow> r2 < 365 * a + 365"
    using f(2,3) unfolding a_def by linarith+
  define z where "z = 400 * q + 100 * c + 4 * f + a"
  have y': "year_of n = z + 1" by (simp add: y z_def)
  have d: "z div 4 = 100 * q + 25 * c + f" "z div 100 = 4 * q + c" "z div 400 = q"
    unfolding z_def
    by (rule int_div_pos_eq [where r = a], use a(1,2) in simp_all)
       (rule int_div_pos_eq [where r = "4 * f + a"], use a(1,2) f' in simp_all,
        rule int_div_pos_eq [where r = "100 * c + 4 * f + a"], use a(1,2) f' c(1,2) in simp_all)
  have nn: "n = 146097 * q + 36524 * c + 1461 * f + r2"
    using n(1) f(1) by (simp add: r1_def)
  have before: "days_before_year (year_of n) = 146097 * q + 36524 * c + 1461 * f + 365 * a"
    unfolding days_before_year_def y' by (simp add: d) (simp add: z_def)
  then show "days_before_year (year_of n) \<le> n" using nn a(3) by simp
  show "n < days_before_year (year_of n + 1)"
  proof (cases "a = 3")
    case False
    then have "a < 3" using a(2) by simp
    then show ?thesis using nn a(5) before year_steps [of "year_of n"] by (simp split: if_splits)
  next
    case True
    have "leap (year_of n) \<longleftrightarrow> f \<noteq> 24 \<or> c = 3"
    proof -
      have m4: "(z + 1) mod 4 = 0" unfolding z_def True by presburger
      have e: "z + 1 = 100 * (4 * q + c) + 4 * (f + 1)" by (simp add: z_def True)
      have m100: "(z + 1) mod 100 = 0 \<longleftrightarrow> f = 24"
      proof (cases "f = 24")
        case False
        then have "(z + 1) mod 100 = 4 * (f + 1)"
          unfolding e by (intro int_mod_pos_eq [where q = "4 * q + c"]) (use f' in simp_all)
        with False f' show ?thesis by simp
      qed (simp add: e)
      have m400: "(z + 1) mod 400 = 0 \<longleftrightarrow> c = 3" if "f = 24"
      proof (cases "c = 3")
        case False
        then have "(z + 1) mod 400 = 100 * (c + 1)"
          unfolding e that by (intro int_mod_pos_eq [where q = q]) (use c(1,2) in simp_all)
        with False c(1) show ?thesis by simp
      qed (simp add: e that)
      show ?thesis using m4 m100 m400 by (auto simp: leap_def y')
    qed
    moreover have "r2 < 1460" if "f = 24" "c \<noteq> 3" using that c f(1) by simp
    ultimately show ?thesis using nn a(4) f(3) before True year_steps [of "year_of n"] by (auto split: if_splits)
  qed
qed

lemma month_of_day:
  assumes "0 \<le> yday" and "yday < 365 + of_bool (leap y)"
  shows "1 \<le> month_of y yday" and "month_of y yday \<le> 12"
    and "days_before_month y (month_of y yday) \<le> yday" and "yday < days_before_month y (month_of y yday + 1)"
proof -
  have list: "[1..12] = [1, 2, 3, 4, 5, 6, 7, 8, 9, 10, 11, 12 :: int]" by code_simp
  consider "yday < days_before_month y 2" | "days_before_month y 2 \<le> yday" "yday < days_before_month y 3"
    | "days_before_month y 3 \<le> yday" "yday < days_before_month y 4" | "days_before_month y 4 \<le> yday" "yday < days_before_month y 5"
    | "days_before_month y 5 \<le> yday" "yday < days_before_month y 6" | "days_before_month y 6 \<le> yday" "yday < days_before_month y 7"
    | "days_before_month y 7 \<le> yday" "yday < days_before_month y 8" | "days_before_month y 8 \<le> yday" "yday < days_before_month y 9"
    | "days_before_month y 9 \<le> yday" "yday < days_before_month y 10" | "days_before_month y 10 \<le> yday" "yday < days_before_month y 11"
    | "days_before_month y 11 \<le> yday" "yday < days_before_month y 12" | "days_before_month y 12 \<le> yday" by linarith
  then have "1 \<le> month_of y yday \<and> month_of y yday \<le> 12
    \<and> days_before_month y (month_of y yday) \<le> yday \<and> yday < days_before_month y (month_of y yday + 1)"
  proof cases
  qed (use assms in \<open>(cases "leap y"; simp add: month_of_def list month_table)\<close>)+
  then show "1 \<le> month_of y yday" and "month_of y yday \<le> 12"
    and "days_before_month y (month_of y yday) \<le> yday" and "yday < days_before_month y (month_of y yday + 1)" by auto
qed

lemma civil_of_days_valid: "valid_civil (civil_of_days k)"
  and days_of_civil_of_days: "days_of_civil (civil_of_days k) = k"
proof -
  let ?n = "k + epoch_days" let ?y = "year_of (k + epoch_days)" let ?d = "?n - days_before_year ?y"
  have "0 \<le> ?d" "?d < 365 + of_bool (leap ?y)"
    using year_of_cycles [of ?n] year_steps [of ?y] by (auto simp: of_bool_def split: if_splits)
  note m = month_of_day [OF this]
  show "valid_civil (civil_of_days k)"
    using m by (simp add: civil_of_days_def valid_civil_def Let_def month_length_def)
  show "days_of_civil (civil_of_days k) = k"
    by (simp add: civil_of_days_def days_of_civil_def Let_def)
qed


lemma days_before_year_mono:
  assumes "y < y'"
  shows "days_before_year (y + 1) \<le> days_before_year y'"
  using assms
proof (induction y' rule: int_gr_induct)
  case (step i)
  then show ?case using year_steps [of i] by (auto split: if_splits)
qed simp

lemma year_unique:
  assumes "days_before_year y \<le> n" and "n < days_before_year (y + 1)"
  shows "year_of n = y"
  using days_before_year_mono [of y "year_of n"] days_before_year_mono [of "year_of n" y] year_of_cycles [of n] assms
  by (cases "year_of n < y"; cases "y < year_of n") auto

lemma month_cases:
  assumes "1 \<le> (m :: int)" and "m \<le> 12"
  obtains "m = 1" | "m = 2" | "m = 3" | "m = 4" | "m = 5" | "m = 6" | "m = 7" | "m = 8" | "m = 9" | "m = 10" | "m = 11" | "m = 12"
proof -
  have "m = 1 \<or> m = 2 \<or> m = 3 \<or> m = 4 \<or> m = 5 \<or> m = 6 \<or> m = 7 \<or> m = 8 \<or> m = 9 \<or> m = 10 \<or> m = 11 \<or> m = 12"
    using assms by presburger
  then show thesis using that by blast
qed

lemma month_length_bounds:
  assumes "1 \<le> m" and "m \<le> 12"
  shows "28 \<le> month_length y m" and "month_length y m \<le> 31"
  using assms by (cases m rule: month_cases; cases "leap y"; simp add: month_length_def month_table)+

lemma month_unique:
  assumes "1 \<le> m" and "m \<le> 12" and "days_before_month y m \<le> yday" and "yday < days_before_month y (m + 1)"
  shows "month_of y yday = m"
proof -
  have "0 \<le> yday" "yday < 365 + of_bool (leap y)"
    using assms by (cases m rule: month_cases; cases "leap y"; simp add: month_table)+
  note mm = month_of_day [OF this]
  define k where "k = month_of y yday"
  have "days_before_month y i \<le> days_before_month y j" if "1 \<le> i" "i \<le> j" "j \<le> 13" for i j
    using that(2,3)
  proof (induction j rule: int_ge_induct)
    case (step j)
    then show ?case using month_length_bounds(1) [of j y] \<open>1 \<le> i\<close> by (simp add: month_length_def)
  qed simp
  from this [of "m + 1" k] this [of "k + 1" m] mm assms show ?thesis
    unfolding k_def [symmetric] by (cases "k < m"; cases "m < k") auto
qed

lemma civil_of_days_of_civil:
  assumes "valid_civil c"
  shows "civil_of_days (days_of_civil c) = c"
proof -
  obtain y m d where c: "c = (y, m, d)" by (cases c)
  have v: "1 \<le> m" "m \<le> 12" "1 \<le> d" "d \<le> month_length y m" using assms by (simp_all add: c valid_civil_def)
  let ?yday = "days_before_month y m + (d - 1)"
  have yd: "0 \<le> ?yday" "?yday < 365 + of_bool (leap y)" "days_before_month y m \<le> ?yday" "?yday < days_before_month y (m + 1)"
    using v by (cases m rule: month_cases; cases "leap y"; simp add: month_length_def month_table)+
  have "year_of (days_before_year y + ?yday) = y"
    using yd year_steps [of y] by (intro year_unique) (auto split: if_splits)
  moreover have "month_of y ?yday = m" by (rule month_unique [OF v(1,2) yd(3,4)])
  ultimately show ?thesis
    by (simp add: c civil_of_days_def days_of_civil_def Let_def algebra_simps)
qed

subsection \<open>Adding days and months\<close>

lemma add_days: "add_date t 0 0 k = t + k * day"
proof -
  obtain y m d where c: "civil_of_days (t div day) = (y, m, d)" by (cases "civil_of_days (t div day)")
  have v: "1 \<le> m" "m \<le> 12" using civil_of_days_valid [of "t div day"] by (simp_all add: c valid_civil_def)
  have "days_of_civil (y, m, d) = t div day" using days_of_civil_of_days [of "t div day"] by (simp add: c)
  then have "days_of_civil (y, m, 1) + (d - 1 + k) = t div day + k" by (simp add: days_of_civil_def)
  moreover have "(m - 1) div 12 = 0" "(m - 1) mod 12 + 1 = m" using v by simp_all
  ultimately have "add_date t 0 0 k = (t div day + k) * day + t mod day"
    by (simp add: add_date_def c)
  then show ?thesis by (simp add: algebra_simps)
qed

definition next_month :: "int \<times> int \<Rightarrow> int \<times> int" where
  "next_month = (\<lambda>(y, m). if m = 12 then (y + 1, 1) else (y, m + 1))"

lemma first_of_next_month:
  assumes "1 \<le> m" and "m \<le> 12" and "next_month (y, m) = (y', m')"
  shows "1 \<le> m' \<and> m' \<le> 12 \<and> days_of_civil (y', m', d) = days_of_civil (y, m, d) + month_length y m"
  using assms year_steps [of y]
  by (cases m rule: month_cases; cases "leap y"; simp add: next_month_def days_of_civil_def month_length_def month_table)

text \<open>
  One month on is as many days on as the month has; it lands on the same day of the next month
  when that month has such a day, and otherwise runs over into the month after it.
\<close>

lemma add_month:
  assumes c: "civil_of_days (t div day) = (y, m, d)" and n: "next_month (y, m) = (y', m')"
  shows "add_date t 0 1 0 = t + month_length y m * day"
    and "civil_of_days (add_date t 0 1 0 div day) =
      (if d \<le> month_length y' m' then (y', m', d)
       else case next_month (y', m') of (y'', m'') \<Rightarrow> (y'', m'', d - month_length y' m'))"
proof -
  have v: "1 \<le> m" "m \<le> 12" "1 \<le> d" "d \<le> month_length y m"
    using civil_of_days_valid [of "t div day"] by (simp_all add: c valid_civil_def)
  have t: "days_of_civil (y, m, d) = t div day" using days_of_civil_of_days [of "t div day"] by (simp add: c)
  have m0: "y + (m - 1 + 1) div 12 = y' \<and> (m - 1 + 1) mod 12 + 1 = m'"
    using n v(1,2) by (cases "m = 12") (auto simp: next_month_def)
  note f = first_of_next_month [OF v(1,2) n]
  have shift: "days_of_civil (a, b, 1) + (d - 1) = days_of_civil (a, b, d)" for a b by (simp add: days_of_civil_def)
  have add: "add_date t 0 1 0 = days_of_civil (y', m', d) * day + t mod day"
    using m0 shift [of y' m'] by (simp add: add_date_def c)
  then show "add_date t 0 1 0 = t + month_length y m * day"
    using f t by (simp add: algebra_simps)
  have q: "add_date t 0 1 0 div day = days_of_civil (y', m', d)"
    unfolding add by (simp add: day_pos [THEN less_imp_neq, symmetric])
  show "civil_of_days (add_date t 0 1 0 div day) =
      (if d \<le> month_length y' m' then (y', m', d)
       else case next_month (y', m') of (y'', m'') \<Rightarrow> (y'', m'', d - month_length y' m'))"
  proof (cases "d \<le> month_length y' m'")
    case True
    then have "civil_of_days (days_of_civil (y', m', d)) = (y', m', d)"
      using f [of d] v(3) by (intro civil_of_days_of_civil) (simp add: valid_civil_def)
    with True show ?thesis unfolding q by simp
  next
    case False
    obtain y2 m2 where n2: "next_month (y', m') = (y2, m2)" by (cases "next_month (y', m')")
    note g = first_of_next_month [of m' y' y2 m2, OF _ _ n2]
    have "days_of_civil (y', m', d) = days_of_civil (y2, m2, d - month_length y' m')"
      using f g [of "d - month_length y' m'"] by (simp add: days_of_civil_def)
    moreover have "valid_civil (y2, m2, d - month_length y' m')"
      using False f g [of d] v(2,4) month_length_bounds [of m y] month_length_bounds [of m' y'] month_length_bounds [of m2 y2] v(1)
      by (auto simp: valid_civil_def)
    ultimately show ?thesis unfolding q using False n2 by (simp add: civil_of_days_of_civil)
  qed
qed

lemma add_month_bounds: "t + 28 * day \<le> add_date t 0 1 0" "add_date t 0 1 0 \<le> t + 31 * day"
proof -
  obtain y m d where c: "civil_of_days (t div day) = (y, m, d)" by (cases "civil_of_days (t div day)")
  obtain y' m' where n: "next_month (y, m) = (y', m')" by (cases "next_month (y, m)")
  have v: "1 \<le> m" "m \<le> 12" using civil_of_days_valid [of "t div day"] by (simp_all add: c valid_civil_def)
  show "t + 28 * day \<le> add_date t 0 1 0" "add_date t 0 1 0 \<le> t + 31 * day"
    using add_month(1) [OF c n] month_length_bounds [OF v, of y] by (simp_all add: mult_right_mono)
qed

end
