(* ===== verification/Settlement.thy ===== *)
theory Settlement
  imports FeeProps Calendar
begin

section \<open>Settlement\<close>

text \<open>
  \<open>internal/settlement\<close> (settlement.go, cycles.go) and migration 00032: the merchants' configurations,
  the cycles that roll up completed charges net of fees, keep a reserve back and pay out the rest, and the
  release of matured reserves.  A cycle is settled in four steps that the code runs one after the
  other: the read of the eligible charges, the new date, the transaction that inserts the cycle and its
  items, and the payout with the link to it.  Each is a definition of its own.
\<close>

record settle_config =
  sc_merchant :: uuid
  sc_currency :: string
  sc_reserve_bps :: int
  sc_hold_days :: int
  sc_recipient :: string
  sc_rail :: string
  sc_interval :: interval
  sc_next :: int

record cycle =
  cy_id :: uuid
  cy_merchant :: uuid
  cy_currency :: string
  cy_gross :: int
  cy_fees :: int
  cy_reserve :: int
  cy_net :: int
  cy_payout :: "uuid option"
  cy_release_at :: int
  cy_released :: bool

record cycle_row = cycle +
  cy_reserve_payout :: "uuid option"
  cy_created :: int

text \<open>\<open>settlement_cycle_items\<close>: the cycle a charge was rolled into; the charge is the primary key.\<close>

record cycle_item =
  ci_cycle :: uuid
  ci_charge :: uuid

record settle_db = fee_db +
  settle_configs :: "settle_config list"
  cycles :: "cycle_row list"
  cycle_items :: "cycle_item list"

subsection \<open>settlement.go\<close>

definition in32 :: "int \<Rightarrow> bool" where "in32 x \<longleftrightarrow> -2147483648 \<le> x \<and> x \<le> 2147483647"

definition CreateConfig :: "uuid \<Rightarrow> string \<Rightarrow> int \<Rightarrow> int \<Rightarrow> string \<Rightarrow> string \<Rightarrow> interval \<Rightarrow> int \<Rightarrow> 'z settle_db_scheme
    \<Rightarrow> (gerror + settle_config) \<times> 'z settle_db_scheme" where
  "CreateConfig merchantID cur reserveBps holdDays recipientRef rail iv firstCycleAt s =
    (case char3 cur of
       Inl e \<Rightarrow> (Inl e, s)
     | Inr cur3 \<Rightarrow>
        if \<not> in32 reserveBps \<or> \<not> in32 holdDays then (Inl SqlRange, s)
        else if reserveBps < 0 \<or> 10000 < reserveBps \<or> holdDays < 0 \<or> iv \<notin> {IntervalDaily, IntervalWeekly} then (Inl SqlCheck, s)
        else let cfg = \<lparr>sc_merchant = merchantID, sc_currency = cur3, sc_reserve_bps = reserveBps, sc_hold_days = holdDays,
                        sc_recipient = recipientRef, sc_rail = rail, sc_interval = iv, sc_next = firstCycleAt\<rparr>
             in if key_taken sc_merchant merchantID (settle_configs s)
                then (Inr cfg, s\<lparr>settle_configs := update_row sc_merchant merchantID (\<lambda>_. cfg) (settle_configs s)\<rparr>)
                else if \<not> key_taken id_id merchantID (identities s) then (Inl SqlForeignKey, s)
                else (Inr cfg, s\<lparr>settle_configs := settle_configs s @ [cfg]\<rparr>))"

definition GetCycle :: "uuid \<Rightarrow> 'z settle_db_scheme \<Rightarrow> gerror + cycle" where
  "GetCycle i s = (case find_row cy_id i (cycles s) of None \<Rightarrow> Inl ErrNoRows | Some r \<Rightarrow> Inr (cycle.truncate r))"

definition settle_advance :: "int \<Rightarrow> interval \<Rightarrow> int" where
  "settle_advance t iv = (if iv = IntervalWeekly then add_date t 0 0 7 else add_date t 0 0 1)"

subsection \<open>cycles.go\<close>

record eligible_charge =
  el_id :: uuid
  el_amount :: int
  el_fee :: int

definition eligible_of :: "'z settle_db_scheme \<Rightarrow> charge_row \<Rightarrow> eligible_charge option" where
  "eligible_of s r =
    (case find_row et_id (ch_transfer r) (ext_transfers s) of
       None \<Rightarrow> None
     | Some et \<Rightarrow>
        (case et_txn et of
           None \<Rightarrow> None
         | Some lt \<Rightarrow>
            (case find_row t_id lt (txns s) of
               None \<Rightarrow> None
             | Some t \<Rightarrow>
                (case find_row fc_key (FlowCharge, ch_id r) (fee_charges s) of
                   None \<Rightarrow> None
                 | Some fc \<Rightarrow>
                    if ch_mode r = ModeLive \<and> et_status et = StatusCompleted \<and> t_state t = TransactionStatePosted
                       \<and> \<not> key_taken ci_charge (ch_id r) (cycle_items s)
                    then Some \<lparr>el_id = ch_id r, el_amount = minor (ch_amount r), el_fee = fc_total fc\<rparr> else None))))"

definition eligible :: "settle_config \<Rightarrow> 'z settle_db_scheme \<Rightarrow> eligible_charge list" where
  "eligible cfg s = List.map_filter (eligible_of s)
     (filter (\<lambda>r. ch_merchant r = sc_merchant cfg \<and> currency (ch_amount r) = sc_currency cfg) (charges s))"

definition advanceSchedule :: "settle_config \<Rightarrow> 'z settle_db_scheme \<Rightarrow> 'z settle_db_scheme" where
  "advanceSchedule cfg s = s\<lparr>settle_configs := update_row sc_merchant (sc_merchant cfg)
     (\<lambda>r. r\<lparr>sc_next := settle_advance (sc_next cfg) (sc_interval cfg)\<rparr>) (settle_configs s)\<rparr>"

text \<open>The totals of a cycle, in \<open>int64\<close>: the loop over the charges, the net amount and the reserve.\<close>

definition sum64 :: "('a \<Rightarrow> int) \<Rightarrow> 'a list \<Rightarrow> int" where
  "sum64 f xs = foldl (\<lambda>acc x. wrap64 (acc + f x)) 0 xs"

definition net_of :: "eligible_charge list \<Rightarrow> int" where
  "net_of es = wrap64 (sum64 el_amount es - sum64 el_fee es)"

definition reserve_of :: "settle_config \<Rightarrow> eligible_charge list \<Rightarrow> int" where
  "reserve_of cfg es = go_quot (wrap64 (net_of es * sc_reserve_bps cfg)) 10000"

definition insert_cycle :: "ctx \<Rightarrow> settle_config \<Rightarrow> eligible_charge list \<Rightarrow> 'z settle_db_scheme
    \<Rightarrow> gerror + uuid \<times> 'z settle_db_scheme" where
  "insert_cycle c cfg es s =
    (let gross = sum64 el_amount es; feesTotal = sum64 el_fee es in
     case char3 (sc_currency cfg) of
       Inl e \<Rightarrow> Inl e
     | Inr cur3 \<Rightarrow>
        if gross < 0 \<or> feesTotal < 0 \<or> reserve_of cfg es < 0 \<or> net_of es < 0 then Inl SqlCheck
        else if key_taken cy_id (gen c 16) (cycles s) then Inl SqlUnique
        else if \<not> key_taken id_id (sc_merchant cfg) (identities s) then Inl SqlForeignKey
        else Inr (gen c 16, s\<lparr>cycles := cycles s @
          [\<lparr>cy_id = gen c 16, cy_merchant = sc_merchant cfg, cy_currency = cur3, cy_gross = gross, cy_fees = feesTotal,
            cy_reserve = reserve_of cfg es, cy_net = net_of es, cy_payout = None,
            cy_release_at = now c + sc_hold_days cfg * day, cy_released = False,
            cy_reserve_payout = None, cy_created = now c\<rparr>]\<rparr>))"

fun insert_items :: "uuid \<Rightarrow> eligible_charge list \<Rightarrow> 'z settle_db_scheme \<Rightarrow> gerror + 'z settle_db_scheme" where
  "insert_items cycleID [] s = Inr s"
| "insert_items cycleID (e # es) s =
    (if key_taken ci_charge (el_id e) (cycle_items s) then Inl SqlUnique
     else if \<not> key_taken ch_id (el_id e) (charges s) then Inl SqlForeignKey
     else insert_items cycleID es (s\<lparr>cycle_items := cycle_items s @ [\<lparr>ci_cycle = cycleID, ci_charge = el_id e\<rparr>]\<rparr>))"

definition cycle_commit :: "ctx \<Rightarrow> settle_config \<Rightarrow> eligible_charge list \<Rightarrow> 'z settle_db_scheme
    \<Rightarrow> (gerror + uuid) \<times> 'z settle_db_scheme" where
  "cycle_commit c cfg es s =
    (case insert_cycle c cfg es s of
       Inl e \<Rightarrow> (Inl e, s)
     | Inr (cycleID, s1) \<Rightarrow>
        (case insert_items cycleID es s1 of
           Inl e \<Rightarrow> (Inl e, s)
         | Inr s2 \<Rightarrow> (Inr cycleID, s2)))"

definition cycle_payout :: "ctx \<Rightarrow> settle_config \<Rightarrow> uuid \<Rightarrow> int \<Rightarrow> 'z settle_db_scheme
    \<Rightarrow> (gerror + unit) \<times> 'z settle_db_scheme" where
  "cycle_payout c cfg cycleID payout s =
    (if payout > 0
     then (case NewMoney payout (sc_currency cfg) of
             Inl e \<Rightarrow> (Inl e, s)
           | Inr amount \<Rightarrow>
              (case payouts_Create c (sc_merchant cfg) ModeLive (sc_rail cfg) (sc_recipient cfg) amount (''settlement:'' @ cycleID) s of
                 (Inl e, s1) \<Rightarrow> (Inl e, s1)
               | (Inr p, s1) \<Rightarrow>
                  if \<not> key_taken po_id (po_id p) (payouts s1) then (Inl SqlForeignKey, s1)
                  else (Inr (), s1\<lparr>cycles := update_row cy_id cycleID (\<lambda>r. r\<lparr>cy_payout := Some (po_id p)\<rparr>) (cycles s1)\<rparr>)))
     else (Inr (), s))"

definition runCycleFor :: "ctx \<Rightarrow> settle_config \<Rightarrow> 'z settle_db_scheme \<Rightarrow> (gerror + unit) \<times> 'z settle_db_scheme" where
  "runCycleFor c cfg s =
    (let es = eligible cfg s;
         s1 = advanceSchedule cfg s
     in if es = [] then (Inr (), s1)
        else (case cycle_commit c cfg es s1 of
                (Inl e, s2) \<Rightarrow> (Inl e, s2)
              | (Inr cycleID, s2) \<Rightarrow> cycle_payout c cfg cycleID (wrap64 (net_of es - reserve_of cfg es)) s2))"

definition due_configs :: "ctx \<Rightarrow> 'z settle_db_scheme \<Rightarrow> settle_config list" where
  "due_configs c s = filter (\<lambda>r. sc_next r \<le> now c) (settle_configs s)"

fun run_cycles :: "(uuid \<Rightarrow> ctx) \<Rightarrow> settle_config list \<Rightarrow> 'z settle_db_scheme \<Rightarrow> 'z settle_db_scheme" where
  "run_cycles cs [] s = s"
| "run_cycles cs (cfg # rest) s = run_cycles cs rest (snd (runCycleFor (cs (sc_merchant cfg)) cfg s))"

definition RunCycles :: "ctx \<Rightarrow> (uuid \<Rightarrow> ctx) \<Rightarrow> 'z settle_db_scheme \<Rightarrow> 'z settle_db_scheme" where
  "RunCycles c cs s = run_cycles cs (due_configs c s) s"

record matured =
  mt_cycle :: uuid
  mt_merchant :: uuid
  mt_currency :: string
  mt_reserve :: int
  mt_rail :: string
  mt_recipient :: string

definition matured_of :: "ctx \<Rightarrow> 'z settle_db_scheme \<Rightarrow> cycle_row \<Rightarrow> matured option" where
  "matured_of c s r =
    (case find_row sc_merchant (cy_merchant r) (settle_configs s) of
       None \<Rightarrow> None
     | Some cfg \<Rightarrow>
        if \<not> cy_released r \<and> 0 < cy_reserve r \<and> cy_release_at r \<le> now c
        then Some \<lparr>mt_cycle = cy_id r, mt_merchant = cy_merchant r, mt_currency = cy_currency r,
                   mt_reserve = cy_reserve r, mt_rail = sc_rail cfg, mt_recipient = sc_recipient cfg\<rparr> else None)"

text \<open>One turn of the loop of \<open>ReleaseMaturedReserves\<close>; every error is logged and the loop goes on.\<close>

definition release_reserve :: "ctx \<Rightarrow> matured \<Rightarrow> 'z settle_db_scheme \<Rightarrow> 'z settle_db_scheme" where
  "release_reserve c m s =
    (case NewMoney (mt_reserve m) (mt_currency m) of
       Inl e \<Rightarrow> s
     | Inr amount \<Rightarrow>
        (case payouts_Create c (mt_merchant m) ModeLive (mt_rail m) (mt_recipient m) amount (''settlement-reserve:'' @ mt_cycle m) s of
           (Inl e, s1) \<Rightarrow> s1
         | (Inr p, s1) \<Rightarrow>
            if \<not> key_taken po_id (po_id p) (payouts s1) then s1
            else s1\<lparr>cycles := update_row cy_id (mt_cycle m)
                   (\<lambda>r. r\<lparr>cy_released := True, cy_reserve_payout := Some (po_id p)\<rparr>) (cycles s1)\<rparr>))"

fun release_reserves :: "(uuid \<Rightarrow> ctx) \<Rightarrow> matured list \<Rightarrow> 'z settle_db_scheme \<Rightarrow> 'z settle_db_scheme" where
  "release_reserves cs [] s = s"
| "release_reserves cs (m # ms) s = release_reserves cs ms (release_reserve (cs (mt_cycle m)) m s)"

definition ReleaseMaturedReserves :: "ctx \<Rightarrow> (uuid \<Rightarrow> ctx) \<Rightarrow> 'z settle_db_scheme \<Rightarrow> 'z settle_db_scheme" where
  "ReleaseMaturedReserves c cs s = release_reserves cs (List.map_filter (matured_of c s) (cycles s)) s"

end
