(* ===== verification/SettlementProps.thy ===== *)
theory SettlementProps
  imports Settlement
begin

section \<open>What a settlement cycle contains\<close>

text \<open>
  The step relation of the tables that settlement reads and writes: the statements of its own workers,
  overlapping in any way, among the operations of the merchants' API, the external workers
  and the fee worker.  The invariant explains every cycle by the charges rolled into it.
\<close>

definition charge_amount :: "'z settle_db_scheme \<Rightarrow> uuid \<Rightarrow> int" where
  "charge_amount s i = (case find_row ch_id i (charges s) of None \<Rightarrow> 0 | Some r \<Rightarrow> minor (ch_amount r))"

definition charge_fee :: "'z settle_db_scheme \<Rightarrow> uuid \<Rightarrow> int" where
  "charge_fee s i = (case find_row fc_key (FlowCharge, i) (fee_charges s) of None \<Rightarrow> 0 | Some f \<Rightarrow> fc_total f)"

definition items_of :: "'z settle_db_scheme \<Rightarrow> uuid \<Rightarrow> uuid list" where
  "items_of s i = map ci_charge (filter (\<lambda>r. ci_cycle r = i) (cycle_items s))"

text \<open>What the read of a worker established about a charge, in any later state.\<close>

definition item_ok :: "uuid \<Rightarrow> 'z settle_db_scheme \<Rightarrow> eligible_charge \<Rightarrow> bool" where
  "item_ok m s e \<longleftrightarrow> (\<exists>r. find_row ch_id (el_id e) (charges s) = Some r \<and> ch_merchant r = m \<and> ch_mode r = ModeLive
      \<and> minor (ch_amount r) = el_amount e)
    \<and> (\<exists>f. find_row fc_key (FlowCharge, el_id e) (fee_charges s) = Some f \<and> fc_total f = el_fee e)"

definition charge_of_merchant :: "'z settle_db_scheme \<Rightarrow> uuid \<Rightarrow> uuid \<Rightarrow> bool" where
  "charge_of_merchant s m i \<longleftrightarrow>
    (\<exists>r. find_row ch_id i (charges s) = Some r \<and> ch_merchant r = m \<and> ch_mode r = ModeLive)
    \<and> (\<exists>f. find_row fc_key (FlowCharge, i) (fee_charges s) = Some f)"

definition cycle_ok :: "'z settle_db_scheme \<Rightarrow> cycle_row \<Rightarrow> bool" where
  "cycle_ok s r \<longleftrightarrow> items_of s (cy_id r) \<noteq> [] \<and> (\<forall>i\<in>set (items_of s (cy_id r)). charge_of_merchant s (cy_merchant r) i)
    \<and> cy_gross r = sum64 (charge_amount s) (items_of s (cy_id r)) \<and> cy_fees r = sum64 (charge_fee s) (items_of s (cy_id r))
    \<and> 0 \<le> cy_fees r \<and> cy_net r = cy_gross r - cy_fees r \<and> 0 \<le> cy_reserve r \<and> cy_reserve r \<le> cy_net r"

definition config_ok :: "settle_config \<Rightarrow> bool" where
  "config_ok cfg \<longleftrightarrow> 0 \<le> sc_reserve_bps cfg \<and> sc_reserve_bps cfg \<le> 10000"

definition settle_inv :: "'z settle_db_scheme \<Rightarrow> bool" where
  "settle_inv s \<longleftrightarrow> distinct (map cy_id (cycles s)) \<and> distinct (map ci_charge (cycle_items s))
    \<and> (\<forall>i\<in>set (cycle_items s). key_taken cy_id (ci_cycle i) (cycles s)) \<and> (\<forall>r\<in>set (cycles s). cycle_ok s r)
    \<and> distinct (map sc_merchant (settle_configs s)) \<and> (\<forall>cfg\<in>set (settle_configs s). config_ok cfg)"

subsection \<open>What the other components leave alone\<close>

definition settle_grows :: "'z settle_db_scheme \<Rightarrow> 'z settle_db_scheme \<Rightarrow> bool" where
  "settle_grows s s' \<longleftrightarrow> (\<exists>x. charges s' = charges s @ x) \<and> (\<exists>x. fee_charges s' = fee_charges s @ x)"

definition settle_same :: "'z settle_db_scheme \<Rightarrow> 'z settle_db_scheme \<Rightarrow> bool" where
  "settle_same s s' \<longleftrightarrow> settle_configs s' = settle_configs s \<and> cycles s' = cycles s \<and> cycle_items s' = cycle_items s"

lemma charge_of_merchant_grows: "charge_of_merchant s m i \<Longrightarrow> settle_grows s s' \<Longrightarrow> charge_of_merchant s' m i"
  by (auto simp: charge_of_merchant_def settle_grows_def find_row_append)

lemma item_ok_grows: "item_ok m s e \<Longrightarrow> settle_grows s s' \<Longrightarrow> item_ok m s' e"
  by (auto simp: item_ok_def settle_grows_def find_row_append)

lemma amounts_grow:
  assumes "charge_of_merchant s m i" and "settle_grows s s'"
  shows "charge_amount s' i = charge_amount s i" and "charge_fee s' i = charge_fee s i"
  using assms
  by (auto simp: charge_of_merchant_def settle_grows_def charge_amount_def charge_fee_def find_row_append)

lemma sum64_cong: "(\<And>x. x \<in> set xs \<Longrightarrow> f x = g x) \<Longrightarrow> sum64 f xs = sum64 g xs"
proof (induction xs rule: rev_induct)
  case (snoc x xs)
  then show ?case by (simp add: sum64_def)
qed (simp add: sum64_def)

lemma sum64_map: "sum64 f (map g xs) = sum64 (\<lambda>x. f (g x)) xs"
  by (simp add: sum64_def foldl_map)

lemma cycle_ok_grows:
  assumes ok: "cycle_ok s r" and g: "settle_grows s s'" and items: "items_of s' (cy_id r) = items_of s (cy_id r)"
  shows "cycle_ok s' r"
proof -
  have "sum64 (charge_amount s') (items_of s (cy_id r)) = sum64 (charge_amount s) (items_of s (cy_id r))"
    "sum64 (charge_fee s') (items_of s (cy_id r)) = sum64 (charge_fee s) (items_of s (cy_id r))"
    using ok amounts_grow [OF _ g] by (auto simp: cycle_ok_def intro!: sum64_cong)
  then show ?thesis using ok charge_of_merchant_grows [OF _ g] items by (auto simp: cycle_ok_def)
qed

lemma settle_inv_same:
  assumes "settle_inv s" and "settle_grows s s'" and "settle_same s s'"
  shows "settle_inv s'"
  using assms cycle_ok_grows [OF _ assms(2)]
  by (auto simp: settle_inv_def settle_same_def items_of_def)

lemma settle_grows_trans: "settle_grows s t \<Longrightarrow> settle_grows t u \<Longrightarrow> settle_grows s u"
  by (auto simp: settle_grows_def)

lemma settle_refl [simp]: "settle_grows s s" "settle_same s s"
  by (auto simp: settle_grows_def settle_same_def)

lemma ext_more_merchant:
  fixes s :: "'z merchant_db_scheme"
  assumes "ext_db.more s' = ext_db.more s"
  shows "charges s' = charges s" and "merchant_db.more s' = merchant_db.more s"
  using assms by (cases s; cases s'; simp)+

lemma merchant_more_settle:
  fixes s :: "'z settle_db_scheme"
  assumes "merchant_db.more s' = merchant_db.more s"
  shows "fee_charges s' = fee_charges s" and "settle_same s s'"
  using assms by (cases s; cases s'; simp add: settle_same_def)+

lemma payouts_Create_more:
  assumes "payouts_Create c m mode rn rcp amt key s = (res, s')"
  shows "charges s' = charges s \<and> merchant_db.more s' = merchant_db.more s"
  using assms
proof (cases rule: payouts_Create_cases)
  case (sent k acc et s2)
  from ext_send_more [OF sent(3)] have "charges s2 = charges s \<and> merchant_db.more s2 = merchant_db.more s"
    using ext_more_merchant [of s2 "s\<lparr>res_cache := k\<rparr>"] by simp
  then show ?thesis using sent(4) by (auto split: sum.splits elim: payout_record_cases)
qed auto

lemma charges_Create_more:
  assumes "charges_Create c m mode tok amt key s = (res, s')"
  shows "(\<exists>x. charges s' = charges s @ x) \<and> merchant_db.more s' = merchant_db.more s"
  using assms
proof (cases rule: charges_Create_cases)
  case (sent k tk acc et s2)
  from ext_send_more [OF sent(3)] have "charges s2 = charges s \<and> merchant_db.more s2 = merchant_db.more s"
    using ext_more_merchant [of s2 "s\<lparr>res_cache := k\<rparr>"] by simp
  then show ?thesis using sent(4) by (auto split: sum.splits elim: charge_record_cases)
qed auto

lemma merchant_step_more:
  assumes "merchant_step s s'"
  shows "(\<exists>x. charges s' = charges s @ x) \<and> merchant_db.more s' = merchant_db.more s"
  using assms
proof cases
  case mc_charge
  then show ?thesis by (rule charges_Create_more)
next
  case mc_payout
  from payouts_Create_more [OF this] show ?thesis by simp
next
  case mc_ext
  from ext_more_merchant [OF ext_step_more [OF this]] show ?thesis by simp
qed (auto simp: tokens_Create_def OpenAccount_def TransitionAccountState_def Let_def
      split: option.splits sum.splits if_splits elim: charge_record_cases payout_record_cases)

lemma fee_settle:
  fixes s :: "'z settle_db_scheme"
  shows "fee_transfer c fl item b s = (res, s') \<Longrightarrow> settle_grows s s' \<and> settle_same s s'"
    and "fee_record c fl item b t s = (res', s') \<Longrightarrow> settle_grows s s' \<and> settle_same s s'"
proof -
  assume "fee_transfer c fl item b s = (res, s')"
  then consider "s' = s" | amt res where "Transfer c (fe_account item) PlatformFeesAccountNGN amt (fee_idem_key fl (fe_source item)) s = (res, s')"
    by (auto simp: fee_transfer_def split: sum.splits if_splits prod.splits)
  then show "settle_grows s s' \<and> settle_same s s'"
  proof cases
    case (2 amt res)
    from posting_frame [OF this [unfolded Transfer_def]] show ?thesis by (auto simp: settle_grows_def settle_same_def)
  qed simp
next
  assume "fee_record c fl item b t s = (res', s')"
  then show "settle_grows s s' \<and> settle_same s s'"
    by (auto simp: fee_record_def settle_grows_def settle_same_def split: sum.splits if_splits)
qed

subsection \<open>The invariant\<close>

lemma sum64_in64: "in64 (sum64 f xs)"
  by (induction xs rule: rev_induct) (simp_all add: sum64_def, simp add: in64_def min64_def max64_def)

text \<open>A reserve between 0 and 100 per cent lies between nothing and the net amount, even where the product wraps.\<close>

lemma reserve_bounds:
  assumes "0 \<le> net_of es" and "config_ok cfg" and "0 \<le> reserve_of cfg es"
  shows "reserve_of cfg es \<le> net_of es"
proof -
  let ?p = "net_of es * sc_reserve_bps cfg"
  have p: "0 \<le> ?p" using assms by (simp add: config_ok_def)
  show ?thesis
  proof (cases "in64 ?p")
    case True
    then have "reserve_of cfg es = ?p div 10000"
      using p by (simp add: reserve_of_def wrap64_id go_quot_nonneg)
    also have "\<dots> \<le> (net_of es * 10000) div 10000"
      using assms by (intro zdiv_mono1) (simp_all add: config_ok_def mult_left_mono)
    finally show ?thesis by simp
  next
    case False
    then have "max64 < ?p" using p by (simp add: in64_def min64_def)
    moreover have "?p \<le> net_of es * 10000" using assms by (simp add: config_ok_def mult_left_mono)
    ultimately have big: "922337203685477 \<le> net_of es" by (simp add: max64_def)
    have w: "\<bar>wrap64 ?p\<bar> \<le> 9223372036854775808" using in64_wrap64 [of ?p] by (simp add: in64_def min64_def max64_def abs_if)
    then have "\<bar>wrap64 ?p\<bar> div 10000 \<le> 922337203685477" by linarith
    then have b: "\<bar>sgn (wrap64 ?p) * sgn 10000 * (\<bar>wrap64 ?p\<bar> div \<bar>10000\<bar>)\<bar> \<le> 922337203685477"
      by (cases "wrap64 ?p = 0") (simp_all add: abs_mult abs_sgn_eq pos_imp_zdiv_nonneg_iff)
    then have "in64 (sgn (wrap64 ?p) * sgn 10000 * (\<bar>wrap64 ?p\<bar> div \<bar>10000\<bar>))"
      by (simp add: in64_def min64_def max64_def abs_le_iff)
    then have "reserve_of cfg es \<le> 922337203685477"
      using b by (simp only: reserve_of_def go_quot_def wrap64_id abs_le_iff)
    with big show ?thesis by simp
  qed
qed

lemma insert_items_run:
  assumes "insert_items i es s = Inr s'"
  shows "s' = s\<lparr>cycle_items := cycle_items s @ map (\<lambda>e. \<lparr>ci_cycle = i, ci_charge = el_id e\<rparr>) es\<rparr>"
  using assms by (induction es arbitrary: s) (fastforce split: if_splits)+

lemma insert_items_distinct:
  assumes "insert_items i es s = Inr s'" and "distinct (map ci_charge (cycle_items s))"
  shows "distinct (map ci_charge (cycle_items s'))"
  using assms
proof (induction es arbitrary: s)
  case (Cons e es)
  let ?t = "s\<lparr>cycle_items := cycle_items s @ [\<lparr>ci_cycle = i, ci_charge = el_id e\<rparr>]\<rparr>"
  have "insert_items i es ?t = Inr s'" and "distinct (map ci_charge (cycle_items ?t))"
    using Cons.prems by (auto simp: key_taken_def split: if_splits)
  then show ?case by (rule Cons.IH)
qed simp

lemma cycle_commit_cases:
  assumes "cycle_commit c cfg es s = (res, s')"
  obtains (refused) e where "s' = s" "res = Inl e"
  | (committed) r where "res = Inr (cy_id r)" "\<not> key_taken cy_id (cy_id r) (cycles s)" "cy_merchant r = sc_merchant cfg"
      "cy_gross r = sum64 el_amount es" "cy_fees r = sum64 el_fee es" "cy_net r = net_of es" "cy_reserve r = reserve_of cfg es"
      "0 \<le> cy_gross r" "0 \<le> cy_fees r" "0 \<le> cy_net r" "0 \<le> cy_reserve r" "cy_payout r = None" "\<not> cy_released r"
      "s' = s\<lparr>cycles := cycles s @ [r], cycle_items := cycle_items s @ map (\<lambda>e. \<lparr>ci_cycle = cy_id r, ci_charge = el_id e\<rparr>) es\<rparr>"
      "distinct (map ci_charge (cycle_items s)) \<longrightarrow> distinct (map ci_charge (cycle_items s'))"
proof (cases res)
  case (Inl e)
  then show thesis using assms refused by (auto simp: cycle_commit_def split: sum.splits)
next
  case (Inr i)
  with assms obtain s1 where s1: "insert_cycle c cfg es s = Inr (i, s1)" and s2: "insert_items i es s1 = Inr s'"
    by (auto simp: cycle_commit_def split: sum.splits)
  from s1 obtain cur3 where i: "i = gen c 16" and new: "\<not> key_taken cy_id i (cycles s)"
    and pos: "0 \<le> sum64 el_amount es" "0 \<le> sum64 el_fee es" "0 \<le> net_of es" "0 \<le> reserve_of cfg es"
    and r: "s1 = s\<lparr>cycles := cycles s @ [\<lparr>cy_id = gen c 16, cy_merchant = sc_merchant cfg, cy_currency = cur3,
        cy_gross = sum64 el_amount es, cy_fees = sum64 el_fee es, cy_reserve = reserve_of cfg es, cy_net = net_of es, cy_payout = None,
        cy_release_at = now c + sc_hold_days cfg * day, cy_released = False, cy_reserve_payout = None, cy_created = now c\<rparr>]\<rparr>"
    by (auto simp: insert_cycle_def Let_def split: sum.splits if_splits)
  let ?r = "\<lparr>cy_id = gen c 16, cy_merchant = sc_merchant cfg, cy_currency = cur3,
        cy_gross = sum64 el_amount es, cy_fees = sum64 el_fee es, cy_reserve = reserve_of cfg es, cy_net = net_of es, cy_payout = None,
        cy_release_at = now c + sc_hold_days cfg * day, cy_released = False, cy_reserve_payout = None, cy_created = now c\<rparr>"
  show thesis
  proof (rule committed [of ?r])
    show "distinct (map ci_charge (cycle_items s)) \<longrightarrow> distinct (map ci_charge (cycle_items s'))"
      using insert_items_distinct [OF s2] by (simp add: r)
  qed (use insert_items_run [OF s2] new pos in \<open>simp_all add: r i Inr\<close>)
qed

lemma net_exact:
  assumes "0 \<le> sum64 el_amount es" and "0 \<le> sum64 el_fee es"
  shows "net_of es = sum64 el_amount es - sum64 el_fee es"
  using sum64_in64 [of el_amount es] sum64_in64 [of el_fee es] assms
  by (auto simp: net_of_def in64_def min64_def max64_def intro!: wrap64_id)

lemma cycle_commit_inv:
  assumes run: "cycle_commit c cfg es s = (res, s')" and inv: "settle_inv s" and es: "es \<noteq> []" and cfg: "config_ok cfg"
    and items: "\<And>e. e \<in> set es \<Longrightarrow> item_ok (sc_merchant cfg) s e"
  shows "settle_inv s'"
  using run
proof (cases rule: cycle_commit_cases)
  case (committed r)
  let ?new = "map (\<lambda>e. \<lparr>ci_cycle = cy_id r, ci_charge = el_id e\<rparr>) es"
  have fields: "cycles s' = cycles s @ [r]" "cycle_items s' = cycle_items s @ ?new" "charges s' = charges s"
    "fee_charges s' = fee_charges s" "settle_configs s' = settle_configs s"
    using committed(14) by simp_all
  have same: "charge_amount s' = charge_amount s" "charge_fee s' = charge_fee s" "charge_of_merchant s' = charge_of_merchant s"
    by (simp_all add: fun_eq_iff charge_amount_def charge_fee_def charge_of_merchant_def fields)
  have none: "filter (\<lambda>x. ci_cycle x = cy_id r) (cycle_items s) = []"
    using inv committed(2) by (auto simp: settle_inv_def filter_empty_conv)
  have new: "items_of s' (cy_id r) = map el_id es"
    unfolding items_of_def fields(2) by (simp add: none comp_def)
  have other: "items_of s' i = items_of s i" if "i \<noteq> cy_id r" for i
    using that unfolding items_of_def fields(2) by (simp add: comp_def)
  have el: "charge_amount s (el_id e) = el_amount e \<and> charge_fee s (el_id e) = el_fee e
      \<and> charge_of_merchant s (sc_merchant cfg) (el_id e)" if "e \<in> set es" for e
    using items [OF that] by (auto simp: item_ok_def charge_amount_def charge_fee_def charge_of_merchant_def)
  have sums: "sum64 (charge_amount s) (map el_id es) = sum64 el_amount es" "sum64 (charge_fee s) (map el_id es) = sum64 el_fee es"
    unfolding sum64_map using el by (auto intro: sum64_cong)
  have ok: "cycle_ok s' r"
    unfolding cycle_ok_def new same
    using sums es el committed net_exact [of es] reserve_bounds [OF _ cfg, of es] by auto
  have old: "cycle_ok s' q" if "q \<in> set (cycles s)" for q
  proof -
    have "cy_id q \<noteq> cy_id r" using that committed(2) by (auto simp: key_taken_def image_iff)
    then show ?thesis
      using inv that cycle_ok_grows [of s q s'] other by (auto simp: settle_inv_def settle_grows_def fields)
  qed
  have "distinct (map cy_id (cycles s'))"
    using inv committed(2) unfolding fields(1) by (simp add: settle_inv_def distinct_snoc_key del: map_append)
  then show ?thesis
    using inv ok old committed(15) unfolding settle_inv_def by (auto simp: fields)
qed (use inv in simp)

lemma cycle_update_inv:
  assumes inv: "settle_inv s" and f: "\<And>r. cycle.truncate (f r) = (cycle.truncate r)\<lparr>cy_payout := cy_payout (f r), cy_released := cy_released (f r)\<rparr>"
  shows "settle_inv (s\<lparr>cycles := update_row cy_id i f (cycles s)\<rparr>)"
proof -
  have fields: "cy_id (f r) = cy_id r \<and> cy_merchant (f r) = cy_merchant r \<and> cy_gross (f r) = cy_gross r \<and> cy_fees (f r) = cy_fees r
      \<and> cy_net (f r) = cy_net r \<and> cy_reserve (f r) = cy_reserve r" for r
    using f [of r] by (simp add: cycle.defs)
  then have same_keys: "map cy_id (update_row cy_id i f (cycles s)) = map cy_id (cycles s)"
    by (simp add: update_row_def)
  have ok: "cycle_ok (s\<lparr>cycles := x\<rparr>) (f r) = cycle_ok s r" "cycle_ok (s\<lparr>cycles := x\<rparr>) r = cycle_ok s r" for r x
    by (simp_all add: cycle_ok_def fields items_of_def charge_amount_def [abs_def] charge_fee_def [abs_def] charge_of_merchant_def)
  show ?thesis
    using inv same_keys ok by (auto simp: settle_inv_def set_update_row key_taken_def simp flip: set_map)
qed

subsection \<open>Steps\<close>

inductive settle_step :: "'z settle_db_scheme \<Rightarrow> 'z settle_db_scheme \<Rightarrow> bool" where
  se_config: "CreateConfig m cur bps days rcp rail iv first s = (res, s') \<Longrightarrow> settle_step s s'"
| se_advance: "settle_step s (advanceSchedule cfg s)"
| se_commit: "cycle_commit c cfg es s = (res, s') \<Longrightarrow> es \<noteq> [] \<Longrightarrow> config_ok cfg \<Longrightarrow>
    (\<And>e. e \<in> set es \<Longrightarrow> item_ok (sc_merchant cfg) s e) \<Longrightarrow> settle_step s s'"
| se_payout: "cycle_payout c cfg i amt s = (res, s') \<Longrightarrow> settle_step s s'"
| se_release: "settle_step s (release_reserve c m s)"
| se_merchant: "merchant_step s s' \<Longrightarrow> settle_step s s'"
| se_fee: "applyOne c fl item s = (res, s') \<Longrightarrow> settle_step s s'"
| se_late_fee: "fee_record c fl item b t s = (res, s') \<Longrightarrow> settle_step s s'"

inductive settle_reachable :: "'z settle_db_scheme \<Rightarrow> bool" where
  settle_init: "settle_configs s = [] \<Longrightarrow> cycles s = [] \<Longrightarrow> cycle_items s = [] \<Longrightarrow> settle_reachable s"
| settle_next: "settle_reachable s \<Longrightarrow> settle_step s s' \<Longrightarrow> settle_reachable s'"

lemma settle_more:
  fixes s :: "'z settle_db_scheme"
  assumes "(\<exists>x. charges s' = charges s @ x) \<and> merchant_db.more s' = merchant_db.more s"
  shows "settle_grows s s' \<and> settle_same s s'"
  using assms merchant_more_settle [of s' s] by (simp add: settle_grows_def)

lemma settle_inv_payouts:
  assumes "payouts_Create c m mode rn rcp amt key s = (res, s')" and "settle_inv s"
  shows "settle_inv s'"
  using settle_inv_same [OF assms(2)] settle_more [of s' s] payouts_Create_more [OF assms(1)] by simp

text \<open>A payout and the link to it, as the two workers make them.\<close>

lemma payout_link_inv:
  assumes "payouts_Create c m mode rn rcp amt key s = (r, s1)" and "settle_inv s"
    and "s' = s1 \<or> (\<exists>f. s' = s1\<lparr>cycles := update_row cy_id i f (cycles s1)\<rparr>
      \<and> (\<forall>r. cycle.truncate (f r) = (cycle.truncate r)\<lparr>cy_payout := cy_payout (f r), cy_released := cy_released (f r)\<rparr>))"
  shows "settle_inv s'"
  using settle_inv_payouts [OF assms(1,2)] assms(3) cycle_update_inv [of s1] by auto

lemma cycle_payout_cases:
  assumes "cycle_payout c cfg i pay s = (res, s')"
  obtains "s' = s" | amt r s1 where "payouts_Create c (sc_merchant cfg) ModeLive (sc_rail cfg) (sc_recipient cfg) amt (''settlement:'' @ i) s = (r, s1)"
    and "s' = s1 \<or> (\<exists>p. s' = s1\<lparr>cycles := update_row cy_id i (\<lambda>r. r\<lparr>cy_payout := Some p\<rparr>) (cycles s1)\<rparr>)"
proof (cases "pay > 0")
  case True
  show thesis
  proof (cases "NewMoney pay (sc_currency cfg)")
    case (Inr amt)
    obtain r s1 where r: "payouts_Create c (sc_merchant cfg) ModeLive (sc_rail cfg) (sc_recipient cfg) amt (''settlement:'' @ i) s = (r, s1)"
      by fastforce
    have "s' = s1 \<or> (\<exists>p. s' = s1\<lparr>cycles := update_row cy_id i (\<lambda>r. r\<lparr>cy_payout := Some p\<rparr>) (cycles s1)\<rparr>)"
      using assms True r by (cases r) (auto simp: cycle_payout_def Inr split: if_splits)
    then show thesis by (rule that(2) [OF r])
  qed (use assms True that(1) in \<open>simp add: cycle_payout_def\<close>)
qed (use assms that(1) in \<open>simp add: cycle_payout_def\<close>)

lemma release_reserve_cases:
  obtains "release_reserve c m s = s" | amt r s1 where "payouts_Create c (mt_merchant m) ModeLive (mt_rail m) (mt_recipient m) amt
        (''settlement-reserve:'' @ mt_cycle m) s = (r, s1)"
    and "release_reserve c m s = s1 \<or> (\<exists>p. release_reserve c m s =
        s1\<lparr>cycles := update_row cy_id (mt_cycle m) (\<lambda>r. r\<lparr>cy_released := True, cy_reserve_payout := Some p\<rparr>) (cycles s1)\<rparr>)"
proof (cases "NewMoney (mt_reserve m) (mt_currency m)")
  case (Inr amt)
  obtain r s1 where r: "payouts_Create c (mt_merchant m) ModeLive (mt_rail m) (mt_recipient m) amt
      (''settlement-reserve:'' @ mt_cycle m) s = (r, s1)" by fastforce
  have "release_reserve c m s = s1 \<or> (\<exists>p. release_reserve c m s =
        s1\<lparr>cycles := update_row cy_id (mt_cycle m) (\<lambda>r. r\<lparr>cy_released := True, cy_reserve_payout := Some p\<rparr>) (cycles s1)\<rparr>)"
    using r by (cases r) (auto simp: release_reserve_def Inr)
  then show thesis by (rule that(2) [OF r])
qed (use that(1) in \<open>simp add: release_reserve_def\<close>)

lemma CreateConfig_inv:
  assumes "CreateConfig m cur bps days rcp rail iv first s = (res, s')" and "settle_inv s"
  shows "settle_inv s'"
proof -
  consider "s' = s" | cfg where "config_ok cfg" "sc_merchant cfg = m"
      "s' = s\<lparr>settle_configs := update_row sc_merchant m (\<lambda>_. cfg) (settle_configs s)\<rparr>"
    | cfg where "config_ok cfg" "sc_merchant cfg = m" "\<not> key_taken sc_merchant m (settle_configs s)"
      "s' = s\<lparr>settle_configs := settle_configs s @ [cfg]\<rparr>"
  proof (cases "s' = s")
    case False
    let ?cfg = "\<lambda>cur3. \<lparr>sc_merchant = m, sc_currency = cur3, sc_reserve_bps = bps, sc_hold_days = days,
                        sc_recipient = rcp, sc_rail = rail, sc_interval = iv, sc_next = first\<rparr>"
    from False assms(1) obtain cur3 where cur3: "char3 cur = Inr cur3"
      by (cases "char3 cur") (auto simp: CreateConfig_def)
    with False assms(1) have "0 \<le> bps" "bps \<le> 10000"
      and s': "s' = (if key_taken sc_merchant m (settle_configs s)
          then s\<lparr>settle_configs := update_row sc_merchant m (\<lambda>_. ?cfg cur3) (settle_configs s)\<rparr>
          else s\<lparr>settle_configs := settle_configs s @ [?cfg cur3]\<rparr>)"
      by (simp_all add: CreateConfig_def Let_def split: if_splits)
    then have ok: "config_ok (?cfg cur3)" by (simp add: config_ok_def)
    show thesis
    proof (cases "key_taken sc_merchant m (settle_configs s)")
      case True
      show thesis by (rule that(2) [OF ok]) (simp, simp only: s' True if_True)
    next
      case False
      show thesis by (rule that(3) [OF ok]) (simp, rule False, simp only: s' False if_False)
    qed
  qed (rule that(1))
  then show ?thesis
  proof cases
    case (2 cfg)
    have "map sc_merchant (update_row sc_merchant m (\<lambda>_. cfg) (settle_configs s)) = map sc_merchant (settle_configs s)"
      using 2(2) by (simp add: update_row_def)
    then show ?thesis using assms(2) cycle_ok_grows [of s _ s'] 2(1)
      by (auto simp: settle_inv_def 2(3) set_update_row settle_grows_def items_of_def)
  next
    case (3 cfg)
    have "distinct (map sc_merchant (settle_configs s'))"
      using assms(2) 3(2,3) by (simp add: 3(4) settle_inv_def distinct_snoc_key del: map_append)
    then show ?thesis using assms(2) cycle_ok_grows [of s _ s'] 3(1)
      by (auto simp: settle_inv_def 3(4) settle_grows_def items_of_def)
  qed (use assms(2) in simp)
qed

lemma advanceSchedule_inv: "settle_inv s \<Longrightarrow> settle_inv (advanceSchedule cfg s)"
proof -
  assume inv: "settle_inv s"
  let ?f = "\<lambda>r :: settle_config. r\<lparr>sc_next := settle_advance (sc_next cfg) (sc_interval cfg)\<rparr>"
  have "map sc_merchant (update_row sc_merchant (sc_merchant cfg) ?f (settle_configs s)) = map sc_merchant (settle_configs s)"
    by (simp add: update_row_def)
  then show ?thesis using inv cycle_ok_grows [of s _ "advanceSchedule cfg s"]
    by (auto simp: settle_inv_def advanceSchedule_def set_update_row settle_grows_def items_of_def config_ok_def)
qed

lemma settle_step_inv:
  assumes "settle_step s s'" and inv: "settle_inv s"
  shows "settle_inv s'"
  using assms(1)
proof cases
  case se_config
  then show ?thesis using inv by (rule CreateConfig_inv)
next
  case se_advance
  then show ?thesis using advanceSchedule_inv [OF inv] by simp
next
  case (se_commit c cfg es res)
  show ?thesis by (rule cycle_commit_inv [OF se_commit(1) inv se_commit(2,3)]) (rule se_commit(4))
next
  case (se_payout c cfg i amt res)
  then show ?thesis
  proof (cases rule: cycle_payout_cases)
    case (2 amt r s1)
    show ?thesis by (rule payout_link_inv [OF 2(1) inv, of _ i]) (use 2(2) in \<open>auto simp: cycle.defs\<close>)
  qed (use inv in simp)
next
  case (se_release c m)
  show ?thesis
  proof (cases rule: release_reserve_cases [of c m s])
    case (2 amt r s1)
    show ?thesis by (rule payout_link_inv [OF 2(1) inv, of _ "mt_cycle m"]) (use 2(2) se_release in \<open>auto simp: cycle.defs\<close>)
  qed (use inv se_release in simp)
next
  case se_merchant
  from settle_more [OF merchant_step_more [OF this]] show ?thesis by (blast intro: settle_inv_same inv)
next
  case (se_fee c fl item res)
  then obtain b r s1 where "fee_transfer c fl item b s = (r, s1)" and "s' = s1 \<or> (\<exists>t r'. fee_record c fl item b t s1 = (r', s'))"
    by (fastforce simp: applyOne_def Let_def split: prod.splits sum.splits)
  then show ?thesis using fee_settle inv by (blast intro: settle_inv_same)
next
  case se_late_fee
  from fee_settle(2) [OF this] show ?thesis by (blast intro: settle_inv_same inv)
qed

lemma settle_reachable_inv: "settle_reachable s \<Longrightarrow> settle_inv s"
  by (induction rule: settle_reachable.induct) (auto intro: settle_step_inv, simp add: settle_inv_def)

subsection \<open>A run of the worker is such a sequence\<close>

lemma eligible_ok:
  assumes "e \<in> set (eligible cfg s)" and "distinct (map ch_id (charges s))"
  shows "item_ok (sc_merchant cfg) s e"
proof -
  from assms(1) obtain r where r: "r \<in> set (charges s)" "ch_merchant r = sc_merchant cfg" "eligible_of s r = Some e"
    by (auto simp: eligible_def map_filter_def)
  from r(3) obtain fc where "find_row fc_key (FlowCharge, ch_id r) (fee_charges s) = Some fc" "ch_mode r = ModeLive"
    "e = \<lparr>el_id = ch_id r, el_amount = minor (ch_amount r), el_fee = fc_total fc\<rparr>"
    by (auto simp: eligible_of_def split: option.splits if_splits)
  with r find_row_distinct [OF assms(2) r(1)] show ?thesis by (simp add: item_ok_def)
qed

lemma cycle_payout_charges: "cycle_payout c cfg i amt s = (res, s') \<Longrightarrow> charges s' = charges s"
  by (erule cycle_payout_cases) (auto dest: payouts_Create_more)

lemma runCycleFor_reachable:
  assumes s: "settle_reachable s" and ids: "distinct (map ch_id (charges s))" and cfg: "config_ok cfg"
  shows "settle_reachable (snd (runCycleFor c cfg s)) \<and> charges (snd (runCycleFor c cfg s)) = charges s"
proof -
  let ?s1 = "advanceSchedule cfg s" let ?es = "eligible cfg s"
  have s1: "settle_reachable ?s1" by (rule settle_next [OF s se_advance])
  have c1: "charges ?s1 = charges s" and f1: "fee_charges ?s1 = fee_charges s" by (simp_all add: advanceSchedule_def)
  show ?thesis
  proof (cases "?es = []")
    case False
    obtain r s2 where cc: "cycle_commit c cfg ?es ?s1 = (r, s2)" by fastforce
    have c2: "charges s2 = charges s" using cc by (rule cycle_commit_cases) (simp_all add: c1)
    have "item_ok (sc_merchant cfg) ?s1 e" if "e \<in> set ?es" for e
      using eligible_ok [OF that ids] by (simp add: item_ok_def c1 f1)
    then have s2: "settle_reachable s2" by (rule settle_next [OF s1 se_commit [OF cc False cfg]])
    show ?thesis
    proof (cases r)
      case (Inr i)
      obtain r' s' where cp: "cycle_payout c cfg i (wrap64 (net_of ?es - reserve_of cfg ?es)) s2 = (r', s')" by fastforce
      then have "snd (runCycleFor c cfg s) = s'" using False by (simp add: runCycleFor_def Let_def cc Inr)
      with settle_next [OF s2 se_payout [OF cp]] cycle_payout_charges [OF cp] c2 show ?thesis by simp
    qed (use False s2 c2 in \<open>simp add: runCycleFor_def Let_def cc\<close>)
  qed (use s1 c1 in \<open>simp add: runCycleFor_def Let_def\<close>)
qed

lemma RunCycles_reachable:
  assumes s: "settle_reachable s" and ids: "distinct (map ch_id (charges s))"
  shows "settle_reachable (RunCycles c cs s)"
proof -
  have "settle_reachable (run_cycles cs cfgs s)" if "\<forall>cfg\<in>set cfgs. config_ok cfg" for cfgs
    using that s ids
  proof (induction cs cfgs s rule: run_cycles.induct)
    case (2 cs cfg rest s)
    then show ?case using runCycleFor_reachable [of s cfg "cs (sc_merchant cfg)"] by simp
  qed simp
  then show ?thesis
    using settle_reachable_inv [OF s] by (simp add: RunCycles_def due_configs_def settle_inv_def)
qed


subsection \<open>Samples\<close>

text \<open>\<open>A\<close>'s charge of 60 is paid by the rail; its fee of 10 is taken; \<open>A\<close> is settled daily with a tenth in reserve.\<close>

definition settle_row :: external_transfer where
  "settle_row = \<lparr>et_id = ''Dc'', et_direction = DirectionInbound, et_account = ''A'', et_rail = ''card'',
     et_counterparty = ''card:Bo'', et_amount = 60, et_currency = ''NGN'', et_key = ''k1'', et_hold = None,
     et_batch = None, et_status = StatusProcessing, et_risk = RiskClear, et_rail_ref = None, et_txn = None,
     et_error = None, et_attempted = Some 5000, et_completed = None, et_created = 3000\<rparr>"

definition settle_paid :: merchant_db where
  "settle_paid = snd (processRow (call 6) (\<lambda>_. Inr []) False (claimed_of settle_row) (snd (claim_pending (call 5) merch_first)))"

definition settle_base :: settle_db where
  "settle_base = fee_db.extend (snd (applyOne (call 7) FlowCharge fee_item
      ((merchant_db.extend settle_paid (fee_db.fields (fee_rules fee_demo) []))\<lparr>accounts := accounts settle_paid @ [platform_account]\<rparr>)))
    (settle_db.fields [] [] [])"

definition settle_with :: "string \<Rightarrow> settle_db" where
  "settle_with rail = snd (CreateConfig ''A'' ''NGN'' 1000 7 ''acct-9'' rail IntervalDaily 0 settle_base)"

lemma settle_with_reachable: "settle_reachable (settle_with rail)"
proof -
  have "settle_configs settle_base = []" "cycles settle_base = []" "cycle_items settle_base = []"
    by (simp_all add: settle_base_def fee_db.defs settle_db.defs)
  from settle_next [OF settle_init [OF this] se_config [OF prod.collapse [symmetric]]] show ?thesis
    by (simp add: settle_with_def)
qed

text \<open>What the samples show of a state: the cycles, the items, the payouts and what is still eligible or due.\<close>

definition settle_view :: "settle_db \<Rightarrow> _" where
  "settle_view s = (map (\<lambda>r. (cy_id r, cy_gross r, cy_fees r, cy_reserve r, cy_net r, cy_payout r)) (cycles s),
     map (\<lambda>i. (ci_cycle i, ci_charge i)) (cycle_items s), map po_id (payouts s),
     map el_id (eligible (hd (settle_configs s)) s), map sc_next (settle_configs s))"

lemma settle_sample:
  "map ch_id (charges (settle_with rail)) = [''Dm'']"
  unfolding settle_with_def settle_base_def settle_paid_def merch_first_def merch_tokens_def fee_demo_def by code_simp

lemma settle_runs:
  "settle_view (RunCycles (call 9) (\<lambda>_. call 10) (settle_with ''instant'')) =
     ([(''Kq'', 60, 10, 5, 50, Some ''Kn'')], [(''Kq'', ''Dm'')], [''Kn''], [], [86400000000])"
  "settle_view (RunCycles (call 9) (\<lambda>_. call 10) (settle_with ''moon'')) =
     ([(''Kq'', 60, 10, 5, 50, None)], [(''Kq'', ''Dm'')], [], [], [86400000000])"
  "settle_view (RunCycles ((call 11)\<lparr>now := 200000000000\<rparr>) (\<lambda>_. (call 12)\<lparr>now := 200000000000\<rparr>)
       (RunCycles (call 9) (\<lambda>_. call 10) (settle_with ''moon''))) =
     ([(''Kq'', 60, 10, 5, 50, None)], [(''Kq'', ''Dm'')], [], [], [172800000000])"
  unfolding settle_with_def settle_base_def settle_paid_def merch_first_def merch_tokens_def fee_demo_def by code_simp+


text \<open>
  C35. A settlement whose payout fails is never paid.  The cycle and its items are committed before the payout
  is attempted, and \<open>CreateConfig\<close> accepts a rail that does not exist.  The payout fails, the error is
  logged, and no later run comes back to it: the charge is settled, the cycle has no payout, and nothing is due.
\<close>

theorem settlement_payout_lost:
  "\<exists>(s :: settle_db) s1 s2. settle_reachable s \<and> s1 = RunCycles (call 9) (\<lambda>_. call 10) s
     \<and> map ci_charge (cycle_items s1) = [''Dm''] \<and> map (\<lambda>r. (cy_net r, cy_payout r)) (cycles s1) = [(50, None)]
     \<and> payouts s1 = [] \<and> eligible (hd (settle_configs s1)) s1 = []
     \<and> s2 = RunCycles ((call 11)\<lparr>now := 200000000000\<rparr>) (\<lambda>_. (call 12)\<lparr>now := 200000000000\<rparr>) s1
     \<and> map (\<lambda>r. (cy_net r, cy_payout r)) (cycles s2) = [(50, None)] \<and> payouts s2 = []
     \<and> map sc_next (settle_configs s1) = [86400000000] \<and> map sc_next (settle_configs s2) = [172800000000]"
proof -
  let ?s1 = "RunCycles (call 9) (\<lambda>_. call 10) (settle_with ''moon'')"
  let ?s2 = "RunCycles ((call 11)\<lparr>now := 200000000000\<rparr>) (\<lambda>_. (call 12)\<lparr>now := 200000000000\<rparr>) ?s1"
  have "map ci_charge (cycle_items ?s1) = [''Dm'']" using settle_runs(2) by (auto simp: settle_view_def map_eq_Cons_conv)
  moreover have "payouts ?s1 = []" "payouts ?s2 = []" "eligible (hd (settle_configs ?s1)) ?s1 = []"
    "map (\<lambda>r. (cy_net r, cy_payout r)) (cycles ?s1) = [(50, None)]" "map (\<lambda>r. (cy_net r, cy_payout r)) (cycles ?s2) = [(50, None)]"
    "map sc_next (settle_configs ?s1) = [86400000000]" "map sc_next (settle_configs ?s2) = [172800000000]"
    using settle_runs(2,3) by (auto simp: settle_view_def map_eq_Cons_conv)
  ultimately show ?thesis using settle_with_reachable [of "''moon''"]
    by (intro exI [of _ "settle_with ''moon''"] exI [of _ ?s1] exI [of _ ?s2]) (auto simp: map_eq_Cons_conv)
qed

end
