(* ===== verification/Scheduler.thy ===== *)
theory Scheduler
  imports LedgerProps Payments HoldOwners Calendar
begin

section \<open>Scheduled transfers\<close>

text \<open>
  \<open>internal/scheduler/scheduler.go\<close> and migrations 00016 and 00017: schedules, their runs, the worker
  that fires what is due and the resolver of runs that were claimed and not finished.  A run is
  claimed by the row \<open>(schedule, time)\<close>, paid under a key made of the same pair, and finalized in a
  transaction of its own; the three are definitions of their own.
\<close>

datatype schedule_type = ScheduleOnce | ScheduleRecurring | ScheduleOther string

datatype schedule_status = ScheduleActive | SchedulePaused | ScheduleCompleted | ScheduleCancelled

datatype run_status = RunProcessing | RunCompleted | RunFailed

record scheduled_transfer =
  sd_id :: uuid
  sd_from :: uuid
  sd_to :: uuid
  sd_amount :: money
  sd_type :: schedule_type
  sd_interval :: "interval option"
  sd_next :: int
  sd_status :: schedule_status

record transfer_run =
  rn_id :: uuid
  rn_schedule :: uuid
  rn_for :: int
  rn_status :: run_status
  rn_txn :: "uuid option"
  rn_attempted :: int
  rn_completed :: "int option"
  rn_error :: "gerror option"

record sched_db = resil_db +
  schedules :: "scheduled_transfer list"
  runs :: "transfer_run list"

definition sched_stuckTimeout :: int where "sched_stuckTimeout = 2 * minute"

definition rn_occurrence :: "'z transfer_run_scheme \<Rightarrow> uuid \<times> int" where "rn_occurrence r = (rn_schedule r, rn_for r)"

definition scheduler_Create :: "ctx \<Rightarrow> uuid \<Rightarrow> uuid \<Rightarrow> money \<Rightarrow> schedule_type \<Rightarrow> interval option \<Rightarrow> int \<Rightarrow> 'z sched_db_scheme
    \<Rightarrow> (gerror + scheduled_transfer) \<times> 'z sched_db_scheme" where
  "scheduler_Create c fromID toID amount ty iv firstRunAt s =
    (case char3 (currency amount) of
       Inl e \<Rightarrow> (Inl e, s)
     | Inr cur3 \<Rightarrow>
        if \<not> in64 (minor amount) then (Inl SqlRange, s)
        else if minor amount \<le> 0
              \<or> \<not> (ty = ScheduleOnce \<and> iv = None
                   \<or> ty = ScheduleRecurring \<and> iv \<in> {Some IntervalDaily, Some IntervalWeekly, Some IntervalMonthly}) then (Inl SqlCheck, s)
        else if key_taken sd_id (gen c 17) (schedules s) then (Inl SqlUnique, s)
        else if \<not> key_taken a_id fromID (accounts s) \<or> \<not> key_taken a_id toID (accounts s) then (Inl SqlForeignKey, s)
        else let st = \<lparr>sd_id = gen c 17, sd_from = fromID, sd_to = toID, sd_amount = \<lparr>minor = minor amount, currency = cur3\<rparr>,
                       sd_type = ty, sd_interval = iv, sd_next = firstRunAt, sd_status = ScheduleActive\<rparr>
             in (Inr st, s\<lparr>schedules := schedules s @ [st]\<rparr>))"

fun sched_advance :: "int \<Rightarrow> interval option \<Rightarrow> gerror + int" where
  "sched_advance t None = Inl ErrUnknownInterval"
| "sched_advance t (Some IntervalDaily) = Inr (add_date t 0 0 1)"
| "sched_advance t (Some IntervalWeekly) = Inr (add_date t 0 0 7)"
| "sched_advance t (Some IntervalMonthly) = Inr (add_date t 0 1 0)"
| "sched_advance t (Some (IntervalOther iv)) = Inl ErrUnknownInterval"

text \<open>\<open>fmt.Sprintf("scheduled:%s:%d", st.ID, scheduledFor.Unix())\<close>.\<close>

definition run_key :: "uuid \<Rightarrow> int \<Rightarrow> string" where
  "run_key i t = ''scheduled:'' @ i @ '':'' @ dec_int (t div second)"

definition run_transfer :: "ctx \<Rightarrow> scheduled_transfer \<Rightarrow> int \<Rightarrow> 'z sched_db_scheme
    \<Rightarrow> (gerror + transaction) \<times> 'z sched_db_scheme" where
  "run_transfer c st scheduledFor s =
    payments_Transfer c (sd_from st) (sd_to st) (sd_amount st) (run_key (sd_id st) scheduledFor) s"

definition mark_run :: "ctx \<Rightarrow> gerror + transaction \<Rightarrow> transfer_run \<Rightarrow> transfer_run" where
  "mark_run c result r =
    (case result of
       Inr txn \<Rightarrow> r\<lparr>rn_status := RunCompleted, rn_txn := Some (t_id txn), rn_completed := Some (now c)\<rparr>
     | Inl e \<Rightarrow> r\<lparr>rn_status := RunFailed, rn_error := Some e, rn_completed := Some (now c)\<rparr>)"

definition finalize_run :: "ctx \<Rightarrow> uuid \<Rightarrow> scheduled_transfer \<Rightarrow> int \<Rightarrow> gerror + transaction \<Rightarrow> 'z sched_db_scheme
    \<Rightarrow> (gerror + unit) \<times> 'z sched_db_scheme" where
  "finalize_run c runID st scheduledFor result s =
    (let s1 = s\<lparr>runs := update_row rn_id runID (mark_run c result) (runs s)\<rparr>
     in if sd_type st = ScheduleOnce
        then (Inr (), s1\<lparr>schedules := update_row sd_id (sd_id st) (\<lambda>r. r\<lparr>sd_status := ScheduleCompleted\<rparr>) (schedules s1)\<rparr>)
        else (case sched_advance scheduledFor (sd_interval st) of
                Inl e \<Rightarrow> (Inl e, s)
              | Inr next \<Rightarrow>
                 (Inr (), s1\<lparr>schedules := update_row sd_id (sd_id st) (\<lambda>r. r\<lparr>sd_next := next\<rparr>) (schedules s1)\<rparr>)))"

definition executeAndFinalize :: "ctx \<Rightarrow> uuid \<Rightarrow> scheduled_transfer \<Rightarrow> int \<Rightarrow> 'z sched_db_scheme
    \<Rightarrow> (gerror + unit) \<times> 'z sched_db_scheme" where
  "executeAndFinalize c runID st scheduledFor s =
    (case run_transfer c st scheduledFor s of
       (result, s1) \<Rightarrow> finalize_run c runID st scheduledFor result s1)"

text \<open>The claim: \<open>INSERT ... ON CONFLICT DO NOTHING RETURNING id\<close>; no id when the run exists.\<close>

definition claim_run :: "ctx \<Rightarrow> scheduled_transfer \<Rightarrow> int \<Rightarrow> 'z sched_db_scheme
    \<Rightarrow> (gerror + uuid option) \<times> 'z sched_db_scheme" where
  "claim_run c st scheduledFor s =
    (if key_taken rn_occurrence (sd_id st, scheduledFor) (runs s) then (Inr None, s)
     else if key_taken rn_id (gen c 18) (runs s) then (Inl SqlUnique, s)
     else if \<not> key_taken sd_id (sd_id st) (schedules s) then (Inl SqlForeignKey, s)
     else (Inr (Some (gen c 18)), s\<lparr>runs := runs s @
       [\<lparr>rn_id = gen c 18, rn_schedule = sd_id st, rn_for = scheduledFor, rn_status = RunProcessing, rn_txn = None,
         rn_attempted = now c, rn_completed = None, rn_error = None\<rparr>]\<rparr>))"

definition fireOnce :: "ctx \<Rightarrow> scheduled_transfer \<Rightarrow> int \<Rightarrow> 'z sched_db_scheme \<Rightarrow> (gerror + unit) \<times> 'z sched_db_scheme" where
  "fireOnce c st scheduledFor s =
    (case claim_run c st scheduledFor s of
       (Inl e, s1) \<Rightarrow> (Inl e, s1)
     | (Inr None, s1) \<Rightarrow> (Inr (), s1)
     | (Inr (Some runID), s1) \<Rightarrow> executeAndFinalize c runID st scheduledFor s1)"

definition due_schedules :: "ctx \<Rightarrow> 'z sched_db_scheme \<Rightarrow> scheduled_transfer list" where
  "due_schedules c s = take 100 (sort_key sd_next
     (filter (\<lambda>r. sd_status r = ScheduleActive \<and> sd_next r \<le> now c) (schedules s)))"

fun fire_all :: "(uuid \<Rightarrow> ctx) \<Rightarrow> scheduled_transfer list \<Rightarrow> 'z sched_db_scheme \<Rightarrow> 'z sched_db_scheme" where
  "fire_all cs [] s = s"
| "fire_all cs (st # rest) s = fire_all cs rest (snd (fireOnce (cs (sd_id st)) st (sd_next st) s))"

definition RunDue :: "ctx \<Rightarrow> (uuid \<Rightarrow> ctx) \<Rightarrow> 'z sched_db_scheme \<Rightarrow> 'z sched_db_scheme" where
  "RunDue c cs s = fire_all cs (due_schedules c s) s"

record stuck_run =
  sk_run :: uuid
  sk_for :: int
  sk_schedule :: scheduled_transfer

definition stuck_of :: "ctx \<Rightarrow> 'z sched_db_scheme \<Rightarrow> transfer_run \<Rightarrow> stuck_run option" where
  "stuck_of c s r =
    (if rn_status r = RunProcessing \<and> rn_attempted r < now c - sched_stuckTimeout
     then map_option (\<lambda>st. \<lparr>sk_run = rn_id r, sk_for = rn_for r, sk_schedule = st\<rparr>) (find_row sd_id (rn_schedule r) (schedules s))
     else None)"

fun resolve_runs :: "(uuid \<Rightarrow> ctx) \<Rightarrow> stuck_run list \<Rightarrow> 'z sched_db_scheme \<Rightarrow> 'z sched_db_scheme" where
  "resolve_runs cs [] s = s"
| "resolve_runs cs (r # rest) s =
    resolve_runs cs rest (snd (executeAndFinalize (cs (sk_run r)) (sk_run r) (sk_schedule r) (sk_for r) s))"

definition sched_ResolveStuck :: "ctx \<Rightarrow> (uuid \<Rightarrow> ctx) \<Rightarrow> 'z sched_db_scheme \<Rightarrow> 'z sched_db_scheme" where
  "sched_ResolveStuck c cs s = resolve_runs cs (List.map_filter (stuck_of c s) (runs s)) s"

end
