(* ===== verification/LedgerKeys.thy ===== *)
theory LedgerKeys
  imports HoldOwners
begin

section \<open>What one key can post\<close>

text \<open>
  Components that call the ledger under keys they make themselves (a schedule's occurrence, a
  settlement cycle, a bill) rely on what a key stands for: a key that is taken answers with the
  transaction that bears it.  \<open>posts_under\<close> is the whole effect of one posting operation of the
  ledger under a key, whichever operation it is; \<open>named\<close> says that a transaction bears a key.
\<close>

lemma bex_update_row:
  "(\<And>r. P (f r) = P r) \<Longrightarrow> (\<exists>r\<in>set (update_row key k f rows). P r) \<longleftrightarrow> (\<exists>r\<in>set rows. P r)"
  unfolding set_update_row bex_simps by (rule bex_cong) simp_all

lemma in_map_filter: "y \<in> set (List.map_filter f xs) \<longleftrightarrow> (\<exists>x\<in>set xs. f x = Some y)"
  by (auto simp: List.map_filter_def image_iff)

definition txn_names :: "transaction list \<Rightarrow> (uuid \<times> string) list" where
  "txn_names ts = map (\<lambda>x. (t_id x, t_key x)) ts"

definition named :: "uuid \<Rightarrow> string \<Rightarrow> 'z ledger_db_scheme \<Rightarrow> bool" where
  "named i k s \<longleftrightarrow> (i, k) \<in> set (txn_names (txns s))"

definition txn_moves :: "uuid \<Rightarrow> entry list \<Rightarrow> (uuid \<times> int) list" where
  "txn_moves i es = map (\<lambda>e. (e_account e, e_amount e)) (filter (\<lambda>e. e_txn e = i) es)"

definition legs_moves :: "leg list \<Rightarrow> (uuid \<times> int) list" where
  "legs_moves ls = map (\<lambda>l. (l_account l, minor (l_amount l))) ls"

definition posts_under :: "string \<Rightarrow> 'z ledger_db_scheme \<Rightarrow> 'z ledger_db_scheme \<Rightarrow> bool" where
  "posts_under key s s' \<longleftrightarrow> s' = s \<or>
    (\<exists>r h x ts hs es. \<not> key_taken ik_key key (idem_keys s) \<and> \<not> key_taken t_id (res_txn r) (txns s)
       \<and> s' = s\<lparr>idem_keys := idem_keys s @ [\<lparr>ik_key = key, ik_hash = h, ik_status = Completed, ik_response = Some r, ik_expires = x\<rparr>],
                txns := ts, holds := hs, entries := entries s @ es\<rparr>
       \<and> txn_names ts = txn_names (txns s) @ [(res_txn r, key)]
       \<and> (\<forall>e\<in>set es. e_txn e = res_txn r))"

lemma named_key: "named i k s \<Longrightarrow> key_taken t_id i (txns s) \<and> key_taken t_key k (txns s)"
  by (auto simp: named_def txn_names_def key_taken_def)

lemma named_unique:
  assumes "ledger_inv s" and "named i k s" and "named j k s"
  shows "i = j"
  using assms ledger_invD(6) [OF assms(1)] by (auto simp: named_def txn_names_def distinct_map inj_on_def)

lemma named_one_key:
  assumes "ledger_inv s" and "named i k s" and "named i l s"
  shows "k = l"
  using assms ledger_invD(5) [OF assms(1)] by (auto simp: named_def txn_names_def distinct_map inj_on_def)

lemma txn_moves_append: "txn_moves i (es @ fs) = txn_moves i es @ txn_moves i fs"
  by (simp add: txn_moves_def)

lemma txn_moves_other: "(\<And>e. e \<in> set es \<Longrightarrow> e_txn e \<noteq> i) \<Longrightarrow> txn_moves i es = []"
  by (auto simp: txn_moves_def filter_empty_conv)

lemma entries_of_moves: "entries_of c i legs es \<Longrightarrow> txn_moves i es = legs_moves legs"
  unfolding entries_of_def by (induction legs es rule: list_all2_induct) (auto simp: txn_moves_def legs_moves_def)

subsection \<open>The posting operations\<close>

context posting begin

lemma run_keyed:
  assumes run: "Execute c ledger_commit key h ttl fn s = (Inr r, s')" and fresh: "\<not> key_taken ik_key key (idem_keys s)"
  obtains x ts hs es where "\<not> key_taken t_id (res_txn r) (txns s)"
    and "s' = s\<lparr>idem_keys := idem_keys s @ [\<lparr>ik_key = key, ik_hash = h, ik_status = Completed, ik_response = Some r, ik_expires = x\<rparr>],
                txns := ts, holds := hs, entries := entries s @ es\<rparr>"
    and "txn_names ts = txn_names (txns s) @ [(res_txn r, key)]"
    and "\<And>e. e \<in> set es \<Longrightarrow> e_txn e = res_txn r"
proof -
  let ?row = "\<lparr>ik_key = key, ik_hash = h, ik_status = InProgress, ik_response = None, ik_expires = now c + ttl\<rparr>"
  from fresh_success [OF run fresh] obtain s2 where body: "fn (s\<lparr>idem_keys := idem_keys s @ [?row]\<rparr>) = Inr (r, s2)"
    and s': "s' = s2\<lparr>idem_keys := update_row ik_key key
                (\<lambda>r'. r'\<lparr>ik_status := Completed, ik_response := Some r\<rparr>) (idem_keys s2)\<rparr>"
    by blast
  from posts [OF body] obtain ty legs s1
    where ins: "insertPostedTransaction c ty key legs (s\<lparr>idem_keys := idem_keys s @ [?row]\<rparr>) = Inr (res_txn r, s1)"
      and cl: "closes s1 s2" by blast
  from ins obtain es where es: "entries_of c (res_txn r) legs es"
    and s1: "s1 = s\<lparr>idem_keys := idem_keys s @ [?row],
        txns := txns s @ [\<lparr>t_id = res_txn r, t_key = key, t_type = ty, t_state = TransactionStatePosted\<rparr>], entries := entries s @ es\<rparr>"
    and new: "\<not> key_taken t_id (res_txn r) (txns s)"
    by (rule insertPosted_ok) simp
  from cl obtain ts hs where s2: "s2 = s1\<lparr>txns := ts, holds := hs\<rparr>" and same: "same_txns (txns s1) ts"
    by (auto simp: closes_def)
  have old: "update_row ik_key key g (idem_keys s) = idem_keys s" for g
    by (rule update_row_other [OF fresh])
  have keys: "update_row ik_key key (\<lambda>r'. r'\<lparr>ik_status := Completed, ik_response := Some r\<rparr>) (idem_keys s @ [?row])
      = idem_keys s @ [?row\<lparr>ik_status := Completed, ik_response := Some r\<rparr>]"
    using old by (simp add: update_row_def)
  have pairs: "txn_names ts = zip (map t_id ts) (map t_key ts)" for ts
    by (simp add: txn_names_def zip_map_map zip_same_conv_map)
  have "txn_names ts = txn_names (txns s1)"
    using same unfolding pairs same_txns_def by simp
  then have "txn_names ts = txn_names (txns s) @ [(res_txn r, key)]"
    by (simp add: s1 txn_names_def)
  then show thesis
    using that [OF new _ _ entries_of_txn [OF es]] keys by (simp add: s' s2 s1)
qed

lemma run_posts_under:
  assumes "Execute c ledger_commit key h ttl fn s = (res, s')"
  shows "posts_under key s s'"
proof (cases "res", goal_cases)
  case (1 e)
  with assms show ?case by (auto simp: posts_under_def dest: error_rolls_back)
next
  case (2 r)
  show ?case
  proof (cases "key_taken ik_key key (idem_keys s)")
    case True
    with assms show ?thesis by (auto simp: posts_under_def dest: taken_unchanged)
  next
    case False
    with assms 2 obtain x ts hs es where "\<not> key_taken t_id (res_txn r) (txns s)"
      "s' = s\<lparr>idem_keys := idem_keys s @ [\<lparr>ik_key = key, ik_hash = h, ik_status = Completed, ik_response = Some r, ik_expires = x\<rparr>],
                txns := ts, holds := hs, entries := entries s @ es\<rparr>"
      "txn_names ts = txn_names (txns s) @ [(res_txn r, key)]" "\<And>e. e \<in> set es \<Longrightarrow> e_txn e = res_txn r"
      by (metis run_keyed)
    with False show ?thesis unfolding posts_under_def by blast
  qed
qed

end

lemma postTransaction_posts_under: "postTransaction c ty key legs s = (res, s') \<Longrightarrow> posts_under key s s'"
  by (auto simp: postTransaction_def split: prod.splits dest: post.run_posts_under)

lemma CaptureHold_posts_under: "CaptureHold c h key s = (res, s') \<Longrightarrow> posts_under key s s'"
  by (auto simp: CaptureHold_def split: prod.splits dest: capture.run_posts_under)

lemma ReverseTransaction_posts_under: "ReverseTransaction c t key s = (res, s') \<Longrightarrow> posts_under key s s'"
  by (auto simp: ReverseTransaction_def split: prod.splits dest: reverse.run_posts_under)

text \<open>The first posting under a key moves its legs, and they balance; a later one answers from the key's row.\<close>

lemma postTransaction_first:
  assumes run: "postTransaction c ty key legs s = (Inr tx, s')" and fresh: "\<not> key_taken ik_key key (idem_keys s)"
    and inv: "ledger_inv s"
  shows "named (t_id tx) key s'" and "txn_moves (t_id tx) (entries s') = legs_moves legs"
    and "sum_list (map snd (legs_moves legs)) = 0"
proof -
  from run fresh obtain es ks where es: "entries_of c (t_id tx) legs es"
    and s': "s' = s\<lparr>idem_keys := ks, txns := txns s @ [tx], entries := entries s @ es\<rparr>"
    and tx: "tx = \<lparr>t_id = gen c 0, t_key = key, t_type = ty, t_state = TransactionStatePosted\<rparr>"
    and new: "\<not> key_taken t_id (t_id tx) (txns s)" by (rule post_success)
  show "named (t_id tx) key s'" by (simp add: s' named_def txn_names_def) (simp add: tx)
  have "txn_moves (t_id tx) (entries s) = []"
    using new ledger_invD(1) [OF inv] by (intro txn_moves_other) (auto simp: schema_ok_def)
  then show "txn_moves (t_id tx) (entries s') = legs_moves legs"
    by (simp add: s' txn_moves_append entries_of_moves [OF es])
  show "sum_list (map snd (legs_moves legs)) = 0"
    using post_effect(2) [OF run fresh inv] by (simp add: legs_moves_def comp_def)
qed

lemma postTransaction_again:
  assumes run: "postTransaction c ty key legs s = (Inr tx, s')" and taken: "key_taken ik_key key (idem_keys s)"
  obtains k r where "s' = s" and "k \<in> set (idem_keys s)" and "ik_key k = key" and "ik_response k = Some r" and "t_id tx = res_txn r"
  using assms find_row_Some [where key = ik_key and rows = "idem_keys s" and k = key]
  by (fastforce simp: postTransaction_def Execute_def fetchCompleted_def split: prod.splits option.splits if_splits)

subsection \<open>Keys made of numbers\<close>

definition undec :: "string \<Rightarrow> nat" where
  "undec s = foldl (\<lambda>a ch. 10 * a + (of_char ch - 48)) 0 s"

lemma undec_dec: "undec (dec_nat n) = n"
proof (induction n rule: dec_nat.induct)
  case (1 n)
  show ?case
    by (subst dec_nat.simps) (use 1 in \<open>auto simp: undec_def mod_less\<close>)
qed

lemma dec_nat_inj: "dec_nat m = dec_nat n \<Longrightarrow> m = n"
  by (metis undec_dec)

lemma dec_nat_digits: "ch \<in> set (dec_nat n) \<Longrightarrow> 48 \<le> (of_char ch :: nat) \<and> of_char ch \<le> (57 :: nat)"
proof (induction n rule: dec_nat.induct)
  case (1 n)
  from "1.prems" show ?case
    by (subst (asm) dec_nat.simps) (use "1.IH" in \<open>auto split: if_splits\<close>)
qed

lemma dec_nat_plain: "CHR ''-'' \<notin> set (dec_nat n)" "CHR '':'' \<notin> set (dec_nat n)"
  using dec_nat_digits [of "CHR ''-''" n] dec_nat_digits [of "CHR '':''" n] by auto

lemma dec_int_plain: "CHR '':'' \<notin> set (dec_int i)"
  by (simp add: dec_int_def dec_nat_plain)

lemma dec_int_inj: "dec_int i = dec_int j \<Longrightarrow> i = j"
proof -
  assume eq: "dec_int i = dec_int j"
  have neq: "CHR ''-'' # x \<noteq> dec_nat n" for x n
    using dec_nat_plain(1) [of n] by (metis list.set_intros(1))
  from eq show ?thesis
    using neq neq [symmetric] dec_nat_inj [of "nat (- i)" "nat (- j)"] dec_nat_inj [of "nat i" "nat j"]
    by (auto simp: dec_int_def split: if_splits)
qed

text \<open>A string that ends in a colon and text without colons splits in one way.\<close>

lemma last_colon:
  assumes "CHR '':'' \<notin> set u" and "CHR '':'' \<notin> set v" and "x @ CHR '':'' # u = y @ CHR '':'' # v"
  shows "x = y \<and> u = v"
  using assms by (auto simp: append_eq_append_conv2 Cons_eq_append_conv append_eq_Cons_conv)

end
