(* ===== verification/SchedulerProps.thy ===== *)
theory SchedulerProps
  imports Scheduler LedgerKeys
begin

section \<open>What the scheduler guarantees\<close>

text \<open>
  The scheduler next to everything else that uses the ledger: calls that are in flight (a transfer
  has returned, its run is not finalized yet) are part of the state, so that firing and resolving
  interleave in any way and a crash is a call that is never finalized.  An occurrence of a schedule
  moves its money at most once, whoever fires it and however often; a standing schedule that has
  fallen behind catches up in a bounded number of ticks; and a run can be marked failed although
  its transfer went through.
\<close>

subsection \<open>Steps\<close>

record sched_call =
  cl_run :: uuid
  cl_sched :: scheduled_transfer
  cl_for :: int
  cl_result :: "gerror + transaction"

record sched_sys = sched_db +
  in_flight :: "sched_call list"

definition is_run_key :: "string \<Rightarrow> bool" where
  "is_run_key k \<longleftrightarrow> (\<exists>i t. k = run_key i t)"

text \<open>A row as a worker read it: everything but its next time and status is as in the table.\<close>

definition snapshot_of :: "scheduled_transfer \<Rightarrow> scheduled_transfer \<Rightarrow> bool" where
  "snapshot_of st r \<longleftrightarrow> (\<exists>n x. st = r\<lparr>sd_next := n, sd_status := x\<rparr>)"

inductive sched_step :: "'z sched_sys_scheme \<Rightarrow> 'z sched_sys_scheme \<Rightarrow> bool" where
  ss_create: "scheduler_Create c f t amt ty iv at s = (out, s') \<Longrightarrow> sched_step s s'"
| ss_claim: "claim_run c st t s = (out, s') \<Longrightarrow> sched_step s s'"
| ss_call: "run_transfer c st (rn_for r) s = (res, s') \<Longrightarrow> r \<in> set (runs s) \<Longrightarrow> row \<in> set (schedules s) \<Longrightarrow>
    snapshot_of st row \<Longrightarrow> rn_schedule r = sd_id st \<Longrightarrow>
    sched_step s (s'\<lparr>in_flight := in_flight s' @ [\<lparr>cl_run = rn_id r, cl_sched = st, cl_for = rn_for r, cl_result = res\<rparr>]\<rparr>)"
| ss_finalize: "finalize_run c (cl_run cl) (cl_sched cl) (cl_for cl) (cl_result cl) s = (out, s') \<Longrightarrow> cl \<in> set (in_flight s) \<Longrightarrow>
    sched_step s s'"
| ss_crash: "in_flight s = xs @ cl # ys \<Longrightarrow> sched_step s (s\<lparr>in_flight := xs @ ys\<rparr>)"
| ss_switches: "sched_step s (s\<lparr>res_cache := k\<rparr>)"
| ss_post: "postTransaction c ty key legs s = (out, s') \<Longrightarrow> \<not> is_run_key key \<Longrightarrow> sched_step s s'"
| ss_reverse: "ReverseTransaction c i key s = (out, s') \<Longrightarrow> \<not> is_run_key key \<Longrightarrow> sched_step s s'"
| ss_capture: "CaptureHold c h key s = (out, s') \<Longrightarrow> \<not> is_run_key key \<Longrightarrow> sched_step s s'"
| ss_hold: "PlaceHold c a amt s = (out, s') \<Longrightarrow> in64 (available a s - minor amt) \<Longrightarrow> sched_step s s'"
| ss_release: "ReleaseHold h s = (out, s') \<Longrightarrow> sched_step s s'"
| ss_open: "OpenAccount c ow ty cur od s = (out, s') \<Longrightarrow> sched_step s s'"

text \<open>The schedules start empty, on any ledger whose keys are not theirs.\<close>

definition sched_start :: "'z sched_sys_scheme \<Rightarrow> bool" where
  "sched_start s \<longleftrightarrow> ledger_inv s \<and> schedules s = [] \<and> runs s = [] \<and> in_flight s = [] \<and>
     (\<forall>k\<in>set (idem_keys s). \<not> is_run_key (ik_key k)) \<and> (\<forall>x\<in>set (txns s). \<not> is_run_key (t_key x))"

inductive sched_reachable :: "'z sched_sys_scheme \<Rightarrow> bool" where
  start: "sched_start s \<Longrightarrow> sched_reachable s"
| step: "sched_reachable s \<Longrightarrow> sched_step s s' \<Longrightarrow> sched_reachable s'"

subsection \<open>The invariant\<close>

definition schedule_moves :: "scheduled_transfer \<Rightarrow> (uuid \<times> int) list" where
  "schedule_moves st = [(sd_from st, - minor (sd_amount st)), (sd_to st, minor (sd_amount st))]"

text \<open>A key of the scheduler answers with a transaction, made of the legs of the key's schedule.\<close>

definition run_keys_ok :: "'z sched_db_scheme \<Rightarrow> bool" where
  "run_keys_ok s \<longleftrightarrow>
     (\<forall>k\<in>set (idem_keys s). is_run_key (ik_key k) \<longrightarrow> (\<exists>r. ik_response k = Some r \<and> named (res_txn r) (ik_key k) s)) \<and>
     (\<forall>i j t. named i (run_key j t) s \<longrightarrow>
        (\<exists>st\<in>set (schedules s). sd_id st = j \<and> txn_moves i (entries s) = schedule_moves st))"

definition run_ok :: "'z sched_db_scheme \<Rightarrow> transfer_run \<Rightarrow> bool" where
  "run_ok s r \<longleftrightarrow> (rn_status r = RunCompleted \<longrightarrow>
     (\<exists>i. rn_txn r = Some i \<and> named i (run_key (rn_schedule r) (rn_for r)) s))"

definition call_ok :: "'z sched_db_scheme \<Rightarrow> sched_call \<Rightarrow> bool" where
  "call_ok s cl \<longleftrightarrow> (\<exists>r\<in>set (runs s). rn_id r = cl_run cl \<and> rn_schedule r = sd_id (cl_sched cl) \<and> rn_for r = cl_for cl)
     \<and> (\<forall>x. cl_result cl = Inr x \<longrightarrow> named (t_id x) (run_key (sd_id (cl_sched cl)) (cl_for cl)) s)"

definition sched_inv :: "'z sched_sys_scheme \<Rightarrow> bool" where
  "sched_inv s \<longleftrightarrow> ledger_inv s \<and> distinct (map sd_id (schedules s)) \<and> distinct (map rn_id (runs s))
     \<and> distinct (map rn_occurrence (runs s)) \<and> run_keys_ok s
     \<and> (\<forall>r\<in>set (runs s). run_ok s r) \<and> (\<forall>cl\<in>set (in_flight s). call_ok s cl)"

lemma run_key_inj: "run_key i t = run_key j u \<Longrightarrow> i = j \<and> t div second = u div second"
  using last_colon [OF dec_int_plain dec_int_plain, of "''scheduled:'' @ i" "t div second" "''scheduled:'' @ j" "u div second"]
  by (auto simp: run_key_def dest: dec_int_inj)

interpretation run_result: row_update rn_id "mark_run c result" for c result
  by unfold_locales (auto simp: mark_run_def split: sum.split)

interpretation schedule_done: row_update sd_id "\<lambda>r. r\<lparr>sd_status := x\<rparr>" for x
  by unfold_locales simp

interpretation schedule_next: row_update sd_id "\<lambda>r. r\<lparr>sd_next := n\<rparr>" for n
  by unfold_locales simp

lemma mark_run_fields: "rn_occurrence (mark_run c res r) = rn_occurrence r" "rn_schedule (mark_run c res r) = rn_schedule r"
  "rn_for (mark_run c res r) = rn_for r" "rn_id (mark_run c res r) = rn_id r"
  by (auto simp: mark_run_def rn_occurrence_def split: sum.split)

text \<open>What the scheduler keeps, when only the ledger's tables move on.\<close>

definition sched_kept :: "'z sched_sys_scheme \<Rightarrow> 'z sched_sys_scheme \<Rightarrow> bool" where
  "sched_kept s s' \<longleftrightarrow> schedules s' = schedules s \<and> runs s' = runs s \<and> in_flight s' = in_flight s
     \<and> (\<forall>i k. named i k s \<longrightarrow> named i k s')"

lemma sched_kept_ok:
  assumes "sched_inv s" and "sched_kept s s'" and "ledger_inv s'" and "run_keys_ok s'"
  shows "sched_inv s'"
  using assms by (fastforce simp: sched_inv_def sched_kept_def run_ok_def call_ok_def)

lemma posts_under_names:
  assumes "posts_under key s s'"
  shows "named i k s \<Longrightarrow> named i k s'" and "named i k s' \<Longrightarrow> named i k s \<or> k = key"
    and "ledger_inv s \<Longrightarrow> named i k s \<Longrightarrow> txn_moves i (entries s') = txn_moves i (entries s)"
proof -
  show "named i k s \<Longrightarrow> named i k s'" "named i k s' \<Longrightarrow> named i k s \<or> k = key"
    using assms by (auto simp: posts_under_def named_def)
  assume "ledger_inv s" "named i k s"
  then show "txn_moves i (entries s') = txn_moves i (entries s)"
    using assms named_key [of i k s]
    by (auto simp: posts_under_def txn_moves_append intro!: txn_moves_other)
qed

lemma posts_under_kept:
  assumes "posts_under key s s'"
  shows "sched_kept s s'"
  using assms posts_under_names(1) [OF assms] by (auto simp: posts_under_def sched_kept_def)

text \<open>Postings under other keys leave the scheduler's keys alone.\<close>

lemma run_keys_other:
  assumes ok: "run_keys_ok s" and p: "posts_under key s s'" and key: "\<not> is_run_key key" and inv: "ledger_inv s"
  shows "run_keys_ok s'"
proof -
  have sch: "schedules s' = schedules s" and keys: "\<forall>k\<in>set (idem_keys s'). k \<in> set (idem_keys s) \<or> ik_key k = key"
    using p by (auto simp: posts_under_def)
  have a: "\<exists>r. ik_response k = Some r \<and> named (res_txn r) (ik_key k) s'" if "k \<in> set (idem_keys s')" "is_run_key (ik_key k)" for k
    using keys that key ok posts_under_names(1) [OF p] unfolding run_keys_ok_def by blast
  have b: "\<exists>st\<in>set (schedules s'). sd_id st = j \<and> txn_moves i (entries s') = schedule_moves st" if "named i (run_key j t) s'" for i j t
  proof -
    have "named i (run_key j t) s" using posts_under_names(2) [OF p that] key by (auto simp: is_run_key_def)
    then show ?thesis using ok posts_under_names(3) [OF p inv] sch unfolding run_keys_ok_def by metis
  qed
  from a b show ?thesis unfolding run_keys_ok_def by blast
qed

lemma other_posting:
  assumes "sched_inv s" and "posts_under key s s'" and "\<not> is_run_key key" and "ledger_inv s'"
  shows "sched_inv s'"
  using assms sched_kept_ok [OF assms(1) posts_under_kept [OF assms(2)] assms(4)] run_keys_other [of s key s']
  by (simp add: sched_inv_def)

lemma sched_inv_frame:
  assumes "sched_inv s" and "ledger_inv s'" and "idem_keys s' = idem_keys s" "txns s' = txns s" "entries s' = entries s"
    "schedules s' = schedules s" "runs s' = runs s" "in_flight s' = in_flight s"
  shows "sched_inv s'"
  using assms by (simp add: sched_inv_def run_keys_ok_def run_ok_def call_ok_def named_def)

subsection \<open>Every step keeps it\<close>

lemma payments_Transfer_cases:
  assumes "payments_Transfer c f t amt key s = (res, s')"
  obtains (refused) e k where "res = Inl e" and "s' = s\<lparr>res_cache := k\<rparr>"
    | (through) tx k where "res = Inr tx" and "Transfer c f t amt key (s\<lparr>res_cache := k\<rparr>) = (Inr tx, s')"
proof (cases res)
  case (Inl e)
  obtain k where k: "snd (res_Check c [Feature ''transfer''] s) = s\<lparr>res_cache := k\<rparr>" by (rule res_Check_cases)
  have roll: "x = s0" if "Transfer c f t amt key s0 = (Inl e, x)" for s0 x :: "'a resil_db_scheme"
    using that by (auto simp: Transfer_def postTransaction_def split: prod.splits dest: post.error_rolls_back)
  have "s' = s\<lparr>res_cache := k\<rparr>"
    using assms k Inl by (auto simp: payments_Transfer_def split: prod.splits sum.splits dest: roll)
  with Inl show thesis by (rule refused)
next
  case (Inr tx)
  with assms show thesis by (metis payments_Transfer_done through)
qed

lemma sched_inv_cache: "sched_inv s \<Longrightarrow> sched_inv (s\<lparr>res_cache := k\<rparr>)"
  by (rule sched_inv_frame) (simp_all add: sched_inv_def)

lemma snapshot_fields:
  assumes "snapshot_of st row"
  shows "sd_id st = sd_id row" "sd_from st = sd_from row" "sd_to st = sd_to row" "sd_amount st = sd_amount row"
    "sd_type st = sd_type row" "sd_interval st = sd_interval row"
  using assms by (auto simp: snapshot_of_def)

text \<open>The transfer of an occurrence: its key answers with a transaction of the schedule's legs, new or old.\<close>

lemma run_transfer_keeps:
  assumes inv: "sched_inv s" and run: "run_transfer c st t s = (res, s')"
    and row: "row \<in> set (schedules s)" and snap: "snapshot_of st row"
  shows "sched_inv s'" and "res = Inr x \<Longrightarrow> named (t_id x) (run_key (sd_id st) t) s'"
    and "schedules s' = schedules s" and "runs s' = runs s" and "in_flight s' = in_flight s"
proof -
  have "sched_inv s' \<and> (res = Inr x \<longrightarrow> named (t_id x) (run_key (sd_id st) t) s')
    \<and> schedules s' = schedules s \<and> runs s' = runs s \<and> in_flight s' = in_flight s"
    using run unfolding run_transfer_def
  proof (cases rule: payments_Transfer_cases)
    case (refused e k)
    with inv show ?thesis by (simp add: sched_inv_cache)
  next
    case (through tx k)
    let ?s = "s\<lparr>res_cache := k\<rparr>" let ?key = "run_key (sd_id st) t"
    note i1 = sched_inv_cache [OF inv, of k]
    have l1: "ledger_inv ?s" and ok1: "run_keys_ok ?s" using i1 by (simp_all add: sched_inv_def)
    have post: "postTransaction c TransactionTypeTransfer ?key (transfer_legs (sd_from st) (sd_to st) (sd_amount st)) ?s = (Inr tx, s')"
      using through(2) by (simp add: Transfer_def)
    have rk: "is_run_key ?key" by (auto simp: is_run_key_def)
    show ?thesis
    proof (cases "key_taken ik_key ?key (idem_keys ?s)")
      case True
      with post obtain kr r where s': "s' = ?s" and kr: "kr \<in> set (idem_keys ?s)" "ik_key kr = ?key" "ik_response kr = Some r"
        "t_id tx = res_txn r" by (rule postTransaction_again)
      have "\<exists>r. ik_response kr = Some r \<and> named (res_txn r) (ik_key kr) ?s"
        using ok1 kr(1,2) rk unfolding run_keys_ok_def by metis
      then show ?thesis using kr through(1) i1 s' by auto
    next
      case False
      note p = postTransaction_posts_under [OF post] and l2 = postTransaction_inv [OF post l1]
      note first = postTransaction_first [OF post False l1]
      note kept = posts_under_kept [OF p]
      have moves: "txn_moves (t_id tx) (entries s') = schedule_moves row"
        using first(2,3) snapshot_fields [OF snap]
        by (auto simp: legs_moves_def transfer_legs_def schedule_moves_def Negate_def wrap_balanced)
      have sch: "schedules s' = schedules s" using kept by (simp add: sched_kept_def)
      have a: "\<exists>r. ik_response q = Some r \<and> named (res_txn r) (ik_key q) s'" if "q \<in> set (idem_keys s')" "is_run_key (ik_key q)" for q
      proof (cases "q \<in> set (idem_keys ?s)")
        case True
        with that ok1 posts_under_names(1) [OF p] show ?thesis unfolding run_keys_ok_def by blast
      next
        case False
        with that p show ?thesis by (auto simp: posts_under_def named_def)
      qed
      have b: "\<exists>u\<in>set (schedules s'). sd_id u = j \<and> txn_moves i (entries s') = schedule_moves u" if n: "named i (run_key j v) s'" for i j v
      proof (cases "named i (run_key j v) ?s")
        case True
        with ok1 posts_under_names(3) [OF p l1 True] sch show ?thesis unfolding run_keys_ok_def by fastforce
      next
        case False
        with posts_under_names(2) [OF p n] have eq: "run_key j v = ?key" by simp
        with n have "named i ?key s'" by simp
        then have "i = t_id tx" using named_unique [OF l2 _ first(1)] by blast
        moreover have "j = sd_id row" using run_key_inj [OF eq] snapshot_fields(1) [OF snap] by simp
        ultimately show ?thesis using moves row sch by auto
      qed
      have "run_keys_ok s'" using a b unfolding run_keys_ok_def by blast
      then have "sched_inv s'" by (rule sched_kept_ok [OF i1 kept l2])
      with kept first(1) through(1) show ?thesis by (auto simp: sched_kept_def)
    qed
  qed
  then show "sched_inv s'" "res = Inr x \<Longrightarrow> named (t_id x) (run_key (sd_id st) t) s'"
    "schedules s' = schedules s" "runs s' = runs s" "in_flight s' = in_flight s" by auto
qed

lemma call_keeps:
  assumes inv: "sched_inv s" and run: "run_transfer c st (rn_for r) s = (res, s')" and r: "r \<in> set (runs s)"
    and row: "row \<in> set (schedules s)" "snapshot_of st row" "rn_schedule r = sd_id st"
  shows "sched_inv (s'\<lparr>in_flight := in_flight s' @ [\<lparr>cl_run = rn_id r, cl_sched = st, cl_for = rn_for r, cl_result = res\<rparr>]\<rparr>)"
proof -
  note k = run_transfer_keeps [OF inv run row(1,2)]
  have "call_ok s' \<lparr>cl_run = rn_id r, cl_sched = st, cl_for = rn_for r, cl_result = res\<rparr>"
    using k(2) r row(3) by (auto simp: call_ok_def k(4))
  moreover have "ledger_inv (s'\<lparr>in_flight := xs\<rparr>) = ledger_inv s'" for xs by (rule ledger_inv_cong) simp_all
  ultimately show ?thesis using k(1)
    by (simp add: sched_inv_def run_keys_ok_def run_ok_def call_ok_def named_def)
qed

lemma create_keeps:
  assumes inv: "sched_inv s" and run: "scheduler_Create c f t amt ty iv at s = (out, s')"
  shows "sched_inv s'"
proof (cases "s' = s")
  case False
  with run obtain st where s': "s' = s\<lparr>schedules := schedules s @ [st]\<rparr>" and new: "\<not> key_taken sd_id (sd_id st) (schedules s)"
    by (auto simp: scheduler_Create_def Let_def split: sum.splits if_splits)
  have "ledger_inv s' = ledger_inv s" by (rule ledger_inv_cong) (simp_all add: s')
  with inv new show ?thesis
    by (auto simp: s' sched_inv_def run_keys_ok_def run_ok_def call_ok_def named_def distinct_snoc_key key_taken_def)
qed (use inv in simp)

lemma claim_keeps:
  assumes inv: "sched_inv s" and run: "claim_run c st t s = (out, s')"
  shows "sched_inv s'"
proof (cases "s' = s")
  case False
  with run obtain r where s': "s' = s\<lparr>runs := runs s @ [r]\<rparr>" and r: "rn_status r = RunProcessing"
    and new: "\<not> key_taken rn_id (rn_id r) (runs s)" "\<not> key_taken rn_occurrence (rn_occurrence r) (runs s)"
    by (auto simp: claim_run_def rn_occurrence_def split: if_splits)
  have "ledger_inv s' = ledger_inv s" by (rule ledger_inv_cong) (simp_all add: s')
  with inv new r show ?thesis
    by (auto simp: s' sched_inv_def run_keys_ok_def run_ok_def call_ok_def named_def distinct_snoc_key simp del: map_append)
qed (use inv in simp)

lemma finalize_keeps:
  assumes inv: "sched_inv s" and cl: "cl \<in> set (in_flight s)"
    and run: "finalize_run c (cl_run cl) (cl_sched cl) (cl_for cl) (cl_result cl) s = (out, s')"
  shows "sched_inv s'"
proof (cases "s' = s")
  case False
  let ?rs = "update_row rn_id (cl_run cl) (mark_run c (cl_result cl)) (runs s)"
  from False run obtain ss where s': "s' = s\<lparr>runs := ?rs, schedules := ss\<rparr>"
    and ss: "\<exists>g. ss = update_row sd_id (sd_id (cl_sched cl)) g (schedules s) \<and> (\<forall>r. sd_id (g r) = sd_id r \<and> schedule_moves (g r) = schedule_moves r)"
    by (fastforce simp: finalize_run_def Let_def schedule_moves_def split: if_splits sum.splits)
  have l: "ledger_inv s' = ledger_inv s" by (rule ledger_inv_cong) (simp_all add: s')
  have ids: "map sd_id ss = map sd_id (schedules s)" using ss by (auto simp: update_row_def)
  have keep: "\<exists>u\<in>set ss. sd_id u = j \<and> m = schedule_moves u" if "\<exists>u\<in>set (schedules s). sd_id u = j \<and> m = schedule_moves u" for j m
  proof -
    from that obtain u g where u: "u \<in> set (schedules s)" "sd_id u = j" "m = schedule_moves u"
      and g: "ss = update_row sd_id (sd_id (cl_sched cl)) g (schedules s)"
        "\<forall>r. sd_id (g r) = sd_id r \<and> schedule_moves (g r) = schedule_moves r" using ss by blast
    have "(if sd_id u = sd_id (cl_sched cl) then g u else u) \<in> set ss" using u(1) by (simp add: g(1) set_update_row)
    with u g(2) show ?thesis by (metis (full_types))
  qed
  have occ: "map rn_occurrence ?rs = map rn_occurrence (runs s)" by (simp add: update_row_def mark_run_fields)
  have calls: "call_ok s' x" if "call_ok s x" for x
  proof -
    from that obtain r where "r \<in> set (runs s)" "rn_id r = cl_run x" "rn_schedule r = sd_id (cl_sched x)" "rn_for r = cl_for x"
      by (auto simp: call_ok_def)
    then have "\<exists>r\<in>set ?rs. rn_id r = cl_run x \<and> rn_schedule r = sd_id (cl_sched x) \<and> rn_for r = cl_for x"
      unfolding set_update_row
      by (intro bexI [of _ "if rn_id r = cl_run cl then mark_run c (cl_result cl) r else r"] imageI) (auto simp: mark_run_fields)
    with that show ?thesis by (simp add: call_ok_def s' named_def)
  qed
  have rows: "run_ok s' r" if "r \<in> set ?rs" for r
  proof -
    from that obtain r0 where r0: "r0 \<in> set (runs s)" "r = (if rn_id r0 = cl_run cl then mark_run c (cl_result cl) r0 else r0)"
      by (auto simp: set_update_row)
    from cl inv have cok: "call_ok s cl" by (simp add: sched_inv_def)
    show ?thesis
    proof (cases "rn_id r0 = cl_run cl")
      case True
      from cok obtain r1 where r1: "r1 \<in> set (runs s)" "rn_id r1 = cl_run cl" "rn_schedule r1 = sd_id (cl_sched cl)" "rn_for r1 = cl_for cl"
        by (auto simp: call_ok_def)
      have "r1 = r0" using inv r0(1) r1(1,2) True by (auto simp: sched_inv_def distinct_map inj_on_def)
      with r1 cok True show ?thesis
        by (auto simp: r0(2) run_ok_def mark_run_def call_ok_def s' named_def split: sum.splits)
    next
      case False
      with r0 inv show ?thesis by (simp add: sched_inv_def run_ok_def s' named_def)
    qed
  qed
  have "run_keys_ok s'" using inv keep unfolding sched_inv_def run_keys_ok_def s' named_def by simp
  with inv l rows calls show ?thesis
    by (simp add: sched_inv_def s' ids occ run_result.keys)
qed (use inv in simp)

lemma sched_step_keeps:
  assumes "sched_step s s'" and inv: "sched_inv s"
  shows "sched_inv s'"
proof -
  have led: "ledger_inv s" using inv by (simp add: sched_inv_def)
  from assms(1) show ?thesis
proof cases
  case (ss_create c f t amt ty iv at out)
  then show ?thesis using create_keeps [OF inv] by blast
next
  case (ss_claim c st t out)
  then show ?thesis using claim_keeps [OF inv] by blast
next
  case (ss_call c st r res s1 row)
  then show ?thesis using call_keeps [OF inv] by blast
next
  case (ss_finalize c cl out)
  then show ?thesis using finalize_keeps [OF inv] by blast
next
  case (ss_crash xs cl ys)
  have "ledger_inv (s\<lparr>in_flight := zs\<rparr>) = ledger_inv s" for zs by (rule ledger_inv_cong) simp_all
  with inv ss_crash show ?thesis
    by (auto simp: sched_inv_def run_keys_ok_def run_ok_def call_ok_def named_def)
next
  case (ss_switches k)
  with inv show ?thesis by (simp add: sched_inv_cache)
next
  case (ss_post c ty key legs out)
  then show ?thesis by (blast intro: other_posting [OF inv] postTransaction_posts_under postTransaction_inv led)
next
  case (ss_reverse c i key out)
  then show ?thesis by (blast intro: other_posting [OF inv] ReverseTransaction_posts_under ReverseTransaction_inv led)
next
  case (ss_capture c h key out)
  then show ?thesis by (blast intro: other_posting [OF inv] CaptureHold_posts_under CaptureHold_inv led)
next
  case (ss_hold c a amt out)
  show ?thesis using PlaceHold_frame [OF ss_hold(1)] PlaceHold_inv [OF ss_hold(1) led ss_hold(2)]
    by (elim exE) (rule sched_inv_frame [OF inv], simp_all)
next
  case (ss_release h out)
  show ?thesis using ReleaseHold_frame [OF ss_release] ReleaseHold_inv [OF ss_release led]
    by (elim exE) (rule sched_inv_frame [OF inv], simp_all)
next
  case (ss_open c ow ty cur od out)
  then have "\<exists>as. s' = s\<lparr>accounts := as\<rparr>"
    by (auto simp: OpenAccount_def Let_def split: sum.splits if_splits intro: exI [of _ "accounts s"])
  then show ?thesis using OpenAccount_inv [OF ss_open led]
    by (elim exE) (rule sched_inv_frame [OF inv], simp_all)
qed
qed

lemma sched_reachable_inv: "sched_reachable s \<Longrightarrow> sched_inv s"
proof (induction rule: sched_reachable.induct)
  case (start s)
  then have "\<not> named i (run_key j t) s" for i j t
    using start by (auto simp: sched_start_def is_run_key_def named_def txn_names_def) metis
  with start show ?case by (auto simp: sched_start_def sched_inv_def run_keys_ok_def)
next
  case (step s s')
  then show ?case by (blast intro: sched_step_keeps)
qed

subsection \<open>The worker's ticks are sequences of steps\<close>

definition sched_known :: "'z sched_db_scheme \<Rightarrow> scheduled_transfer \<Rightarrow> bool" where
  "sched_known s st \<longleftrightarrow> (\<exists>row\<in>set (schedules s). snapshot_of st row)"

definition run_known :: "'z sched_db_scheme \<Rightarrow> uuid \<Rightarrow> scheduled_transfer \<Rightarrow> int \<Rightarrow> bool" where
  "run_known s i st t \<longleftrightarrow> (\<exists>r\<in>set (runs s). rn_id r = i \<and> rn_schedule r = sd_id st \<and> rn_for r = t)"

text \<open>A process calls and finalizes in one go: its call comes and goes in the list of those in flight.\<close>

lemma finalize_in_flight:
  "finalize_run c i st t res (s\<lparr>in_flight := xs\<rparr>) = (out, s1) \<Longrightarrow>
   finalize_run c i st t res s = (out, s1\<lparr>in_flight := in_flight s\<rparr>) \<and> in_flight s1 = xs"
  by (auto simp: finalize_run_def Let_def split: if_splits sum.splits)

lemma finalize_known:
  assumes "finalize_run c i st t res s = (out, s')"
  shows "in_flight s' = in_flight s" and "sched_known s u \<Longrightarrow> sched_known s' u" and "run_known s j u v \<Longrightarrow> run_known s' j u v"
proof -
  have snap: "snapshot_of u (r\<lparr>sd_next := n\<rparr>) = snapshot_of u r" "snapshot_of u (r\<lparr>sd_status := x\<rparr>) = snapshot_of u r" for u r n x
    by (cases r; cases u; fastforce simp: snapshot_of_def)+
  show "in_flight s' = in_flight s" "sched_known s u \<Longrightarrow> sched_known s' u" "run_known s j u v \<Longrightarrow> run_known s' j u v"
    using assms
    by (auto simp: finalize_run_def Let_def sched_known_def run_known_def bex_update_row mark_run_fields snap
        simp del: bex_simps split: if_splits sum.splits)
qed

lemma transfer_tables:
  assumes "run_transfer c st t s = (res, s')"
  shows "schedules s' = schedules s" and "runs s' = runs s" and "sched_db.more s' = sched_db.more s"
proof -
  have "schedules s' = schedules s \<and> runs s' = runs s \<and> sched_db.more s' = sched_db.more s"
    using assms unfolding run_transfer_def
  proof (cases rule: payments_Transfer_cases)
    case (through tx k)
    then have "posts_under (run_key (sd_id st) t) (s\<lparr>res_cache := k\<rparr>) s'"
      unfolding Transfer_def by (intro postTransaction_posts_under)
    then show ?thesis by (auto simp: posts_under_def)
  qed simp
  then show "schedules s' = schedules s" and "runs s' = runs s" and "sched_db.more s' = sched_db.more s" by auto
qed

lemma transfer_known:
  assumes "run_transfer c st t s = (res, s')"
  shows "in_flight s' = in_flight s \<and> schedules s' = schedules s \<and> runs s' = runs s"
  using transfer_tables [OF assms] by (cases s; cases s') simp

lemma execute_steps:
  assumes run: "executeAndFinalize c i st t s = (out, s')" and sch: "sched_known s st" and known: "run_known s i st t"
  shows "sched_step\<^sup>*\<^sup>* s s'" and "in_flight s' = in_flight s"
    and "sched_known s u \<Longrightarrow> sched_known s' u" and "run_known s j u v \<Longrightarrow> run_known s' j u v"
proof -
  obtain res s1 where tr: "run_transfer c st t s = (res, s1)" by (cases "run_transfer c st t s")
  note k1 = transfer_known [OF tr]
  with run tr have fin: "finalize_run c i st t res s1 = (out, s')" by (simp add: executeAndFinalize_def)
  note k2 = finalize_known [OF fin]
  show "in_flight s' = in_flight s" using k1 k2(1) by simp
  show "sched_known s u \<Longrightarrow> sched_known s' u" using k1 k2(2) by (simp add: sched_known_def)
  show "run_known s j u v \<Longrightarrow> run_known s' j u v" using k1 k2(3) by (simp add: run_known_def)
  obtain r row where r: "r \<in> set (runs s)" "rn_id r = i" "rn_schedule r = sd_id st" "rn_for r = t"
    and row: "row \<in> set (schedules s)" "snapshot_of st row"
    using sch known by (auto simp: sched_known_def run_known_def)
  let ?cl = "\<lparr>cl_run = i, cl_sched = st, cl_for = t, cl_result = res\<rparr>"
  let ?s1 = "s1\<lparr>in_flight := in_flight s1 @ [?cl]\<rparr>"
  obtain s2 out2 where fin2: "finalize_run c i st t res ?s1 = (out2, s2)" by (cases "finalize_run c i st t res ?s1") auto
  from finalize_in_flight [OF fin2] fin have s': "s' = s2\<lparr>in_flight := in_flight s1\<rparr>" and fl: "in_flight s2 = in_flight s1 @ [?cl]"
    by auto
  have "sched_step s ?s1" using sched_step.ss_call [of c st r s res s1 row] tr r row by simp
  moreover have "sched_step ?s1 s2" using sched_step.ss_finalize [of c ?cl ?s1 out2 s2] fin2 by simp
  moreover have "sched_step s2 s'" using sched_step.ss_crash [of s2 "in_flight s1" ?cl "[]"] fl by (simp add: s')
  ultimately show "sched_step\<^sup>*\<^sup>* s s'" by (meson converse_rtranclp_into_rtranclp rtranclp.rtrancl_refl)
qed

lemma fireOnce_steps:
  assumes run: "fireOnce c st t s = (out, s')" and sch: "sched_known s st"
  shows "sched_step\<^sup>*\<^sup>* s s'" and "sched_known s u \<Longrightarrow> sched_known s' u"
proof -
  obtain a s1 where cl: "claim_run c st t s = (a, s1)" by (cases "claim_run c st t s")
  then have one: "sched_step s s1" by (rule ss_claim)
  have kept: "sched_known s1 u \<longleftrightarrow> sched_known s u" for u
    using cl by (auto simp: claim_run_def sched_known_def split: if_splits)
  have "sched_step\<^sup>*\<^sup>* s s' \<and> (sched_known s u \<longrightarrow> sched_known s' u)"
  proof (cases "\<exists>i. a = Inr (Some i)")
    case False
    then have "s' = s1" using run cl by (cases a) (auto simp: fireOnce_def split: option.splits)
    with one kept show ?thesis by auto
  next
    case True
    then obtain i where i: "a = Inr (Some i)" by blast
    have known: "run_known s1 i st t" using cl i by (auto simp: claim_run_def run_known_def split: if_splits)
    have ex: "executeAndFinalize c i st t s1 = (out, s')" using run cl i by (simp add: fireOnce_def)
    from execute_steps [OF ex _ known] kept sch have "sched_step\<^sup>*\<^sup>* s1 s'" "sched_known s1 u \<Longrightarrow> sched_known s' u" by auto
    with one kept show ?thesis by (auto intro: converse_rtranclp_into_rtranclp)
  qed
  then show "sched_step\<^sup>*\<^sup>* s s'" and "sched_known s u \<Longrightarrow> sched_known s' u" by auto
qed

lemma snapshot_self: "snapshot_of st st"
  unfolding snapshot_of_def by (rule exI [of _ "sd_next st"], rule exI [of _ "sd_status st"]) simp

lemma sched_known_row: "st \<in> set (schedules s) \<Longrightarrow> sched_known s st"
  unfolding sched_known_def by (blast intro: snapshot_self)

lemma fire_all_steps:
  "\<forall>st\<in>set due. sched_known s st \<Longrightarrow> sched_step\<^sup>*\<^sup>* s (fire_all cs due s)"
proof (induction due arbitrary: s)
  case (Cons st due)
  obtain out s1 where run: "fireOnce (cs (sd_id st)) st (sd_next st) s = (out, s1)" by (cases "fireOnce (cs (sd_id st)) st (sd_next st) s")
  note one = fireOnce_steps [OF run]
  have "sched_step\<^sup>*\<^sup>* s1 (fire_all cs due s1)" using Cons one(2) by auto
  moreover have "sched_step\<^sup>*\<^sup>* s s1" using Cons.prems by (intro one(1)) simp
  ultimately show ?case by (simp add: run)
qed simp

lemma RunDue_steps: "sched_step\<^sup>*\<^sup>* s (RunDue c cs s)"
  unfolding RunDue_def
  by (rule fire_all_steps) (auto simp: due_schedules_def dest!: in_set_takeD intro: sched_known_row)

lemma resolve_runs_steps:
  "\<forall>r\<in>set rs. sched_known s (sk_schedule r) \<and> run_known s (sk_run r) (sk_schedule r) (sk_for r) \<Longrightarrow>
   sched_step\<^sup>*\<^sup>* s (resolve_runs cs rs s)"
proof (induction rs arbitrary: s)
  case (Cons r rs)
  obtain out s1 where run: "executeAndFinalize (cs (sk_run r)) (sk_run r) (sk_schedule r) (sk_for r) s = (out, s1)"
    by (cases "executeAndFinalize (cs (sk_run r)) (sk_run r) (sk_schedule r) (sk_for r) s")
  note one = execute_steps [OF run]
  have "sched_step\<^sup>*\<^sup>* s1 (resolve_runs cs rs s1)" using Cons one(3,4) by auto
  moreover have "sched_step\<^sup>*\<^sup>* s s1" using Cons.prems by (intro one(1)) simp_all
  ultimately show ?case by (simp add: run)
qed simp

lemma sched_resolver_steps: "sched_step\<^sup>*\<^sup>* s (sched_ResolveStuck c cs s)"
  unfolding sched_ResolveStuck_def
proof (rule resolve_runs_steps, rule ballI)
  fix k assume "k \<in> set (List.map_filter (stuck_of c s) (runs s))"
  then obtain r st where "r \<in> set (runs s)" "find_row sd_id (rn_schedule r) (schedules s) = Some st"
    and k: "k = \<lparr>sk_run = rn_id r, sk_for = rn_for r, sk_schedule = st\<rparr>"
    by (auto simp: in_map_filter stuck_of_def split: if_splits)
  then show "sched_known s (sk_schedule k) \<and> run_known s (sk_run k) (sk_schedule k) (sk_for k)"
    using find_row_Some [of sd_id "rn_schedule r" "schedules s" st] by (auto simp: run_known_def intro!: sched_known_row)
qed

subsection \<open>Once per occurrence\<close>

text \<open>
  C25. An occurrence moves its money at most once.  In every state the scheduler can reach, next to
  any other use of the ledger under other keys, with claims, transfers and finalizations of any number of
  workers interleaved in any order and lost at any point: there is one run per schedule and time; at most
  one transaction bears an occurrence's key; and a completed run names that transaction, whose entries are
  exactly the schedule's amount out of the payer's account and into the payee's.
\<close>

theorem scheduled_occurrence_once:
  assumes "sched_reachable s"
  shows "distinct (map (\<lambda>r. (rn_schedule r, rn_for r)) (runs s))
    \<and> (\<forall>x\<in>set (txns s). \<forall>y\<in>set (txns s). \<forall>i t. t_key x = run_key i t \<longrightarrow> t_key y = run_key i t \<longrightarrow> x = y)
    \<and> (\<forall>r\<in>set (runs s). rn_status r = RunCompleted \<longrightarrow>
        (\<exists>x\<in>set (txns s). \<exists>st\<in>set (schedules s). rn_txn r = Some (t_id x) \<and> sd_id st = rn_schedule r
          \<and> t_key x = run_key (rn_schedule r) (rn_for r)
          \<and> txn_moves (t_id x) (entries s) =
              [(sd_from st, - minor (sd_amount st)), (sd_to st, minor (sd_amount st))]))"
proof (intro conjI ballI impI allI)
  note inv = sched_reachable_inv [OF assms]
  then have led: "ledger_inv s" and keys: "run_keys_ok s" by (simp_all add: sched_inv_def)
  show "distinct (map (\<lambda>r. (rn_schedule r, rn_for r)) (runs s))"
    using inv by (simp add: sched_inv_def rn_occurrence_def [abs_def])
  show "x = y" if "x \<in> set (txns s)" "y \<in> set (txns s)" "t_key x = run_key i t" "t_key y = run_key i t" for x y i t
    using ledger_invD(6) [OF led] that by (metis distinct_map inj_onD)
  fix r assume r: "r \<in> set (runs s)" "rn_status r = RunCompleted"
  with inv obtain i where i: "rn_txn r = Some i" "named i (run_key (rn_schedule r) (rn_for r)) s"
    by (auto simp: sched_inv_def run_ok_def)
  then obtain x where x: "x \<in> set (txns s)" "t_id x = i" "t_key x = run_key (rn_schedule r) (rn_for r)"
    by (auto simp: named_def txn_names_def)
  from keys i(2) obtain st where st: "st \<in> set (schedules s)" "sd_id st = rn_schedule r" "txn_moves i (entries s) = schedule_moves st"
    unfolding run_keys_ok_def by blast
  show "\<exists>x\<in>set (txns s). \<exists>st\<in>set (schedules s). rn_txn r = Some (t_id x) \<and> sd_id st = rn_schedule r
          \<and> t_key x = run_key (rn_schedule r) (rn_for r)
          \<and> txn_moves (t_id x) (entries s) = [(sd_from st, - minor (sd_amount st)), (sd_to st, minor (sd_amount st))]"
    using x st i(1) by (intro bexI [of _ x] bexI [of _ st]) (simp_all add: schedule_moves_def)
qed

text \<open>
  A small bank: \<open>A\<close>, of the lowest tier (500000 a day), had 600000, has sent 499950 of it today, and has a
  standing order over 30 to \<open>B\<close>.
\<close>

definition sched_ledger :: ledger_db where
  "sched_ledger = sample_ledger\<lparr>identities := [(sample_identity ''A'' ''a@kolo.ng'')\<lparr>id_tier := 0\<rparr>, sample_identity ''B'' ''b@kolo.ng''],
     idem_keys := sample_keys @ [(hd sample_keys)\<lparr>ik_key := ''k1'', ik_response := Some \<lparr>res_txn = ''tx-1'', res_state = TransactionStatePosted\<rparr>\<rparr>],
     txns := sample_txns @ [\<lparr>t_id = ''tx-1'', t_key = ''k1'', t_type = TransactionTypeTransfer, t_state = TransactionStatePosted\<rparr>],
     entries := [sample_entry ''tx-0'' ''A'' 600000, sample_entry ''tx-0'' SystemAccountNGN (- 600000),
       sample_entry ''tx-1'' ''A'' (- 499950), sample_entry ''tx-1'' ''B'' 499950]\<rparr>"

definition sched_seed :: sched_sys where
  "sched_seed = sched_db.extend (resil_db.extend (ledger_db.extend sched_ledger (resil_db.fields []
     \<lparr>sm_read_only = False, sm_reason = None, sm_updated_by = None\<rparr>
     \<lparr>cs_read_only = False, cs_tripped = [], cs_fetched = Some 0\<rparr>)) (sched_db.fields [] [])) (sched_sys.fields [])"

definition sched_ordered :: sched_sys where
  "sched_ordered = snd (scheduler_Create (call 1) ''A'' ''B'' (ngn 30) ScheduleRecurring (Some IntervalDaily) 0 sched_seed)"

definition sched_due :: scheduled_transfer where
  "sched_due = hd (schedules sched_ordered)"

text \<open>The same order, fired by a worker that dies between the transfer and the finalization; and the resolver later on.\<close>

definition sched_crashed :: sched_sys where
  "sched_crashed = snd (run_transfer (call 3) sched_due 0 (snd (claim_run (call 3) sched_due 0 sched_ordered)))"

definition sched_later :: ctx where
  "sched_later = (call 5)\<lparr>now := 300 * second\<rparr>"

definition sched_view :: "sched_sys \<Rightarrow> _" where
  "sched_view s = (map (\<lambda>r. (rn_schedule r, rn_for r, rn_status r, rn_txn r, rn_error r)) (runs s), map (\<lambda>x. (t_id x, t_key x)) (txns s),
     txn_moves ''Da'' (entries s), map (\<lambda>st. (sd_id st, sd_next st)) (schedules s), available ''A'' s)"

lemmas sched_samples = sched_ordered_def sched_seed_def sched_ledger_def

lemma sched_runs:
  "sched_view (RunDue (call 2) (\<lambda>_. call 3) sched_ordered) =
     ([(''Br'', 0, RunCompleted, Some ''Da'', None)], [(''tx-0'', ''k0''), (''tx-1'', ''k1''), (''Da'', ''scheduled:Br:0'')],
      [(''A'', - 30), (''B'', 30)], [(''Br'', 86400000000)], 100020)"
  "sched_view sched_crashed =
     ([(''Br'', 0, RunProcessing, None, None)], [(''tx-0'', ''k0''), (''tx-1'', ''k1''), (''Da'', ''scheduled:Br:0'')],
      [(''A'', - 30), (''B'', 30)], [(''Br'', 0)], 100020)"
  "sched_view (sched_ResolveStuck sched_later (\<lambda>_. sched_later) sched_crashed) =
     ([(''Br'', 0, RunFailed, None, Some ErrLimitExceeded)], [(''tx-0'', ''k0''), (''tx-1'', ''k1''), (''Da'', ''scheduled:Br:0'')],
      [(''A'', - 30), (''B'', 30)], [(''Br'', 86400000000)], 100020)"
  unfolding sched_crashed_def sched_due_def sched_samples by code_simp+

lemma sched_due_row: "sched_due \<in> set (schedules sched_ordered)" "sd_id sched_due = ''Br''"
proof -
  have "map sd_id (schedules sched_ordered) = [''Br'']" unfolding sched_samples by code_simp
  then show "sched_due \<in> set (schedules sched_ordered)" "sd_id sched_due = ''Br''"
    by (auto simp: sched_due_def map_eq_Cons_conv)
qed

lemma not_run_key: "take 10 k \<noteq> ''scheduled:'' \<Longrightarrow> \<not> is_run_key k"
  by (auto simp: is_run_key_def run_key_def)

lemma sched_ordered_reachable: "sched_reachable sched_ordered"
proof (rule sched_reachable.step)
  have "ledger_inv sched_ledger"
    by (simp add: sched_ledger_def ledger_inv_def schema_ok_def balanced_def solvent_def sample_eval)
  then have "ledger_inv sched_seed"
    by (simp add: ledger_inv_def schema_ok_def balanced_def solvent_def available_def sched_seed_def sched_ledger_def
        sample_ledger_def ledger_db.defs resil_db.defs sched_db.defs sched_sys.defs)
  then show "sched_reachable sched_seed"
    by (intro sched_reachable.start)
       (simp add: sched_start_def sched_seed_def sched_ledger_def sample_ledger_def sample_keys_def sample_txns_def
          not_run_key ledger_db.defs resil_db.defs sched_db.defs sched_sys.defs)
  show "sched_step sched_seed sched_ordered"
    unfolding sched_ordered_def by (rule ss_create [OF prod.collapse [symmetric]])
qed

lemma reachable_steps: "sched_step\<^sup>*\<^sup>* s s' \<Longrightarrow> sched_reachable s \<Longrightarrow> sched_reachable s'"
  by (induction rule: rtranclp_induct) (auto intro: sched_reachable.step)

theorem scheduled_occurrence_once_witness:
  "\<exists>r x. runs (RunDue (call 2) (\<lambda>_. call 3) sched_ordered) = [r] \<and> rn_status r = RunCompleted
     \<and> x \<in> set (txns (RunDue (call 2) (\<lambda>_. call 3) sched_ordered)) \<and> rn_txn r = Some (t_id x) \<and> t_key x = ''scheduled:Br:0''"
proof -
  let ?s = "RunDue (call 2) (\<lambda>_. call 3) sched_ordered"
  have reach: "sched_reachable ?s" by (rule reachable_steps [OF RunDue_steps sched_ordered_reachable])
  have "map (\<lambda>r. (rn_schedule r, rn_for r, rn_status r, rn_txn r, rn_error r)) (runs ?s) = [(''Br'', 0, RunCompleted, Some ''Da'', None)]"
    using sched_runs(1) by (simp add: sched_view_def)
  then obtain r where r: "runs ?s = [r]" "rn_schedule r = ''Br''" "rn_for r = 0" "rn_status r = RunCompleted"
    by (auto simp: map_eq_Cons_conv)
  from scheduled_occurrence_once [OF reach] r(1,4) obtain x where x: "x \<in> set (txns ?s)" "rn_txn r = Some (t_id x)"
    "t_key x = run_key (rn_schedule r) (rn_for r)" by auto
  have "run_key ''Br'' 0 = ''scheduled:Br:0''" by code_simp
  with r x show ?thesis by (intro exI [of _ r] exI [of _ x]) simp
qed

text \<open>
  C37. A run can be marked failed although its money has moved.  A worker dies after the transfer; the
  resolver repeats the call under the same key, but \<open>payments.Transfer\<close> checks the limits before the ledger
  is asked for the key, and the day's total now contains the transfer itself.  The repeated call is refused with
  \<open>ErrLimitExceeded\<close>, and the run is finalized as failed, with no transaction: \<open>A\<close> has paid.
\<close>

theorem moved_run_marked_failed:
  "sched_reachable (sched_ResolveStuck sched_later (\<lambda>_. sched_later) sched_crashed)
   \<and> map rn_status (runs sched_crashed) = [RunProcessing]
   \<and> map (\<lambda>r. (rn_status r, rn_txn r, rn_error r)) (runs (sched_ResolveStuck sched_later (\<lambda>_. sched_later) sched_crashed))
       = [(RunFailed, None, Some ErrLimitExceeded)]
   \<and> txn_moves ''Da'' (entries (sched_ResolveStuck sched_later (\<lambda>_. sched_later) sched_crashed)) = [(''A'', - 30), (''B'', 30)]"
proof -
  obtain out s1 where cl: "claim_run (call 3) sched_due 0 sched_ordered = (out, s1)" by (cases "claim_run (call 3) sched_due 0 sched_ordered")
  obtain res s2 where tr: "run_transfer (call 3) sched_due 0 s1 = (res, s2)" by (cases "run_transfer (call 3) sched_due 0 s1")
  have s2: "sched_crashed = s2" by (simp add: sched_crashed_def cl tr)
  from sched_runs(2) have "map (\<lambda>r. (rn_schedule r, rn_for r, rn_status r)) (runs s2) = [(''Br'', 0, RunProcessing)]"
    by (auto simp: sched_view_def s2 map_eq_Cons_conv)
  then obtain r where r: "runs s2 = [r]" "rn_schedule r = ''Br''" "rn_for r = 0" by (auto simp: map_eq_Cons_conv)
  have "runs s1 = [r]" using transfer_known [OF tr] r(1) by simp
  then have "r \<in> set (runs s1)" by simp
  moreover have "sched_reachable s1" by (rule sched_reachable.step [OF sched_ordered_reachable ss_claim [OF cl]])
  moreover have "schedules s1 = schedules sched_ordered" using cl by (auto simp: claim_run_def split: if_splits)
  moreover have "run_transfer (call 3) sched_due (rn_for r) s1 = (res, s2)" using tr r by simp
  ultimately have "sched_reachable (s2\<lparr>in_flight := in_flight s2 @
      [\<lparr>cl_run = rn_id r, cl_sched = sched_due, cl_for = rn_for r, cl_result = res\<rparr>]\<rparr>)"
    using transfer_known [OF tr] sched_due_row r
    by (intro sched_reachable.step [of s1, OF _ ss_call [where row = sched_due]]) (auto intro: snapshot_self)
  then have "sched_reachable s2"
    using sched_reachable.step [OF _ ss_crash [where ys = "[]"], of "s2\<lparr>in_flight := in_flight s2 @
      [\<lparr>cl_run = rn_id r, cl_sched = sched_due, cl_for = rn_for r, cl_result = res\<rparr>]\<rparr>"] by simp
  then have "sched_reachable (sched_ResolveStuck sched_later (\<lambda>_. sched_later) s2)"
    by (rule reachable_steps [OF sched_resolver_steps])
  then show ?thesis
    using sched_runs(2,3) unfolding s2 by (auto simp: sched_view_def map_eq_Cons_conv)
qed

subsection \<open>Catching up\<close>

text \<open>What the database's \<open>CHECK\<close> admits, and no run at or after a schedule's next time.\<close>

definition schedule_typed :: "scheduled_transfer \<Rightarrow> bool" where
  "schedule_typed st \<longleftrightarrow> sd_type st = ScheduleOnce
     \<or> sd_type st = ScheduleRecurring \<and> sd_interval st \<in> {Some IntervalDaily, Some IntervalWeekly, Some IntervalMonthly}"

definition runs_behind :: "transfer_run list \<Rightarrow> scheduled_transfer \<Rightarrow> bool" where
  "runs_behind rs st \<longleftrightarrow> (sd_status st = ScheduleActive \<longrightarrow> (\<forall>r\<in>set rs. rn_schedule r = sd_id st \<longrightarrow> rn_for r < sd_next st))"

definition sched_ready :: "'z sched_db_scheme \<Rightarrow> bool" where
  "sched_ready s \<longleftrightarrow> distinct (map sd_id (schedules s)) \<and> (\<forall>st\<in>set (schedules s). schedule_typed st \<and> runs_behind (runs s) st)"

text \<open>How many occurrences up to time \<open>T\<close> a schedule can still owe: at most one a day.\<close>

definition row_lag :: "int \<Rightarrow> scheduled_transfer \<Rightarrow> int" where
  "row_lag T st = (if sd_status st = ScheduleActive \<and> sd_next st \<le> T then (T - sd_next st) div day + 1 else 0)"

definition sched_lag :: "int \<Rightarrow> 'z sched_db_scheme \<Rightarrow> int" where
  "sched_lag T s = sum_list (map (row_lag T) (schedules s))"

lemma row_lag_nonneg: "0 \<le> row_lag T st"
  by (simp add: row_lag_def pos_imp_zdiv_nonneg_iff)

lemma sched_lag_nonneg: "0 \<le> sched_lag T s"
  unfolding sched_lag_def by (rule sum_list_nonneg) (auto simp: row_lag_nonneg)

lemma sched_advance_bound:
  assumes "schedule_typed st" and "sd_type st \<noteq> ScheduleOnce"
  obtains n where "sched_advance t (sd_interval st) = Inr n" and "t + day \<le> n"
proof -
  have "1 * day \<le> 28 * day" using day_pos by linarith
  then have "t + day \<le> add_date t 0 1 0" using add_month_bounds(1) [of t] by linarith
  moreover have "t + day \<le> t + 7 * day" using day_pos by linarith
  ultimately show thesis using assms that by (auto simp: schedule_typed_def add_days)
qed

lemma row_lag_advance:
  assumes "sd_status st = ScheduleActive" and "sd_next st \<le> T" and "sd_next st + day \<le> n"
  shows "row_lag T (st\<lparr>sd_next := n\<rparr>) \<le> row_lag T st - 1"
proof (cases "n \<le> T")
  case True
  have "(T - n) div day \<le> (T - sd_next st - day) div day" using assms(3) by (intro zdiv_mono1) simp_all
  also have "\<dots> = (T - sd_next st) div day - 1"
    using div_add_self2 [of day "T - sd_next st - day"] day_pos by simp
  finally show ?thesis using True assms by (simp add: row_lag_def)
next
  case False
  then show ?thesis using assms by (simp add: row_lag_def pos_imp_zdiv_nonneg_iff)
qed

text \<open>Firing a due schedule of a ready state always moves it on, whatever its transfer does.\<close>

lemma fireOnce_advances:
  assumes ready: "sched_ready s" and st: "st \<in> set (schedules s)" "sd_status st = ScheduleActive" "sd_next st \<le> T"
    and fresh: "\<not> key_taken rn_id (gen c 18) (runs s)" and run: "fireOnce c st (sd_next st) s = (out, s')"
  shows "sched_ready s'" and "sched_lag T s' \<le> sched_lag T s - 1"
    and "u \<in> set (schedules s) \<Longrightarrow> sd_id u \<noteq> sd_id st \<Longrightarrow> u \<in> set (schedules s')"
    and "map rn_id (runs s') = map rn_id (runs s) @ [gen c 18]"
proof -
  from ready have d: "distinct (map sd_id (schedules s))" and typed: "schedule_typed st" and behind: "runs_behind (runs s) st"
    using st(1) by (auto simp: sched_ready_def)
  let ?r = "\<lparr>rn_id = gen c 18, rn_schedule = sd_id st, rn_for = sd_next st, rn_status = RunProcessing, rn_txn = None,
         rn_attempted = now c, rn_completed = None, rn_error = None\<rparr>"
  let ?s1 = "s\<lparr>runs := runs s @ [?r]\<rparr>"
  have "\<not> key_taken rn_occurrence (sd_id st, sd_next st) (runs s)"
    using behind st(2) by (auto simp: key_taken_def rn_occurrence_def runs_behind_def)
  then have cl: "claim_run c st (sd_next st) s = (Inr (Some (gen c 18)), ?s1)"
    using fresh st(1) by (auto simp: claim_run_def key_taken_def)
  obtain res s2 where tr: "run_transfer c st (sd_next st) ?s1 = (res, s2)" by (cases "run_transfer c st (sd_next st) ?s1")
  have kept: "schedules s2 = schedules s" "runs s2 = runs s @ [?r]"
    using transfer_tables [OF tr] by simp_all
  have fin: "finalize_run c (gen c 18) st (sd_next st) res s2 = (out, s')"
    using run by (simp add: fireOnce_def cl executeAndFinalize_def tr)
  define rs where "rs = update_row rn_id (gen c 18) (mark_run c res) (runs s @ [?r])"
  have ids: "map rn_id rs = map rn_id (runs s) @ [gen c 18]" by (simp add: rs_def run_result.keys)
  have rs: "\<exists>r0. (r0 \<in> set (runs s) \<or> r0 = ?r) \<and> rn_schedule r = rn_schedule r0 \<and> rn_for r = rn_for r0" if "r \<in> set rs" for r
  proof -
    from that obtain r0 where "r0 \<in> set (runs s @ [?r])" "r = (if rn_id r0 = gen c 18 then mark_run c res r0 else r0)"
      unfolding rs_def set_update_row by blast
    then show ?thesis by (intro exI [of _ r0]) (simp add: mark_run_fields disj_commute)
  qed
  have find: "find_row sd_id (sd_id st) (schedules s) = Some st" by (rule find_row_distinct [OF d st(1)])
  obtain g where s': "s' = s2\<lparr>runs := rs, schedules := update_row sd_id (sd_id st) g (schedules s)\<rparr>"
    and g: "\<And>r. sd_id (g r) = sd_id r" "schedule_typed (g st)" "row_lag T (g st) \<le> row_lag T st - 1" "runs_behind rs (g st)"
  proof (cases "sd_type st = ScheduleOnce")
    case True
    let ?g = "\<lambda>r. r\<lparr>sd_status := ScheduleCompleted\<rparr>"
    have e: "s' = s2\<lparr>runs := rs, schedules := update_row sd_id (sd_id st) ?g (schedules s)\<rparr>"
      using fin True by (simp add: finalize_run_def Let_def kept rs_def)
    have "1 \<le> row_lag T st" using st by (simp add: row_lag_def pos_imp_zdiv_nonneg_iff)
    then have "row_lag T (?g st) \<le> row_lag T st - 1" by (simp add: row_lag_def)
    moreover have "schedule_typed (?g st)" "runs_behind rs (?g st)" using True by (simp_all add: schedule_typed_def runs_behind_def)
    ultimately show thesis by (intro that [OF e]) simp_all
  next
    case False
    with typed obtain n where n: "sched_advance (sd_next st) (sd_interval st) = Inr n" "sd_next st + day \<le> n"
      by (rule sched_advance_bound)
    let ?g = "\<lambda>r. r\<lparr>sd_next := n\<rparr>"
    have e: "s' = s2\<lparr>runs := rs, schedules := update_row sd_id (sd_id st) ?g (schedules s)\<rparr>"
      using fin False n(1) by (simp add: finalize_run_def Let_def kept rs_def)
    have lt: "sd_next st < n" using n(2) day_pos by linarith
    have "rn_for r < n" if "r \<in> set rs" "rn_schedule r = sd_id st" for r
      using rs [OF that(1)] that(2) behind lt st(2) by (auto simp: runs_behind_def dest: order.strict_trans)
    then have "runs_behind rs (?g st)" by (simp add: runs_behind_def)
    moreover have "schedule_typed (?g st)" using typed by (simp add: schedule_typed_def)
    ultimately show thesis using row_lag_advance [OF st(2,3) n(2)] by (intro that [OF e]) simp_all
  qed
  have upd: "row_update sd_id g" by (rule row_update.intro) (rule g(1))
  show "map rn_id (runs s') = map rn_id (runs s) @ [gen c 18]" by (simp add: s' ids)
  show "u \<in> set (schedules s) \<Longrightarrow> sd_id u \<noteq> sd_id st \<Longrightarrow> u \<in> set (schedules s')"
    by (force simp: s' set_update_row)
  show "sched_lag T s' \<le> sched_lag T s - 1"
    using g(3) by (simp add: s' sched_lag_def row_update.sum_update [OF upd d find])
  show "sched_ready s'"
    unfolding sched_ready_def
  proof (intro conjI ballI)
    show "distinct (map sd_id (schedules s'))" using d by (simp add: s' row_update.keys [OF upd])
    fix u assume "u \<in> set (schedules s')"
    then consider "u = g st" | "u \<in> set (schedules s)" "sd_id u \<noteq> sd_id st"
      using d st(1) by (auto simp: s' set_update_row distinct_map inj_on_def)
    then show "schedule_typed u" "runs_behind (runs s') u"
      using g(2,4) ready rs by (cases; fastforce simp: s' sched_ready_def runs_behind_def)+
  qed
qed

text \<open>One tick fires every schedule it found, each once.\<close>

lemma fire_all_advances:
  assumes "sched_ready s" and "distinct (map sd_id due)"
    and "\<And>st. st \<in> set due \<Longrightarrow> st \<in> set (schedules s) \<and> sd_status st = ScheduleActive \<and> sd_next st \<le> T"
    and "\<And>st. st \<in> set due \<Longrightarrow> \<not> key_taken rn_id (gen (cs (sd_id st)) 18) (runs s)"
    and "\<And>i j. gen (cs i) 18 = gen (cs j) 18 \<Longrightarrow> i = j"
  shows "sched_ready (fire_all cs due s) \<and> sched_lag T (fire_all cs due s) \<le> sched_lag T s - int (length due)
    \<and> map rn_id (runs (fire_all cs due s)) = map rn_id (runs s) @ map (\<lambda>st. gen (cs (sd_id st)) 18) due"
  using assms(1-4)
proof (induction due arbitrary: s)
  case (Cons st due)
  obtain out s1 where run: "fireOnce (cs (sd_id st)) st (sd_next st) s = (out, s1)" by (cases "fireOnce (cs (sd_id st)) st (sd_next st) s")
  note one = fireOnce_advances [OF Cons.prems(1) _ _ _ _ run, of T]
  have st: "st \<in> set (schedules s)" "sd_status st = ScheduleActive" "sd_next st \<le> T" "\<not> key_taken rn_id (gen (cs (sd_id st)) 18) (runs s)"
    using Cons.prems(3,4) by auto
  have neq: "sd_id u \<noteq> sd_id st" if "u \<in> set due" for u
  proof -
    have "sd_id u \<in> set (map sd_id due)" using that by simp
    then show ?thesis using Cons.prems(2) by (metis distinct.simps(2) list.simps(9))
  qed
  have rest: "u \<in> set (schedules s1) \<and> sd_status u = ScheduleActive \<and> sd_next u \<le> T" if "u \<in> set due" for u
    using one(3) [OF st, of u] Cons.prems(3) [of u] neq [OF that] that by simp
  have new: "\<not> key_taken rn_id (gen (cs (sd_id u)) 18) (runs s1)" if "u \<in> set due" for u
  proof -
    from neq [OF that] have "gen (cs (sd_id u)) 18 \<noteq> gen (cs (sd_id st)) 18" using assms(5) by blast
    then show ?thesis using Cons.prems(4) [of u] that one(4) [OF st] by (simp add: key_taken_def flip: set_map)
  qed
  have "sched_ready (fire_all cs due s1) \<and> sched_lag T (fire_all cs due s1) \<le> sched_lag T s1 - int (length due)
    \<and> map rn_id (runs (fire_all cs due s1)) = map rn_id (runs s1) @ map (\<lambda>st. gen (cs (sd_id st)) 18) due"
    using Cons.prems(2) by (intro Cons.IH [OF one(1) [OF st]] new rest) simp_all
  then show ?case using one(2,4) [OF st] by (simp add: run)
qed simp

lemma due_schedules_props:
  assumes "distinct (map sd_id (schedules s))"
  shows "distinct (map sd_id (due_schedules c s))"
    and "st \<in> set (due_schedules c s) \<Longrightarrow> st \<in> set (schedules s) \<and> sd_status st = ScheduleActive \<and> sd_next st \<le> now c"
    and "due_schedules c s = [] \<longleftrightarrow> (\<forall>st\<in>set (schedules s). sd_status st = ScheduleActive \<longrightarrow> now c < sd_next st)"
proof -
  let ?f = "filter (\<lambda>r. sd_status r = ScheduleActive \<and> sd_next r \<le> now c) (schedules s)"
  have "distinct (map sd_id (sort_key sd_next ?f))"
    using assms by (auto simp: distinct_map inj_on_def)
  then show "distinct (map sd_id (due_schedules c s))"
    by (simp add: due_schedules_def distinct_take take_map [symmetric])
  show "st \<in> set (due_schedules c s) \<Longrightarrow> st \<in> set (schedules s) \<and> sd_status st = ScheduleActive \<and> sd_next st \<le> now c"
    by (auto simp: due_schedules_def dest: in_set_takeD)
  have empty: "sort_key sd_next xs = [] \<longleftrightarrow> xs = []" for xs :: "scheduled_transfer list"
    by (metis set_empty set_sort)
  have "due_schedules c s = [] \<longleftrightarrow> ?f = []"
    by (simp add: due_schedules_def empty)
  also have "\<dots> \<longleftrightarrow> (\<forall>st\<in>set (schedules s). sd_status st = ScheduleActive \<longrightarrow> now c < sd_next st)"
    by (auto simp: filter_empty_conv)
  finally show "due_schedules c s = [] \<longleftrightarrow> (\<forall>st\<in>set (schedules s). sd_status st = ScheduleActive \<longrightarrow> now c < sd_next st)" .
qed

lemma lag_due: "sched_lag (now c) s = 0 \<Longrightarrow> st \<in> set (schedules s) \<Longrightarrow> sd_status st = ScheduleActive \<Longrightarrow> now c < sd_next st"
proof (rule ccontr)
  assume zero: "sched_lag (now c) s = 0" and st: "st \<in> set (schedules s)" "sd_status st = ScheduleActive" and "\<not> now c < sd_next st"
  then have "1 \<le> row_lag (now c) st" by (simp add: row_lag_def pos_imp_zdiv_nonneg_iff)
  also have "row_lag (now c) st \<le> sched_lag (now c) s"
    unfolding sched_lag_def using st(1) by (intro member_le_sum_list) (auto simp: row_lag_nonneg)
  finally show False using zero by simp
qed

text \<open>The worker's ticks, one after another, while the clock says \<open>now c\<close>; \<open>C k i\<close> is the call that fires schedule \<open>i\<close> in tick \<open>k\<close>.\<close>

fun sched_ticks :: "ctx \<Rightarrow> (nat \<Rightarrow> uuid \<Rightarrow> ctx) \<Rightarrow> nat \<Rightarrow> 'z sched_db_scheme \<Rightarrow> 'z sched_db_scheme" where
  "sched_ticks c C 0 s = s"
| "sched_ticks c C (Suc k) s = RunDue c (C k) (sched_ticks c C k s)"

text \<open>
  C26. A scheduler that has fallen behind catches up.  However long it was down, however many schedules wait
  and whatever becomes of each transfer, once there have been as many ticks as days are owed in all, no active
  schedule is due any more, and the ticks have created at most that many runs.  (It starts from a state in which no run lies at or after its
  schedule's next time; run identifiers are fresh.)
\<close>

theorem schedules_catch_up:
  assumes ready: "sched_ready s" and enough: "sched_lag (now c) s \<le> int n"
    and fresh: "\<And>k i. \<not> key_taken rn_id (gen (C k i) 18) (runs s)"
    and distinct: "\<And>k i l j. gen (C k i) 18 = gen (C l j) 18 \<Longrightarrow> k = l \<and> i = j"
  shows "(\<forall>st\<in>set (schedules (sched_ticks c C n s)). sd_status st = ScheduleActive \<longrightarrow> now c < sd_next st)
    \<and> due_schedules c (sched_ticks c C n s) = []
    \<and> int (length (runs (sched_ticks c C n s))) \<le> int (length (runs s)) + sched_lag (now c) s"
proof -
  have tick: "sched_ready (sched_ticks c C m s)
    \<and> (sched_lag (now c) (sched_ticks c C m s) \<le> sched_lag (now c) s - int m \<or> sched_lag (now c) (sched_ticks c C m s) = 0)
    \<and> (\<forall>i\<in>set (map rn_id (runs (sched_ticks c C m s))). i \<in> set (map rn_id (runs s)) \<or> (\<exists>k<m. \<exists>j. i = gen (C k j) 18))
    \<and> int (length (runs (sched_ticks c C m s))) + sched_lag (now c) (sched_ticks c C m s)
        \<le> int (length (runs s)) + sched_lag (now c) s" for m
  proof (induction m)
    case 0
    then show ?case using ready by simp
  next
    case (Suc m)
    let ?s = "sched_ticks c C m s" and ?due = "due_schedules c (sched_ticks c C m s)"
    have d: "distinct (map sd_id (schedules ?s))" using Suc.IH by (simp add: sched_ready_def)
    note due = due_schedules_props [OF d, where c = c]
    have new: "\<not> key_taken rn_id (gen (C m i) 18) (runs ?s)" for i
      using Suc.IH fresh [of m i] distinct [of m i] unfolding key_taken_def by (metis less_irrefl)
    have "sched_ready (fire_all (C m) ?due ?s) \<and> sched_lag (now c) (fire_all (C m) ?due ?s) \<le> sched_lag (now c) ?s - int (length ?due)
      \<and> map rn_id (runs (fire_all (C m) ?due ?s)) = map rn_id (runs ?s) @ map (\<lambda>st. gen (C m (sd_id st)) 18) ?due"
      using Suc.IH distinct due(1,2) new by (intro fire_all_advances) blast+
    moreover have "sched_ticks c C (Suc m) s = fire_all (C m) ?due ?s" by (simp add: RunDue_def)
    ultimately have one: "sched_ready (sched_ticks c C (Suc m) s)"
      "sched_lag (now c) (sched_ticks c C (Suc m) s) \<le> sched_lag (now c) ?s - int (length ?due)"
      and ids: "map rn_id (runs (sched_ticks c C (Suc m) s)) = map rn_id (runs ?s) @ map (\<lambda>st. gen (C m (sd_id st)) 18) ?due" by simp_all
    have len: "length (runs (sched_ticks c C (Suc m) s)) = length (runs ?s) + length ?due"
      using arg_cong [OF ids, of length] by simp
    have lag: "sched_lag (now c) (sched_ticks c C (Suc m) s) \<le> sched_lag (now c) s - int (Suc m)
        \<or> sched_lag (now c) (sched_ticks c C (Suc m) s) = 0"
    proof (cases "?due = []")
      case True
      then have zero: "\<forall>st\<in>set (schedules ?s). row_lag (now c) st = 0" using due(3) by (auto simp: row_lag_def)
      then have "sched_lag (now c) ?s = 0" by (simp add: sched_lag_def cong: map_cong)
      then show ?thesis using True by (simp add: RunDue_def)
    next
      case False
      then have "1 \<le> length ?due" by (cases ?due) simp_all
      then show ?thesis using one(2) Suc.IH sched_lag_nonneg [of "now c" "sched_ticks c C (Suc m) s"] by linarith
    qed
    have "i \<in> set (map rn_id (runs s)) \<or> (\<exists>k<Suc m. \<exists>j. i = gen (C k j) 18)" if "i \<in> set (map rn_id (runs (sched_ticks c C (Suc m) s)))" for i
      using that Suc.IH unfolding ids by (auto simp: less_Suc_eq)
    with one lag len Suc.IH show ?case by auto
  qed
  have "sched_lag (now c) (sched_ticks c C n s) = 0"
    using tick [of n] enough sched_lag_nonneg [of "now c" "sched_ticks c C n s"] by linarith
  then show ?thesis
    using lag_due [of c "sched_ticks c C n s"] tick [of n] due_schedules_props(3) [where s = "sched_ticks c C n s" and c = c]
    by (auto simp: sched_ready_def)
qed

definition sched_call_at :: "int \<Rightarrow> nat \<Rightarrow> uuid \<Rightarrow> ctx" where
  "sched_call_at t k i = \<lparr>now = t, gen = (\<lambda>_. i @ '':'' @ dec_nat k), sha256 = (\<lambda>x. ''5f'')\<rparr>"

theorem schedules_catch_up_witness:
  "let c = (call 2)\<lparr>now := 3 * day\<rparr>; s = sched_ticks c (sched_call_at (3 * day)) 4 sched_ordered
   in due_schedules c s = [] \<and> length (runs s) \<le> 4"
proof -
  let ?c = "(call 2)\<lparr>now := 3 * day\<rparr>"
  have view: "map (\<lambda>st. (sd_status st, sd_type st, sd_interval st, sd_next st)) (schedules sched_ordered)
      = [(ScheduleActive, ScheduleRecurring, Some IntervalDaily, 0)]" "map rn_id (runs sched_ordered) = []"
    unfolding sched_samples by code_simp+
  then obtain st where st: "schedules sched_ordered = [st]" "sd_status st = ScheduleActive" "sd_type st = ScheduleRecurring"
    "sd_interval st = Some IntervalDaily" "sd_next st = 0" and none: "runs sched_ordered = []" by (auto simp: map_eq_Cons_conv)
  have "sched_ready sched_ordered" using st none by (simp add: sched_ready_def schedule_typed_def runs_behind_def)
  moreover have lag: "sched_lag (now ?c) sched_ordered = 4"
    using st by (simp add: sched_lag_def row_lag_def less_imp_le less_imp_neq [OF day_pos, symmetric])
  moreover have "\<not> key_taken rn_id (gen (sched_call_at (3 * day) k i) 18) (runs sched_ordered)" for k i
    using none by (simp add: key_taken_def)
  moreover have "k = l \<and> i = j" if "gen (sched_call_at (3 * day) k i) 18 = gen (sched_call_at (3 * day) l j) 18" for k l i j
    using that last_colon [OF dec_nat_plain(2) dec_nat_plain(2), of i k j l] by (auto simp: sched_call_at_def dest: dec_nat_inj)
  ultimately show ?thesis
    using schedules_catch_up [of sched_ordered ?c 4 "sched_call_at (3 * day)"] none by (simp add: Let_def)
qed


text \<open>
  From another state a schedule can stall: when the run of its next occurrence exists already, which a
  finalization that arrives after the resolver's brings about, a tick does nothing for it, now and at any time after.
\<close>

lemma fireOnce_claimed:
  "key_taken rn_occurrence (sd_id st, t) (runs s) \<Longrightarrow> fireOnce c st t s = (Inr (), s)"
  by (simp add: fireOnce_def claim_run_def)

end
