(* ===== verification/Consent.thy ===== *)
theory Consent
  imports Identity
begin

section \<open>Consent\<close>

text \<open>
  \<open>internal/consent/consent.go\<close> and migration 00039: a customer's authorizations of merchants.  The table
  keeps one row per pair for ever; what it stands for is a map from pairs to the scopes granted, and each
  operation is shown to be the operation of that map one expects.
\<close>

datatype consent_status = ConsentActive | ConsentRevoked

record consent_auth =
  cn_id :: uuid
  cn_identity :: uuid
  cn_merchant :: uuid
  cn_scopes :: "string list"
  cn_status :: consent_status
  cn_created :: int
  cn_used :: "int option"
  cn_revoked :: "int option"

record consent_db = identity_db +
  consents :: "consent_auth list"

definition cn_pair :: "consent_auth \<Rightarrow> uuid \<times> uuid" where
  "cn_pair a = (cn_identity a, cn_merchant a)"

definition regrant :: "string list \<Rightarrow> consent_auth \<Rightarrow> consent_auth" where
  "regrant scs a = a\<lparr>cn_scopes := scs, cn_status := ConsentActive, cn_revoked := None\<rparr>"

text \<open>\<open>INSERT ... ON CONFLICT (identity_id, merchant_id) DO UPDATE\<close>; \<open>None\<close> is a nil slice, an SQL \<open>NULL\<close>.\<close>

definition Grant :: "ctx \<Rightarrow> uuid \<Rightarrow> uuid \<Rightarrow> string list option \<Rightarrow> 'z consent_db_scheme
    \<Rightarrow> (gerror + consent_auth) \<times> 'z consent_db_scheme" where
  "Grant c identityID merchantID scopes s =
    (case scopes of
       None \<Rightarrow> (Inl SqlCheck, s)
     | Some scs \<Rightarrow>
        (case find_row cn_pair (identityID, merchantID) (consents s) of
           Some a \<Rightarrow> (Inr (regrant scs a), s\<lparr>consents := update_row cn_pair (identityID, merchantID) (regrant scs) (consents s)\<rparr>)
         | None \<Rightarrow>
            if key_taken cn_id (gen c 20) (consents s) then (Inl SqlUnique, s)
            else if \<not> key_taken id_id identityID (identities s) \<or> \<not> key_taken id_id merchantID (identities s)
            then (Inl SqlForeignKey, s)
            else let a = \<lparr>cn_id = gen c 20, cn_identity = identityID, cn_merchant = merchantID, cn_scopes = scs,
                          cn_status = ConsentActive, cn_created = now c, cn_used = None, cn_revoked = None\<rparr>
                 in (Inr a, s\<lparr>consents := consents s @ [a]\<rparr>)))"

definition consent_ListByIdentity :: "uuid \<Rightarrow> 'z consent_db_scheme \<Rightarrow> consent_auth list" where
  "consent_ListByIdentity identityID s = sort_key (\<lambda>a. - cn_created a) (filter (\<lambda>a. cn_identity a = identityID) (consents s))"

definition revoke_consent :: "int \<Rightarrow> consent_auth \<Rightarrow> consent_auth" where
  "revoke_consent t a = a\<lparr>cn_status := ConsentRevoked, cn_revoked := Some t\<rparr>"

definition consent_Revoke :: "ctx \<Rightarrow> uuid \<Rightarrow> uuid \<Rightarrow> 'z consent_db_scheme \<Rightarrow> (gerror + unit) \<times> 'z consent_db_scheme" where
  "consent_Revoke c identityID authorizationID s =
    (case find_row cn_id authorizationID (consents s) of
       None \<Rightarrow> (Inl ErrConsentNotFound, s)
     | Some a \<Rightarrow>
        if cn_identity a = identityID \<and> cn_status a = ConsentActive
        then (Inr (), s\<lparr>consents := update_row cn_id authorizationID (revoke_consent (now c)) (consents s)\<rparr>)
        else (Inl ErrConsentNotFound, s))"

definition consent_Touch :: "ctx \<Rightarrow> uuid \<Rightarrow> 'z consent_db_scheme \<Rightarrow> (gerror + unit) \<times> 'z consent_db_scheme" where
  "consent_Touch c authorizationID s =
    (case find_row cn_id authorizationID (consents s) of
       None \<Rightarrow> (Inl ErrConsentNotFound, s)
     | Some a \<Rightarrow>
        if cn_status a = ConsentActive
        then (Inr (), s\<lparr>consents := update_row cn_id authorizationID (\<lambda>r. r\<lparr>cn_used := Some (now c)\<rparr>) (consents s)\<rparr>)
        else (Inl ErrConsentNotFound, s))"

subsection \<open>What the table stands for\<close>

definition granted :: "'z consent_db_scheme \<Rightarrow> uuid \<times> uuid \<Rightarrow> string list option" where
  "granted s p = (case find_row cn_pair p (consents s) of
     None \<Rightarrow> None | Some a \<Rightarrow> if cn_status a = ConsentActive then Some (cn_scopes a) else None)"

definition consents_ok :: "'z consent_db_scheme \<Rightarrow> bool" where
  "consents_ok s \<longleftrightarrow> distinct (map cn_id (consents s)) \<and> distinct (map cn_pair (consents s))"

interpretation regranted: row_update cn_pair "regrant scs" for scs
  by unfold_locales (simp add: regrant_def cn_pair_def)

text \<open>Updating the row of an id is updating the row of its pair.\<close>

lemma update_by_pair:
  assumes "consents_ok s" and "find_row cn_id i (consents s) = Some a"
  shows "update_row cn_id i f (consents s) = update_row cn_pair (cn_pair a) f (consents s)"
    and "find_row cn_pair (cn_pair a) (consents s) = Some a"
proof -
  have a: "a \<in> set (consents s)" "cn_id a = i" using find_row_Some [OF assms(2)] by auto
  have "cn_id r = i \<longleftrightarrow> cn_pair r = cn_pair a" if "r \<in> set (consents s)" for r
    using assms(1) a that unfolding consents_ok_def distinct_map inj_on_def by metis
  then show "update_row cn_id i f (consents s) = update_row cn_pair (cn_pair a) f (consents s)"
    by (simp add: update_row_def cong: map_cong)
  show "find_row cn_pair (cn_pair a) (consents s) = Some a"
    using assms(1) a(1) by (simp add: consents_ok_def find_row_distinct)
qed

lemma granted_update:
  assumes "find_row cn_pair p (consents s) = Some a" and "\<And>r. cn_pair (f r) = cn_pair r"
  shows "granted (s\<lparr>consents := update_row cn_pair p f (consents s)\<rparr>) =
    (granted s)(p := if cn_status (f a) = ConsentActive then Some (cn_scopes (f a)) else None)"
proof -
  have "row_update cn_pair f" by (rule row_update.intro) (rule assms(2))
  note upd = row_update.find [OF this]
  show ?thesis
    by (rule ext) (auto simp: granted_def upd assms(1) option.map_ident split: option.splits)
qed

text \<open>Each operation against the map.\<close>

lemma Grant_refines:
  assumes ok: "consents_ok s" and run: "Grant c i m scs s = (out, s')"
  shows "consents_ok s' \<and> (case out of Inl e \<Rightarrow> s' = s \<and> (scs = None \<or> granted s (i, m) = None)
       | Inr a \<Rightarrow> scs = Some (cn_scopes a) \<and> granted s' = (granted s)((i, m) \<mapsto> cn_scopes a) \<and> cn_status a = ConsentActive)"
proof (cases "(scs, find_row cn_pair (i, m) (consents s))" rule: prod.exhaust)
  case (Pair sc row)
  show ?thesis
  proof (cases sc)
    case None
    with Pair ok run show ?thesis by (auto simp: Grant_def)
  next
    case (Some xs)
    show ?thesis
    proof (cases row)
      case (Some a)
      have ids: "map cn_id (update_row cn_pair p (regrant xs) (consents s)) = map cn_id (consents s)" for p
        by (simp add: update_row_def regrant_def)
      have "granted (s\<lparr>consents := update_row cn_pair (i, m) (regrant xs) (consents s)\<rparr>) = (granted s)((i, m) \<mapsto> xs)"
        using Pair Some by (subst granted_update) (simp_all add: regrant_def cn_pair_def)
      with Pair \<open>sc = Some xs\<close> Some ok run show ?thesis
        by (auto simp: Grant_def consents_ok_def ids regranted.keys) (simp_all add: regrant_def)
    next
      case None
      let ?a = "\<lparr>cn_id = gen c 20, cn_identity = i, cn_merchant = m, cn_scopes = xs,
                          cn_status = ConsentActive, cn_created = now c, cn_used = None, cn_revoked = None\<rparr>"
      have pair: "cn_pair ?a = (i, m)" by (simp add: cn_pair_def)
      have g: "granted (s\<lparr>consents := consents s @ [?a]\<rparr>) = (granted s)((i, m) \<mapsto> xs)"
        using Pair None pair by (intro ext) (auto simp: granted_def find_row_append find_row_Cons split: option.splits)
      have out: "granted s (i, m) = None" using Pair None by (simp add: granted_def)
      have fresh: "\<not> key_taken cn_pair (i, m) (consents s)" using Pair None find_row_None by fastforce
      show ?thesis
      proof (cases "key_taken cn_id (gen c 20) (consents s) \<or> \<not> key_taken id_id i (identities s) \<or> \<not> key_taken id_id m (identities s)")
        case True
        with Pair \<open>sc = Some xs\<close> None ok run out show ?thesis by (auto simp: Grant_def split: if_split_asm)
      next
        case False
        then have res: "out = Inr ?a" "s' = s\<lparr>consents := consents s @ [?a]\<rparr>"
          using Pair \<open>sc = Some xs\<close> None run by (auto simp: Grant_def Let_def)
        have "consents_ok s'"
          using ok False fresh unfolding res consents_ok_def by (simp add: pair key_taken_def)
        then show ?thesis using g Pair \<open>sc = Some xs\<close> unfolding res by simp
      qed
    qed
  qed
qed

lemma find_consent: "consents_ok s \<Longrightarrow> a \<in> set (consents s) \<Longrightarrow> find_row cn_id (cn_id a) (consents s) = Some a"
  by (simp add: consents_ok_def find_row_distinct)

lemma granted_row: "consents_ok s \<Longrightarrow> a \<in> set (consents s) \<Longrightarrow>
    granted s (cn_pair a) = (if cn_status a = ConsentActive then Some (cn_scopes a) else None)"
  by (simp add: consents_ok_def granted_def find_row_distinct)

lemma kept_pairs_ok:
  "consents_ok s \<Longrightarrow> (\<And>r. cn_id (f r) = cn_id r) \<Longrightarrow> (\<And>r. cn_pair (f r) = cn_pair r) \<Longrightarrow>
    consents_ok (s\<lparr>consents := update_row cn_id k f (consents s)\<rparr>)"
  by (simp add: consents_ok_def update_row_def o_def if_distrib [of cn_id] if_distrib [of cn_pair] cong: if_cong)

lemma consent_Revoke_refines:
  assumes ok: "consents_ok s" and run: "consent_Revoke c i k s = (out, s')"
  shows "consents_ok s' \<and> (case out of
      Inl e \<Rightarrow> s' = s \<and> \<not> (\<exists>a\<in>set (consents s). cn_id a = k \<and> cn_identity a = i \<and> granted s (cn_pair a) \<noteq> None)
    | Inr _ \<Rightarrow> (\<exists>a\<in>set (consents s). cn_id a = k \<and> cn_identity a = i \<and> granted s (cn_pair a) \<noteq> None
        \<and> granted s' = (granted s)(cn_pair a := None)))"
proof (cases "find_row cn_id k (consents s)")
  case None
  with run have "out = Inl ErrConsentNotFound" "s' = s" by (auto simp: consent_Revoke_def)
  with ok None show ?thesis by (auto simp: find_consent)
next
  case (Some a)
  note a = find_row_Some [OF Some]
  have keep: "cn_pair (revoke_consent t r) = cn_pair r" "cn_id (revoke_consent t r) = cn_id r" for t r
    by (simp_all add: revoke_consent_def cn_pair_def)
  show ?thesis
  proof (cases "cn_identity a = i \<and> cn_status a = ConsentActive")
    case True
    with run Some have res: "out = Inr ()" "s' = s\<lparr>consents := update_row cn_id k (revoke_consent (now c)) (consents s)\<rparr>"
      by (auto simp: consent_Revoke_def)
    have "granted s' = (granted s)(cn_pair a := None)"
      unfolding res update_by_pair(1) [OF ok Some]
      by (subst granted_update [OF update_by_pair(2) [OF ok Some]]) (simp_all add: keep, simp add: revoke_consent_def)
    moreover have "consents_ok s'" unfolding res by (rule kept_pairs_ok [OF ok]) (simp_all add: keep)
    ultimately show ?thesis using a True ok by (auto simp: res(1) granted_row)
  next
    case False
    with run Some have "out = Inl ErrConsentNotFound" "s' = s" by (auto simp: consent_Revoke_def split: if_split_asm)
    with ok Some False show ?thesis by (auto simp: granted_row dest: find_consent)
  qed
qed

lemma consent_Touch_refines:
  assumes ok: "consents_ok s" and run: "consent_Touch c k s = (out, s')"
  shows "consents_ok s' \<and> granted s' = granted s \<and> (case out of
      Inl e \<Rightarrow> s' = s \<and> \<not> (\<exists>a\<in>set (consents s). cn_id a = k \<and> granted s (cn_pair a) \<noteq> None)
    | Inr _ \<Rightarrow> (\<exists>a\<in>set (consents s). cn_id a = k \<and> granted s (cn_pair a) \<noteq> None))"
proof (cases "find_row cn_id k (consents s)")
  case None
  with run have "out = Inl ErrConsentNotFound" "s' = s" by (auto simp: consent_Touch_def)
  with ok None show ?thesis by (auto simp: find_consent)
next
  case (Some a)
  note a = find_row_Some [OF Some]
  show ?thesis
  proof (cases "cn_status a = ConsentActive")
    case True
    with run Some have res: "out = Inr ()"
      "s' = s\<lparr>consents := update_row cn_id k (\<lambda>r. r\<lparr>cn_used := Some (now c)\<rparr>) (consents s)\<rparr>"
      by (auto simp: consent_Touch_def)
    have "granted s' = (granted s)(cn_pair a := Some (cn_scopes a))"
      unfolding res update_by_pair(1) [OF ok Some]
      by (subst granted_update [OF update_by_pair(2) [OF ok Some]]) (simp_all add: cn_pair_def True)
    also have "\<dots> = granted s" using a True ok by (intro fun_upd_idem) (simp add: granted_row)
    finally have "granted s' = granted s" .
    moreover have "consents_ok s'" unfolding res by (rule kept_pairs_ok [OF ok]) (simp_all add: cn_pair_def)
    ultimately show ?thesis using a True ok by (auto simp: res(1) granted_row)
  next
    case False
    with run Some have "out = Inl ErrConsentNotFound" "s' = s" by (auto simp: consent_Touch_def split: if_split_asm)
    with ok Some False show ?thesis by (auto simp: granted_row dest: find_consent)
  qed
qed

text \<open>
  C28. Consent is a map from pairs of customer and merchant to scopes, and the operations are the map's.  A
  successful \<open>Grant\<close> maps the pair to the scopes asked for, whether it was new, active or revoked.  \<open>Revoke\<close>
  succeeds exactly on an active authorization of the customer who asks, and removes its pair from the map; nobody
  revokes another's.  \<open>Touch\<close> succeeds exactly on active authorizations and changes nothing of the map.  What fails
  changes nothing, and one row per pair is kept throughout.
\<close>

theorem consent_refines_map:
  assumes ok: "consents_ok s"
  shows "(case Grant c i m scs s of (out, s') \<Rightarrow> consents_ok s' \<and> (case out of
        Inl e \<Rightarrow> s' = s \<and> (scs = None \<or> granted s (i, m) = None)
      | Inr a \<Rightarrow> scs = Some (cn_scopes a) \<and> granted s' = (granted s)((i, m) \<mapsto> cn_scopes a) \<and> cn_status a = ConsentActive))
    \<and> (case consent_Revoke c i k s of (out, s') \<Rightarrow> consents_ok s' \<and> (case out of
        Inl e \<Rightarrow> s' = s \<and> \<not> (\<exists>a\<in>set (consents s). cn_id a = k \<and> cn_identity a = i \<and> granted s (cn_pair a) \<noteq> None)
      | Inr _ \<Rightarrow> (\<exists>a\<in>set (consents s). cn_id a = k \<and> cn_identity a = i \<and> granted s (cn_pair a) \<noteq> None
          \<and> granted s' = (granted s)(cn_pair a := None))))
    \<and> (case consent_Touch c k s of (out, s') \<Rightarrow> consents_ok s' \<and> granted s' = granted s \<and> (case out of
        Inl e \<Rightarrow> s' = s \<and> \<not> (\<exists>a\<in>set (consents s). cn_id a = k \<and> granted s (cn_pair a) \<noteq> None)
      | Inr _ \<Rightarrow> (\<exists>a\<in>set (consents s). cn_id a = k \<and> granted s (cn_pair a) \<noteq> None)))"
  using Grant_refines [OF ok, of c i m scs] consent_Revoke_refines [OF ok, of c i k] consent_Touch_refines [OF ok, of c k]
  by (cases "Grant c i m scs s"; cases "consent_Revoke c i k s"; cases "consent_Touch c k s") simp

text \<open>Customer \<open>I\<close> grants merchant \<open>M\<close>, then revokes.\<close>

definition consent_call :: "int \<Rightarrow> ctx" where
  "consent_call t = \<lparr>now = t, gen = (\<lambda>_. ''A''), sha256 = (\<lambda>x. x)\<rparr>"

definition consent_seed :: consent_db where
  "consent_seed = \<lparr>identities = map (\<lambda>i. \<lparr>id_id = i, id_kind = KindIndividual, id_stat = IdActive, id_tier = 1, id_email = i,
     id_phone = None, id_password_hash = ''hash'', id_legal_name = i, id_role = RoleCustomer\<rparr>) [''I'', ''M''],
     beneficial_owners = [], kyc_checks = [], audit_log = [], consents = []\<rparr>"

definition consent_given :: consent_db where
  "consent_given = snd (Grant (consent_call 1) ''I'' ''M'' (Some [''charges'']) consent_seed)"

theorem consent_refines_map_witness:
  "granted consent_given (''I'', ''M'') = Some [''charges'']
    \<and> granted (snd (consent_Revoke (consent_call 2) ''I'' ''A'' consent_given)) (''I'', ''M'') = None"
proof -
  have seed: "consents_ok consent_seed" by (simp add: consents_ok_def consent_seed_def)
  note grant = consent_refines_map [OF seed, where c = "consent_call 1" and i = "''I''" and m = "''M''" and scs = "Some [''charges'']", THEN conjunct1]
  have given: "fst (Grant (consent_call 1) ''I'' ''M'' (Some [''charges'']) consent_seed) =
      Inr \<lparr>cn_id = ''A'', cn_identity = ''I'', cn_merchant = ''M'', cn_scopes = [''charges''],
        cn_status = ConsentActive, cn_created = 1, cn_used = None, cn_revoked = None\<rparr>"
    by code_simp
  have ok: "consents_ok consent_given" and g: "granted consent_given = (granted consent_seed)((''I'', ''M'') \<mapsto> [''charges''])"
    using grant given by (simp_all add: consent_given_def case_prod_beta)
  have "fst (consent_Revoke (consent_call 2) ''I'' ''A'' consent_given) = Inr ()"
    and row: "map cn_pair (consents consent_given) = [(''I'', ''M'')]"
    unfolding consent_given_def by code_simp+
  with consent_refines_map [OF ok, where c = "consent_call 2" and i = "''I''" and k = "''A''", THEN conjunct2, THEN conjunct1]
  have "\<exists>a\<in>set (consents consent_given). granted (snd (consent_Revoke (consent_call 2) ''I'' ''A'' consent_given)) (cn_pair a) = None"
    by (auto simp: case_prod_beta)
  moreover have "cn_pair a = (''I'', ''M'')" if "a \<in> set (consents consent_given)" for a
    using imageI [OF that, of cn_pair] row by (metis empty_iff empty_set list.set_map set_ConsD)
  ultimately show ?thesis using g by auto
qed

end
