(* ===== verification/Checkout.thy ===== *)
theory Checkout
  imports ApiKeys Ledger
begin

section \<open>Checkout sessions\<close>

text \<open>
  \<open>internal/checkout/checkout.go\<close> and migration 00026: a merchant opens a session for a payment page that
  is served elsewhere.  The service creates and reads rows; nothing completes or expires one.  The
  \<open>INSERT\<close> is a definition of its own, because between the lookup by key and the insert a concurrent call
  with the same key can put its row there, which the unique constraint then reports as an error.
\<close>

datatype checkout_status = CheckoutOpen | CheckoutCompleted | CheckoutExpired

definition checkout_sessionTTL :: int where "checkout_sessionTTL = 30 * minute"

record checkout_session =
  cs_id :: uuid
  cs_merchant :: uuid
  cs_mode :: api_mode
  cs_amount :: money
  cs_success :: string
  cs_cancel :: string
  cs_status :: checkout_status
  cs_charge :: "uuid option"
  cs_key :: string
  cs_created :: int
  cs_expires :: int

record checkout_db = key_db +
  checkouts :: "checkout_session list"

definition cs_mkey :: "checkout_session \<Rightarrow> uuid \<times> string" where
  "cs_mkey r = (cs_merchant r, cs_key r)"

definition RedirectURL :: "checkout_session \<Rightarrow> string \<Rightarrow> string" where
  "RedirectURL r publicBaseURL = publicBaseURL @ ''/checkout/'' @ cs_id r"

definition checkout_getByIdempotencyKey :: "uuid \<Rightarrow> string \<Rightarrow> 'z checkout_db_scheme \<Rightarrow> checkout_session option" where
  "checkout_getByIdempotencyKey merchantID key s = find_row cs_mkey (merchantID, key) (checkouts s)"

definition checkout_insert :: "ctx \<Rightarrow> uuid \<Rightarrow> api_mode \<Rightarrow> money \<Rightarrow> string \<Rightarrow> string \<Rightarrow> string \<Rightarrow> 'z checkout_db_scheme
    \<Rightarrow> (gerror + checkout_session) \<times> 'z checkout_db_scheme" where
  "checkout_insert c merchantID mode amount successURL cancelURL key s =
    (case char3 (currency amount) of
       Inl e \<Rightarrow> (Inl e, s)
     | Inr cur3 \<Rightarrow>
        if \<not> in64 (minor amount) then (Inl SqlRange, s)
        else if \<not> 0 < minor amount then (Inl SqlCheck, s)
        else if key_taken cs_id (gen c 21) (checkouts s) \<or> key_taken cs_mkey (merchantID, key) (checkouts s) then (Inl SqlUnique, s)
        else if \<not> key_taken id_id merchantID (identities s) then (Inl SqlForeignKey, s)
        else let r = \<lparr>cs_id = gen c 21, cs_merchant = merchantID, cs_mode = mode,
                      cs_amount = \<lparr>minor = minor amount, currency = cur3\<rparr>, cs_success = successURL, cs_cancel = cancelURL,
                      cs_status = CheckoutOpen, cs_charge = None, cs_key = key, cs_created = now c,
                      cs_expires = now c + checkout_sessionTTL\<rparr>
             in (Inr r, s\<lparr>checkouts := checkouts s @ [r]\<rparr>))"

definition checkout_Create :: "ctx \<Rightarrow> uuid \<Rightarrow> api_mode \<Rightarrow> money \<Rightarrow> string \<Rightarrow> string \<Rightarrow> string \<Rightarrow> 'z checkout_db_scheme
    \<Rightarrow> (gerror + checkout_session) \<times> 'z checkout_db_scheme" where
  "checkout_Create c merchantID mode amount successURL cancelURL key s =
    (case checkout_getByIdempotencyKey merchantID key s of
       Some existing \<Rightarrow> (Inr existing, s)
     | None \<Rightarrow> checkout_insert c merchantID mode amount successURL cancelURL key s)"

definition checkout_Get :: "uuid \<Rightarrow> 'z checkout_db_scheme \<Rightarrow> gerror + checkout_session" where
  "checkout_Get i s = (case find_row cs_id i (checkouts s) of None \<Rightarrow> Inl ErrCheckoutNotFound | Some r \<Rightarrow> Inr r)"

subsection \<open>Lemmas\<close>

text \<open>The inserts of any number of calls, whatever their order.\<close>

inductive checkout_step :: "'z checkout_db_scheme \<Rightarrow> 'z checkout_db_scheme \<Rightarrow> bool" where
  "checkout_insert c m mode amt su ca k s = (out, s') \<Longrightarrow> checkout_step s s'"

lemma checkout_insert_cases:
  assumes "checkout_insert c m mode amt su ca k s = (out, s')"
  obtains (refused) e where "out = Inl e" and "s' = s"
    | (created) r where "out = Inr r" and "s' = s\<lparr>checkouts := checkouts s @ [r]\<rparr>" and "cs_mkey r = (m, k)"
      and "cs_id r = gen c 21" and "cs_mode r = mode" and "cs_status r = CheckoutOpen" and "cs_expires r = now c + checkout_sessionTTL"
      and "0 < minor (cs_amount r)" and "minor (cs_amount r) = minor amt" and "\<not> key_taken cs_id (cs_id r) (checkouts s)"
      and "\<not> key_taken cs_mkey (m, k) (checkouts s)"
proof -
  have "(\<exists>e. out = Inl e \<and> s' = s) \<or> (\<exists>r. out = Inr r \<and> s' = s\<lparr>checkouts := checkouts s @ [r]\<rparr> \<and> cs_mkey r = (m, k)
      \<and> cs_id r = gen c 21 \<and> cs_mode r = mode \<and> cs_status r = CheckoutOpen \<and> cs_expires r = now c + checkout_sessionTTL
      \<and> 0 < minor (cs_amount r) \<and> minor (cs_amount r) = minor amt \<and> \<not> key_taken cs_id (cs_id r) (checkouts s)
      \<and> \<not> key_taken cs_mkey (m, k) (checkouts s))"
    using assms unfolding checkout_insert_def Let_def by (auto split: sum.splits if_split_asm simp: cs_mkey_def)
  then show thesis by (elim disjE exE conjE) (erule (1) refused, rule created)
qed

lemma checkout_step_appends: "checkout_step s s' \<Longrightarrow> \<exists>rs. checkouts s' = checkouts s @ rs"
  by (erule checkout_step.cases) (erule checkout_insert_cases, simp_all)

lemma checkout_steps_append: "checkout_step\<^sup>*\<^sup>* s s' \<Longrightarrow> \<exists>rs. checkouts s' = checkouts s @ rs"
  by (induction rule: rtranclp_induct) (auto dest!: checkout_step_appends)

text \<open>
  C0. The first session of a merchant under a key is the only one.  Once \<open>Create\<close> has returned it, every later
  call of that merchant with that key returns the same session and changes nothing, whatever other calls wrote in
  between, and whatever mode, amount and addresses it gives; \<open>Get\<close> by its id returns it too.  So it
  does past \<open>expires_at\<close>: a session read half an hour later is still open.
\<close>

theorem checkout_Create_once:
  assumes create: "checkout_Create c m mode amt su ca k s = (Inr r, s1)" and later: "checkout_step\<^sup>*\<^sup>* s1 s2"
    and ids: "distinct (map cs_id (checkouts s))"
  shows "checkout_Create c' m mode' amt' su' ca' k s2 = (Inr r, s2) \<and> checkout_Get (cs_id r) s2 = Inr r
    \<and> (checkout_getByIdempotencyKey m k s = None \<longrightarrow> cs_status r = CheckoutOpen \<and> cs_expires r = now c + 1800000000)"
proof -
  obtain rs where rs: "checkouts s2 = checkouts s1 @ rs" using checkout_steps_append [OF later] by blast
  have "find_row cs_mkey (m, k) (checkouts s1) = Some r \<and> find_row cs_id (cs_id r) (checkouts s1) = Some r
    \<and> (checkout_getByIdempotencyKey m k s = None \<longrightarrow> cs_status r = CheckoutOpen \<and> cs_expires r = now c + checkout_sessionTTL)"
  proof (cases "checkout_getByIdempotencyKey m k s")
    case (Some x)
    with create have "s1 = s" "r = x" by (simp_all add: checkout_Create_def)
    with Some ids find_row_Some [of cs_mkey "(m, k)" "checkouts s" x] show ?thesis
      by (simp add: checkout_getByIdempotencyKey_def find_row_distinct)
  next
    case None
    with create have "checkout_insert c m mode amt su ca k s = (Inr r, s1)" by (simp add: checkout_Create_def)
    then show ?thesis
    proof (cases rule: checkout_insert_cases)
      case (created r')
      then show ?thesis by (simp add: find_row_append find_row_Cons find_row_None [symmetric])
    qed simp
  qed
  then show ?thesis
    by (simp add: checkout_Create_def checkout_getByIdempotencyKey_def checkout_Get_def rs find_row_append
        checkout_sessionTTL_def minute_def second_def)
qed

definition checkout_seed :: checkout_db where
  "checkout_seed = key_db.extend key_seed (checkout_db.fields [])"

definition checkout_call :: "int \<Rightarrow> string \<Rightarrow> ctx" where
  "checkout_call t i = \<lparr>now = t, gen = (\<lambda>_. i), sha256 = (\<lambda>x. x)\<rparr>"

definition checkout_demo :: "int \<Rightarrow> string \<Rightarrow> api_mode \<Rightarrow> int \<Rightarrow> string \<Rightarrow> checkout_db \<Rightarrow> (gerror + checkout_session) \<times> checkout_db" where
  "checkout_demo t i mode amt k s =
    checkout_Create (checkout_call t i) ''M'' mode \<lparr>minor = amt, currency = ''NGN''\<rparr> ''ok'' ''no'' k s"

definition checkout_one :: checkout_db where
  "checkout_one = snd (checkout_demo 0 ''a'' ModeLive 5 ''k1'' checkout_seed)"

definition checkout_two :: checkout_db where
  "checkout_two = snd (checkout_demo 1 ''b'' ModeLive 6 ''k2'' checkout_one)"

text \<open>A second session under another key in between, and the repeat an hour later in the other mode.\<close>

theorem checkout_Create_once_witness:
  "\<exists>r. checkout_demo 0 ''a'' ModeLive 5 ''k1'' checkout_seed = (Inr r, checkout_one)
    \<and> checkout_demo 3600000000 ''c'' ModeSandbox 7 ''k1'' checkout_two = (Inr r, checkout_two)
    \<and> cs_status r = CheckoutOpen \<and> cs_expires r = 1800000000"
proof -
  have none: "checkout_getByIdempotencyKey ''M'' ''k1'' checkout_seed = None"
    and one: "isl (fst (checkout_demo 0 ''a'' ModeLive 5 ''k1'' checkout_seed)) = False"
    and new: "checkout_getByIdempotencyKey ''M'' ''k2'' checkout_one = None"
    and ids: "distinct (map cs_id (checkouts checkout_seed))"
    unfolding checkout_one_def by code_simp+
  obtain r where r: "checkout_demo 0 ''a'' ModeLive 5 ''k1'' checkout_seed = (Inr r, checkout_one)"
    using one unfolding checkout_one_def by (metis isl_def old.sum.exhaust prod.collapse)
  have "checkout_insert (checkout_call 1 ''b'') ''M'' ModeLive \<lparr>minor = 6, currency = ''NGN''\<rparr> ''ok'' ''no'' ''k2'' checkout_one
      = (fst (checkout_demo 1 ''b'' ModeLive 6 ''k2'' checkout_one), checkout_two)"
    using new by (simp add: checkout_two_def checkout_demo_def checkout_Create_def)
  then have "checkout_step\<^sup>*\<^sup>* checkout_one checkout_two" by (intro r_into_rtranclp checkout_step.intros)
  note once = checkout_Create_once [OF r [unfolded checkout_demo_def] this ids, where c' = "checkout_call 3600000000 ''c''"
    and mode' = ModeSandbox and amt' = "\<lparr>minor = 7, currency = ''NGN''\<rparr>" and su' = "''ok''" and ca' = "''no''"]
  show ?thesis
    by (rule exI [of _ r]) (use once none r in \<open>simp add: checkout_demo_def checkout_call_def\<close>)
qed

end
