(* ===== verification/Encoding.thy ===== *)
theory Encoding
  imports Credentials
begin

section \<open>Base 32, base 64 and scanning numbers\<close>

text \<open>
  What \<open>internal/auth\<close> and \<open>internal/secrets\<close> use of Go's \<open>encoding/base32\<close>, \<open>encoding/base64\<close>,
  \<open>strings.Split\<close> and \<open>fmt.Sscanf\<close>.  Both encodings regroup the bits of the bytes, most significant first,
  into digits of five or six bits, the last one filled with zeros; the decoders regroup them into bytes and drop
  what is left over.
\<close>

subsection \<open>Regrouping bits\<close>

fun to_bits :: "nat \<Rightarrow> nat \<Rightarrow> bool list" where
  "to_bits 0 n = []"
| "to_bits (Suc k) n = to_bits k (n div 2) @ [odd n]"

definition from_bits :: "bool list \<Rightarrow> nat" where
  "from_bits bs = foldl (\<lambda>a b. 2 * a + of_bool b) 0 bs"

function full_chunks :: "nat \<Rightarrow> 'a list \<Rightarrow> 'a list list" where
  "full_chunks k xs = (if k = 0 \<or> length xs < k then [] else take k xs # full_chunks k (drop k xs))"
  by pat_completeness auto
termination by (relation "measure (\<lambda>(k, xs). length xs)") auto

declare full_chunks.simps [simp del]

definition pad_bits :: "nat \<Rightarrow> bool list \<Rightarrow> bool list" where
  "pad_bits k bs = bs @ replicate ((k - length bs mod k) mod k) False"

definition bits_of_bytes :: "byte list \<Rightarrow> bool list" where
  "bits_of_bytes bs = concat (map (\<lambda>b. to_bits 8 (unat b)) bs)"

definition digits_of_bytes :: "nat \<Rightarrow> byte list \<Rightarrow> nat list" where
  "digits_of_bytes k bs = map from_bits (full_chunks k (pad_bits k (bits_of_bytes bs)))"

definition bytes_of_digits :: "nat \<Rightarrow> nat list \<Rightarrow> byte list" where
  "bytes_of_digits k ds = map (\<lambda>g. word_of_nat (from_bits g)) (full_chunks 8 (concat (map (to_bits k) ds)))"

lemma length_to_bits [simp]: "length (to_bits k n) = k"
  by (induction k arbitrary: n) simp_all

lemma from_bits_snoc: "from_bits (bs @ [b]) = 2 * from_bits bs + of_bool b"
  by (simp add: from_bits_def)

lemma from_to_bits: "n < 2 ^ k \<Longrightarrow> from_bits (to_bits k n) = n"
proof (induction k arbitrary: n)
  case (Suc k)
  then have "from_bits (to_bits k (n div 2)) = n div 2" by simp
  then show ?case by (simp add: from_bits_snoc)
qed (simp add: from_bits_def)

lemma to_from_bits: "to_bits (length bs) (from_bits bs) = bs"
proof (induction bs rule: rev_induct)
  case (snoc b bs)
  have "(2 * from_bits bs + of_bool b) div 2 = from_bits bs" by simp
  with snoc show ?case by (simp add: from_bits_snoc)
qed simp

lemma from_bits_less: "from_bits bs < 2 ^ length bs"
proof (induction bs rule: rev_induct)
  case (snoc b bs)
  then show ?case by (cases b) (simp_all add: from_bits_snoc)
qed (simp add: from_bits_def)

lemma full_chunks_concat:
  "0 < k \<Longrightarrow> list_all (\<lambda>ys. length ys = k) yss \<Longrightarrow> length zs < k \<Longrightarrow> full_chunks k (concat yss @ zs) = yss"
proof (induction yss)
  case Nil
  then show ?case by (simp add: full_chunks.simps)
next
  case (Cons ys yss)
  then show ?case by (subst full_chunks.simps) simp
qed

lemma full_chunks_length: "g \<in> set (full_chunks k xs) \<Longrightarrow> length g = k"
proof (induction k xs rule: full_chunks.induct)
  case (1 k xs)
  then show ?case by (subst (asm) full_chunks.simps) (auto split: if_split_asm)
qed

lemma concat_full_chunks: "0 < k \<Longrightarrow> k dvd length xs \<Longrightarrow> concat (full_chunks k xs) = xs"
proof (induction k xs rule: full_chunks.induct)
  case (1 k xs)
  show ?case
  proof (cases "length xs < k")
    case True
    with 1 have "xs = []" by (auto dest: dvd_imp_le)
    then show ?thesis using 1 by (simp add: full_chunks.simps)
  next
    case False
    with 1 have "concat (full_chunks k (drop k xs)) = drop k xs" by (simp add: dvd_minus_self)
    with False 1 show ?thesis by (subst full_chunks.simps) simp
  qed
qed

lemma full_chunks_count: "0 < k \<Longrightarrow> length (full_chunks k xs) = length xs div k"
proof (induction k xs rule: full_chunks.induct)
  case (1 k xs)
  then show ?case by (subst full_chunks.simps) (simp add: le_div_geq)
qed

lemma pad_bits_dvd: "0 < k \<Longrightarrow> k dvd length (pad_bits k bs)"
proof -
  assume "0 < k"
  let ?r = "length bs mod k"
  have "?r < k" using \<open>0 < k\<close> by simp
  then have "(?r + (k - ?r) mod k) mod k = 0" by (cases "?r = 0") simp_all
  then have "(length bs + (k - ?r) mod k) mod k = 0" by (metis mod_add_left_eq)
  then show ?thesis by (simp add: pad_bits_def mod_eq_0_iff_dvd)
qed

lemma length_bits_of_bytes: "length (bits_of_bytes bs) = 8 * length bs"
  by (induction bs) (simp_all add: bits_of_bytes_def)

lemma byte_less: "unat (b :: byte) < 256"
  using unsigned_less [of b] by simp

text \<open>Regrouping into digits of at most eight bits and back gives the bytes, of any number.\<close>

lemma bytes_digits:
  assumes "0 < k" and "k \<le> 8"
  shows "bytes_of_digits k (digits_of_bytes k bs) = bs"
proof -
  let ?p = "pad_bits k (bits_of_bytes bs)"
  have "map (to_bits k) (digits_of_bytes k bs) = full_chunks k ?p"
    unfolding digits_of_bytes_def map_map
    by (rule map_idI) (use to_from_bits full_chunks_length in \<open>fastforce simp: o_def\<close>)
  then have bits: "concat (map (to_bits k) (digits_of_bytes k bs)) = ?p"
    using assms by (simp add: concat_full_chunks pad_bits_dvd)
  have "full_chunks 8 ?p = map (\<lambda>b. to_bits 8 (unat b)) bs"
    unfolding pad_bits_def bits_of_bytes_def
    by (rule full_chunks_concat) (use assms in \<open>simp_all add: list_all_iff less_le_trans [OF mod_less_divisor]\<close>)
  moreover have "from_bits (to_bits 8 (unat b)) = unat b" for b :: byte
    using byte_less [of b] by (intro from_to_bits) simp
  ultimately show ?thesis by (simp add: bytes_of_digits_def bits o_def)
qed

lemma digits_less: "d \<in> set (digits_of_bytes k bs) \<Longrightarrow> d < 2 ^ k"
  using from_bits_less by (auto simp: digits_of_bytes_def dest!: full_chunks_length)

lemma div_ceiling:
  assumes "0 < k"
  shows "(m + (k - m mod k) mod k) div k = (m + (k - 1)) div (k :: nat)"
proof (cases "m mod k = 0")
  case True
  then obtain a where m: "m = k * a" by blast
  have "(k * a + (k - 1)) div k = a" using assms by (subst div_mult_self4) simp_all
  with m assms show ?thesis by simp
next
  case False
  have m: "m = m mod k + k * (m div k)" by simp
  have "m mod k < k" using assms by simp
  then have "(k - m mod k) mod k = k - m mod k" using False by simp
  then have "m + (k - m mod k) mod k = k * Suc (m div k)" and "m + (k - 1) = (m mod k - 1) + k * Suc (m div k)"
    using m False \<open>m mod k < k\<close> assms unfolding mult_Suc_right by linarith+
  moreover have "(m mod k - 1) div k = 0" using \<open>m mod k < k\<close> by simp
  ultimately show ?thesis using assms by (simp only: div_mult_self2) simp
qed

lemma digits_count: "0 < k \<Longrightarrow> length (digits_of_bytes k bs) = (8 * length bs + (k - 1)) div k"
  by (simp add: digits_of_bytes_def full_chunks_count pad_bits_def length_bits_of_bytes div_ceiling)

subsection \<open>The two alphabets\<close>

definition b32_alphabet :: string where
  "b32_alphabet = ''ABCDEFGHIJKLMNOPQRSTUVWXYZ234567''"

definition b64_alphabet :: string where
  "b64_alphabet = ''ABCDEFGHIJKLMNOPQRSTUVWXYZabcdefghijklmnopqrstuvwxyz0123456789+/''"

definition digit_of :: "string \<Rightarrow> char \<Rightarrow> nat" where
  "digit_of alph ch = length (takeWhile (\<lambda>x. x \<noteq> ch) alph)"

definition strip_newlines :: "string \<Rightarrow> string" where
  "strip_newlines = filter (\<lambda>ch. ch \<noteq> CHR 0x0A \<and> ch \<noteq> CHR 0x0D)"

text \<open>\<open>base32.StdEncoding.WithPadding(base32.NoPadding)\<close>.  One, three or six letters at the end are an incomplete
  byte too many: the decoder drops the group without an error.\<close>

definition b32_encode :: "byte list \<Rightarrow> string" where
  "b32_encode bs = map ((!) b32_alphabet) (digits_of_bytes 5 bs)"

definition b32_decode :: "string \<Rightarrow> byte list option" where
  "b32_decode s =
    (let t = strip_newlines s; n = length t mod 8
     in if \<not> set t \<subseteq> set b32_alphabet then None
        else Some (bytes_of_digits 5 (map (digit_of b32_alphabet) (if n \<in> {1, 3, 6} then take (length t - n) t else t))))"

text \<open>\<open>base64.RawStdEncoding\<close> and \<open>base64.StdEncoding\<close>.\<close>

definition b64_raw_encode :: "byte list \<Rightarrow> string" where
  "b64_raw_encode bs = map ((!) b64_alphabet) (digits_of_bytes 6 bs)"

definition b64_digits :: "string \<Rightarrow> byte list option" where
  "b64_digits t =
    (if \<not> set t \<subseteq> set b64_alphabet \<or> length t mod 4 = 1 then None
     else Some (bytes_of_digits 6 (map (digit_of b64_alphabet) t)))"

definition b64_raw_decode :: "string \<Rightarrow> byte list option" where
  "b64_raw_decode s = b64_digits (strip_newlines s)"

definition b64_std_decode :: "string \<Rightarrow> byte list option" where
  "b64_std_decode s =
    (let t = strip_newlines s;
         n = (if drop (length t - 2) t = ''=='' then 2 else if drop (length t - 1) t = ''='' then 1 else 0)
     in if length t mod 4 \<noteq> 0 then None else b64_digits (take (length t - n) t))"

lemma alphabets: "distinct b32_alphabet" "length b32_alphabet = 32" "distinct b64_alphabet" "length b64_alphabet = 64"
  by (simp_all add: b32_alphabet_def b64_alphabet_def)

lemma digit_of_nth: "distinct alph \<Longrightarrow> i < length alph \<Longrightarrow> digit_of alph (alph ! i) = i"
proof -
  assume "distinct alph" "i < length alph"
  then have "takeWhile (\<lambda>x. x \<noteq> alph ! i) alph = take i alph"
    by (intro takeWhile_eq_take_P_nth) (auto simp: nth_eq_iff_index_eq)
  with \<open>i < length alph\<close> show ?thesis by (simp add: digit_of_def)
qed

lemma digits_back:
  assumes "distinct alph" and "length alph = 2 ^ k"
  shows "map (digit_of alph) (map ((!) alph) (digits_of_bytes k bs)) = digits_of_bytes k bs"
    and "set (map ((!) alph) (digits_of_bytes k bs)) \<subseteq> set alph"
  using assms digits_less [of _ k bs] by (auto intro!: map_idI simp: digit_of_nth)

lemma no_newlines: "set t \<subseteq> set b64_alphabet \<Longrightarrow> strip_newlines t = t" "set t \<subseteq> set b32_alphabet \<Longrightarrow> strip_newlines t = t"
  unfolding strip_newlines_def b64_alphabet_def b32_alphabet_def by (rule filter_True; fastforce)+

theorem b64_raw_roundtrip: "b64_raw_decode (b64_raw_encode bs) = Some bs"
proof -
  have alph: "set (b64_raw_encode bs) \<subseteq> set b64_alphabet"
    unfolding b64_raw_encode_def by (rule digits_back) (simp_all add: alphabets)
  have dig: "map (digit_of b64_alphabet) (b64_raw_encode bs) = digits_of_bytes 6 bs"
    unfolding b64_raw_encode_def by (rule digits_back) (simp_all add: alphabets)
  have "length (digits_of_bytes 6 bs) mod 4 \<noteq> 1"
    unfolding digits_count [of 6, simplified] by presburger
  then have "length (b64_raw_encode bs) mod 4 \<noteq> 1" by (simp add: b64_raw_encode_def)
  then show ?thesis
    unfolding b64_raw_decode_def b64_digits_def no_newlines(1) [OF alph] dig using alph by (simp add: bytes_digits)
qed

theorem b32_roundtrip: "b32_decode (b32_encode bs) = Some bs"
proof -
  have alph: "set (b32_encode bs) \<subseteq> set b32_alphabet"
    unfolding b32_encode_def by (rule digits_back) (simp_all add: alphabets)
  have dig: "map (digit_of b32_alphabet) (b32_encode bs) = digits_of_bytes 5 bs"
    unfolding b32_encode_def by (rule digits_back) (simp_all add: alphabets)
  have "length (digits_of_bytes 5 bs) mod 8 \<noteq> 1" "length (digits_of_bytes 5 bs) mod 8 \<noteq> 3" "length (digits_of_bytes 5 bs) mod 8 \<noteq> 6"
    unfolding digits_count [of 5, simplified] by presburger+
  then have len: "length (b32_encode bs) mod 8 \<notin> {1, 3, 6}" by (simp add: b32_encode_def)
  show ?thesis
    unfolding b32_decode_def Let_def no_newlines(2) [OF alph] if_not_P [OF len] dig using alph by (simp add: bytes_digits)
qed

subsection \<open>Splitting and scanning\<close>

text \<open>\<open>strings.Split\<close> at a single character.\<close>

fun split_at :: "char \<Rightarrow> string \<Rightarrow> string list" where
  "split_at ch [] = [[]]"
| "split_at ch (x # xs) = 
    (if x = ch then [] # split_at ch xs else case split_at ch xs of [] \<Rightarrow> [[x]] | y # ys \<Rightarrow> (x # y) # ys)"

lemma split_at_ne: "split_at ch xs \<noteq> []"
  by (induction xs) (simp_all split: list.split)

lemma split_at_append: "ch \<notin> set xs \<Longrightarrow> split_at ch (xs @ ch # ys) = xs # split_at ch ys"
  by (induction xs) auto

lemma split_at_last: "ch \<notin> set xs \<Longrightarrow> split_at ch xs = [xs]"
  by (induction xs) auto

text \<open>
  \<open>Sscanf\<close> with \<open>%d\<close> into an unsigned integer of \<open>w\<close> bits: leading blanks are skipped, a newline or the end is an
  error, and so are no digit and a value out of range.  What follows the last verb of the format is not looked at.
\<close>

definition dec_digit :: "char \<Rightarrow> bool" where
  "dec_digit ch \<longleftrightarrow> of_char ch \<in> {48..57::nat}"

fun skip_space :: "string \<Rightarrow> string option" where
  "skip_space [] = Some []"
| "skip_space (ch # s) =
    (if ch = CHR 0x0A then None
     else if ch \<in> {CHR '' '', CHR 0x09, CHR 0x0B, CHR 0x0C, CHR 0x0D} then skip_space s else Some (ch # s))"

definition dec_value :: "string \<Rightarrow> nat" where
  "dec_value ds = foldl (\<lambda>a ch. 10 * a + (of_char ch - 48)) 0 ds"

definition scan_uint :: "nat \<Rightarrow> string \<Rightarrow> (nat \<times> string) option" where
  "scan_uint w s =
    (case skip_space s of
       None \<Rightarrow> None
     | Some t \<Rightarrow>
        let ds = takeWhile dec_digit t
        in if ds = [] \<or> \<not> dec_value ds < 2 ^ w then None else Some (dec_value ds, dropWhile dec_digit t))"

text \<open>Into a (64-bit) \<open>int\<close>: with a sign.\<close>

definition scan_int :: "string \<Rightarrow> (int \<times> string) option" where
  "scan_int s =
    (case skip_space s of
       None \<Rightarrow> None
     | Some t \<Rightarrow>
        let neg = (take 1 t = ''-''); u = (if take 1 t \<in> {''-'', ''+''} then drop 1 t else t); ds = takeWhile dec_digit u;
            v = (if neg then - int (dec_value ds) else int (dec_value ds))
        in if ds = [] \<or> \<not> in64 v then None else Some (v, dropWhile dec_digit u))"

text \<open>A literal part of the format.\<close>

definition scan_lit :: "string \<Rightarrow> string \<Rightarrow> string option" where
  "scan_lit lit s = (if take (length lit) s = lit then Some (drop (length lit) s) else None)"

end
