(* ===== verification/AuthCrypto.thy ===== *)
theory AuthCrypto
  imports Encoding
begin

section \<open>Passwords, one-time passwords and sealed secrets\<close>

text \<open>
  \<open>internal/auth/password.go\<close>, \<open>internal/auth/totp.go\<close> and \<open>internal/secrets/local.go\<close>.  The primitives they
  call are a parameter, the record \<open>crypto\<close>: Argon2 (of \<open>golang.org/x/crypto\<close>, which panics on parameters it
  rejects, \<open>None\<close>), HMAC and AES-GCM, and the process environment.  What the theorems need of them is stated in
  each as a hypothesis: the length of an output, and that opening inverts sealing.  Random bytes are arguments.
\<close>

unbundle bit_operations_syntax

record crypto =
  argon2_IDKey :: "byte list \<Rightarrow> byte list \<Rightarrow> nat \<Rightarrow> nat \<Rightarrow> nat \<Rightarrow> nat \<Rightarrow> byte list option"
  hmac_sha1 :: "byte list \<Rightarrow> byte list \<Rightarrow> byte list"
  hmac_sha256 :: "byte list \<Rightarrow> byte list \<Rightarrow> byte list"
  gcm_seal :: "byte list \<Rightarrow> byte list \<Rightarrow> byte list \<Rightarrow> byte list"
  gcm_open :: "byte list \<Rightarrow> byte list \<Rightarrow> byte list \<Rightarrow> byte list option"
  lookupEnv :: "string \<Rightarrow> string option"

text \<open>Go's \<open>string(b)\<close>, the inverse of \<open>ascii\<close>.\<close>

definition text_of :: "byte list \<Rightarrow> string" where
  "text_of bs = map (\<lambda>b. char_of (unat b)) bs"

subsection \<open>local.go\<close>

definition keyBytes :: "crypto \<Rightarrow> string \<Rightarrow> gerror + byte list" where
  "keyBytes cr keyName =
    (case lookupEnv cr (''KOLO_KEY_'' @ keyName) of
       None \<Rightarrow> Inl ErrKeyConfig
     | Some v \<Rightarrow>
        if v = [] then Inl ErrKeyConfig
        else (case b64_std_decode v of
                None \<Rightarrow> Inl ErrKeyConfig
              | Some key \<Rightarrow> if length key \<noteq> 32 then Inl ErrKeyConfig else Inr key))"

definition Sign :: "crypto \<Rightarrow> string \<Rightarrow> byte list \<Rightarrow> gerror + byte list" where
  "Sign cr keyName dat = (case keyBytes cr keyName of Inl e \<Rightarrow> Inl e | Inr key \<Rightarrow> Inr (hmac_sha256 cr key dat))"

definition gcm_nonceSize :: nat where "gcm_nonceSize = 12"

definition Encrypt :: "crypto \<Rightarrow> byte list \<Rightarrow> string \<Rightarrow> byte list \<Rightarrow> gerror + byte list" where
  "Encrypt cr nonce keyName plaintext =
    (case keyBytes cr keyName of Inl e \<Rightarrow> Inl e | Inr key \<Rightarrow> Inr (nonce @ gcm_seal cr key nonce plaintext))"

definition Decrypt :: "crypto \<Rightarrow> string \<Rightarrow> byte list \<Rightarrow> gerror + byte list" where
  "Decrypt cr keyName ciphertext =
    (case keyBytes cr keyName of
       Inl e \<Rightarrow> Inl e
     | Inr key \<Rightarrow>
        if length ciphertext < gcm_nonceSize then Inl ErrUnseal
        else (case gcm_open cr key (take gcm_nonceSize ciphertext) (drop gcm_nonceSize ciphertext) of
                None \<Rightarrow> Inl ErrUnseal | Some p \<Rightarrow> Inr p))"

subsection \<open>password.go\<close>

definition argonMemory :: nat where "argonMemory = 19 * 1024"
definition argonTime :: nat where "argonTime = 2"
definition argonThreads :: nat where "argonThreads = 1"
definition argonKeyLen :: nat where "argonKeyLen = 32"
definition argonVersion :: nat where "argonVersion = 19"

definition HashPassword :: "crypto \<Rightarrow> byte list \<Rightarrow> string \<Rightarrow> gerror + string" where
  "HashPassword cr salt password =
    (case argon2_IDKey cr (ascii password) salt argonTime argonMemory argonThreads argonKeyLen of
       None \<Rightarrow> Inl GoPanic
     | Some hash \<Rightarrow> Inr (''$argon2id$v='' @ dec_nat argonVersion @ ''$m='' @ dec_nat argonMemory @ '',t='' @ dec_nat argonTime
         @ '',p='' @ dec_nat argonThreads @ ''$'' @ b64_raw_encode salt @ ''$'' @ b64_raw_encode hash))"

definition scan_version :: "string \<Rightarrow> int option" where
  "scan_version s = map_option fst (Option.bind (scan_lit ''v='' s) scan_int)"

definition scan_params :: "string \<Rightarrow> (nat \<times> nat \<times> nat) option" where
  "scan_params s =
    Option.bind (Option.bind (scan_lit ''m='' s) (scan_uint 32)) (\<lambda>(m, s1).
    Option.bind (Option.bind (scan_lit '',t='' s1) (scan_uint 32)) (\<lambda>(t, s2).
    Option.bind (Option.bind (scan_lit '',p='' s2) (scan_uint 8)) (\<lambda>(p, s3). Some (m, t, p))))"

definition VerifyPassword :: "crypto \<Rightarrow> string \<Rightarrow> string \<Rightarrow> gerror + unit" where
  "VerifyPassword cr password encoded =
    (let parts = split_at (CHR ''$'') encoded in
     if length parts \<noteq> 6 \<or> parts ! 1 \<noteq> ''argon2id'' then Inl ErrMalformed
     else if scan_version (parts ! 2) = None then Inl ErrMalformed
     else (case scan_params (parts ! 3) of
             None \<Rightarrow> Inl ErrMalformed
           | Some (memory, timeCost, threads) \<Rightarrow>
              (case b64_raw_decode (parts ! 4) of
                 None \<Rightarrow> Inl ErrMalformed
               | Some salt \<Rightarrow>
                  (case b64_raw_decode (parts ! 5) of
                     None \<Rightarrow> Inl ErrMalformed
                   | Some want \<Rightarrow>
                      (case argon2_IDKey cr (ascii password) salt timeCost memory threads (length want mod 2 ^ 32) of
                         None \<Rightarrow> Inl GoPanic
                       | Some got \<Rightarrow> if got \<noteq> want then Inl ErrInvalidPassword else Inr ())))))"

subsection \<open>totp.go\<close>

definition totpDigits :: nat where "totpDigits = 6"
definition totpStepSecs :: "64 word" where "totpStepSecs = 30"
definition totpWindow :: int where "totpWindow = 1"

definition GenerateTOTPSecret :: "byte list \<Rightarrow> string" where
  "GenerateTOTPSecret raw = b32_encode raw"

text \<open>\<open>binary.BigEndian.PutUint64\<close>.\<close>

definition be_bytes :: "64 word \<Rightarrow> byte list" where
  "be_bytes x = map (\<lambda>i. ucast (drop_bit (8 * i) x)) (rev [0..<8])"

definition hotp :: "crypto \<Rightarrow> byte list \<Rightarrow> 64 word \<Rightarrow> string" where
  "hotp cr key counter =
    (let sum = hmac_sha1 cr key (be_bytes counter);
         offset = unat (last sum AND 0x0f);
         binCode = push_bit 24 (ucast (sum ! offset) AND 0x7f :: 32 word)
           OR push_bit 16 (ucast (sum ! (offset + 1))) OR push_bit 8 (ucast (sum ! (offset + 2))) OR ucast (sum ! (offset + 3));
         code = dec_nat (unat (binCode mod 1000000))
     in replicate (totpDigits - length code) (CHR ''0'') @ code)"

text \<open>\<open>uint64(t.Unix()) / totpStepSecs\<close> of a time in microseconds.\<close>

definition totp_counter :: "int \<Rightarrow> 64 word" where
  "totp_counter t = word_of_int (t div second) div totpStepSecs"

definition GenerateTOTPCode :: "crypto \<Rightarrow> string \<Rightarrow> int \<Rightarrow> gerror + string" where
  "GenerateTOTPCode cr secret t =
    (case b32_decode secret of None \<Rightarrow> Inl ErrMalformed | Some key \<Rightarrow> Inr (hotp cr key (totp_counter t)))"

definition ValidateTOTPCode :: "crypto \<Rightarrow> string \<Rightarrow> string \<Rightarrow> int \<Rightarrow> gerror + bool" where
  "ValidateTOTPCode cr secret code t =
    (case b32_decode secret of
       None \<Rightarrow> Inl ErrMalformed
     | Some key \<Rightarrow>
        Inr (list_ex (\<lambda>delta. hotp cr key (if delta < 0 then totp_counter t - word_of_int (- delta)
                                          else totp_counter t + word_of_int delta) = code)
               [- totpWindow .. totpWindow]))"

subsection \<open>Lemmas\<close>

lemma text_of_ascii [simp]: "text_of (ascii s) = s"
proof -
  have "char_of (unat (word_of_nat (of_char ch) :: byte)) = ch" for ch :: char
  proof -
    have "unat (word_of_nat (of_char ch) :: byte) = of_char ch" by (simp add: unat_of_nat)
    then show ?thesis by simp
  qed
  then show ?thesis by (simp add: text_of_def ascii_def o_def map_idI)
qed

lemma Decrypt_Encrypt:
  assumes "Encrypt cr nonce name p = Inr sealed" and "length nonce = 12"
    and "\<And>k. gcm_open cr k nonce (gcm_seal cr k nonce p) = Some p"
  shows "Decrypt cr name sealed = Inr p"
  using assms by (auto simp: Encrypt_def Decrypt_def gcm_nonceSize_def split: sum.splits)

lemma b64_no_dollar: "CHR ''$'' \<notin> set (b64_raw_encode bs)"
proof -
  have "set (b64_raw_encode bs) \<subseteq> set b64_alphabet"
    unfolding b64_raw_encode_def by (rule digits_back) (simp_all add: alphabets)
  then show ?thesis by (auto simp: b64_alphabet_def)
qed

lemma argon_numbers: "dec_nat argonVersion = ''19''" "dec_nat argonMemory = ''19456''" "dec_nat argonTime = ''2''" "dec_nat argonThreads = ''1''"
proof -
  have "dec_nat 19456 = map char_of [49, 57, 52, 53, 54 :: nat]" "dec_nat 19 = map char_of [49, 57 :: nat]"
    "dec_nat 2 = map char_of [50 :: nat]" "dec_nat 1 = map char_of [49 :: nat]"
    by (simp_all add: dec_nat.simps)
  moreover have "map char_of [49, 57, 52, 53, 54 :: nat] = ''19456''" "map char_of [49, 57 :: nat] = ''19''"
    "map char_of [50 :: nat] = ''2''" "map char_of [49 :: nat] = ''1''" by code_simp+
  ultimately show "dec_nat argonVersion = ''19''" "dec_nat argonMemory = ''19456''" "dec_nat argonTime = ''2''" "dec_nat argonThreads = ''1''"
    by (simp_all add: argonVersion_def argonMemory_def argonTime_def argonThreads_def)
qed

lemma argon_scans: "scan_version ''v=19'' = Some 19" "scan_params ''m=19456,t=2,p=1'' = Some (19456, 2, 1)"
  by (simp_all add: scan_version_def scan_params_def scan_lit_def scan_int_def scan_uint_def dec_digit_def dec_value_def
      in64_def min64_def max64_def Let_def)

lemma hashed_parts:
  "split_at (CHR ''$'') (''$argon2id$v=19$m=19456,t=2,p=1$'' @ b64_raw_encode salt @ ''$'' @ b64_raw_encode hash) =
    [[], ''argon2id'', ''v=19'', ''m=19456,t=2,p=1'', b64_raw_encode salt, b64_raw_encode hash]"
proof -
  have eq: "''$argon2id$v=19$m=19456,t=2,p=1$'' @ b64_raw_encode salt @ ''$'' @ b64_raw_encode hash =
    [] @ CHR ''$'' # (''argon2id'' @ CHR ''$'' # (''v=19'' @ CHR ''$'' # (''m=19456,t=2,p=1'' @ CHR ''$'' #
      (b64_raw_encode salt @ CHR ''$'' # b64_raw_encode hash))))" by simp
  show ?thesis
    unfolding eq by (subst split_at_append split_at_last, simp add: b64_no_dollar)+ (rule refl)
qed

definition encoded_hash :: "byte list \<Rightarrow> byte list \<Rightarrow> string" where
  "encoded_hash salt hash = ''$argon2id$v=19$m=19456,t=2,p=1$'' @ b64_raw_encode salt @ ''$'' @ b64_raw_encode hash"

lemma HashPassword_encoded:
  "argon2_IDKey cr (ascii password) salt 2 19456 1 32 = Some hash \<Longrightarrow> HashPassword cr salt password = Inr (encoded_hash salt hash)"
  unfolding HashPassword_def argon_numbers
  by (simp add: argonMemory_def argonTime_def argonThreads_def argonKeyLen_def encoded_hash_def)

lemma VerifyPassword_encoded:
  "length hash = 32 \<Longrightarrow> VerifyPassword cr other (encoded_hash salt hash) =
     (case argon2_IDKey cr (ascii other) salt 2 19456 1 32 of
        None \<Rightarrow> Inl GoPanic | Some h \<Rightarrow> if h = hash then Inr () else Inl ErrInvalidPassword)"
  unfolding VerifyPassword_def encoded_hash_def hashed_parts
  by (simp add: argon_scans b64_raw_roundtrip split: option.split)

text \<open>
  C30. A password is accepted against its own hash, whatever the salt, and another one exactly when Argon2 maps it to
  the same 32 bytes.  The parameters and the salt used are those read back from the encoded hash.
\<close>

theorem password_roundtrip:
  assumes argon: "argon2_IDKey cr (ascii password) salt 2 19456 1 32 = Some hash" and len: "length hash = 32"
  shows "\<exists>encoded. HashPassword cr salt password = Inr encoded \<and> VerifyPassword cr password encoded = Inr ()
    \<and> (\<forall>other. VerifyPassword cr other encoded =
         (case argon2_IDKey cr (ascii other) salt 2 19456 1 32 of
            None \<Rightarrow> Inl GoPanic | Some h \<Rightarrow> if h = hash then Inr () else Inl ErrInvalidPassword))"
  using argon by (intro exI [of _ "encoded_hash salt hash"]) (simp add: HashPassword_encoded VerifyPassword_encoded [OF len])

text \<open>Toy primitives, for the witnesses: the key is the password filled up with zeros, HMAC is the last byte.\<close>

definition toy_crypto :: crypto where
  "toy_crypto = \<lparr>argon2_IDKey = (\<lambda>pw salt t m p n. Some (take n (pw @ replicate n 0))),
     hmac_sha1 = (\<lambda>k x. [0, 0, 0, last x] @ replicate 16 0), hmac_sha256 = (\<lambda>k x. replicate 32 0),
     gcm_seal = (\<lambda>k n x. x), gcm_open = (\<lambda>k n x. Some x),
     lookupEnv = (\<lambda>v. Some (replicate 42 (CHR ''A'') @ ''A=''))\<rparr>"

theorem password_roundtrip_witness:
  "\<exists>encoded. HashPassword toy_crypto (replicate 16 7) ''secret'' = Inr encoded
    \<and> VerifyPassword toy_crypto ''secret'' encoded = Inr () \<and> VerifyPassword toy_crypto ''guess'' encoded = Inl ErrInvalidPassword"
proof -
  let ?h = "ascii ''secret'' @ replicate 26 0"
  have key: "argon2_IDKey toy_crypto pw salt t m p n = Some (take n (pw @ replicate n 0))" for pw salt t m p n
    by (simp add: toy_crypto_def)
  have "argon2_IDKey toy_crypto (ascii ''secret'') (replicate 16 7) 2 19456 1 32 = Some ?h" "length ?h = 32"
    by (simp_all add: key ascii_def)
  from password_roundtrip [OF this]
  obtain encoded where "HashPassword toy_crypto (replicate 16 7) ''secret'' = Inr encoded"
    "VerifyPassword toy_crypto ''secret'' encoded = Inr ()"
    and other: "\<And>other. VerifyPassword toy_crypto other encoded =
         (case argon2_IDKey toy_crypto (ascii other) (replicate 16 7) 2 19456 1 32 of
            None \<Rightarrow> Inl GoPanic | Some h \<Rightarrow> if h = ?h then Inr () else Inl ErrInvalidPassword)" by blast
  moreover have "hd (ascii ''guess'') \<noteq> hd ?h" by (simp add: ascii_def)
  then have "VerifyPassword toy_crypto ''guess'' encoded = Inl ErrInvalidPassword"
    by (auto simp: other key ascii_def)
  ultimately show ?thesis by blast
qed

subsection \<open>The window of a one-time password\<close>

lemma dec_nat_short: "n < 10 ^ Suc k \<Longrightarrow> length (dec_nat n) \<le> Suc k"
proof (induction k arbitrary: n)
  case (Suc k)
  show ?case
  proof (cases "n < 10")
    case False
    have "n div 10 < 10 ^ Suc k" using Suc.prems by (simp add: less_mult_imp_div_less mult.commute)
    with Suc.IH have "length (dec_nat (n div 10)) \<le> Suc k" .
    with False show ?thesis by (subst dec_nat.simps) simp
  qed (simp add: dec_nat.simps)
qed (simp add: dec_nat.simps)

lemma hotp_length: "length (hotp cr key counter) = 6"
proof -
  have "unat (x mod 1000000) < 10 ^ Suc 5" for x :: "32 word"
    by (simp add: unat_mod_distrib)
  then have "length (dec_nat (unat (x mod 1000000))) \<le> 6" for x :: "32 word" using dec_nat_short [of _ 5] by simp
  then show ?thesis by (simp add: hotp_def Let_def totpDigits_def)
qed

lemma counter_shift:
  assumes "0 \<le> t" and "t \<le> max64" and "0 \<le> t + d * (30 * second)" and "t + d * (30 * second) \<le> max64"
  shows "totp_counter (t + d * (30 * second)) = totp_counter t + word_of_int d"
proof -
  have counter: "totp_counter u = word_of_int (u div second div 30)" if "0 \<le> u" "u \<le> max64" for u
  proof -
    have r: "0 \<le> u div second" "u div second < 2 ^ 64" using that by (simp_all add: second_def max64_def)
    then have "uint (word_of_int (u div second) :: 64 word) = u div second" by (simp add: uint_word_of_int_eq take_bit_int_eq_self)
    then show ?thesis unfolding totp_counter_def totpStepSecs_def by (simp add: word_div_def)
  qed
  have "(t + d * (30 * second)) div second div 30 = t div second div 30 + d"
    by (simp add: second_def zdiv_zmult2_eq [symmetric])
  then show ?thesis using assms by (simp add: counter)
qed

text \<open>
  C31. At time \<open>t\<close> exactly three codes of a secret are accepted: those its owner's clock makes thirty seconds earlier,
  now and thirty seconds later.  Every code is six characters.
\<close>

theorem totp_window:
  assumes "30 * second \<le> t" and "t + 30 * second \<le> max64"
  shows "ValidateTOTPCode cr secret code t =
      (case GenerateTOTPCode cr secret t of
         Inl e \<Rightarrow> Inl e
       | Inr _ \<Rightarrow> Inr (\<exists>d\<in>{- 1, 0, 1}. GenerateTOTPCode cr secret (t + d * (30 * second)) = Inr code))
    \<and> (\<forall>u made. GenerateTOTPCode cr secret u = Inr made \<longrightarrow> length made = 6)"
proof -
  have s: "0 < second" by (simp add: second_def)
  have shift: "totp_counter (t + d * (30 * second)) = totp_counter t + word_of_int d" if "d \<in> {- 1, 0, 1}" for d
    using that assms s by (intro counter_shift) auto
  have steps: "[- totpWindow .. totpWindow] = [- 1, 0, 1]" by (simp add: totpWindow_def upto.simps)
  show ?thesis
    using shift [of "- 1"] shift [of 0] shift [of 1]
    by (auto simp: ValidateTOTPCode_def GenerateTOTPCode_def steps hotp_length split: option.splits)
qed

theorem totp_window_witness:
  "\<exists>code. GenerateTOTPCode toy_crypto (b32_encode [1]) 90000000 = Inr code
     \<and> ValidateTOTPCode toy_crypto (b32_encode [1]) code 70000000 = Inr True
     \<and> ValidateTOTPCode toy_crypto (b32_encode [1]) code 30000000 = Inr False"
proof -
  have gen: "GenerateTOTPCode toy_crypto (b32_encode [1]) t = Inr (hotp toy_crypto [1] (totp_counter t))" for t
    by (simp add: GenerateTOTPCode_def b32_roundtrip)
  have bounds: "30 * second \<le> 70000000" "70000000 + 30 * second \<le> max64" "30 * second \<le> 30000000" "30000000 + 30 * second \<le> max64"
    by (simp_all add: second_def max64_def)
  have codes: "hotp toy_crypto [1] (totp_counter 90000000) = ''000003''" "hotp toy_crypto [1] (totp_counter 100000000) = ''000003''"
    "hotp toy_crypto [1] (totp_counter 0) = ''000000''" "hotp toy_crypto [1] (totp_counter 30000000) = ''000001''"
    "hotp toy_crypto [1] (totp_counter 60000000) = ''000002''" by code_simp+
  show ?thesis
    using totp_window [OF bounds(1,2), of toy_crypto "b32_encode [1]" "''000003''"]
      totp_window [OF bounds(3,4), of toy_crypto "b32_encode [1]" "''000003''"]
    by (simp add: gen codes second_def)
qed

end
