(* ===== verification/Auth.thy ===== *)
theory Auth
  imports AuthCrypto
begin

section \<open>Devices, second factors and sessions\<close>

text \<open>
  \<open>internal/auth/device.go\<close>, \<open>mfa.go\<close> and \<open>session.go\<close> with migrations 00012 to 00014, and
  \<open>audit.RecordNow\<close>.  The state is the identity tables with those of the package, and the codes a
  \<open>StubNotifier\<close> remembers.  A login is several statements without a transaction; what an error
  leaves behind is in the state returned.
\<close>

record device =
  dv_id :: uuid
  dv_identity :: uuid
  dv_fingerprint :: string
  dv_trusted :: bool
  dv_first :: int
  dv_last :: int

record totp_row =
  tp_identity :: uuid
  tp_secret :: "byte list"
  tp_confirmed :: bool

datatype mfa_channel = ChannelSMS | ChannelPush

record challenge =
  mc_id :: uuid
  mc_identity :: uuid
  mc_channel :: mfa_channel
  mc_hash :: string
  mc_expires :: int
  mc_consumed :: "int option"

record session =
  ss_id :: uuid
  ss_identity :: uuid
  ss_device :: "uuid option"
  ss_mfa :: bool
  ss_step_up :: "int option"
  ss_created :: int
  ss_expires :: int

record session_row = session +
  ss_hash :: string
  ss_revoked :: "int option"

record auth_db = identity_db +
  devices :: "device list"
  totps :: "totp_row list"
  challenges :: "challenge list"
  sessions :: "session_row list"
  sent_codes :: "uuid \<Rightarrow> string option"

subsection \<open>audit.go: RecordNow\<close>

text \<open>Every caller drops its error.\<close>

definition RecordNow :: "uuid \<Rightarrow> string \<Rightarrow> string \<Rightarrow> string \<Rightarrow> (string \<times> json) list \<Rightarrow> 'z identity_db_scheme \<Rightarrow> 'z identity_db_scheme" where
  "RecordNow actor action ttype target meta s =
    (case audit_Record (Some actor) action ttype target meta s of Inl e \<Rightarrow> s | Inr s' \<Rightarrow> s')"

subsection \<open>device.go\<close>

definition dv_key :: "device \<Rightarrow> uuid \<times> string" where
  "dv_key d = (dv_identity d, dv_fingerprint d)"

text \<open>The id and whether the row is new.\<close>

definition UpsertDevice :: "ctx \<Rightarrow> uuid \<Rightarrow> string \<Rightarrow> 'z auth_db_scheme \<Rightarrow> (gerror + uuid \<times> bool) \<times> 'z auth_db_scheme" where
  "UpsertDevice c identityID fingerprint s =
    (case find_row dv_key (identityID, fingerprint) (devices s) of
       Some d \<Rightarrow> (Inr (dv_id d, False), s\<lparr>devices := update_row dv_key (identityID, fingerprint) (\<lambda>r. r\<lparr>dv_last := now c\<rparr>) (devices s)\<rparr>)
     | None \<Rightarrow>
        if key_taken dv_id (gen c 22) (devices s) then (Inl SqlUnique, s)
        else if \<not> key_taken id_id identityID (identities s) then (Inl SqlForeignKey, s)
        else (Inr (gen c 22, True), s\<lparr>devices := devices s @
               [\<lparr>dv_id = gen c 22, dv_identity = identityID, dv_fingerprint = fingerprint, dv_trusted = False,
                 dv_first = now c, dv_last = now c\<rparr>]\<rparr>))"

definition TrustDevice :: "uuid \<Rightarrow> 'z auth_db_scheme \<Rightarrow> (gerror + unit) \<times> 'z auth_db_scheme" where
  "TrustDevice deviceID s =
    (if \<not> key_taken dv_id deviceID (devices s) then (Inl ErrDeviceNotFound, s)
     else (Inr (), s\<lparr>devices := update_row dv_id deviceID (\<lambda>r. r\<lparr>dv_trusted := True\<rparr>) (devices s)\<rparr>))"

subsection \<open>mfa.go\<close>

definition totpKeyName :: string where "totpKeyName = ''mfa-totp''"

definition EnrollTOTP :: "crypto \<Rightarrow> byte list \<Rightarrow> byte list \<Rightarrow> uuid \<Rightarrow> 'z auth_db_scheme \<Rightarrow> (gerror + string) \<times> 'z auth_db_scheme" where
  "EnrollTOTP cr raw nonce identityID s =
    (let secret = GenerateTOTPSecret raw in
     case Encrypt cr nonce totpKeyName (ascii secret) of
       Inl e \<Rightarrow> (Inl e, s)
     | Inr sealed \<Rightarrow>
        if key_taken tp_identity identityID (totps s)
        then (Inr secret, s\<lparr>totps := update_row tp_identity identityID (\<lambda>r. r\<lparr>tp_secret := sealed, tp_confirmed := False\<rparr>) (totps s)\<rparr>)
        else if \<not> key_taken id_id identityID (identities s) then (Inl SqlForeignKey, s)
        else (Inr secret, s\<lparr>totps := totps s @ [\<lparr>tp_identity = identityID, tp_secret = sealed, tp_confirmed = False\<rparr>]\<rparr>))"

definition fetchTOTPSecret :: "crypto \<Rightarrow> uuid \<Rightarrow> 'z auth_db_scheme \<Rightarrow> gerror + string" where
  "fetchTOTPSecret cr identityID s =
    (case find_row tp_identity identityID (totps s) of
       None \<Rightarrow> Inl ErrMFANotEnrolled
     | Some r \<Rightarrow> (case Decrypt cr totpKeyName (tp_secret r) of Inl e \<Rightarrow> Inl e | Inr plain \<Rightarrow> Inr (text_of plain)))"

definition VerifyTOTPCode :: "crypto \<Rightarrow> ctx \<Rightarrow> uuid \<Rightarrow> string \<Rightarrow> 'z auth_db_scheme \<Rightarrow> gerror + unit" where
  "VerifyTOTPCode cr c identityID code s =
    (case fetchTOTPSecret cr identityID s of
       Inl e \<Rightarrow> Inl e
     | Inr secret \<Rightarrow>
        (case ValidateTOTPCode cr secret code (now c) of
           Inl e \<Rightarrow> Inl e
         | Inr ok \<Rightarrow> if ok then Inr () else Inl ErrInvalidCode))"

definition ConfirmTOTP :: "crypto \<Rightarrow> ctx \<Rightarrow> uuid \<Rightarrow> string \<Rightarrow> 'z auth_db_scheme \<Rightarrow> (gerror + unit) \<times> 'z auth_db_scheme" where
  "ConfirmTOTP cr c identityID code s =
    (case fetchTOTPSecret cr identityID s of
       Inl e \<Rightarrow> (Inl e, s)
     | Inr secret \<Rightarrow>
        (case ValidateTOTPCode cr secret code (now c) of
           Inl e \<Rightarrow> (Inl e, s)
         | Inr ok \<Rightarrow>
            if \<not> ok then (Inl ErrInvalidCode, s)
            else (Inr (), s\<lparr>totps := update_row tp_identity identityID (\<lambda>r. r\<lparr>tp_confirmed := True\<rparr>) (totps s)\<rparr>)))"

definition HasConfirmedTOTP :: "uuid \<Rightarrow> 'z auth_db_scheme \<Rightarrow> bool" where
  "HasConfirmedTOTP identityID s =
    (case find_row tp_identity identityID (totps s) of None \<Rightarrow> False | Some r \<Rightarrow> tp_confirmed r)"

definition challengeTTL :: int where "challengeTTL = 5 * minute"

definition hashCode :: "ctx \<Rightarrow> string \<Rightarrow> string" where
  "hashCode c code = sha256 c code"

definition mfa_randomDigits :: "byte list \<Rightarrow> string" where
  "mfa_randomDigits bs = map (\<lambda>b. char_of (unat (48 + b mod 10))) bs"

definition notifier_Send :: "ctx \<Rightarrow> byte list \<Rightarrow> uuid \<Rightarrow> mfa_channel \<Rightarrow> 'z auth_db_scheme \<Rightarrow> (gerror + uuid) \<times> 'z auth_db_scheme" where
  "notifier_Send c bytes identityID channel s =
    (let code = mfa_randomDigits bytes in
     if key_taken mc_id (gen c 23) (challenges s) then (Inl SqlUnique, s)
     else if \<not> key_taken id_id identityID (identities s) then (Inl SqlForeignKey, s)
     else (Inr (gen c 23),
           s\<lparr>challenges := challenges s @ [\<lparr>mc_id = gen c 23, mc_identity = identityID, mc_channel = channel,
               mc_hash = hashCode c code, mc_expires = now c + challengeTTL, mc_consumed = None\<rparr>],
             sent_codes := (sent_codes s)(gen c 23 \<mapsto> code)\<rparr>))"

definition PeekCode :: "uuid \<Rightarrow> 'z auth_db_scheme \<Rightarrow> string option" where
  "PeekCode challengeID s = sent_codes s challengeID"

definition VerifyChallenge :: "ctx \<Rightarrow> uuid \<Rightarrow> string \<Rightarrow> 'z auth_db_scheme \<Rightarrow> (gerror + unit) \<times> 'z auth_db_scheme" where
  "VerifyChallenge c challengeID code s =
    (case find_row mc_id challengeID (challenges s) of
       None \<Rightarrow> (Inl ErrInvalidCode, s)
     | Some r \<Rightarrow>
        if mc_consumed r \<noteq> None \<or> mc_expires r < now c \<or> hashCode c code \<noteq> mc_hash r then (Inl ErrInvalidCode, s)
        else (Inr (), s\<lparr>challenges := update_row mc_id challengeID (\<lambda>r. r\<lparr>mc_consumed := Some (now c)\<rparr>) (challenges s)\<rparr>))"

subsection \<open>session.go\<close>

fun status_text :: "id_status \<Rightarrow> string" where
  "status_text IdPending = ''pending''"
| "status_text IdActive = ''active''"
| "status_text IdRejected = ''rejected''"
| "status_text IdSuspended = ''suspended''"
| "status_text IdClosed = ''closed''"

definition auth_sessionTTL :: int where "auth_sessionTTL = 24 * hour"

definition hashToken :: "ctx \<Rightarrow> string \<Rightarrow> string" where
  "hashToken c token = sha256 c token"

definition newSessionToken :: "ctx \<Rightarrow> byte list \<Rightarrow> string \<times> string" where
  "newSessionToken c b = (let raw = hex_encode b in (raw, hashToken c raw))"

definition session_insert :: "ctx \<Rightarrow> uuid \<Rightarrow> uuid \<Rightarrow> string \<Rightarrow> bool \<Rightarrow> 'z auth_db_scheme \<Rightarrow> (gerror + session) \<times> 'z auth_db_scheme" where
  "session_insert c identityID deviceID tokenHash mfa s =
    (let row = \<lparr>ss_id = gen c 24, ss_identity = identityID, ss_device = Some deviceID, ss_mfa = mfa, ss_step_up = None,
                ss_created = now c, ss_expires = now c + auth_sessionTTL, ss_hash = tokenHash, ss_revoked = None\<rparr>
     in if key_taken ss_id (gen c 24) (sessions s) \<or> key_taken ss_hash tokenHash (sessions s) then (Inl SqlUnique, s)
        else if \<not> key_taken id_id identityID (identities s) \<or> \<not> key_taken dv_id deviceID (devices s) then (Inl SqlForeignKey, s)
        else (Inr (session.truncate row), s\<lparr>sessions := sessions s @ [row]\<rparr>))"

definition Login :: "crypto \<Rightarrow> ctx \<Rightarrow> byte list \<Rightarrow> string \<Rightarrow> string \<Rightarrow> string \<Rightarrow> 'z auth_db_scheme
    \<Rightarrow> (gerror + string \<times> session) \<times> 'z auth_db_scheme" where
  "Login cr c b email password deviceFingerprint s =
    (case PasswordHash email s of
       Inl e \<Rightarrow> (Inl (if e = ErrIdentityNotFound then ErrInvalidCredentials else e), s)
     | Inr (identityID, hash) \<Rightarrow>
        (case VerifyPassword cr password hash of
           Inl e \<Rightarrow>
            if e = GoPanic then (Inl GoPanic, s)
            else (Inl ErrInvalidCredentials,
                  RecordNow identityID ''auth.login_failed'' ''identity'' identityID [(''reason'', JStr ''invalid_password'')] s)
         | Inr _ \<Rightarrow>
            (case GetByID identityID s of
               Inl e \<Rightarrow> (Inl e, s)
             | Inr i \<Rightarrow>
                if id_stat i \<noteq> IdActive
                then (Inl ErrIdentityNotActive,
                      RecordNow identityID ''auth.login_failed'' ''identity'' identityID
                        [(''reason'', JStr ''not_active''), (''status'', JStr (status_text (id_stat i)))] s)
                else (case UpsertDevice c identityID deviceFingerprint s of
                        (Inl e, s1) \<Rightarrow> (Inl e, s1)
                      | (Inr (deviceID, isNewDevice), s1) \<Rightarrow>
                         (let hasMFA = HasConfirmedTOTP identityID s1; (rawToken, tokenHash) = newSessionToken c b in
                          case session_insert c identityID deviceID tokenHash (\<not> hasMFA) s1 of
                            (Inl e, s2) \<Rightarrow> (Inl e, s2)
                          | (Inr sess, s2) \<Rightarrow>
                             let s3 = RecordNow identityID ''auth.login_succeeded'' ''identity'' identityID [(''mfa_required'', JBool hasMFA)] s2;
                                 s4 = (if isNewDevice then RecordNow identityID ''auth.new_device_login'' ''device'' deviceID [] s3 else s3)
                             in (Inr (rawToken, sess), s4))))))"

definition live_session :: "ctx \<Rightarrow> session_row \<Rightarrow> bool" where
  "live_session c r \<longleftrightarrow> ss_revoked r = None \<and> now c < ss_expires r"

definition getSession :: "ctx \<Rightarrow> uuid \<Rightarrow> 'z auth_db_scheme \<Rightarrow> gerror + session" where
  "getSession c sessionID s =
    (case find_row ss_id sessionID (sessions s) of
       None \<Rightarrow> Inl ErrSessionNotFound
     | Some r \<Rightarrow> if live_session c r then Inr (session.truncate r) else Inl ErrSessionNotFound)"

definition getSessionByHash :: "ctx \<Rightarrow> string \<Rightarrow> 'z auth_db_scheme \<Rightarrow> gerror + session" where
  "getSessionByHash c tokenHash s =
    (case find_row ss_hash tokenHash (sessions s) of
       None \<Rightarrow> Inl ErrSessionNotFound
     | Some r \<Rightarrow> if live_session c r then Inr (session.truncate r) else Inl ErrSessionNotFound)"

definition ValidateSessionToken :: "ctx \<Rightarrow> string \<Rightarrow> 'z auth_db_scheme \<Rightarrow> gerror + session" where
  "ValidateSessionToken c rawToken s = getSessionByHash c (hashToken c rawToken) s"

definition VerifyTOTP :: "crypto \<Rightarrow> ctx \<Rightarrow> uuid \<Rightarrow> string \<Rightarrow> 'z auth_db_scheme \<Rightarrow> (gerror + unit) \<times> 'z auth_db_scheme" where
  "VerifyTOTP cr c sessionID code s =
    (case getSession c sessionID s of
       Inl e \<Rightarrow> (Inl e, s)
     | Inr sess \<Rightarrow>
        (case VerifyTOTPCode cr c (ss_identity sess) code s of
           Inl e \<Rightarrow> (Inl e, RecordNow (ss_identity sess) ''auth.mfa_failed'' ''session'' sessionID [] s)
         | Inr _ \<Rightarrow>
            (Inr (), RecordNow (ss_identity sess) ''auth.mfa_verified'' ''session'' sessionID []
               (s\<lparr>sessions := update_row ss_id sessionID (\<lambda>r. r\<lparr>ss_mfa := True\<rparr>) (sessions s)\<rparr>))))"

definition StepUp :: "crypto \<Rightarrow> ctx \<Rightarrow> uuid \<Rightarrow> string \<Rightarrow> 'z auth_db_scheme \<Rightarrow> (gerror + unit) \<times> 'z auth_db_scheme" where
  "StepUp cr c sessionID code s =
    (case getSession c sessionID s of
       Inl e \<Rightarrow> (Inl e, s)
     | Inr sess \<Rightarrow>
        (case VerifyTOTPCode cr c (ss_identity sess) code s of
           Inl e \<Rightarrow> (Inl e, RecordNow (ss_identity sess) ''auth.step_up_failed'' ''session'' sessionID [] s)
         | Inr _ \<Rightarrow>
            (Inr (), RecordNow (ss_identity sess) ''auth.step_up_succeeded'' ''session'' sessionID []
               (s\<lparr>sessions := update_row ss_id sessionID (\<lambda>r. r\<lparr>ss_step_up := Some (now c)\<rparr>) (sessions s)\<rparr>))))"

definition RequireStepUp :: "ctx \<Rightarrow> session \<Rightarrow> int \<Rightarrow> bool" where
  "RequireStepUp c sess maxAge = (case ss_step_up sess of None \<Rightarrow> False | Some t \<Rightarrow> now c - t \<le> maxAge)"

definition revoke_session :: "int \<Rightarrow> session_row \<Rightarrow> session_row" where
  "revoke_session t r = r\<lparr>ss_revoked := Some t\<rparr>"

definition Logout :: "ctx \<Rightarrow> uuid \<Rightarrow> 'z auth_db_scheme \<Rightarrow> (gerror + unit) \<times> 'z auth_db_scheme" where
  "Logout c sessionID s =
    (case find_row ss_id sessionID (sessions s) of
       None \<Rightarrow> (Inl ErrSessionNotFound, s)
     | Some r \<Rightarrow>
        if ss_revoked r \<noteq> None then (Inl ErrSessionNotFound, s)
        else (Inr (), s\<lparr>sessions := update_row ss_id sessionID (revoke_session (now c)) (sessions s)\<rparr>))"

end
