(* ===== verification/AuthProps.thy ===== *)
theory AuthProps
  imports Auth
begin

section \<open>Properties of logins, sessions and second factors\<close>

text \<open>
  What a login decides, that a session which has ended never comes back and a challenge is used once, whatever the
  package does in between (the step relation \<open>auth_step\<close>), and that the code an authenticator makes from the
  enrolled secret is accepted.  Sessions interpret the contract \<open>bearer\<close>.
\<close>

interpretation session_bearer: bearer ss_id ss_hash "\<lambda>t r. ss_revoked r = None \<and> t < ss_expires r" revoke_session
  by unfold_locales (simp_all add: revoke_session_def)

subsection \<open>What each operation leaves alone\<close>

lemma RecordNow_frame [simp]:
  "identities (RecordNow a x t g m s) = identities s" "devices (RecordNow a x t g m s) = devices s"
  "totps (RecordNow a x t g m s) = totps s" "challenges (RecordNow a x t g m s) = challenges s"
  "sessions (RecordNow a x t g m s) = sessions s" "sent_codes (RecordNow a x t g m s) = sent_codes s"
  by (simp_all add: RecordNow_def audit_Record_def split: option.split)

lemma RecordNow_log:
  "key_taken id_id a (identities s) \<Longrightarrow> audit_log (RecordNow a x t g m s) = audit_log s @
     [\<lparr>au_actor = Some a, au_action = x, au_target_type = t, au_target = g, au_meta = m\<rparr>]"
  by (simp add: RecordNow_def audit_Record_ok)

lemma UpsertDevice_frame:
  "UpsertDevice c i fp s = (out, s') \<Longrightarrow> identities s' = identities s \<and> totps s' = totps s \<and> challenges s' = challenges s
     \<and> sessions s' = sessions s \<and> audit_log s' = audit_log s"
  by (auto simp: UpsertDevice_def split: option.splits if_splits)

lemma session_insert_cases:
  assumes "session_insert c i d h mfa s = (out, s')"
  obtains (refused) e where "out = Inl e" and "s' = s"
    | (created) r where "out = Inr (session.truncate r)" and "s' = s\<lparr>sessions := sessions s @ [r]\<rparr>"
      and "r = \<lparr>ss_id = gen c 24, ss_identity = i, ss_device = Some d, ss_mfa = mfa, ss_step_up = None,
                ss_created = now c, ss_expires = now c + auth_sessionTTL, ss_hash = h, ss_revoked = None\<rparr>"
      and "\<not> key_taken ss_id (ss_id r) (sessions s)" and "\<not> key_taken ss_hash (ss_hash r) (sessions s)"
  using assms unfolding session_insert_def Let_def by (auto split: if_split_asm)

lemma Login_tables:
  assumes "Login cr c b email pw fp s = (out, s')"
  shows "identities s' = identities s \<and> totps s' = totps s \<and> challenges s' = challenges s
    \<and> (sessions s' = sessions s \<or> (\<exists>r. sessions s' = sessions s @ [r] \<and> \<not> key_taken ss_id (ss_id r) (sessions s)))"
  using assms unfolding Login_def Let_def
  by (auto split: sum.splits prod.splits if_split_asm dest!: UpsertDevice_frame elim!: session_insert_cases)

subsection \<open>The steps of the package\<close>

inductive auth_step :: "'z auth_db_scheme \<Rightarrow> 'z auth_db_scheme \<Rightarrow> bool" where
  as_login: "Login cr c b email pw fp s = (o1, s') \<Longrightarrow> auth_step s s'"
| as_verify: "VerifyTOTP cr c i code s = (o2, s') \<Longrightarrow> auth_step s s'"
| as_step_up: "StepUp cr c i code s = (o2, s') \<Longrightarrow> auth_step s s'"
| as_logout: "Logout c i s = (o2, s') \<Longrightarrow> auth_step s s'"
| as_enroll: "EnrollTOTP cr raw nonce i s = (o3, s') \<Longrightarrow> auth_step s s'"
| as_confirm: "ConfirmTOTP cr c i code s = (o2, s') \<Longrightarrow> auth_step s s'"
| as_send: "notifier_Send c bytes i ch s = (o4, s') \<Longrightarrow> auth_step s s'"
| as_challenge: "VerifyChallenge c i code s = (o2, s') \<Longrightarrow> auth_step s s'"
| as_device: "UpsertDevice c i fp s = (o5, s') \<Longrightarrow> auth_step s s'"
| as_trust: "TrustDevice i s = (o2, s') \<Longrightarrow> auth_step s s'"

inductive_cases auth_stepE: "auth_step s s'"

text \<open>A row of a table stays, under its key, and what a predicate says of it stays true.\<close>

definition row_kept :: "('r \<Rightarrow> 'k) \<Rightarrow> ('r \<Rightarrow> bool) \<Rightarrow> 'k \<Rightarrow> 'r list \<Rightarrow> bool" where
  "row_kept key P k rows \<longleftrightarrow> key_taken key k rows \<and> (\<forall>r\<in>set rows. key r = k \<longrightarrow> P r)"

lemma row_kept_append: "row_kept key P k rows \<Longrightarrow> \<not> key_taken key (key r) rows \<Longrightarrow> row_kept key P k (rows @ [r])"
  by (auto simp: row_kept_def)

lemma row_kept_update:
  assumes "row_kept key P k rows" and "\<And>r. key (f r) = key r" and "\<And>r. P r \<Longrightarrow> P (f r)"
  shows "row_kept key P k (update_row key' j f rows)"
proof -
  have "map key (update_row key' j f rows) = map key rows" using assms(2) by (simp add: update_row_def)
  note taken = key_taken_map [OF this]
  have "P x" if x: "x \<in> set (update_row key' j f rows)" "key x = k" for x
  proof -
    obtain r where r: "r \<in> set rows" "x = (if key' r = j then f r else r)" using x(1) unfolding set_update_row by blast
    have "key r = k" using x(2) assms(2) [of r] r(2) by (cases "key' r = j") simp_all
    then have "P r" using assms(1) r(1) by (simp add: row_kept_def)
    then show ?thesis using assms(3) r(2) by simp
  qed
  with assms(1) show ?thesis by (simp add: row_kept_def taken)
qed

definition session_over :: "uuid \<Rightarrow> int \<Rightarrow> 'z auth_db_scheme \<Rightarrow> bool" where
  "session_over i t s \<longleftrightarrow> row_kept ss_id (\<lambda>r. ss_revoked r \<noteq> None \<or> ss_expires r \<le> t) i (sessions s)"

definition challenge_over :: "uuid \<Rightarrow> int \<Rightarrow> 'z auth_db_scheme \<Rightarrow> bool" where
  "challenge_over i t s \<longleftrightarrow> row_kept mc_id (\<lambda>r. mc_consumed r \<noteq> None \<or> mc_expires r < t) i (challenges s)"

lemma session_over_step: "auth_step s s' \<Longrightarrow> session_over i t s \<Longrightarrow> session_over i t s'"
proof (induction rule: auth_step.induct)
  case (as_login cr c b email pw fp s o1 s')
  from Login_tables [OF as_login(1)] as_login(2) show ?case by (auto simp: session_over_def intro: row_kept_append)
next
  case (as_verify cr c j code s o2 s')
  then show ?case unfolding VerifyTOTP_def session_over_def
    by (auto split: sum.splits intro!: row_kept_update)
next
  case (as_step_up cr c j code s o2 s')
  then show ?case unfolding StepUp_def session_over_def
    by (auto split: sum.splits intro!: row_kept_update)
next
  case (as_logout c j s o2 s')
  then show ?case unfolding Logout_def session_over_def
    by (auto split: option.splits if_split_asm intro!: row_kept_update simp: revoke_session_def)
next
  case (as_enroll cr raw nonce j s o3 s')
  then show ?case unfolding EnrollTOTP_def session_over_def Let_def by (auto split: sum.splits if_split_asm)
next
  case (as_confirm cr c j code s o2 s')
  then show ?case unfolding ConfirmTOTP_def session_over_def by (auto split: sum.splits if_split_asm)
next
  case (as_send c bytes j ch s o4 s')
  then show ?case unfolding notifier_Send_def session_over_def Let_def by (auto split: if_split_asm)
next
  case (as_challenge c j code s o2 s')
  then show ?case unfolding VerifyChallenge_def session_over_def by (auto split: option.splits if_split_asm)
next
  case (as_device c j fp s o5 s')
  from UpsertDevice_frame [OF as_device(1)] as_device(2) show ?case by (simp add: session_over_def)
next
  case (as_trust j s o2 s')
  then show ?case unfolding TrustDevice_def session_over_def by (auto split: if_split_asm)
qed

lemma challenge_over_step: "auth_step s s' \<Longrightarrow> challenge_over i t s \<Longrightarrow> challenge_over i t s'"
proof (induction rule: auth_step.induct)
  case (as_login cr c b email pw fp s o1 s')
  from Login_tables [OF as_login(1)] as_login(2) show ?case by (simp add: challenge_over_def)
next
  case (as_verify cr c j code s o2 s')
  then show ?case unfolding VerifyTOTP_def challenge_over_def by (auto split: sum.splits)
next
  case (as_step_up cr c j code s o2 s')
  then show ?case unfolding StepUp_def challenge_over_def by (auto split: sum.splits)
next
  case (as_logout c j s o2 s')
  then show ?case unfolding Logout_def challenge_over_def by (auto split: option.splits if_split_asm)
next
  case (as_enroll cr raw nonce j s o3 s')
  then show ?case unfolding EnrollTOTP_def challenge_over_def Let_def by (auto split: sum.splits if_split_asm)
next
  case (as_confirm cr c j code s o2 s')
  then show ?case unfolding ConfirmTOTP_def challenge_over_def by (auto split: sum.splits if_split_asm)
next
  case (as_send c bytes j ch s o4 s')
  then show ?case unfolding notifier_Send_def challenge_over_def Let_def
    by (auto split: if_split_asm intro!: row_kept_append)
next
  case (as_challenge c j code s o2 s')
  then show ?case unfolding VerifyChallenge_def challenge_over_def
    by (auto split: option.splits if_split_asm intro!: row_kept_update)
next
  case (as_device c j fp s o5 s')
  from UpsertDevice_frame [OF as_device(1)] as_device(2) show ?case by (simp add: challenge_over_def)
next
  case (as_trust j s o2 s')
  then show ?case unfolding TrustDevice_def challenge_over_def by (auto split: if_split_asm)
qed

lemma over_steps:
  "auth_step\<^sup>*\<^sup>* s s' \<Longrightarrow> session_over i t s \<Longrightarrow> session_over i t s'"
  "auth_step\<^sup>*\<^sup>* s s' \<Longrightarrow> challenge_over i t s \<Longrightarrow> challenge_over i t s'"
  by (induction rule: rtranclp_induct) (auto intro: session_over_step challenge_over_step)

lemma session_over_refused:
  "session_over i t s \<Longrightarrow> t \<le> now c \<Longrightarrow> ValidateSessionToken c tok s = Inr sess \<Longrightarrow> ss_id sess \<noteq> i"
  by (auto simp: session_over_def row_kept_def ValidateSessionToken_def getSessionByHash_def live_session_def session.defs
      split: option.splits if_split_asm dest!: find_row_Some)

lemma challenge_over_refused:
  assumes "challenge_over i t s" and "t \<le> now c"
  shows "VerifyChallenge c i code s = (Inl ErrInvalidCode, s)"
proof -
  obtain r where r: "find_row mc_id i (challenges s) = Some r"
    using assms(1) key_taken_find by (fastforce simp: challenge_over_def row_kept_def)
  with assms find_row_Some [OF r] show ?thesis by (auto simp: VerifyChallenge_def challenge_over_def row_kept_def)
qed

subsection \<open>Properties\<close>

lemma find_row_by_id: "distinct (map id_id rows) \<Longrightarrow> find_row id_email e rows = Some i \<Longrightarrow> find_row id_id (id_id i) rows = Some i"
  using find_row_Some [of id_email e rows i] by (simp add: find_row_distinct)

lemma UpsertDevice_ok:
  assumes "key_taken id_id i (identities s)" and "\<not> key_taken dv_id (gen c 22) (devices s)"
  obtains d new s1 where "UpsertDevice c i fp s = (Inr (d, new), s1)" and "\<exists>r\<in>set (devices s1). dv_key r = (i, fp) \<and> dv_id r = d"
proof (cases "find_row dv_key (i, fp) (devices s)")
  case (Some r)
  let ?f = "\<lambda>r. r\<lparr>dv_last := now c\<rparr>"
  have "?f r \<in> set (update_row dv_key (i, fp) ?f (devices s))"
    using find_row_Some [OF Some] by (auto simp: set_update_row intro!: image_eqI [of _ _ r])
  with Some find_row_key [OF Some] show thesis
    by (intro that [of "dv_id r" False "s\<lparr>devices := update_row dv_key (i, fp) ?f (devices s)\<rparr>"])
      (auto simp: UpsertDevice_def dv_key_def intro!: bexI [of _ "?f r"])
next
  case None
  with assms show thesis by (intro that) (auto simp: UpsertDevice_def dv_key_def)
qed


text \<open>
  C33. A session that has ended stays ended.  After a logout, or once its twenty-four hours are over, no token is ever
  accepted for it again, whatever logins, verifications, enrolments, logouts and challenges follow; and a logout
  leaves every other session as it was.
\<close>

theorem session_ends:
  assumes over: "Logout c i s = (Inr (), s1)
      \<or> s1 = s \<and> (\<forall>r\<in>set (sessions s). ss_id r = i \<longrightarrow> ss_expires r \<le> now c) \<and> key_taken ss_id i (sessions s)"
    and later: "auth_step\<^sup>*\<^sup>* s1 s2" "now c \<le> now c'"
  shows "(\<forall>tok sess. ValidateSessionToken c' tok s2 = Inr sess \<longrightarrow> ss_id sess \<noteq> i)
    \<and> (\<forall>c'' tok sess. ValidateSessionToken c'' tok s = Inr sess \<and> ss_id sess \<noteq> i \<longrightarrow> ValidateSessionToken c'' tok s1 = Inr sess)"
proof -
  have gone: "session_over i (now c) s1 \<and> (s1 = s \<or> s1 = s\<lparr>sessions := update_row ss_id i (revoke_session (now c)) (sessions s)\<rparr>)"
    using over
  proof
    assume "Logout c i s = (Inr (), s1)"
    then have s1: "s1 = s\<lparr>sessions := update_row ss_id i (revoke_session (now c)) (sessions s)\<rparr>"
      and "key_taken ss_id i (sessions s)"
      by (auto simp: Logout_def split: option.splits if_split_asm dest: find_row_taken)
    then have "row_kept ss_id (\<lambda>r. True) i (sessions s)" by (simp add: row_kept_def)
    moreover have "ss_revoked x \<noteq> None" if x: "x \<in> set (update_row ss_id i (revoke_session (now c)) (sessions s))" "ss_id x = i" for x
    proof -
      obtain r where "r \<in> set (sessions s)" "x = (if ss_id r = i then revoke_session (now c) r else r)"
        using x(1) unfolding set_update_row by blast
      with x(2) show ?thesis by (cases "ss_id r = i") (simp_all add: revoke_session_def)
    qed
    ultimately show ?thesis
      by (auto simp: s1 session_over_def row_kept_def key_taken_map [OF session_bearer.revoke_keys(1)])
  qed (auto simp: session_over_def row_kept_def)
  have "session_over i (now c) s2" using over_steps(1) [OF later(1)] gone by blast
  with later(2) session_over_refused have "\<forall>tok sess. ValidateSessionToken c' tok s2 = Inr sess \<longrightarrow> ss_id sess \<noteq> i" by blast
  moreover have "ValidateSessionToken c'' tok s1 = Inr sess"
    if acc: "ValidateSessionToken c'' tok s = Inr sess" "ss_id sess \<noteq> i" for c'' tok sess
  proof -
    obtain r where r: "find_row ss_hash (hashToken c'' tok) (sessions s) = Some r" "live_session c'' r" "sess = session.truncate r"
      using acc(1) by (auto simp: ValidateSessionToken_def getSessionByHash_def split: option.splits if_split_asm)
    have "ss_id r \<noteq> i" using acc(2) r(3) by (simp add: session.defs)
    note kept = session_bearer.others_kept [OF r(1) this]
    show ?thesis
      using gone
    proof (elim conjE disjE)
      assume "s1 = s" then show ?thesis using acc by simp
    next
      assume "s1 = s\<lparr>sessions := update_row ss_id i (revoke_session (now c)) (sessions s)\<rparr>"
      with r kept show ?thesis by (simp add: ValidateSessionToken_def getSessionByHash_def)
    qed
  qed
  ultimately show ?thesis by blast
qed

text \<open>
  A challenge is good for one use within five minutes.  The code that was sent is accepted up to the minute it
  expires and refused after; a code that hashes differently is refused; and once accepted, no code is accepted for the
  challenge again, whatever happens in between.
\<close>

theorem challenge_once:
  assumes sent: "notifier_Send c bytes i ch s = (Inr k, s1)"
  shows "\<exists>code. PeekCode k s1 = Some code \<and> code = mfa_randomDigits bytes
    \<and> (\<forall>t x. VerifyChallenge (c\<lparr>now := t\<rparr>) k x s1 =
         (if t \<le> now c + 300000000 \<and> sha256 c x = sha256 c code
          then (Inr (), s1\<lparr>challenges := update_row mc_id k (\<lambda>r. r\<lparr>mc_consumed := Some t\<rparr>) (challenges s1)\<rparr>)
          else (Inl ErrInvalidCode, s1)))
    \<and> (\<forall>c1 x1 s2 s3 c2 x2. VerifyChallenge c1 k x1 s1 = (Inr (), s2) \<longrightarrow> auth_step\<^sup>*\<^sup>* s2 s3 \<longrightarrow>
         VerifyChallenge c2 k x2 s3 = (Inl ErrInvalidCode, s3))"
proof -
  let ?row = "\<lparr>mc_id = k, mc_identity = i, mc_channel = ch, mc_hash = sha256 c (mfa_randomDigits bytes),
      mc_expires = now c + 300000000, mc_consumed = None\<rparr>"
  have k: "k = gen c 23" "\<not> key_taken mc_id k (challenges s)"
    and s1: "challenges s1 = challenges s @ [?row]" "sent_codes s1 k = Some (mfa_randomDigits bytes)"
    using sent by (auto simp: notifier_Send_def Let_def hashCode_def challengeTTL_def minute_def second_def split: if_split_asm)
  then have found: "find_row mc_id k (challenges s1) = Some ?row"
    using find_row_None [of mc_id k "challenges s"] by (simp add: find_row_append find_row_Cons)
  have "VerifyChallenge (c\<lparr>now := t\<rparr>) k x s1 =
         (if t \<le> now c + 300000000 \<and> sha256 c x = sha256 c (mfa_randomDigits bytes)
          then (Inr (), s1\<lparr>challenges := update_row mc_id k (\<lambda>r. r\<lparr>mc_consumed := Some t\<rparr>) (challenges s1)\<rparr>)
          else (Inl ErrInvalidCode, s1))" for t x
    using found by (auto simp: VerifyChallenge_def hashCode_def)
  moreover have "VerifyChallenge c2 k x2 s3 = (Inl ErrInvalidCode, s3)"
    if used: "VerifyChallenge c1 k x1 s1 = (Inr (), s2)" and later: "auth_step\<^sup>*\<^sup>* s2 s3" for c1 x1 s2 s3 c2 x2
  proof -
    have s2: "s2 = s1\<lparr>challenges := update_row mc_id k (\<lambda>r. r\<lparr>mc_consumed := Some (now c1)\<rparr>) (challenges s1)\<rparr>"
      using used found by (auto simp: VerifyChallenge_def split: if_split_asm)
    then have rows: "challenges s2 = update_row mc_id k (\<lambda>r. r\<lparr>mc_consumed := Some (now c1)\<rparr>) (challenges s1)" by simp
    have "key_taken mc_id k (challenges s2)"
      using find_row_taken [OF found] by (simp add: s2 key_taken_def update_row_def o_def if_distrib [of mc_id] cong: if_cong)
    moreover have "mc_consumed x \<noteq> None" if x: "x \<in> set (challenges s2)" "mc_id x = k" for x
    proof -
      obtain r where "x = (if mc_id r = k then r\<lparr>mc_consumed := Some (now c1)\<rparr> else r)"
        using x(1) unfolding rows set_update_row by blast
      with x(2) show ?thesis by (cases "mc_id r = k") simp_all
    qed
    ultimately have "challenge_over k (now c2) s2" by (simp add: challenge_over_def row_kept_def)
    then show ?thesis using over_steps(2) [OF later] challenge_over_refused by blast
  qed
  ultimately show ?thesis using s1(2) by (intro exI [of _ "mfa_randomDigits bytes"]) (auto simp: PeekCode_def)
qed

subsection \<open>Enrolling a second factor\<close>

lemma fetch_sealed:
  assumes "keyBytes cr totpKeyName = Inr key" and "length nonce = 12"
    and "\<And>p. gcm_open cr key nonce (gcm_seal cr key nonce p) = Some p"
    and "find_row tp_identity i (totps s) = Some r" and "tp_secret r = nonce @ gcm_seal cr key nonce (ascii secret)"
  shows "fetchTOTPSecret cr i s = Inr secret"
  using assms by (simp add: fetchTOTPSecret_def Decrypt_def gcm_nonceSize_def)

lemma window_accepts:
  assumes "30 * second \<le> t" and "t + 30 * second \<le> max64" and "d \<in> {- 1, 0, 1 :: int}"
    and "GenerateTOTPCode cr secret (t + d * (30 * second)) = Inr code"
  shows "ValidateTOTPCode cr secret code t = Inr True"
proof -
  have s: "0 < second" by (simp add: second_def)
  have shift: "totp_counter (t + d * (30 * second)) = totp_counter t + word_of_int d"
    using assms(1-3) s by (intro counter_shift) auto
  have "[- totpWindow .. totpWindow] = [- 1, 0, 1]" by (simp add: totpWindow_def upto.simps)
  with assms(3,4) shift show ?thesis by (auto simp: ValidateTOTPCode_def GenerateTOTPCode_def split: option.splits)
qed

text \<open>
  C32. From enrolment to use.  With the key configured, enrolling returns a secret and leaves the factor unconfirmed;
  a code that the secret gives on a clock at most one step off then confirms it, and is accepted for the identity, so
  that the next login has to be verified.  Before the confirmation the code is accepted as well, and enrolling again
  needs no code: it switches a confirmed factor off.
\<close>

theorem enrolled_code_confirms:
  assumes key: "keyBytes cr totpKeyName = Inr key" and nonce: "length nonce = 12"
    and gcm: "\<And>p. gcm_open cr key nonce (gcm_seal cr key nonce p) = Some p"
    and i: "key_taken id_id i (identities s)"
    and t: "30 * second \<le> now c" "now c + 30 * second \<le> max64" and d: "d \<in> {- 1, 0, 1 :: int}"
  shows "\<exists>secret s1 code. EnrollTOTP cr raw nonce i s = (Inr secret, s1) \<and> \<not> HasConfirmedTOTP i s1
    \<and> GenerateTOTPCode cr secret (now c + d * (30 * second)) = Inr code
    \<and> VerifyTOTPCode cr c i code s1 = Inr ()
    \<and> (\<exists>s2. ConfirmTOTP cr c i code s1 = (Inr (), s2) \<and> HasConfirmedTOTP i s2 \<and> VerifyTOTPCode cr c i code s2 = Inr ())"
proof -
  let ?secret = "b32_encode raw" and ?sealed = "nonce @ gcm_seal cr key nonce (ascii (b32_encode raw))"
  let ?f = "\<lambda>r. r\<lparr>tp_secret := ?sealed, tp_confirmed := False\<rparr>" and ?g = "\<lambda>r. r\<lparr>tp_confirmed := True\<rparr>"
  have fu: "row_update tp_identity ?f" "row_update tp_identity ?g" by (auto intro!: row_update.intro)
  have seal: "Encrypt cr nonce totpKeyName (ascii ?secret) = Inr ?sealed" using key by (simp add: Encrypt_def)
  have "\<exists>s1 r. EnrollTOTP cr raw nonce i s = (Inr ?secret, s1) \<and> find_row tp_identity i (totps s1) = Some r
      \<and> tp_secret r = ?sealed \<and> \<not> tp_confirmed r"
  proof (cases "find_row tp_identity i (totps s)")
    case (Some r)
    then have "EnrollTOTP cr raw nonce i s = (Inr ?secret, s\<lparr>totps := update_row tp_identity i ?f (totps s)\<rparr>)"
      using find_row_taken [OF Some] by (simp add: EnrollTOTP_def GenerateTOTPSecret_def seal Let_def)
    with row_update.find_same [OF fu(1) Some] show ?thesis by (intro exI [of _ "?f r"] exI [of _ "s\<lparr>totps := update_row tp_identity i ?f (totps s)\<rparr>"]) simp
  next
    case None
    let ?r = "\<lparr>tp_identity = i, tp_secret = ?sealed, tp_confirmed = False\<rparr>"
    have "EnrollTOTP cr raw nonce i s = (Inr ?secret, s\<lparr>totps := totps s @ [?r]\<rparr>)"
      using None i by (simp add: EnrollTOTP_def GenerateTOTPSecret_def seal find_row_None Let_def)
    with None show ?thesis by (intro exI [of _ ?r] exI [of _ "s\<lparr>totps := totps s @ [?r]\<rparr>"]) (simp add: find_row_append find_row_Cons)
  qed
  then obtain s1 r where enroll: "EnrollTOTP cr raw nonce i s = (Inr ?secret, s1)"
    and r: "find_row tp_identity i (totps s1) = Some r" "tp_secret r = ?sealed" "\<not> tp_confirmed r" by blast
  have gen: "\<exists>code. GenerateTOTPCode cr ?secret (now c + d * (30 * second)) = Inr code"
    by (simp add: GenerateTOTPCode_def b32_roundtrip)
  then obtain code where code: "GenerateTOTPCode cr ?secret (now c + d * (30 * second)) = Inr code" by blast
  have valid: "ValidateTOTPCode cr ?secret code (now c) = Inr True" by (rule window_accepts [OF t d code])
  have fetch: "fetchTOTPSecret cr i s1 = Inr ?secret" by (rule fetch_sealed [OF key nonce gcm r(1,2)])
  let ?s2 = "s1\<lparr>totps := update_row tp_identity i ?g (totps s1)\<rparr>"
  have found: "find_row tp_identity i (totps ?s2) = Some (?g r)" using row_update.find_same [OF fu(2) r(1)] by simp
  have fetch2: "fetchTOTPSecret cr i ?s2 = Inr ?secret"
    by (rule fetch_sealed [OF key nonce gcm found]) (simp add: r(2))
  have "ConfirmTOTP cr c i code s1 = (Inr (), ?s2)" by (simp add: ConfirmTOTP_def fetch valid)
  moreover have "HasConfirmedTOTP i ?s2" unfolding HasConfirmedTOTP_def found by simp
  moreover have "\<not> HasConfirmedTOTP i s1" using r by (simp add: HasConfirmedTOTP_def)
  moreover have "VerifyTOTPCode cr c i code s1 = Inr ()" "VerifyTOTPCode cr c i code ?s2 = Inr ()"
    by (simp_all add: VerifyTOTPCode_def fetch fetch2 valid)
  ultimately show ?thesis using enroll code by blast
qed

subsection \<open>Witnesses\<close>

definition auth_call :: "int \<Rightarrow> string \<Rightarrow> ctx" where
  "auth_call t i = \<lparr>now = t, gen = (\<lambda>_. i), sha256 = (\<lambda>x. x)\<rparr>"

text \<open>The customer \<open>I\<close>, whose password is not known: the encoded hash is empty.\<close>

definition auth_seed :: "string \<Rightarrow> auth_db" where
  "auth_seed encoded = \<lparr>identities = [\<lparr>id_id = ''I'', id_kind = KindIndividual, id_stat = IdActive, id_tier = 1, id_email = ''i@kolo.ng'',
     id_phone = None, id_password_hash = encoded, id_legal_name = ''I'', id_role = RoleCustomer\<rparr>],
     beneficial_owners = [], kyc_checks = [], audit_log = [], devices = [], totps = [], challenges = [], sessions = [],
     sent_codes = (\<lambda>_. None)\<rparr>"

definition toy_hash :: string where
  "toy_hash = encoded_hash (replicate 16 7) (ascii ''secret'' @ replicate 26 0)"

lemma toy_hash: "VerifyPassword toy_crypto ''secret'' toy_hash = Inr ()"
  unfolding toy_hash_def
  by (subst VerifyPassword_encoded) (simp_all add: ascii_def toy_crypto_def)


definition auth_open :: auth_db where
  "auth_open = auth_seed []\<lparr>sessions := [\<lparr>ss_id = ''s'', ss_identity = ''I'', ss_device = None, ss_mfa = True, ss_step_up = None,
     ss_created = 0, ss_expires = 86400000000, ss_hash = ''01'', ss_revoked = None\<rparr>]\<rparr>"

text \<open>A logout, and a challenge sent afterwards.\<close>

theorem session_ends_witness:
  "\<exists>s1 s2. (\<exists>sess. ValidateSessionToken (auth_call 7 ''x'') ''01'' auth_open = Inr sess \<and> ss_id sess = ''s'')
     \<and> Logout (auth_call 7 ''x'') ''s'' auth_open = (Inr (), s1)
     \<and> notifier_Send (auth_call 8 ''x'') [1] ''I'' ChannelSMS s1 = (Inr ''x'', s2)
     \<and> \<not> (\<exists>sess. ValidateSessionToken (auth_call 9 ''x'') ''01'' s2 = Inr sess \<and> ss_id sess = ''s'')"
proof -
  let ?s1 = "snd (Logout (auth_call 7 ''x'') ''s'' auth_open)"
  let ?s2 = "snd (notifier_Send (auth_call 8 ''x'') [1] ''I'' ChannelSMS ?s1)"
  have out: "Logout (auth_call 7 ''x'') ''s'' auth_open = (Inr (), ?s1)"
    by (simp add: Logout_def auth_open_def find_row_Cons)
  have sent: "notifier_Send (auth_call 8 ''x'') [1] ''I'' ChannelSMS ?s1 = (Inr ''x'', ?s2)"
    by (simp add: notifier_Send_def Let_def Logout_def auth_open_def auth_seed_def find_row_Cons key_taken_def auth_call_def)
  then have "auth_step\<^sup>*\<^sup>* ?s1 ?s2" by (blast intro: as_send)
  moreover have "now (auth_call 7 ''x'') \<le> now (auth_call 9 ''x'')" by (simp add: auth_call_def)
  ultimately have "\<not> (\<exists>sess. ValidateSessionToken (auth_call 9 ''x'') ''01'' ?s2 = Inr sess \<and> ss_id sess = ''s'')"
    using session_ends [OF disjI1 [OF out]] by blast
  moreover have "\<exists>sess. ValidateSessionToken (auth_call 7 ''x'') ''01'' auth_open = Inr sess \<and> ss_id sess = ''s''"
    by (simp add: ValidateSessionToken_def getSessionByHash_def hashToken_def auth_call_def auth_open_def find_row_Cons
        live_session_def session.defs)
  ultimately show ?thesis using out sent by blast
qed

theorem challenge_once_witness:
  "\<exists>s1 s2. notifier_Send (auth_call 0 ''x'') [1, 12] ''I'' ChannelPush (auth_seed []) = (Inr ''x'', s1)
     \<and> VerifyChallenge (auth_call 300000000 ''x'') ''x'' ''12'' s1 = (Inr (), s2)
     \<and> VerifyChallenge (auth_call 300000000 ''x'') ''x'' ''12'' s2 = (Inl ErrInvalidCode, s2)
     \<and> VerifyChallenge (auth_call 300000001 ''x'') ''x'' ''12'' s1 = (Inl ErrInvalidCode, s1)"
proof -
  let ?s1 = "snd (notifier_Send (auth_call 0 ''x'') [1, 12] ''I'' ChannelPush (auth_seed []))"
  have sent: "notifier_Send (auth_call 0 ''x'') [1, 12] ''I'' ChannelPush (auth_seed []) = (Inr ''x'', ?s1)"
    by (simp add: notifier_Send_def Let_def auth_seed_def key_taken_def auth_call_def)
  have code: "mfa_randomDigits [1, 12] = ''12''" by code_simp
  have call: "auth_call t ''x'' = auth_call 0 ''x''\<lparr>now := t\<rparr>" and now0: "now (auth_call 0 ''x'') = 0" for t by (simp_all add: auth_call_def)
  note once = challenge_once [OF sent]
  obtain s2 where "VerifyChallenge (auth_call 300000000 ''x'') ''x'' ''12'' ?s1 = (Inr (), s2)"
    "VerifyChallenge (auth_call 300000001 ''x'') ''x'' ''12'' ?s1 = (Inl ErrInvalidCode, ?s1)"
    using once by (auto simp: code call [of 300000000] call [of 300000001] now0)
  moreover from this(1) have "VerifyChallenge (auth_call 300000000 ''x'') ''x'' ''12'' s2 = (Inl ErrInvalidCode, s2)"
    using once by blast
  ultimately show ?thesis using sent by blast
qed

theorem enrolled_code_confirms_witness:
  "\<exists>secret s1 code s2. EnrollTOTP toy_crypto [1, 2] (replicate 12 9) ''I'' (auth_seed []) = (Inr secret, s1)
     \<and> GenerateTOTPCode toy_crypto secret 90000000 = Inr code
     \<and> ConfirmTOTP toy_crypto (auth_call 60000000 ''x'') ''I'' code s1 = (Inr (), s2) \<and> HasConfirmedTOTP ''I'' s2"
proof -
  have "isl (keyBytes toy_crypto totpKeyName) = False" by code_simp
  then obtain key where key: "keyBytes toy_crypto totpKeyName = Inr key" by (metis isl_def old.sum.exhaust)
  have gcm: "gcm_open toy_crypto key (replicate 12 9) (gcm_seal toy_crypto key (replicate 12 9) p) = Some p" for p by (simp add: toy_crypto_def)
  have i: "key_taken id_id ''I'' (identities (auth_seed []))" by (simp add: auth_seed_def key_taken_def)
  have t: "30 * second \<le> now (auth_call 60000000 ''x'')" "now (auth_call 60000000 ''x'') + 30 * second \<le> max64"
    "now (auth_call 60000000 ''x'') + 1 * (30 * second) = 90000000"
    by (simp_all add: auth_call_def second_def max64_def)
  show ?thesis
    using enrolled_code_confirms [OF key _ gcm i t(1,2), of 1 "[1, 2]"] unfolding t(3) by fastforce
qed

end
