(* ===== verification/Recovery.thy ===== *)
theory Recovery
  imports AuthProps
begin

section \<open>Account recovery\<close>

text \<open>
  \<open>internal/recovery/recovery.go\<close> and migration 00040.  The KYC provider is a parameter, as in onboarding.
  \<open>Complete\<close> is a read and three writes without a transaction; each is a definition of its own, and an
  error leaves what was written before it.
\<close>

datatype recovery_status = RecPending | RecRejected | RecWaitingPeriod | RecEligible | RecCompleted

definition trustedDeviceWindow :: int where "trustedDeviceWindow = 1 * minute"
definition unrecognizedDeviceWindow :: int where "unrecognizedDeviceWindow = 5 * minute"

record recovery_request =
  rq_id :: uuid
  rq_identity :: uuid
  rq_status :: recovery_status
  rq_eligible :: int
  rq_requested :: int
  rq_completed :: "int option"

record recovery_row = recovery_request +
  rq_fingerprint :: string
  rq_kyc :: "check_outcome list"

record recovery_db = auth_db +
  recoveries :: "recovery_row list"

definition isTrustedDevice :: "uuid \<Rightarrow> string \<Rightarrow> 'z auth_db_scheme \<Rightarrow> bool" where
  "isTrustedDevice identityID fingerprint s =
    (case find_row dv_key (identityID, fingerprint) (devices s) of None \<Rightarrow> False | Some d \<Rightarrow> dv_trusted d)"

text \<open>The result carries an error beside the request when the check failed.\<close>

definition Initiate :: "(applicant \<Rightarrow> gerror + check_outcome list) \<Rightarrow> ctx \<Rightarrow> string \<Rightarrow> string \<Rightarrow> string \<Rightarrow> string
    \<Rightarrow> 'z recovery_db_scheme \<Rightarrow> (gerror + recovery_request \<times> gerror option) \<times> 'z recovery_db_scheme" where
  "Initiate verify c email deviceFingerprint legalName addr s =
    (case GetByEmail email s of
       Inl e \<Rightarrow> (Inl e, s)
     | Inr i \<Rightarrow>
        (case verify \<lparr>legal_name = legalName, address = addr\<rparr> of
           Inl e \<Rightarrow> (Inl e, s)
         | Inr outcomes \<Rightarrow>
            (let status = (if list_ex (\<lambda>oc. o_result oc = ResultFail) outcomes then RecRejected else RecWaitingPeriod);
                 window = (if status \<noteq> RecRejected \<and> isTrustedDevice (id_id i) deviceFingerprint s
                           then trustedDeviceWindow else unrecognizedDeviceWindow);
                 row = \<lparr>rq_id = gen c 25, rq_identity = id_id i, rq_status = status, rq_eligible = now c + window,
                        rq_requested = now c, rq_completed = None, rq_fingerprint = deviceFingerprint, rq_kyc = outcomes\<rparr>
             in if key_taken rq_id (gen c 25) (recoveries s) then (Inl SqlUnique, s)
                else if \<not> key_taken id_id (id_id i) (identities s) then (Inl SqlForeignKey, s)
                else (Inr (recovery_request.truncate row, if status = RecRejected then Some ErrKYCFailed else None),
                      s\<lparr>recoveries := recoveries s @ [row]\<rparr>))))"

definition set_password :: "uuid \<Rightarrow> string \<Rightarrow> 'z recovery_db_scheme \<Rightarrow> 'z recovery_db_scheme" where
  "set_password identityID hash s =
    s\<lparr>identities := update_row id_id identityID (\<lambda>r. r\<lparr>id_password_hash := hash\<rparr>) (identities s)\<rparr>"

fun logout_each :: "ctx \<Rightarrow> uuid list \<Rightarrow> 'z auth_db_scheme \<Rightarrow> (gerror + unit) \<times> 'z auth_db_scheme" where
  "logout_each c [] s = (Inr (), s)"
| "logout_each c (i # is) s =
    (case Logout c i s of (Inl e, s1) \<Rightarrow> (Inl e, s1) | (Inr _, s1) \<Rightarrow> logout_each c is s1)"

definition active_sessions :: "uuid \<Rightarrow> 'z auth_db_scheme \<Rightarrow> uuid list" where
  "active_sessions identityID s = map ss_id (filter (\<lambda>r. ss_identity r = identityID \<and> ss_revoked r = None) (sessions s))"

definition revokeAllSessions :: "ctx \<Rightarrow> uuid \<Rightarrow> 'z auth_db_scheme \<Rightarrow> (gerror + unit) \<times> 'z auth_db_scheme" where
  "revokeAllSessions c identityID s = logout_each c (active_sessions identityID s) s"

definition recovery_check :: "ctx \<Rightarrow> uuid \<Rightarrow> 'z recovery_db_scheme \<Rightarrow> gerror + uuid" where
  "recovery_check c requestID s =
    (case find_row rq_id requestID (recoveries s) of
       None \<Rightarrow> Inl ErrNotEligible
     | Some r \<Rightarrow> if rq_status r \<noteq> RecWaitingPeriod \<or> now c < rq_eligible r then Inl ErrNotEligible else Inr (rq_identity r))"

definition recovery_mark :: "ctx \<Rightarrow> uuid \<Rightarrow> 'z recovery_db_scheme \<Rightarrow> (gerror + unit) \<times> 'z recovery_db_scheme" where
  "recovery_mark c requestID s =
    (case find_row rq_id requestID (recoveries s) of
       None \<Rightarrow> (Inl ErrNotEligible, s)
     | Some r \<Rightarrow>
        if rq_status r \<noteq> RecWaitingPeriod then (Inl ErrNotEligible, s)
        else (Inr (), s\<lparr>recoveries := update_row rq_id requestID
               (\<lambda>r. r\<lparr>rq_status := RecCompleted, rq_completed := Some (now c)\<rparr>) (recoveries s)\<rparr>))"

definition Complete :: "crypto \<Rightarrow> ctx \<Rightarrow> byte list \<Rightarrow> uuid \<Rightarrow> string \<Rightarrow> 'z recovery_db_scheme
    \<Rightarrow> (gerror + unit) \<times> 'z recovery_db_scheme" where
  "Complete cr c salt requestID newPassword s =
    (case recovery_check c requestID s of
       Inl e \<Rightarrow> (Inl e, s)
     | Inr identityID \<Rightarrow>
        (case HashPassword cr salt newPassword of
           Inl e \<Rightarrow> (Inl e, s)
         | Inr hash \<Rightarrow>
            (case revokeAllSessions c identityID (set_password identityID hash s) of
               (Inl e, s1) \<Rightarrow> (Inl e, s1)
             | (Inr _, s1) \<Rightarrow> recovery_mark c requestID s1)))"

definition recovery_Get :: "uuid \<Rightarrow> 'z recovery_db_scheme \<Rightarrow> gerror + recovery_request" where
  "recovery_Get requestID s =
    (case find_row rq_id requestID (recoveries s) of None \<Rightarrow> Inl ErrNoRows | Some r \<Rightarrow> Inr (recovery_request.truncate r))"

subsection \<open>Revoking every session\<close>

lemma find_row_map: "(\<And>r. key (g r) = key r) \<Longrightarrow> find_row key k (map g rows) = map_option g (find_row key k rows)"
  by (induction rows) (simp_all add: find_row_Cons)

lemma find_email_update:
  "(\<And>r. id_email (f r) = id_email r) \<Longrightarrow> find_row id_email e (update_row id_id x f rows) =
     map_option (\<lambda>r. if id_id r = x then f r else r) (find_row id_email e rows)"
  unfolding update_row_def by (rule find_row_map) simp

lemma logout_each_all:
  assumes "distinct is" and "\<And>j. j \<in> set is \<Longrightarrow> \<exists>r. find_row ss_id j (sessions s) = Some r \<and> ss_revoked r = None"
  shows "logout_each c is s =
    (Inr (), s\<lparr>sessions := map (\<lambda>r. if ss_id r \<in> set is then revoke_session (now c) r else r) (sessions s)\<rparr>)"
  using assms
proof (induction "is" arbitrary: s)
  case (Cons i "is")
  let ?s1 = "s\<lparr>sessions := update_row ss_id i (revoke_session (now c)) (sessions s)\<rparr>"
  have keeps: "row_update ss_id (revoke_session t)" for t by (rule row_update.intro) (simp add: revoke_session_def)
  obtain r where "find_row ss_id i (sessions s) = Some r" "ss_revoked r = None" using Cons.prems(2) [of i] by auto
  then have first: "Logout c i s = (Inr (), ?s1)" by (simp add: Logout_def)
  have "\<exists>r. find_row ss_id j (sessions ?s1) = Some r \<and> ss_revoked r = None" if "j \<in> set is" for j
  proof -
    have "j \<noteq> i" using that Cons.prems(1) by auto
    then show ?thesis using Cons.prems(2) [of j] that by (simp add: row_update.find_other [OF keeps])
  qed
  with Cons.IH [of ?s1] Cons.prems(1)
  have "logout_each c is ?s1 =
      (Inr (), ?s1\<lparr>sessions := map (\<lambda>r. if ss_id r \<in> set is then revoke_session (now c) r else r) (sessions ?s1)\<rparr>)" by simp
  moreover have "map (\<lambda>r. if ss_id r \<in> set is then revoke_session (now c) r else r) (update_row ss_id i (revoke_session (now c)) (sessions s))
      = map (\<lambda>r. if ss_id r \<in> set (i # is) then revoke_session (now c) r else r) (sessions s)"
    using Cons.prems(1) by (simp add: update_row_def revoke_session_def)
  ultimately show ?case by (simp add: first)
qed simp

lemma revokeAllSessions_all:
  assumes "distinct (map ss_id (sessions s))"
  shows "revokeAllSessions c i s = (Inr (), s\<lparr>sessions :=
    map (\<lambda>r. if ss_identity r = i \<and> ss_revoked r = None then revoke_session (now c) r else r) (sessions s)\<rparr>)"
proof -
  let ?P = "\<lambda>r. ss_identity r = i \<and> ss_revoked r = None"
  have mem: "ss_id r \<in> set (active_sessions i s) \<longleftrightarrow> ?P r" if "r \<in> set (sessions s)" for r
    using assms that by (auto simp: active_sessions_def distinct_map inj_on_def)
  have "logout_each c (active_sessions i s) s =
    (Inr (), s\<lparr>sessions := map (\<lambda>r. if ss_id r \<in> set (active_sessions i s) then revoke_session (now c) r else r) (sessions s)\<rparr>)"
  proof (rule logout_each_all)
    show "distinct (active_sessions i s)" using assms by (simp add: active_sessions_def distinct_map_filter)
    show "\<exists>r. find_row ss_id j (sessions s) = Some r \<and> ss_revoked r = None" if "j \<in> set (active_sessions i s)" for j
      using that assms by (auto simp: active_sessions_def find_row_distinct)
  qed
  also have "map (\<lambda>r. if ss_id r \<in> set (active_sessions i s) then revoke_session (now c) r else r) (sessions s)
      = map (\<lambda>r. if ?P r then revoke_session (now c) r else r) (sessions s)"
    by (rule map_cong [OF refl]) (simp add: mem)
  finally show ?thesis by (simp add: revokeAllSessions_def)
qed

lemma sessions_of_others:
  assumes "sessions s' = map (\<lambda>r. if ss_identity r = i \<and> ss_revoked r = None then revoke_session t r else r) (sessions s)"
  shows "ValidateSessionToken c tok s' = Inr sess \<Longrightarrow> ss_identity sess \<noteq> i"
    and "ValidateSessionToken c tok s = Inr sess \<Longrightarrow> ss_identity sess \<noteq> i \<Longrightarrow> ValidateSessionToken c tok s' = Inr sess"
proof -
  let ?g = "\<lambda>r. if ss_identity r = i \<and> ss_revoked r = None then revoke_session t r else r"
  have find: "find_row ss_hash h (sessions s') = map_option ?g (find_row ss_hash h (sessions s))" for h
    unfolding assms by (rule find_row_map) (simp add: revoke_session_def)
  show "ValidateSessionToken c tok s' = Inr sess \<Longrightarrow> ss_identity sess \<noteq> i"
    by (auto simp: ValidateSessionToken_def getSessionByHash_def find live_session_def revoke_session_def session.defs
        split: option.splits if_split_asm)
  show "ValidateSessionToken c tok s = Inr sess \<Longrightarrow> ss_identity sess \<noteq> i \<Longrightarrow> ValidateSessionToken c tok s' = Inr sess"
    by (auto simp: ValidateSessionToken_def getSessionByHash_def find session.defs split: option.splits if_split_asm)
qed

subsection \<open>Property\<close>

text \<open>
  C34. What a recovery does.  Whoever names the e-mail of an identity and any legal name and address that the KYC
  provider passes - they are compared with nothing that is known of the identity - can set its password five minutes
  later: \<open>Complete\<close> then succeeds, the new password is accepted, every session of the identity is refused from then on,
  other identities and their sessions are untouched, and the request cannot be completed again.  Before the first
  minute is over it is refused and changes nothing.
\<close>

theorem recovery_resets_password:
  assumes ids: "distinct (map id_id (identities s))" "distinct (map ss_id (sessions s))"
    and i: "find_row id_email email (identities s) = Some i"
    and kyc: "verify \<lparr>legal_name = legalName, address = addr\<rparr> = Inr outcomes" "\<forall>oc\<in>set outcomes. o_result oc \<noteq> ResultFail"
    and fresh: "\<not> key_taken rq_id (gen c 25) (recoveries s)"
    and argon: "argon2_IDKey cr (ascii newPassword) salt 2 19456 1 32 = Some hash" "length hash = 32"
    and t: "now c + 300000000 \<le> t"
  shows "\<exists>r s1 s2 i'. Initiate verify c email fp legalName addr s = (Inr (r, None), s1)
    \<and> (\<forall>u pw. u < now c + 60000000 \<longrightarrow> Complete cr (c\<lparr>now := u\<rparr>) salt (rq_id r) pw s1 = (Inl ErrNotEligible, s1))
    \<and> Complete cr (c\<lparr>now := t\<rparr>) salt (rq_id r) newPassword s1 = (Inr (), s2)
    \<and> find_row id_email email (identities s2) = Some i' \<and> id_id i' = id_id i \<and> VerifyPassword cr newPassword (id_password_hash i') = Inr ()
    \<and> (\<forall>x. x \<noteq> id_id i \<longrightarrow> find_row id_id x (identities s2) = find_row id_id x (identities s))
    \<and> (\<forall>c' tok sess. ValidateSessionToken c' tok s2 = Inr sess \<longrightarrow> ss_identity sess \<noteq> id_id i)
    \<and> (\<forall>c' tok sess. ValidateSessionToken c' tok s = Inr sess \<and> ss_identity sess \<noteq> id_id i \<longrightarrow> ValidateSessionToken c' tok s2 = Inr sess)
    \<and> (\<forall>c' salt' pw. Complete cr c' salt' (rq_id r) pw s2 = (Inl ErrNotEligible, s2))"
proof -
  let ?w = "if isTrustedDevice (id_id i) fp s then trustedDeviceWindow else unrecognizedDeviceWindow"
  let ?r = "\<lparr>rq_id = gen c 25, rq_identity = id_id i, rq_status = RecWaitingPeriod, rq_eligible = now c + ?w,
       rq_requested = now c, rq_completed = None, rq_fingerprint = fp, rq_kyc = outcomes\<rparr>"
  let ?s1 = "s\<lparr>recoveries := recoveries s @ [?r]\<rparr>"
  have w: "60000000 \<le> ?w" "?w \<le> 300000000"
    by (simp_all add: trustedDeviceWindow_def unrecognizedDeviceWindow_def minute_def second_def)
  have nofail: "\<not> list_ex (\<lambda>oc. o_result oc = ResultFail) outcomes" using kyc(2) by (simp add: list_ex_iff)
  have taken: "key_taken id_id (id_id i) (identities s)" using find_row_Some [OF i] by (auto simp: key_taken_def)
  have init: "Initiate verify c email fp legalName addr s = (Inr (recovery_request.truncate ?r, None), ?s1)"
    using i kyc(1) nofail fresh taken by (simp add: Initiate_def GetByEmail_def Let_def)
  have rid: "rq_id (recovery_request.truncate ?r) = gen c 25" by (simp add: recovery_request.defs)
  have found: "find_row rq_id (gen c 25) (recoveries ?s1) = Some ?r"
    using fresh by (simp add: find_row_append find_row_Cons find_row_None [symmetric])
  have early: "Complete cr (c\<lparr>now := u\<rparr>) salt (gen c 25) pw ?s1 = (Inl ErrNotEligible, ?s1)" if "u < now c + 60000000" for u pw
  proof -
    have "u < rq_eligible ?r" using that w(1) by simp
    then show ?thesis unfolding Complete_def recovery_check_def found by simp
  qed
  let ?e = "encoded_hash salt hash"
  let ?s2 = "set_password (id_id i) ?e ?s1"
  let ?ss = "map (\<lambda>r. if ss_identity r = id_id i \<and> ss_revoked r = None then revoke_session t r else r) (sessions s)"
  let ?s3 = "?s2\<lparr>sessions := ?ss\<rparr>"
  let ?done = "\<lambda>r. r\<lparr>rq_status := RecCompleted, rq_completed := Some t\<rparr>"
  let ?s4 = "?s3\<lparr>recoveries := update_row rq_id (gen c 25) ?done (recoveries ?s1)\<rparr>"
  have late: "\<not> t < rq_eligible ?r" using t w(2) by simp
  have "recovery_check (c\<lparr>now := t\<rparr>) (gen c 25) ?s1 = Inr (id_id i)" unfolding recovery_check_def found using late by simp
  moreover have "HashPassword cr salt newPassword = Inr ?e" by (rule HashPassword_encoded [OF argon(1)])
  moreover have "revokeAllSessions (c\<lparr>now := t\<rparr>) (id_id i) ?s2 = (Inr (), ?s3)"
    using ids(2) by (subst revokeAllSessions_all) (simp_all add: set_password_def)
  moreover have "recovery_mark (c\<lparr>now := t\<rparr>) (gen c 25) ?s3 = (Inr (), ?s4)"
    using found by (simp add: recovery_mark_def set_password_def)
  ultimately have complete: "Complete cr (c\<lparr>now := t\<rparr>) salt (gen c 25) newPassword ?s1 = (Inr (), ?s4)"
    unfolding Complete_def by simp
  have idents: "identities ?s4 = update_row id_id (id_id i) (\<lambda>r. r\<lparr>id_password_hash := ?e\<rparr>) (identities s)"
    by (simp add: set_password_def)
  have mine: "find_row id_email email (identities ?s4) = Some (i\<lparr>id_password_hash := ?e\<rparr>)"
    unfolding idents by (subst find_email_update) (simp_all add: i)
  have pw: "row_update id_id (\<lambda>r. r\<lparr>id_password_hash := ?e\<rparr>)" by (rule row_update.intro) simp
  have others: "find_row id_id x (identities ?s4) = find_row id_id x (identities s)" if "x \<noteq> id_id i" for x
    unfolding idents using that by (rule row_update.find_other [OF pw])
  have again: "Complete cr c' salt' (gen c 25) pw ?s4 = (Inl ErrNotEligible, ?s4)" for c' salt' pw
  proof -
    have upd: "row_update rq_id ?done" by (rule row_update.intro) simp
    have "find_row rq_id (gen c 25) (recoveries ?s4) = Some (?done ?r)" using row_update.find_same [OF upd found] by simp
    then show ?thesis unfolding Complete_def recovery_check_def by simp
  qed
  have accepted: "VerifyPassword cr newPassword ?e = Inr ()" unfolding VerifyPassword_encoded [OF argon(2)] argon(1) by simp
  have "sessions ?s4 = ?ss" by simp
  note sess = sessions_of_others [OF this]
  show ?thesis
  proof (intro exI conjI allI impI)
    show "Initiate verify c email fp legalName addr s = (Inr (recovery_request.truncate ?r, None), ?s1)" by (rule init)
    show "Complete cr (c\<lparr>now := t\<rparr>) salt (rq_id (recovery_request.truncate ?r)) newPassword ?s1 = (Inr (), ?s4)"
      unfolding rid by (rule complete)
    show "find_row id_email email (identities ?s4) = Some (i\<lparr>id_password_hash := ?e\<rparr>)" by (rule mine)
    show "id_id (i\<lparr>id_password_hash := ?e\<rparr>) = id_id i" by simp
    show "VerifyPassword cr newPassword (id_password_hash (i\<lparr>id_password_hash := ?e\<rparr>)) = Inr ()" using accepted by simp
    show "Complete cr (c\<lparr>now := u\<rparr>) salt (rq_id (recovery_request.truncate ?r)) pw ?s1 = (Inl ErrNotEligible, ?s1)"
      if "u < now c + 60000000" for u pw unfolding rid using that by (rule early)
    show "find_row id_id x (identities ?s4) = find_row id_id x (identities s)" if "x \<noteq> id_id i" for x using that by (rule others)
    show "ss_identity se \<noteq> id_id i" if "ValidateSessionToken c' tok ?s4 = Inr se" for c' :: ctx and tok se using that by (rule sess(1))
    show "ValidateSessionToken c' tok ?s4 = Inr se"
      if "ValidateSessionToken c' tok s = Inr se \<and> ss_identity se \<noteq> id_id i" for c' :: ctx and tok se using that by (intro sess(2)) simp_all
    show "Complete cr c' salt' (rq_id (recovery_request.truncate ?r)) pw ?s4 = (Inl ErrNotEligible, ?s4)" for c' salt' pw
      unfolding rid by (rule again)
  qed
qed

definition recovery_seed :: recovery_db where
  "recovery_seed = auth_db.extend auth_open (recovery_db.fields [])"

text \<open>Somebody else's name recovers the account of \<open>I\<close>, who is logged in.\<close>

theorem recovery_resets_password_witness:
  "\<exists>r s1 s2. Initiate (\<lambda>a. Inr (stub_verify a)) (auth_call 0 ''q'') ''i@kolo.ng'' ''new phone'' ''Mallory'' ''nowhere'' recovery_seed = (Inr (r, None), s1)
     \<and> Complete toy_crypto (auth_call 300000000 ''q'') (replicate 16 7) (rq_id r) ''hacked'' s1 = (Inr (), s2)
     \<and> (\<exists>i. find_row id_email ''i@kolo.ng'' (identities s2) = Some i \<and> VerifyPassword toy_crypto ''hacked'' (id_password_hash i) = Inr ())
     \<and> \<not> (\<exists>sess. ValidateSessionToken (auth_call 300000001 ''q'') ''01'' s2 = Inr sess \<and> ss_identity sess = ''I'')"
proof -
  let ?i = "hd (identities (auth_seed []))"
  have seed: "identities recovery_seed = identities (auth_seed [])" "sessions recovery_seed = sessions auth_open" "recoveries recovery_seed = []"
    by (simp_all add: recovery_seed_def auth_open_def auth_seed_def auth_db.defs recovery_db.defs)
  have ids: "distinct (map id_id (identities recovery_seed))" "distinct (map ss_id (sessions recovery_seed))"
    and i: "find_row id_email ''i@kolo.ng'' (identities recovery_seed) = Some ?i" "id_id ?i = ''I''"
    and fresh: "\<not> key_taken rq_id (gen (auth_call 0 ''q'') 25) (recoveries recovery_seed)"
    unfolding seed by (simp_all add: auth_seed_def auth_open_def find_row_Cons key_taken_def)
  have kyc: "\<forall>oc\<in>set (stub_verify \<lparr>legal_name = ''Mallory'', address = ''nowhere''\<rparr>). o_result oc \<noteq> ResultFail" by code_simp
  have argon: "argon2_IDKey toy_crypto (ascii ''hacked'') (replicate 16 7) 2 19456 1 32 = Some (ascii ''hacked'' @ replicate 26 0)"
    "length (ascii ''hacked'' @ replicate 26 0) = 32" by (simp_all add: toy_crypto_def ascii_def)
  have call: "auth_call t ''q'' = auth_call 0 ''q''\<lparr>now := t\<rparr>" and t: "now (auth_call 0 ''q'') + 300000000 \<le> 300000000" for t
    by (simp_all add: auth_call_def)
  note rec = recovery_resets_password [OF ids i(1) _ kyc fresh argon t, where fp = "''new phone''"
        and verify = "\<lambda>a. Inr (stub_verify a)" and legalName = "''Mallory''" and addr = "''nowhere''", OF refl]
  obtain r s1 s2 i' where init: "Initiate (\<lambda>a. Inr (stub_verify a)) (auth_call 0 ''q'') ''i@kolo.ng'' ''new phone'' ''Mallory'' ''nowhere'' recovery_seed = (Inr (r, None), s1)"
    and complete: "Complete toy_crypto (auth_call 0 ''q''\<lparr>now := 300000000\<rparr>) (replicate 16 7) (rq_id r) ''hacked'' s1 = (Inr (), s2)"
    and mine: "find_row id_email ''i@kolo.ng'' (identities s2) = Some i'" "VerifyPassword toy_crypto ''hacked'' (id_password_hash i') = Inr ()"
    and over: "\<forall>c' tok sess. ValidateSessionToken c' tok s2 = Inr sess \<longrightarrow> ss_identity sess \<noteq> id_id ?i"
    using rec by (elim exE conjE) (rule that)
  have "\<not> (\<exists>sess. ValidateSessionToken (auth_call 300000001 ''q'') ''01'' s2 = Inr sess \<and> ss_identity sess = ''I'')"
    using over unfolding i(2) by blast
  with init complete mine show ?thesis unfolding call [of 300000000, symmetric] by blast
qed

end
