(* ===== verification/Bills.thy ===== *)
theory Bills
  imports ExternalLife ExternalClaims LedgerKeys Calendar
begin

section \<open>Bill payments\<close>

text \<open>
  \<open>internal/bills\<close> (bills.go, payment.go) and migrations 00019 to 00021.  A bill is paid by an outbound external
  transfer on the rail \<open>billpay\<close>, queued in transactions of its own before the bill is recorded; the record is a
  definition of its own, so that a crash in between can be stated.  The worker fires what is due and moves each
  row on by one interval, whatever became of the payment.
\<close>

definition invalidMarker :: string where "invalidMarker = ''INVALID''"

record biller =
  bl_id :: uuid
  bl_name :: string
  bl_category :: string
  bl_code :: string
  bl_active :: bool

record bill_payment =
  bp_id :: uuid
  bp_biller :: uuid
  bp_account :: uuid
  bp_reference :: string
  bp_amount :: money
  bp_key :: string
  bp_transfer :: uuid
  bp_created :: int

datatype recurring_status = RecurringActive | RecurringPaused | RecurringCancelled

record recurring_bill =
  rcb_id :: uuid
  rcb_biller :: uuid
  rcb_account :: uuid
  rcb_reference :: string
  rcb_amount :: money
  rcb_interval :: interval
  rcb_next :: int
  rcb_status :: recurring_status

record bill_db = ext_db +
  billers :: "biller list"
  bill_payments :: "bill_payment list"
  recurrings :: "recurring_bill list"

subsection \<open>bills.go\<close>

definition ValidateReference :: "uuid \<Rightarrow> string \<Rightarrow> 'z bill_db_scheme \<Rightarrow> gerror + bool \<times> string" where
  "ValidateReference billerID reference s =
    (case find_row bl_id billerID (billers s) of
       None \<Rightarrow> Inl ErrBillerNotFound
     | Some b \<Rightarrow>
        if \<not> bl_active b then Inl ErrBillerNotFound
        else if str_contains reference invalidMarker then Inr (False, [])
        else Inr (True, ''Customer '' @ reference))"

definition getBillerCode :: "uuid \<Rightarrow> 'z bill_db_scheme \<Rightarrow> gerror + string" where
  "getBillerCode billerID s =
    (case find_row bl_id billerID (billers s) of
       None \<Rightarrow> Inl ErrBillerNotFound
     | Some b \<Rightarrow> if bl_active b then Inr (bl_code b) else Inl ErrBillerNotFound)"

subsection \<open>payment.go\<close>

definition bills_getByIdempotencyKey :: "string \<Rightarrow> 'z bill_db_scheme \<Rightarrow> bill_payment option" where
  "bills_getByIdempotencyKey key s = find_row bp_key key (bill_payments s)"

definition bill_record :: "ctx \<Rightarrow> uuid \<Rightarrow> uuid \<Rightarrow> string \<Rightarrow> money \<Rightarrow> string \<Rightarrow> uuid \<Rightarrow> 'z bill_db_scheme
    \<Rightarrow> (gerror + bill_payment) \<times> 'z bill_db_scheme" where
  "bill_record c accountID billerID reference amount key etID s =
    (case char3 (currency amount) of
       Inl e \<Rightarrow> (Inl e, s)
     | Inr cur3 \<Rightarrow>
        if \<not> in64 (minor amount) then (Inl SqlRange, s)
        else if \<not> 0 < minor amount then (Inl SqlCheck, s)
        else (case find_row bp_key key (bill_payments s) of
                Some r \<Rightarrow> (Inr r, s)
              | None \<Rightarrow>
                 if key_taken bp_id (gen c 26) (bill_payments s) then (Inl SqlUnique, s)
                 else if \<not> key_taken bl_id billerID (billers s) \<or> \<not> key_taken a_id accountID (accounts s)
                       \<or> \<not> key_taken et_id etID (ext_transfers s) then (Inl SqlForeignKey, s)
                 else let r = \<lparr>bp_id = gen c 26, bp_biller = billerID, bp_account = accountID, bp_reference = reference,
                               bp_amount = \<lparr>minor = minor amount, currency = cur3\<rparr>, bp_key = key, bp_transfer = etID,
                               bp_created = now c\<rparr>
                      in (Inr r, s\<lparr>bill_payments := bill_payments s @ [r]\<rparr>)))"

definition PayBill :: "ctx \<Rightarrow> uuid \<Rightarrow> uuid \<Rightarrow> string \<Rightarrow> money \<Rightarrow> string \<Rightarrow> 'z bill_db_scheme
    \<Rightarrow> (gerror + bill_payment) \<times> 'z bill_db_scheme" where
  "PayBill c accountID billerID reference amount key s =
    (case bills_getByIdempotencyKey key s of
       Some existing \<Rightarrow> (Inr existing, s)
     | None \<Rightarrow>
        (case res_Check c [Feature ''bill_payment''] s of
           (Inl e, s1) \<Rightarrow> (Inl e, s1)
         | (Inr _, s1) \<Rightarrow>
            (case ValidateReference billerID reference s1 of
               Inl e \<Rightarrow> (Inl e, s1)
             | Inr (valid, name) \<Rightarrow>
                if \<not> valid then (Inl ErrInvalidReference, s1)
                else (case getBillerCode billerID s1 of
                        Inl e \<Rightarrow> (Inl e, s1)
                      | Inr code \<Rightarrow>
                         (case SendOutbound c accountID ''billpay'' (code @ '':'' @ reference) amount key s1 of
                            (Inl e, s2) \<Rightarrow> (Inl e, s2)
                          | (Inr et, s2) \<Rightarrow> bill_record c accountID billerID reference amount key (et_id et) s2)))))"

definition CreateRecurring :: "ctx \<Rightarrow> uuid \<Rightarrow> uuid \<Rightarrow> string \<Rightarrow> money \<Rightarrow> interval \<Rightarrow> int \<Rightarrow> 'z bill_db_scheme
    \<Rightarrow> (gerror + recurring_bill) \<times> 'z bill_db_scheme" where
  "CreateRecurring c accountID billerID reference amount iv firstRunAt s =
    (case char3 (currency amount) of
       Inl e \<Rightarrow> (Inl e, s)
     | Inr cur3 \<Rightarrow>
        if \<not> in64 (minor amount) then (Inl SqlRange, s)
        else if \<not> 0 < minor amount \<or> (case iv of IntervalOther t \<Rightarrow> True | _ \<Rightarrow> False) then (Inl SqlCheck, s)
        else if key_taken rcb_id (gen c 27) (recurrings s) then (Inl SqlUnique, s)
        else if \<not> key_taken bl_id billerID (billers s) \<or> \<not> key_taken a_id accountID (accounts s) then (Inl SqlForeignKey, s)
        else let r = \<lparr>rcb_id = gen c 27, rcb_biller = billerID, rcb_account = accountID, rcb_reference = reference,
                      rcb_amount = \<lparr>minor = minor amount, currency = cur3\<rparr>, rcb_interval = iv, rcb_next = firstRunAt,
                      rcb_status = RecurringActive\<rparr>
             in (Inr r, s\<lparr>recurrings := recurrings s @ [r]\<rparr>))"

fun bills_advance :: "int \<Rightarrow> interval \<Rightarrow> gerror + int" where
  "bills_advance t IntervalDaily = Inr (add_date t 0 0 1)"
| "bills_advance t IntervalWeekly = Inr (add_date t 0 0 7)"
| "bills_advance t IntervalMonthly = Inr (add_date t 0 1 0)"
| "bills_advance t (IntervalOther iv) = Inl ErrUnknownInterval"

definition due_bills :: "ctx \<Rightarrow> 'z bill_db_scheme \<Rightarrow> recurring_bill list" where
  "due_bills c s = take 100 (sort_key rcb_next (filter (\<lambda>r. rcb_status r = RecurringActive \<and> rcb_next r \<le> now c) (recurrings s)))"

definition bill_key :: "uuid \<Rightarrow> int \<Rightarrow> string" where
  "bill_key i t = ''recurring-bill:'' @ i @ '':'' @ dec_int (t div second)"

definition fire_bill :: "ctx \<Rightarrow> recurring_bill \<Rightarrow> 'z bill_db_scheme \<Rightarrow> 'z bill_db_scheme" where
  "fire_bill c r s =
    (let s1 = snd (PayBill c (rcb_account r) (rcb_biller r) (rcb_reference r) (rcb_amount r) (bill_key (rcb_id r) (rcb_next r)) s)
     in case bills_advance (rcb_next r) (rcb_interval r) of
          Inl e \<Rightarrow> s1
        | Inr next \<Rightarrow> s1\<lparr>recurrings := update_row rcb_id (rcb_id r) (\<lambda>x. x\<lparr>rcb_next := next\<rparr>) (recurrings s1)\<rparr>)"

fun fire_bills :: "(uuid \<Rightarrow> ctx) \<Rightarrow> recurring_bill list \<Rightarrow> 'z bill_db_scheme \<Rightarrow> 'z bill_db_scheme" where
  "fire_bills cs [] s = s"
| "fire_bills cs (r # rs) s = fire_bills cs rs (fire_bill (cs (rcb_id r)) r s)"

definition RunDueBills :: "ctx \<Rightarrow> (uuid \<Rightarrow> ctx) \<Rightarrow> 'z bill_db_scheme \<Rightarrow> 'z bill_db_scheme" where
  "RunDueBills c cs s = fire_bills cs (due_bills c s) s"

subsection \<open>Lemmas\<close>

lemma ext_send_outbound:
  assumes run: "ext_send c DirectionOutbound acc rn cp amt key None s = (Inr t, s2)"
    and new: "\<not> key_taken et_key key (ext_transfers s)"
  obtains k h where "s2 = s\<lparr>res_cache := k, holds := holds s @ [h], ext_transfers := ext_transfers s @ [t]\<rparr>"
    and "et_direction t = DirectionOutbound" and "et_account t = acc" and "et_counterparty t = cp" and "et_amount t = minor amt"
    and "et_status t = StatusPending" and "et_rail t = rn" and "et_key t = key" and "et_hold t = Some (h_id h)"
    and "h_account h = acc" and "h_amount h = minor amt" and "h_status h = HoldStatusActive" and "0 < minor amt"
    and "\<not> key_taken et_id (et_id t) (ext_transfers s)"
proof -
  obtain cr s1 where cr: "res_Check c [Feature ''external_payment'', Integration rn] s = (cr, s1)" by fastforce
  obtain k where s1: "s1 = s\<lparr>res_cache := k\<rparr>" using res_Check_cases cr by (metis snd_conv)
  have "ext_getByIdempotencyKey key s = None" using new by (simp add: ext_getByIdempotencyKey_def find_row_None)
  with run cr obtain hv s1' where place: "PlaceHold c acc amt s1 = (Inr hv, s1')"
    and ins: "ext_insert c DirectionOutbound acc rn cp amt key (Some (hv_id hv)) None s1' = (Inr t, s2)"
    by (auto simp: ext_send_def split: sum.splits prod.splits)
  define h where "h = \<lparr>h_id = gen c 1, h_account = acc, h_amount = minor amt, h_status = HoldStatusActive\<rparr>"
  from PlaceHold_result [OF place] have s1': "s1' = s1\<lparr>holds := holds s1 @ [h]\<rparr>" and "hv_id hv = gen c 1" "0 < minor amt"
    by (auto simp: h_def)
  then have h: "h_id h = hv_id hv" "h_account h = acc" "h_amount h = minor amt" "h_status h = HoldStatusActive" "0 < minor amt"
    by (simp_all add: h_def)
  have "s2 = s1'\<lparr>ext_transfers := ext_transfers s1' @ [t]\<rparr>" and t: "et_direction t = DirectionOutbound" "et_account t = acc"
    "et_counterparty t = cp" "et_amount t = minor amt" "et_status t = StatusPending" "et_rail t = rn" "et_key t = key"
    "et_hold t = Some (hv_id hv)" "\<not> key_taken et_id (et_id t) (ext_transfers s1')"
    using ins by (auto simp: ext_insert_def Let_def split: sum.splits if_splits)
  then show thesis using that [where k = k and h = h] h by (simp add: s1 s1')
qed

lemma bill_record_new:
  assumes "bill_record c acc b rf amt key et s = (Inr bp, s')" and "\<not> key_taken bp_key key (bill_payments s)"
  shows "s' = s\<lparr>bill_payments := bill_payments s @ [bp]\<rparr> \<and> bp_key bp = key \<and> bp_transfer bp = et \<and> bp_account bp = acc
    \<and> bp_biller bp = b \<and> bp_reference bp = rf \<and> minor (bp_amount bp) = minor amt"
  using assms by (auto simp: bill_record_def find_row_None [symmetric] Let_def split: sum.splits if_split_asm)

text \<open>A payment that succeeds under a key not used before, step by step.\<close>

lemma PayBill_cases:
  assumes run: "PayBill c acc b rf amt key s = (Inr bp, s')" and new: "\<not> key_taken bp_key key (bill_payments s)"
  obtains bl k t s2 where "find_row bl_id b (billers s) = Some bl" and "bl_active bl" and "\<not> sublist invalidMarker rf"
    and "ext_send c DirectionOutbound acc ''billpay'' (bl_code bl @ '':'' @ rf) amt key None (s\<lparr>res_cache := k\<rparr>) = (Inr t, s2)"
    and "bill_record c acc b rf amt key (et_id t) s2 = (Inr bp, s')"
proof -
  obtain cr s1 where cr: "res_Check c [Feature ''bill_payment''] s = (cr, s1)" by fastforce
  obtain k where s1: "s1 = s\<lparr>res_cache := k\<rparr>" using res_Check_cases cr by (metis snd_conv)
  have none: "bills_getByIdempotencyKey key s = None" using new by (simp add: bills_getByIdempotencyKey_def find_row_None)
  from run none cr obtain bl where bl: "find_row bl_id b (billers s1) = Some bl" "bl_active bl" "\<not> str_contains rf invalidMarker"
    by (auto simp: PayBill_def ValidateReference_def split: sum.splits option.splits if_split_asm)
  obtain et s2 where send: "ext_send c DirectionOutbound acc ''billpay'' (bl_code bl @ '':'' @ rf) amt key None s1 = (et, s2)" by fastforce
  from run none cr bl send obtain t where "et = Inr t" "bill_record c acc b rf amt key (et_id t) s2 = (Inr bp, s')"
    by (auto simp: PayBill_def ValidateReference_def getBillerCode_def SendOutbound_def split: sum.splits)
  with bl send show thesis by (intro that [of bl k t s2]) (simp_all add: s1 str_contains_sublist)
qed

text \<open>
  C35. A bill is paid once.  The first successful call under a key places one hold on the account and queues one
  outbound transfer of the amount over it, to the active biller's code with a reference that is valid, and records the
  bill over that transfer.  Every later call under the key, from any account and for any bill, returns that
  bill and changes nothing; and if the process died before the bill was recorded, the repeated call records it over
  the same transfer, without a second hold or transfer.
\<close>

theorem bill_paid_once:
  assumes run: "PayBill c acc b rf amt key s = (Inr bp, s')"
    and first: "\<not> key_taken bp_key key (bill_payments s)" "\<not> key_taken et_key key (ext_transfers s)"
  shows "\<exists>bl t h k. find_row bl_id b (billers s) = Some bl \<and> bl_active bl \<and> \<not> sublist ''INVALID'' rf \<and> 0 < minor amt
    \<and> s' = s\<lparr>res_cache := k, holds := holds s @ [h], ext_transfers := ext_transfers s @ [t], bill_payments := bill_payments s @ [bp]\<rparr>
    \<and> h_account h = acc \<and> h_amount h = minor amt \<and> h_status h = HoldStatusActive
    \<and> et_hold t = Some (h_id h) \<and> et_direction t = DirectionOutbound \<and> et_account t = acc \<and> et_amount t = minor amt
    \<and> et_rail t = ''billpay'' \<and> et_counterparty t = bl_code bl @ '':'' @ rf \<and> et_status t = StatusPending
    \<and> bp_transfer bp = et_id t \<and> bp_account bp = acc \<and> bp_biller bp = b \<and> minor (bp_amount bp) = minor amt
    \<and> (\<forall>c' acc' b' rf' amt'. PayBill c' acc' b' rf' amt' key s' = (Inr bp, s'))
    \<and> (\<forall>c' bp' s''. PayBill c' acc b rf amt key (s'\<lparr>bill_payments := bill_payments s\<rparr>) = (Inr bp', s'') \<longrightarrow>
         holds s'' = holds s' \<and> ext_transfers s'' = ext_transfers s' \<and> bp_transfer bp' = bp_transfer bp)"
proof -
  from run first(1) obtain bl k t s2 where bl: "find_row bl_id b (billers s) = Some bl" "bl_active bl" "\<not> sublist invalidMarker rf"
    and send: "ext_send c DirectionOutbound acc ''billpay'' (bl_code bl @ '':'' @ rf) amt key None (s\<lparr>res_cache := k\<rparr>) = (Inr t, s2)"
    and rec: "bill_record c acc b rf amt key (et_id t) s2 = (Inr bp, s')" by (rule PayBill_cases)
  have "\<not> key_taken et_key key (ext_transfers (s\<lparr>res_cache := k\<rparr>))" using first(2) by simp
  from ext_send_outbound [OF send this] obtain k' h where
    raw: "s2 = s\<lparr>res_cache := k\<rparr>\<lparr>res_cache := k', holds := holds (s\<lparr>res_cache := k\<rparr>) @ [h],
      ext_transfers := ext_transfers (s\<lparr>res_cache := k\<rparr>) @ [t]\<rparr>"
    and t: "et_direction t = DirectionOutbound" "et_account t = acc" "et_counterparty t = bl_code bl @ '':'' @ rf"
      "et_amount t = minor amt" "et_status t = StatusPending" "et_rail t = ''billpay''" "et_key t = key" "et_hold t = Some (h_id h)"
    and h: "h_account h = acc" "h_amount h = minor amt" "h_status h = HoldStatusActive" "0 < minor amt"
    by blast
  have s2: "s2 = s\<lparr>res_cache := k', holds := holds s @ [h], ext_transfers := ext_transfers s @ [t]\<rparr>" unfolding raw by simp
  have fresh: "\<not> key_taken bp_key key (bill_payments s2)" using first(1) by (simp add: s2)
  note new = bill_record_new [OF rec fresh]
  have s': "s' = s\<lparr>res_cache := k', holds := holds s @ [h], ext_transfers := ext_transfers s @ [t], bill_payments := bill_payments s @ [bp]\<rparr>"
    using new by (simp add: s2)
  have "bp_key bp = key" using new by simp
  then have found: "bills_getByIdempotencyKey key s' = Some bp"
    using first(1) by (simp add: bills_getByIdempotencyKey_def s' find_row_append find_row_Cons find_row_None [symmetric])
  have again: "holds s'' = holds s' \<and> ext_transfers s'' = ext_transfers s' \<and> bp_transfer bp' = bp_transfer bp"
    if retry: "PayBill c' acc b rf amt key (s'\<lparr>bill_payments := bill_payments s\<rparr>) = (Inr bp', s'')" for c' bp' s''
  proof -
    let ?s = "s'\<lparr>bill_payments := bill_payments s\<rparr>"
    have gone: "\<not> key_taken bp_key key (bill_payments ?s)" using first(1) by simp
    obtain bl' :: biller and k2 t' s3 where
      send': "ext_send c' DirectionOutbound acc ''billpay'' (bl_code bl' @ '':'' @ rf) amt key None (?s\<lparr>res_cache := k2\<rparr>) = (Inr t', s3)"
      and rec': "bill_record c' acc b rf amt key (et_id t') s3 = (Inr bp', s'')"
      by (rule PayBill_cases [OF retry gone]) (rule that, assumption+)
    have "ext_getByIdempotencyKey key (?s\<lparr>res_cache := k2\<rparr>) = Some t"
      using first(2) t(7) by (simp add: ext_getByIdempotencyKey_def s' find_row_append find_row_Cons find_row_None [symmetric])
    with send' have t': "t' = t" and s3: "s3 = ?s\<lparr>res_cache := k2\<rparr>" by (auto simp: ext_send_def)
    have "\<not> key_taken bp_key key (bill_payments s3)" using gone by (simp add: s3)
    from bill_record_new [OF rec' this] show ?thesis using new by (simp add: s3 t')
  qed
  have "PayBill c' acc' b' rf' amt' key s' = (Inr bp, s')" for c' acc' b' rf' amt' by (simp add: PayBill_def found)
  then show ?thesis using bl t h s' new again unfolding invalidMarker_def by blast
qed

subsection \<open>The worker\<close>

lemma PayBill_frame: "PayBill c acc b rf amt key s = (res, s') \<Longrightarrow> recurrings s' = recurrings s"
proof -
  assume run: "PayBill c acc b rf amt key s = (res, s')"
  obtain cr s1 where cr: "res_Check c [Feature ''bill_payment''] s = (cr, s1)" by fastforce
  obtain k where s1: "s1 = s\<lparr>res_cache := k\<rparr>" using res_Check_cases cr by (metis snd_conv)
  have send: "recurrings s3 = recurrings s2" if "SendOutbound c acc rn cp amt key s2 = (et, s3)" for rn cp et and s2 s3 :: "'a bill_db_scheme"
  proof -
    have "ext_step s2 s3" using that unfolding SendOutbound_def by (rule x_send)
    then have "ext_db.more s3 = ext_db.more s2" using ext_step_fixed by blast
    then show ?thesis by (cases s2; cases s3) simp
  qed
  have rec: "recurrings s3 = recurrings s2" if "bill_record c acc b rf amt key et s2 = (res', s3)" for et res' and s2 s3 :: "'a bill_db_scheme"
    using that by (auto simp: bill_record_def Let_def split: sum.splits option.splits if_split_asm)
  show ?thesis
    using run cr by (auto simp: PayBill_def s1 split: option.splits sum.splits prod.splits if_split_asm dest!: send rec)
qed

definition bill_advanced :: "recurring_bill \<Rightarrow> recurring_bill" where
  "bill_advanced r = (case bills_advance (rcb_next r) (rcb_interval r) of Inl e \<Rightarrow> r | Inr next \<Rightarrow> r\<lparr>rcb_next := next\<rparr>)"

lemma fire_bill_moves:
  assumes "r \<in> set (recurrings s)" and "distinct (map rcb_id (recurrings s))"
  shows "recurrings (fire_bill c r s) = map (\<lambda>x. if rcb_id x = rcb_id r then bill_advanced r else x) (recurrings s)"
proof -
  have same: "x = r" if "x \<in> set (recurrings s)" "rcb_id x = rcb_id r" for x
    using assms that by (auto simp: distinct_map inj_on_def)
  obtain res s1 where "PayBill c (rcb_account r) (rcb_biller r) (rcb_reference r) (rcb_amount r) (bill_key (rcb_id r) (rcb_next r)) s = (res, s1)" by fastforce
  note pay = this PayBill_frame [OF this]
  show ?thesis
  proof (cases "bills_advance (rcb_next r) (rcb_interval r)")
    case (Inl e)
    then show ?thesis using pay by (auto simp: fire_bill_def bill_advanced_def dest: same intro!: map_idI [symmetric])
  next
    case (Inr u)
    then show ?thesis using pay same by (auto simp: fire_bill_def bill_advanced_def update_row_def Let_def intro!: map_cong)
  qed
qed

lemma bill_advanced_id [simp]: "rcb_id (bill_advanced r) = rcb_id r"
  by (simp add: bill_advanced_def split: sum.split)

lemma fire_bills_move:
  assumes "set rs \<subseteq> set (recurrings s)" and "distinct (map rcb_id rs)" and "distinct (map rcb_id (recurrings s))"
  shows "recurrings (fire_bills cs rs s) = map (\<lambda>x. if x \<in> set rs then bill_advanced x else x) (recurrings s)"
  using assms
proof (induction rs arbitrary: s)
  case (Cons r rs)
  let ?s1 = "fire_bill (cs (rcb_id r)) r s"
  have inj: "x = y" if "x \<in> set (recurrings s)" "y \<in> set (recurrings s)" "rcb_id x = rcb_id y" for x y
    using Cons.prems(3) that by (auto simp: distinct_map inj_on_def)
  have one: "recurrings ?s1 = map (\<lambda>x. if rcb_id x = rcb_id r then bill_advanced r else x) (recurrings s)"
    using Cons.prems by (intro fire_bill_moves) simp_all
  have ids: "map rcb_id (recurrings ?s1) = map rcb_id (recurrings s)" unfolding one by simp
  have rest: "x \<in> set (recurrings ?s1)" if "x \<in> set rs" for x
  proof -
    have "x \<in> set (recurrings s)" using Cons.prems(1) that by auto
    moreover have "rcb_id x \<noteq> rcb_id r" using Cons.prems(2) imageI [OF that, of rcb_id] by auto
    ultimately
    show ?thesis unfolding one by force
  qed
  have "recurrings (fire_bills cs rs ?s1) = map (\<lambda>x. if x \<in> set rs then bill_advanced x else x) (recurrings ?s1)"
    using rest Cons.prems(2,3) ids by (intro Cons.IH) auto
  also have "\<dots> = map (\<lambda>x. if x \<in> set (r # rs) then bill_advanced x else x) (recurrings s)"
    unfolding one map_map
  proof (rule map_cong [OF refl])
    fix x assume x: "x \<in> set (recurrings s)"
    have r: "r \<in> set (recurrings s)" using Cons.prems(1) by simp
    show "((\<lambda>x. if x \<in> set rs then bill_advanced x else x) \<circ> (\<lambda>x. if rcb_id x = rcb_id r then bill_advanced r else x)) x
        = (if x \<in> set (r # rs) then bill_advanced x else x)"
    proof (cases "x = r")
      case True
      have "bill_advanced r \<notin> set rs" using Cons.prems(2) by (metis bill_advanced_id distinct.simps(2) image_eqI list.simps(9) set_map)
      with True show ?thesis by simp
    next
      case False
      with inj [OF x r] show ?thesis by auto
    qed
  qed
  finally show ?case by simp
qed simp

lemma due_bills_in: "set (due_bills c s) \<subseteq> set (recurrings s)" "r \<in> set (due_bills c s) \<Longrightarrow> rcb_status r = RecurringActive \<and> rcb_next r \<le> now c"
  by (auto simp: due_bills_def dest!: in_set_takeD)

lemma distinct_due: "distinct (map rcb_id (recurrings s)) \<Longrightarrow> distinct (map rcb_id (due_bills c s))"
  unfolding due_bills_def take_map [symmetric]
  by (intro distinct_take) (simp add: distinct_map distinct_sort inj_on_def)

lemma bills_advance_later: "bills_advance t iv = Inr u \<Longrightarrow> t + day \<le> u"
proof (cases iv)
  case IntervalMonthly
  have "day \<le> 28 * day" using day_pos by linarith
  then have "t + day \<le> t + 28 * day" by simp
  moreover assume "bills_advance t iv = Inr u"
  ultimately show ?thesis using add_month_bounds(1) [of t] IntervalMonthly by (simp, linarith)
qed (use day_pos in \<open>simp_all add: add_days del: day_pos\<close>)


subsection \<open>Witnesses\<close>

definition bill_seed :: bill_db where
  "bill_seed = ext_db.extend sample_ext (bill_db.fields
     [\<lparr>bl_id = ''tv'', bl_name = ''National TV'', bl_category = ''tv'', bl_code = ''NATIONAL-TV'', bl_active = True\<rparr>] []
     (map (\<lambda>(i, rf). \<lparr>rcb_id = i, rcb_biller = ''tv'', rcb_account = ''A'', rcb_reference = rf, rcb_amount = ngn 10,
         rcb_interval = IntervalDaily, rcb_next = 0, rcb_status = RecurringActive\<rparr>) [(''m1'', ''card 7''), (''m2'', ''INVALID'')]))"

theorem bill_paid_once_witness:
  "\<exists>bp s'. PayBill (ext_ctx 1) ''A'' ''tv'' ''card 7'' (ngn 10) ''k'' bill_seed = (Inr bp, s')
     \<and> PayBill (ext_ctx 2) ''B'' ''water'' ''x'' (ngn 99) ''k'' s' = (Inr bp, s')"
proof -
  have "isl (fst (PayBill (ext_ctx 1) ''A'' ''tv'' ''card 7'' (ngn 10) ''k'' bill_seed)) = False" by code_simp
  then obtain bp s' where run: "PayBill (ext_ctx 1) ''A'' ''tv'' ''card 7'' (ngn 10) ''k'' bill_seed = (Inr bp, s')"
    by (metis isl_def old.sum.exhaust prod.collapse)
  have "\<not> key_taken bp_key ''k'' (bill_payments bill_seed)" "\<not> key_taken et_key ''k'' (ext_transfers bill_seed)"
    by code_simp+
  from bill_paid_once [OF run this] run show ?thesis by blast
qed


end
