(* ===== verification/Webhooks.thy ===== *)
theory Webhooks
  imports Merchants Reconciliation AuthCrypto
begin

section \<open>Webhooks\<close>

text \<open>
  \<open>internal/webhooks\<close> (endpoints.go, delivery.go) and migrations 00027 and 00028: endpoints with a signing secret,
  one event for each charge or payout that ended, one delivery of it to each endpoint, retried with growing
  pauses.  The receiver is a parameter: \<open>http\<close> maps a request to the status of its response, or to the text of
  an error (\<open>Inl\<close>).  So is the text in which Postgres returns a \<open>JSONB\<close> value, \<open>render\<close>.  Claiming, sending and
  recording are separate statements and separate definitions, because two workers can hold one delivery.
\<close>

record endpoint =
  we_id :: uuid
  we_merchant :: uuid
  we_mode :: api_mode
  we_url :: string
  we_active :: bool
  we_created :: int

record endpoint_row = endpoint +
  we_secret :: "byte list"

record payload =
  pl_id :: uuid
  pl_minor :: int
  pl_currency :: string
  pl_status :: string

record webhook_event =
  ev_id :: uuid
  ev_merchant :: uuid
  ev_mode :: api_mode
  ev_type :: string
  ev_payload :: payload
  ev_created :: int

datatype delivery_status = DeliveryPending | DeliverySucceeded | DeliveryFailed

record delivery =
  dl_id :: uuid
  dl_event :: uuid
  dl_endpoint :: uuid
  dl_status :: delivery_status
  dl_attempts :: int
  dl_next :: int
  dl_error :: "string option"
  dl_created :: int
  dl_delivered :: "int option"

record webhook_db = merchant_db +
  endpoints :: "endpoint_row list"
  events :: "webhook_event list"
  deliveries :: "delivery list"

subsection \<open>endpoints.go\<close>

definition secretKeyName :: string where "secretKeyName = ''webhook-endpoint-secret''"

definition generateSecret :: "byte list \<Rightarrow> string" where
  "generateSecret b = ''whsec_'' @ hex_encode b"

definition CreateEndpoint :: "crypto \<Rightarrow> ctx \<Rightarrow> byte list \<Rightarrow> byte list \<Rightarrow> uuid \<Rightarrow> api_mode \<Rightarrow> string \<Rightarrow> 'z webhook_db_scheme
    \<Rightarrow> (gerror + string \<times> endpoint) \<times> 'z webhook_db_scheme" where
  "CreateEndpoint cr c b nonce merchantID mode url s =
    (let secret = generateSecret b in
     case Encrypt cr nonce secretKeyName (ascii secret) of
       Inl e \<Rightarrow> (Inl e, s)
     | Inr sealed \<Rightarrow>
        if key_taken we_id (gen c 28) (endpoints s) then (Inl SqlUnique, s)
        else if \<not> key_taken id_id merchantID (identities s) then (Inl SqlForeignKey, s)
        else let row = \<lparr>we_id = gen c 28, we_merchant = merchantID, we_mode = mode, we_url = url, we_active = True,
                        we_created = now c, we_secret = sealed\<rparr>
             in (Inr (secret, endpoint.truncate row), s\<lparr>endpoints := endpoints s @ [row]\<rparr>))"

definition ListEndpoints :: "uuid \<Rightarrow> 'z webhook_db_scheme \<Rightarrow> endpoint list" where
  "ListEndpoints merchantID s =
    map endpoint.truncate (sort_key (\<lambda>r. - we_created r) (filter (\<lambda>r. we_merchant r = merchantID) (endpoints s)))"

definition DeactivateEndpoint :: "uuid \<Rightarrow> 'z webhook_db_scheme \<Rightarrow> (gerror + unit) \<times> 'z webhook_db_scheme" where
  "DeactivateEndpoint endpointID s =
    (case find_row we_id endpointID (endpoints s) of
       None \<Rightarrow> (Inl ErrEndpointNotFound, s)
     | Some r \<Rightarrow>
        if \<not> we_active r then (Inl ErrEndpointNotFound, s)
        else (Inr (), s\<lparr>endpoints := update_row we_id endpointID (\<lambda>r. r\<lparr>we_active := False\<rparr>) (endpoints s)\<rparr>))"

definition serves :: "uuid \<Rightarrow> api_mode \<Rightarrow> endpoint_row \<Rightarrow> bool" where
  "serves merchantID mode r \<longleftrightarrow> we_merchant r = merchantID \<and> we_mode r = mode \<and> we_active r"

record endpoint_with_secret =
  es_id :: uuid
  es_url :: string
  es_secret :: "byte list"

definition activeEndpoints :: "uuid \<Rightarrow> api_mode \<Rightarrow> 'z webhook_db_scheme \<Rightarrow> endpoint_with_secret list" where
  "activeEndpoints merchantID mode s =
    map (\<lambda>r. \<lparr>es_id = we_id r, es_url = we_url r, es_secret = we_secret r\<rparr>) (filter (serves merchantID mode) (endpoints s))"

definition unseal :: "crypto \<Rightarrow> byte list \<Rightarrow> gerror + string" where
  "unseal cr sealed = (case Decrypt cr secretKeyName sealed of Inl e \<Rightarrow> Inl e | Inr plain \<Rightarrow> Inr (text_of plain))"

subsection \<open>delivery.go: events\<close>

definition maxDeliveryAttempts :: int where "maxDeliveryAttempts = 5"
definition claimLease :: int where "claimLease = minute"
definition claimBatch :: nat where "claimBatch = 20"

record terminal_item =
  ti_id :: uuid
  ti_merchant :: uuid
  ti_mode :: api_mode
  ti_minor :: int
  ti_currency :: string
  ti_succeeded :: bool

text \<open>The join with the transfer, when it ended and nobody was told.\<close>

definition terminal_charge :: "'z webhook_db_scheme \<Rightarrow> charge_row \<Rightarrow> terminal_item option" where
  "terminal_charge s r =
    (if ch_notified r \<noteq> None then None
     else case find_row et_id (ch_transfer r) (ext_transfers s) of
            None \<Rightarrow> None
          | Some et \<Rightarrow>
             if et_status et = StatusCompleted \<or> et_status et = StatusFailed
             then Some \<lparr>ti_id = ch_id r, ti_merchant = ch_merchant r, ti_mode = ch_mode r, ti_minor = minor (ch_amount r),
                        ti_currency = currency (ch_amount r), ti_succeeded = (et_status et = StatusCompleted)\<rparr>
             else None)"

definition terminal_payout :: "'z webhook_db_scheme \<Rightarrow> payout_row \<Rightarrow> terminal_item option" where
  "terminal_payout s r =
    (if po_notified r \<noteq> None then None
     else case find_row et_id (po_transfer r) (ext_transfers s) of
            None \<Rightarrow> None
          | Some et \<Rightarrow>
             if et_status et = StatusCompleted \<or> et_status et = StatusFailed
             then Some \<lparr>ti_id = po_id r, ti_merchant = po_merchant r, ti_mode = po_mode r, ti_minor = minor (po_amount r),
                        ti_currency = currency (po_amount r), ti_succeeded = (et_status et = StatusCompleted)\<rparr>
             else None)"

definition activeEndpointIDs :: "uuid \<Rightarrow> api_mode \<Rightarrow> 'z webhook_db_scheme \<Rightarrow> uuid list" where
  "activeEndpointIDs merchantID mode s = map we_id (filter (serves merchantID mode) (endpoints s))"

text \<open>One \<open>INSERT\<close> for each endpoint; the \<open>k\<close>-th draws the id \<open>gen c (30 + k)\<close>.\<close>

fun insert_deliveries :: "ctx \<Rightarrow> uuid \<Rightarrow> nat \<Rightarrow> uuid list \<Rightarrow> 'z webhook_db_scheme \<Rightarrow> gerror + 'z webhook_db_scheme" where
  "insert_deliveries c eventID k [] s = Inr s"
| "insert_deliveries c eventID k (ep # eps) s =
    (if key_taken dl_id (gen c (30 + k)) (deliveries s) then Inl SqlUnique
     else if \<not> key_taken ev_id eventID (events s) \<or> \<not> key_taken we_id ep (endpoints s) then Inl SqlForeignKey
     else insert_deliveries c eventID (Suc k) eps (s\<lparr>deliveries := deliveries s @
       [\<lparr>dl_id = gen c (30 + k), dl_event = eventID, dl_endpoint = ep, dl_status = DeliveryPending, dl_attempts = 0,
         dl_next = now c, dl_error = None, dl_created = now c, dl_delivered = None\<rparr>]\<rparr>))"

datatype source_table = SourceCharges | SourcePayouts

definition mark_notified :: "ctx \<Rightarrow> source_table \<Rightarrow> uuid \<Rightarrow> 'z webhook_db_scheme \<Rightarrow> 'z webhook_db_scheme" where
  "mark_notified c tab i s =
    (case tab of
       SourceCharges \<Rightarrow> s\<lparr>charges := update_row ch_id i (\<lambda>r. r\<lparr>ch_notified := Some (now c)\<rparr>) (charges s)\<rparr>
     | SourcePayouts \<Rightarrow> s\<lparr>payouts := update_row po_id i (\<lambda>r. r\<lparr>po_notified := Some (now c)\<rparr>) (payouts s)\<rparr>)"

text \<open>The transaction, with the endpoints read before it.\<close>

definition enqueue_tx :: "ctx \<Rightarrow> terminal_item \<Rightarrow> string \<Rightarrow> source_table \<Rightarrow> uuid list \<Rightarrow> 'z webhook_db_scheme
    \<Rightarrow> (gerror + unit) \<times> 'z webhook_db_scheme" where
  "enqueue_tx c item eventType tab endpointIDs s =
    (let ev = \<lparr>ev_id = gen c 29, ev_merchant = ti_merchant item, ev_mode = ti_mode item, ev_type = eventType,
               ev_payload = \<lparr>pl_id = ti_id item, pl_minor = ti_minor item, pl_currency = ti_currency item,
                             pl_status = (if ti_succeeded item then ''succeeded'' else ''failed'')\<rparr>, ev_created = now c\<rparr>
     in if key_taken ev_id (gen c 29) (events s) then (Inl SqlUnique, s)
        else if \<not> key_taken id_id (ti_merchant item) (identities s) then (Inl SqlForeignKey, s)
        else (case insert_deliveries c (gen c 29) 0 endpointIDs (s\<lparr>events := events s @ [ev]\<rparr>) of
                Inl e \<Rightarrow> (Inl e, s)
              | Inr s1 \<Rightarrow> (Inr (), mark_notified c tab (ti_id item) s1)))"

definition enqueueEvent :: "ctx \<Rightarrow> terminal_item \<Rightarrow> string \<Rightarrow> source_table \<Rightarrow> 'z webhook_db_scheme
    \<Rightarrow> (gerror + unit) \<times> 'z webhook_db_scheme" where
  "enqueueEvent c item eventType tab s =
    enqueue_tx c item eventType tab (activeEndpointIDs (ti_merchant item) (ti_mode item) s) s"

definition event_type :: "source_table \<Rightarrow> terminal_item \<Rightarrow> string" where
  "event_type tab item = (case tab of SourceCharges \<Rightarrow> ''charge'' | SourcePayouts \<Rightarrow> ''payout'')
     @ (if ti_succeeded item then ''.succeeded'' else ''.failed'')"

fun enqueue_all :: "(uuid \<Rightarrow> ctx) \<Rightarrow> source_table \<Rightarrow> terminal_item list \<Rightarrow> 'z webhook_db_scheme
    \<Rightarrow> (gerror + unit) \<times> 'z webhook_db_scheme" where
  "enqueue_all cs tab [] s = (Inr (), s)"
| "enqueue_all cs tab (item # items) s =
    (case enqueueEvent (cs (ti_id item)) item (event_type tab item) tab s of
       (Inl e, s1) \<Rightarrow> (Inl e, s1)
     | (Inr _, s1) \<Rightarrow> enqueue_all cs tab items s1)"

text \<open>The rows an unordered \<open>LIMIT 20\<close> takes, by their ids.\<close>

definition pick_items :: "(nat \<Rightarrow> uuid list \<Rightarrow> uuid list) \<Rightarrow> terminal_item list \<Rightarrow> terminal_item list" where
  "pick_items pick items = List.map_filter (\<lambda>i. find_row ti_id i items) (pick claimBatch (map ti_id items))"

definition notifyTerminalCharges :: "(nat \<Rightarrow> uuid list \<Rightarrow> uuid list) \<Rightarrow> (uuid \<Rightarrow> ctx) \<Rightarrow> 'z webhook_db_scheme
    \<Rightarrow> (gerror + unit) \<times> 'z webhook_db_scheme" where
  "notifyTerminalCharges pick cs s =
    enqueue_all cs SourceCharges (pick_items pick (List.map_filter (terminal_charge s) (charges s))) s"

definition notifyTerminalPayouts :: "(nat \<Rightarrow> uuid list \<Rightarrow> uuid list) \<Rightarrow> (uuid \<Rightarrow> ctx) \<Rightarrow> 'z webhook_db_scheme
    \<Rightarrow> (gerror + unit) \<times> 'z webhook_db_scheme" where
  "notifyTerminalPayouts pick cs s =
    enqueue_all cs SourcePayouts (pick_items pick (List.map_filter (terminal_payout s) (payouts s))) s"

definition NotifyTerminal :: "(nat \<Rightarrow> uuid list \<Rightarrow> uuid list) \<Rightarrow> (uuid \<Rightarrow> ctx) \<Rightarrow> 'z webhook_db_scheme
    \<Rightarrow> (gerror + unit) \<times> 'z webhook_db_scheme" where
  "NotifyTerminal pick cs s =
    (case notifyTerminalCharges pick cs s of
       (Inl e, s1) \<Rightarrow> (Inl e, s1)
     | (Inr _, s1) \<Rightarrow> notifyTerminalPayouts pick cs s1)"

subsection \<open>delivery.go: deliveries\<close>

record claimed_delivery =
  cv_id :: uuid
  cv_attempts :: int
  cv_event :: uuid
  cv_endpoint :: uuid

definition due_deliveries :: "ctx \<Rightarrow> 'z webhook_db_scheme \<Rightarrow> uuid list" where
  "due_deliveries c s = map dl_id (take claimBatch (sort_key dl_next
     (filter (\<lambda>r. dl_status r = DeliveryPending \<and> dl_next r \<le> now c) (deliveries s))))"

definition claim_deliveries :: "ctx \<Rightarrow> 'z webhook_db_scheme \<Rightarrow> claimed_delivery list \<times> 'z webhook_db_scheme" where
  "claim_deliveries c s =
    (let ids = due_deliveries c s
     in (map (\<lambda>r. \<lparr>cv_id = dl_id r, cv_attempts = dl_attempts r, cv_event = dl_event r, cv_endpoint = dl_endpoint r\<rparr>)
           (filter (\<lambda>r. dl_id r \<in> set ids) (deliveries s)),
         s\<lparr>deliveries := map (\<lambda>r. if dl_id r \<in> set ids then r\<lparr>dl_next := now c + claimLease\<rparr> else r) (deliveries s)\<rparr>))"

definition backoff :: "int \<Rightarrow> int" where
  "backoff attempt = [minute, 5 * minute, 30 * minute, 2 * hour] ! nat (if attempt - 1 < 4 then attempt - 1 else 3)"

definition recordFailure :: "ctx \<Rightarrow> claimed_delivery \<Rightarrow> string \<Rightarrow> 'z webhook_db_scheme \<Rightarrow> 'z webhook_db_scheme" where
  "recordFailure c d errMsg s =
    (let attempt = cv_attempts d + 1
     in s\<lparr>deliveries := update_row dl_id (cv_id d)
          (if maxDeliveryAttempts \<le> attempt
           then (\<lambda>r. r\<lparr>dl_status := DeliveryFailed, dl_attempts := attempt, dl_error := Some errMsg\<rparr>)
           else (\<lambda>r. r\<lparr>dl_attempts := attempt, dl_next := now c + backoff attempt, dl_error := Some errMsg\<rparr>)) (deliveries s)\<rparr>)"

definition recordSuccess :: "ctx \<Rightarrow> claimed_delivery \<Rightarrow> 'z webhook_db_scheme \<Rightarrow> 'z webhook_db_scheme" where
  "recordSuccess c d s = s\<lparr>deliveries := update_row dl_id (cv_id d)
     (\<lambda>r. r\<lparr>dl_status := DeliverySucceeded, dl_delivered := Some (now c)\<rparr>) (deliveries s)\<rparr>"

record http_request =
  hq_url :: string
  hq_event :: string
  hq_signature :: string
  hq_body :: "byte list"

definition webhook_Sign :: "crypto \<Rightarrow> byte list \<Rightarrow> string \<Rightarrow> string" where
  "webhook_Sign cr body secret = hex_encode (hmac_sha256 cr (ascii secret) body)"

definition webhook_request :: "crypto \<Rightarrow> string \<Rightarrow> string \<Rightarrow> string \<Rightarrow> byte list \<Rightarrow> http_request" where
  "webhook_request cr url secret eventType body =
    \<lparr>hq_url = url, hq_event = eventType, hq_signature = ''sha256='' @ webhook_Sign cr body secret, hq_body = body\<rparr>"

text \<open>\<open>None\<close> when the receiver took it, else the text of the error.\<close>

definition webhook_send :: "(http_request \<Rightarrow> string + nat) \<Rightarrow> http_request \<Rightarrow> string option" where
  "webhook_send http req =
    (case http req of
       Inl text \<Rightarrow> Some (''send: '' @ text)
     | Inr code \<Rightarrow> if code < 200 \<or> 300 \<le> code then Some (''endpoint responded '' @ dec_nat code) else None)"

text \<open>What a claimed delivery sends: the text of an error, or the request.\<close>

definition delivery_request :: "crypto \<Rightarrow> (payload \<Rightarrow> byte list) \<Rightarrow> claimed_delivery \<Rightarrow> 'z webhook_db_scheme \<Rightarrow> string + http_request" where
  "delivery_request cr render d s =
    (case find_row ev_id (cv_event d) (events s) of
       None \<Rightarrow> Inl ''load event: no rows in result set''
     | Some ev \<Rightarrow>
        (case find_row we_id (cv_endpoint d) (endpoints s) of
           None \<Rightarrow> Inl ''load endpoint: no rows in result set''
         | Some ep \<Rightarrow>
            (case unseal cr (we_secret ep) of
               Inl e \<Rightarrow> Inl ''webhooks: unseal secret''
             | Inr secret \<Rightarrow> Inr (webhook_request cr (we_url ep) secret (ev_type ev) (render (ev_payload ev))))))"

definition record_outcome :: "ctx \<Rightarrow> claimed_delivery \<Rightarrow> string option \<Rightarrow> 'z webhook_db_scheme \<Rightarrow> 'z webhook_db_scheme" where
  "record_outcome c d err s = (case err of Some text \<Rightarrow> recordFailure c d text s | None \<Rightarrow> recordSuccess c d s)"

definition deliverOne :: "crypto \<Rightarrow> (payload \<Rightarrow> byte list) \<Rightarrow> (http_request \<Rightarrow> string + nat) \<Rightarrow> ctx \<Rightarrow> claimed_delivery
    \<Rightarrow> 'z webhook_db_scheme \<Rightarrow> 'z webhook_db_scheme" where
  "deliverOne cr render http c d s =
    record_outcome c d (case delivery_request cr render d s of Inl text \<Rightarrow> Some text | Inr req \<Rightarrow> webhook_send http req) s"

fun deliver_all :: "crypto \<Rightarrow> (payload \<Rightarrow> byte list) \<Rightarrow> (uuid \<Rightarrow> http_request \<Rightarrow> string + nat) \<Rightarrow> (uuid \<Rightarrow> ctx)
    \<Rightarrow> claimed_delivery list \<Rightarrow> 'z webhook_db_scheme \<Rightarrow> 'z webhook_db_scheme" where
  "deliver_all cr render http cs [] s = s"
| "deliver_all cr render http cs (d # ds) s =
    deliver_all cr render http cs ds (deliverOne cr render (http (cv_id d)) (cs (cv_id d)) d s)"

definition DeliverPending :: "crypto \<Rightarrow> (payload \<Rightarrow> byte list) \<Rightarrow> (uuid \<Rightarrow> http_request \<Rightarrow> string + nat) \<Rightarrow> ctx \<Rightarrow> (uuid \<Rightarrow> ctx)
    \<Rightarrow> 'z webhook_db_scheme \<Rightarrow> 'z webhook_db_scheme" where
  "DeliverPending cr render http c cs s =
    (case claim_deliveries c s of (ds, s1) \<Rightarrow> deliver_all cr render http cs ds s1)"

end
