(* ===== verification/WebhookProps.thy ===== *)
theory WebhookProps
  imports Webhooks
begin

section \<open>Properties of webhooks\<close>

text \<open>
  Requests are signed with the secret the merchant was shown; every ended charge and payout gives one event with one
  delivery for each endpoint; a delivery ends after at most five attempts of one worker, and what two workers can do
  to it.
\<close>

subsection \<open>Endpoints keep their secret\<close>

lemma enqueue_tx_frame:
  assumes "enqueue_tx c item ty tab eps s = (out, s')"
  shows "endpoints s' = endpoints s \<and> identities s' = identities s \<and> ext_transfers s' = ext_transfers s"
proof -
  have ins: "endpoints s2 = endpoints s1 \<and> identities s2 = identities s1 \<and> ext_transfers s2 = ext_transfers s1"
    if "insert_deliveries c e k eps s1 = Inr s2" for e k and s1 s2 :: "'a webhook_db_scheme"
    using that by (induction c e k eps s1 rule: insert_deliveries.induct) (auto split: if_split_asm)
  show ?thesis
    using assms by (auto simp: enqueue_tx_def Let_def mark_notified_def split: sum.splits if_split_asm source_table.splits dest!: ins)
qed

text \<open>The workers and the merchants: the database with the deliveries that workers hold.\<close>

inductive wh_step :: "'z webhook_db_scheme \<times> claimed_delivery list \<Rightarrow> 'z webhook_db_scheme \<times> claimed_delivery list \<Rightarrow> bool" where
  wh_create: "CreateEndpoint cr c b nonce m mode url s = (o1, s') \<Longrightarrow> wh_step (s, fl) (s', fl)"
| wh_deactivate: "DeactivateEndpoint i s = (o2, s') \<Longrightarrow> wh_step (s, fl) (s', fl)"
| wh_enqueue: "enqueue_tx c item ty tab eps s = (o2, s') \<Longrightarrow> wh_step (s, fl) (s', fl)"
| wh_claim: "claim_deliveries c s = (ds, s') \<Longrightarrow> wh_step (s, fl) (s', fl @ ds)"
| wh_record: "d \<in> set fl \<Longrightarrow> wh_step (s, fl) (record_outcome c d err s, remove1 d fl)"
| wh_crash: "set fl' \<subseteq> set fl \<Longrightarrow> wh_step (s, fl) (s, fl')"

definition endpoint_kept :: "uuid \<Rightarrow> string \<Rightarrow> byte list \<Rightarrow> 'z webhook_db_scheme \<Rightarrow> bool" where
  "endpoint_kept i url sealed s \<longleftrightarrow>
     (\<exists>r. find_row we_id i (endpoints s) = Some r \<and> we_url r = url \<and> we_secret r = sealed)"

lemma CreateEndpoint_cases:
  assumes "CreateEndpoint cr c b nonce m mode url s = (out, s')"
  obtains (refused) e where "out = Inl e" and "s' = s"
    | (created) r sealed where "out = Inr (generateSecret b, endpoint.truncate r)" and "s' = s\<lparr>endpoints := endpoints s @ [r]\<rparr>"
      and "Encrypt cr nonce secretKeyName (ascii (generateSecret b)) = Inr sealed" and "we_secret r = sealed" and "we_url r = url"
      and "we_merchant r = m" and "we_mode r = mode" and "we_active r" and "\<not> key_taken we_id (we_id r) (endpoints s)"
proof -
  have "(\<exists>e. out = Inl e \<and> s' = s) \<or> (\<exists>r sealed. out = Inr (generateSecret b, endpoint.truncate r) \<and> s' = s\<lparr>endpoints := endpoints s @ [r]\<rparr>
      \<and> Encrypt cr nonce secretKeyName (ascii (generateSecret b)) = Inr sealed \<and> we_secret r = sealed \<and> we_url r = url
      \<and> we_merchant r = m \<and> we_mode r = mode \<and> we_active r \<and> \<not> key_taken we_id (we_id r) (endpoints s))"
    using assms unfolding CreateEndpoint_def Let_def by (auto split: sum.splits if_split_asm)
  then show thesis by (elim disjE exE conjE) (erule (1) refused, rule created)
qed

lemma endpoint_kept_step: "wh_step x y \<Longrightarrow> endpoint_kept i url sealed (fst x) \<Longrightarrow> endpoint_kept i url sealed (fst y)"
proof (induction rule: wh_step.induct)
  case (wh_create cr c b nonce m mode u s o1 s' fl)
  from wh_create(1) show ?case
  proof (cases rule: CreateEndpoint_cases)
    case refused
    with wh_create(2) show ?thesis by simp
  next
    case (created r sl)
    with wh_create(2) show ?thesis by (auto simp: endpoint_kept_def find_row_append)
  qed
next
  case (wh_deactivate j s o2 s' fl)
  have upd: "row_update we_id (\<lambda>r. r\<lparr>we_active := False\<rparr>)" by (rule row_update.intro) simp
  from wh_deactivate show ?case
    by (auto simp: DeactivateEndpoint_def endpoint_kept_def row_update.find [OF upd] split: option.splits if_split_asm)
next
  case (wh_enqueue c item ty tab eps s o2 s' fl)
  from enqueue_tx_frame [OF wh_enqueue(1)] wh_enqueue(2) show ?case by (simp add: endpoint_kept_def)
next
  case (wh_claim c s ds s' fl)
  then show ?case by (auto simp: claim_deliveries_def Let_def endpoint_kept_def)
next
  case (wh_record d fl s c err)
  then show ?case
    by (simp add: record_outcome_def recordFailure_def recordSuccess_def Let_def endpoint_kept_def split: option.split)
qed simp

lemma endpoint_kept_steps: "wh_step\<^sup>*\<^sup>* x y \<Longrightarrow> endpoint_kept i url sealed (fst x) \<Longrightarrow> endpoint_kept i url sealed (fst y)"
  by (induction rule: rtranclp_induct) (auto intro: endpoint_kept_step)

text \<open>
  C37. Requests carry the signature the merchant can check.  Whatever workers, registrations and deactivations do after
  an endpoint was created, every request for a delivery to it goes to its address, names the event's type, has the
  event's payload as its body, and is signed with the very secret its creation returned, which is kept only sealed.
\<close>

theorem webhook_signed:
  assumes create: "CreateEndpoint cr c b nonce m mode url s = (Inr (secret, ep), s1)"
    and nonce: "length nonce = 12" and gcm: "\<And>key p. gcm_open cr key nonce (gcm_seal cr key nonce p) = Some p"
    and later: "wh_step\<^sup>*\<^sup>* (s1, fl) (s2, fl2)"
    and d: "cv_endpoint d = we_id ep" "find_row ev_id (cv_event d) (events s2) = Some ev"
  shows "delivery_request cr render d s2 = Inr \<lparr>hq_url = url, hq_event = ev_type ev,
      hq_signature = ''sha256='' @ hex_encode (hmac_sha256 cr (ascii secret) (render (ev_payload ev))), hq_body = render (ev_payload ev)\<rparr>
    \<and> secret = ''whsec_'' @ hex_encode b"
  using create
proof (cases rule: CreateEndpoint_cases)
  case (created r sealed)
  have id: "we_id ep = we_id r" using created(1) by (simp add: endpoint.defs)
  have "endpoint_kept (we_id r) url sealed s1"
    using created by (simp add: endpoint_kept_def find_row_append find_row_Cons find_row_None [symmetric])
  then obtain r2 where r2: "find_row we_id (we_id r) (endpoints s2) = Some r2" "we_url r2 = url" "we_secret r2 = sealed"
    using endpoint_kept_steps [OF later, of "we_id r" url sealed] by (auto simp: endpoint_kept_def)
  have "Decrypt cr secretKeyName sealed = Inr (ascii (generateSecret b))"
    using created(3) nonce gcm by (rule Decrypt_Encrypt)
  then have "unseal cr sealed = Inr (generateSecret b)" by (simp add: unseal_def)
  then show ?thesis
    using d created(1) by (simp add: delivery_request_def id r2 webhook_request_def webhook_Sign_def generateSecret_def)
qed simp

subsection \<open>Attempts\<close>

definition attempts_ok :: "'z webhook_db_scheme \<times> claimed_delivery list \<Rightarrow> bool" where
  "attempts_ok x \<longleftrightarrow> distinct (map dl_id (deliveries (fst x)))
     \<and> (\<forall>r\<in>set (deliveries (fst x)). 0 \<le> dl_attempts r \<and> dl_attempts r \<le> 5 \<and> (dl_status r = DeliveryPending \<longrightarrow> dl_attempts r \<le> 4))
     \<and> (\<forall>d\<in>set (snd x). 0 \<le> cv_attempts d \<and> cv_attempts d \<le> 4)"

definition new_delivery :: "ctx \<Rightarrow> uuid \<Rightarrow> nat \<times> uuid \<Rightarrow> delivery" where
  "new_delivery c e j = \<lparr>dl_id = gen c (30 + fst j), dl_event = e, dl_endpoint = snd j, dl_status = DeliveryPending, dl_attempts = 0,
     dl_next = now c, dl_error = None, dl_created = now c, dl_delivered = None\<rparr>"

lemma insert_deliveries_result:
  "insert_deliveries c e k eps s = Inr s' \<Longrightarrow> s' = s\<lparr>deliveries := deliveries s @ map (new_delivery c e) (enumerate k eps)\<rparr>"
proof (induction c e k eps s rule: insert_deliveries.induct)
  case (2 c e k ep eps s)
  then show ?case by (simp add: new_delivery_def split: if_split_asm)
qed simp

lemma insert_deliveries_distinct:
  "insert_deliveries c e k eps s = Inr s' \<Longrightarrow> distinct (map dl_id (deliveries s)) \<Longrightarrow> distinct (map dl_id (deliveries s'))"
proof (induction c e k eps s rule: insert_deliveries.induct)
  case (2 c e k ep eps s)
  then show ?case by (simp add: key_taken_def split: if_split_asm)
qed simp

lemma enqueue_tx_cases:
  assumes "enqueue_tx c item ty tab eps s = (out, s')"
  obtains (refused) e where "out = Inl e" and "s' = s"
    | (entered) s1 where "out = Inr ()" and "s' = mark_notified c tab (ti_id item) s1" and "\<not> key_taken ev_id (gen c 29) (events s)"
      and "insert_deliveries c (gen c 29) 0 eps (s\<lparr>events := events s @
        [\<lparr>ev_id = gen c 29, ev_merchant = ti_merchant item, ev_mode = ti_mode item, ev_type = ty,
          ev_payload = \<lparr>pl_id = ti_id item, pl_minor = ti_minor item, pl_currency = ti_currency item,
                        pl_status = (if ti_succeeded item then ''succeeded'' else ''failed'')\<rparr>, ev_created = now c\<rparr>]\<rparr>) = Inr s1"
  using assms unfolding enqueue_tx_def Let_def by (auto split: if_split_asm sum.splits)

lemma mark_notified_frame [simp]: "deliveries (mark_notified c tab i s) = deliveries s" "events (mark_notified c tab i s) = events s"
  "endpoints (mark_notified c tab i s) = endpoints s" "ext_transfers (mark_notified c tab i s) = ext_transfers s"
  by (simp_all add: mark_notified_def split: source_table.split)

lemma due_pending:
  assumes "distinct (map dl_id (deliveries s))" and "r \<in> set (deliveries s)" and "dl_id r \<in> set (due_deliveries c s)"
  shows "dl_status r = DeliveryPending \<and> dl_next r \<le> now c"
proof -
  obtain r' where r': "r' \<in> set (deliveries s)" "dl_id r' = dl_id r" "dl_status r' = DeliveryPending" "dl_next r' \<le> now c"
    using assms(3) by (auto simp: due_deliveries_def dest!: in_set_takeD)
  then have "r' = r" using assms by (auto simp: distinct_map inj_on_def)
  with r' show ?thesis by simp
qed

definition delivery_fine :: "delivery \<Rightarrow> bool" where
  "delivery_fine r \<longleftrightarrow> 0 \<le> dl_attempts r \<and> dl_attempts r \<le> 5 \<and> (dl_status r = DeliveryPending \<longrightarrow> dl_attempts r \<le> 4)"

lemma attempts_ok_update:
  assumes "attempts_ok (s, fl)" and "set fl' \<subseteq> set fl"
    and "\<And>r. dl_id (f r) = dl_id r" and "\<And>r. delivery_fine r \<Longrightarrow> delivery_fine (f r)"
  shows "attempts_ok (s\<lparr>deliveries := update_row dl_id i f (deliveries s)\<rparr>, fl')"
proof -
  have ids: "map dl_id (update_row dl_id i f (deliveries s)) = map dl_id (deliveries s)" using assms(3) by (simp add: update_row_def)
  have "delivery_fine r" if "r \<in> set (deliveries s)" for r using assms(1) that by (simp add: attempts_ok_def delivery_fine_def)
  then have "delivery_fine r" if "r \<in> set (update_row dl_id i f (deliveries s))" for r
    using that assms(4) unfolding set_update_row by (auto split: if_split_asm)
  then show ?thesis using assms(1,2) by (auto simp: attempts_ok_def ids delivery_fine_def)
qed

lemma attempts_ok_step: "wh_step x y \<Longrightarrow> attempts_ok x \<Longrightarrow> attempts_ok y"
proof (induction rule: wh_step.induct)
  case (wh_create cr c b nonce m mode u s o1 s' fl)
  from wh_create(1) show ?case
    by (cases rule: CreateEndpoint_cases) (use wh_create(2) in \<open>auto simp: attempts_ok_def\<close>)
next
  case (wh_deactivate j s o2 s' fl)
  then show ?case by (auto simp: DeactivateEndpoint_def attempts_ok_def split: option.splits if_split_asm)
next
  case (wh_enqueue c item ty tab eps s o2 s' fl)
  from wh_enqueue(1) show ?case
  proof (cases rule: enqueue_tx_cases)
    case (entered s1)
    have new: "deliveries s' = deliveries s @ map (new_delivery c (gen c 29)) (enumerate 0 eps)"
      using insert_deliveries_result [OF entered(4)] by (simp add: entered(2))
    have "distinct (map dl_id (deliveries s'))"
      using insert_deliveries_distinct [OF entered(4)] wh_enqueue(2) by (simp add: entered(2) attempts_ok_def)
    moreover have "\<forall>r\<in>set (map (new_delivery c (gen c 29)) (enumerate 0 eps)). dl_attempts r = 0" by (simp add: new_delivery_def)
    ultimately show ?thesis using wh_enqueue(2) unfolding attempts_ok_def fst_conv snd_conv new by auto
  qed (use wh_enqueue(2) in simp)
next
  case (wh_claim c s ds s' fl)
  have ok: "distinct (map dl_id (deliveries s))" "\<And>r. r \<in> set (deliveries s) \<Longrightarrow> delivery_fine r"
    using wh_claim(2) by (auto simp: attempts_ok_def delivery_fine_def)
  have "map dl_id (deliveries s') = map dl_id (deliveries s)" using wh_claim(1) by (auto simp: claim_deliveries_def Let_def)
  moreover have "delivery_fine r" if "r \<in> set (deliveries s')" for r
    using wh_claim(1) that ok(2) by (auto simp: claim_deliveries_def Let_def delivery_fine_def)
  moreover have "0 \<le> cv_attempts d \<and> cv_attempts d \<le> 4" if "d \<in> set ds" for d
    using wh_claim(1) that ok due_pending [OF ok(1)] by (auto simp: claim_deliveries_def Let_def delivery_fine_def)
  ultimately show ?case using wh_claim(2) ok(1) by (auto simp: attempts_ok_def delivery_fine_def)
next
  case (wh_record d fl s c err)
  then have d: "0 \<le> cv_attempts d" "cv_attempts d \<le> 4" by (auto simp: attempts_ok_def)
  have rm: "set (remove1 d fl) \<subseteq> set fl" by (rule set_remove1_subset)
  show ?case
  proof (cases err)
    case None
    show ?thesis unfolding record_outcome_def recordSuccess_def None option.case
      by (intro attempts_ok_update [OF wh_record(2) rm]) (simp_all add: delivery_fine_def)
  next
    case (Some msg)
    show ?thesis unfolding record_outcome_def recordFailure_def Let_def Some option.case
      by (intro attempts_ok_update [OF wh_record(2) rm]) (use d in \<open>auto simp: delivery_fine_def maxDeliveryAttempts_def\<close>)
  qed
next
  case (wh_crash fl' fl s)
  then show ?case by (auto simp: attempts_ok_def)
qed


lemma attempts_ok_steps: "wh_step\<^sup>*\<^sup>* x y \<Longrightarrow> attempts_ok x \<Longrightarrow> attempts_ok y"
  by (induction rule: rtranclp_induct) (auto intro: attempts_ok_step)

subsection \<open>One worker\<close>

definition outcome_row :: "ctx \<Rightarrow> claimed_delivery \<Rightarrow> string option \<Rightarrow> delivery \<Rightarrow> delivery" where
  "outcome_row c d err r =
    (case err of
       None \<Rightarrow> r\<lparr>dl_status := DeliverySucceeded, dl_delivered := Some (now c)\<rparr>
     | Some msg \<Rightarrow>
        if maxDeliveryAttempts \<le> cv_attempts d + 1
        then r\<lparr>dl_status := DeliveryFailed, dl_attempts := cv_attempts d + 1, dl_error := Some msg\<rparr>
        else r\<lparr>dl_attempts := cv_attempts d + 1, dl_next := now c + backoff (cv_attempts d + 1), dl_error := Some msg\<rparr>)"

lemma record_outcome_row: "record_outcome c d err s = s\<lparr>deliveries := update_row dl_id (cv_id d) (outcome_row c d err) (deliveries s)\<rparr>"
  by (cases err) (simp_all add: record_outcome_def recordFailure_def recordSuccess_def Let_def outcome_row_def [abs_def])

lemma outcome_row_update: "row_update dl_id (outcome_row c d err)"
  by (rule row_update.intro) (simp add: outcome_row_def split: option.split)

lemma record_outcome_find:
  "find_row dl_id i (deliveries (record_outcome c d err s)) =
    (if i = cv_id d then map_option (outcome_row c d err) (find_row dl_id i (deliveries s)) else find_row dl_id i (deliveries s))"
  by (simp add: record_outcome_row row_update.find [OF outcome_row_update] option.map_ident)

definition send_result :: "crypto \<Rightarrow> (payload \<Rightarrow> byte list) \<Rightarrow> (http_request \<Rightarrow> string + nat) \<Rightarrow> claimed_delivery
    \<Rightarrow> 'z webhook_db_scheme \<Rightarrow> string option" where
  "send_result cr render http d s =
    (case delivery_request cr render d s of Inl msg \<Rightarrow> Some msg | Inr req \<Rightarrow> webhook_send http req)"

lemma deliverOne_outcome: "deliverOne cr render http c d s = record_outcome c d (send_result cr render http d s) s"
  by (simp add: deliverOne_def send_result_def)

lemma send_result_frame:
  "events s' = events s \<Longrightarrow> endpoints s' = endpoints s \<Longrightarrow> send_result cr render http d s' = send_result cr render http d s"
  by (simp add: send_result_def delivery_request_def cong: option.case_cong)

lemma record_outcome_frame [simp]: "events (record_outcome c d err s) = events s" "endpoints (record_outcome c d err s) = endpoints s"
  by (simp_all add: record_outcome_row)

lemma deliver_all_find:
  "distinct (map cv_id ds) \<Longrightarrow> find_row dl_id i (deliveries (deliver_all cr render http cs ds s)) =
    (case find_row cv_id i ds of
       None \<Rightarrow> find_row dl_id i (deliveries s)
     | Some d \<Rightarrow> map_option (outcome_row (cs i) d (send_result cr render (http i) d s)) (find_row dl_id i (deliveries s)))"
proof (induction ds arbitrary: s)
  case (Cons d ds)
  let ?s = "deliverOne cr render (http (cv_id d)) (cs (cv_id d)) d s"
  have other: "send_result cr render h d' ?s = send_result cr render h d' s" for h d'
    by (rule send_result_frame) (simp_all add: deliverOne_outcome)
  show ?case
  proof (cases "i = cv_id d")
    case True
    then have "find_row cv_id i ds = None" using Cons.prems by (simp add: find_row_None key_taken_def)
    then show ?thesis using True Cons by (simp add: deliverOne_outcome record_outcome_find find_row_Cons)
  next
    case False
    then show ?thesis using Cons other
      by (simp add: find_row_Cons deliverOne_outcome record_outcome_find split: option.split)
  qed
qed (simp add: find_row_Nil)

lemma deliver_all_frame [simp]: "events (deliver_all cr render http cs ds s) = events s"
  "endpoints (deliver_all cr render http cs ds s) = endpoints s"
  "map dl_id (deliveries (deliver_all cr render http cs ds s)) = map dl_id (deliveries s)"
proof (induction ds arbitrary: s)
  case (Cons d ds)
  have "dl_id (outcome_row c d err r) = dl_id r" for c err r by (simp add: outcome_row_def split: option.split)
  then have ids: "map dl_id (update_row dl_id i (outcome_row c d err) rs) = map dl_id rs" for i c err rs
    by (simp add: update_row_def)
  { case 1 show ?case by (simp add: Cons deliverOne_outcome) }
  { case 2 show ?case by (simp add: Cons deliverOne_outcome) }
  { case 3 show ?case by (simp add: Cons deliverOne_outcome record_outcome_row ids) }
qed simp_all


definition claimed_of_delivery :: "delivery \<Rightarrow> claimed_delivery" where
  "claimed_of_delivery r = \<lparr>cv_id = dl_id r, cv_attempts = dl_attempts r, cv_event = dl_event r, cv_endpoint = dl_endpoint r\<rparr>"

lemma claimed_of_delivery_id [simp]: "cv_id (claimed_of_delivery r) = dl_id r" "cv_id \<circ> claimed_of_delivery = dl_id"
  by (simp_all add: claimed_of_delivery_def fun_eq_iff)

lemma claim_deliveries_eq:
  "claim_deliveries c s =
    (map claimed_of_delivery (filter (\<lambda>r. dl_id r \<in> set (due_deliveries c s)) (deliveries s)),
     s\<lparr>deliveries := map (\<lambda>r. if dl_id r \<in> set (due_deliveries c s) then r\<lparr>dl_next := now c + claimLease\<rparr> else r) (deliveries s)\<rparr>)"
  by (simp add: claim_deliveries_def Let_def claimed_of_delivery_def [abs_def])

lemma find_row_map_same: "(\<And>r. key (f r) = key r) \<Longrightarrow> find_row key k (map f rows) = map_option f (find_row key k rows)"
  by (induction rows) (simp_all add: find_row_Cons)

lemma find_claimed:
  "find_row cv_id i (map claimed_of_delivery (filter (\<lambda>r. dl_id r \<in> A) rows)) =
    (if i \<in> A then map_option claimed_of_delivery (find_row dl_id i rows) else None)"
  by (induction rows) (auto simp: find_row_Cons)

lemma DeliverPending_find:
  assumes "distinct (map dl_id (deliveries s))"
  shows "find_row dl_id i (deliveries (DeliverPending cr render http c cs s)) =
    (if i \<in> set (due_deliveries c s)
     then map_option (\<lambda>r. outcome_row (cs i) (claimed_of_delivery r) (send_result cr render (http i) (claimed_of_delivery r) s)
            (r\<lparr>dl_next := now c + claimLease\<rparr>)) (find_row dl_id i (deliveries s))
     else find_row dl_id i (deliveries s))"
proof -
  let ?A = "set (due_deliveries c s)"
  let ?ds = "map claimed_of_delivery (filter (\<lambda>r. dl_id r \<in> ?A) (deliveries s))"
  let ?f = "\<lambda>r. if dl_id r \<in> ?A then r\<lparr>dl_next := now c + claimLease\<rparr> else r"
  let ?s1 = "s\<lparr>deliveries := map ?f (deliveries s)\<rparr>"
  have "map cv_id ?ds = map dl_id (filter (\<lambda>r. dl_id r \<in> ?A) (deliveries s))" by simp
  then have d: "distinct (map cv_id ?ds)" using assms by (simp add: distinct_map_filter)
  have row: "find_row dl_id i (map ?f (deliveries s)) = map_option ?f (find_row dl_id i (deliveries s))"
    by (rule find_row_map_same) simp
  have res: "send_result cr render h dd ?s1 = send_result cr render h dd s" for h dd by (rule send_result_frame) simp_all
  have D: "deliveries ?s1 = map ?f (deliveries s)" by simp
  have eq: "DeliverPending cr render http c cs s = deliver_all cr render http cs ?ds ?s1"
    by (simp add: DeliverPending_def claim_deliveries_eq)
  have "find_row dl_id i (deliveries (DeliverPending cr render http c cs s)) =
      (case find_row cv_id i ?ds of
         None \<Rightarrow> map_option ?f (find_row dl_id i (deliveries s))
       | Some d \<Rightarrow> map_option (outcome_row (cs i) d (send_result cr render (http i) d s)) (map_option ?f (find_row dl_id i (deliveries s))))"
    by (simp only: eq deliver_all_find [OF d] res D row)
  then show ?thesis
    by (cases "find_row dl_id i (deliveries s)") (auto simp: find_claimed dest: find_row_key)
qed

text \<open>
  One round of one worker.  A due delivery whose turn it is (at most twenty are claimed, the longest due first) is
  sent, and ends as succeeded when the receiver answered 2xx; when it did not, or could not be reached, its fifth
  failure ends it as failed and an earlier one schedules it again after a minute, five, half an hour or two hours.
  Every other delivery is left alone.
\<close>

theorem delivery_round:
  assumes ids: "distinct (map dl_id (deliveries s))" and r: "find_row dl_id i (deliveries s) = Some r"
    and attempts: "0 \<le> dl_attempts r" "dl_attempts r \<le> 4"
  shows "\<exists>r'. find_row dl_id i (deliveries (DeliverPending cr render http c cs s)) = Some r'
     \<and> (i \<notin> set (due_deliveries c s) \<longrightarrow> r' = r)
     \<and> (i \<in> set (due_deliveries c s) \<longrightarrow>
          (case delivery_request cr render (claimed_of_delivery r) s of
             Inr req \<Rightarrow> (\<forall>code. http i req = Inr code \<and> 200 \<le> code \<and> code < 300 \<longrightarrow>
                dl_status r' = DeliverySucceeded \<and> dl_delivered r' = Some (now (cs i)) \<and> dl_attempts r' = dl_attempts r)
           | Inl _ \<Rightarrow> True)
        \<and> (dl_status r' \<noteq> DeliverySucceeded \<longrightarrow> dl_attempts r' = dl_attempts r + 1 \<and> dl_error r' \<noteq> None \<and> dl_delivered r' = dl_delivered r
             \<and> (if dl_attempts r = 4 then dl_status r' = DeliveryFailed
                else dl_status r' = DeliveryPending
                   \<and> dl_next r' = now (cs i) + [minute, 5 * minute, 30 * minute, 2 * hour] ! nat (dl_attempts r))))
     \<and> (i \<in> set (due_deliveries c s) \<longleftrightarrow> r \<in> set (take 20 (sort_key dl_next
            (filter (\<lambda>r. dl_status r = DeliveryPending \<and> dl_next r \<le> now c) (deliveries s)))))"
proof (intro exI conjI)
  let ?r = "if i \<in> set (due_deliveries c s)
     then outcome_row (cs i) (claimed_of_delivery r) (send_result cr render (http i) (claimed_of_delivery r) s) (r\<lparr>dl_next := now c + claimLease\<rparr>)
     else r"
  show "find_row dl_id i (deliveries (DeliverPending cr render http c cs s)) = Some ?r"
    by (simp add: DeliverPending_find [OF ids] r)
  show "i \<notin> set (due_deliveries c s) \<longrightarrow> ?r = r" by simp
  have key: "dl_id r = i" "r \<in> set (deliveries s)" using r by (auto dest: find_row_Some)
  show due: "i \<in> set (due_deliveries c s) \<longleftrightarrow> r \<in> set (take 20 (sort_key dl_next
            (filter (\<lambda>r. dl_status r = DeliveryPending \<and> dl_next r \<le> now c) (deliveries s))))"
  proof
    assume "i \<in> set (due_deliveries c s)"
    then obtain r' where r': "r' \<in> set (take 20 (sort_key dl_next
            (filter (\<lambda>r. dl_status r = DeliveryPending \<and> dl_next r \<le> now c) (deliveries s))))" "dl_id r' = i"
      by (auto simp: due_deliveries_def claimBatch_def)
    then have "r' \<in> set (deliveries s)" by (auto dest!: in_set_takeD)
    then have "r' = r" using ids key r'(2) by (auto simp: distinct_map inj_on_def)
    with r' show "r \<in> set (take 20 (sort_key dl_next
            (filter (\<lambda>r. dl_status r = DeliveryPending \<and> dl_next r \<le> now c) (deliveries s))))" by simp
  next
    assume "r \<in> set (take 20 (sort_key dl_next
            (filter (\<lambda>r. dl_status r = DeliveryPending \<and> dl_next r \<le> now c) (deliveries s))))"
    then show "i \<in> set (due_deliveries c s)" using key by (force simp: due_deliveries_def claimBatch_def)
  qed
  show "i \<in> set (due_deliveries c s) \<longrightarrow>
          (case delivery_request cr render (claimed_of_delivery r) s of
             Inr req \<Rightarrow> (\<forall>code. http i req = Inr code \<and> 200 \<le> code \<and> code < 300 \<longrightarrow>
                dl_status ?r = DeliverySucceeded \<and> dl_delivered ?r = Some (now (cs i)) \<and> dl_attempts ?r = dl_attempts r)
           | Inl _ \<Rightarrow> True)
        \<and> (dl_status ?r \<noteq> DeliverySucceeded \<longrightarrow> dl_attempts ?r = dl_attempts r + 1 \<and> dl_error ?r \<noteq> None \<and> dl_delivered ?r = dl_delivered r
             \<and> (if dl_attempts r = 4 then dl_status ?r = DeliveryFailed
                else dl_status ?r = DeliveryPending
                   \<and> dl_next ?r = now (cs i) + [minute, 5 * minute, 30 * minute, 2 * hour] ! nat (dl_attempts r)))"
    (is "_ \<longrightarrow> ?sent \<and> ?unsent")
  proof
    assume i: "i \<in> set (due_deliveries c s)"
    have pending: "dl_status r = DeliveryPending" using due_pending [OF ids key(2)] i key(1) by simp
    show "?sent \<and> ?unsent"
      using i attempts pending
      by (auto simp: send_result_def outcome_row_def webhook_send_def claimed_of_delivery_def maxDeliveryAttempts_def backoff_def
          split: sum.splits option.splits)
  qed
qed


subsection \<open>Settling\<close>

lemma due_all:
  assumes "length (deliveries s) \<le> 20" and "distinct (map dl_id (deliveries s))" and "find_row dl_id i (deliveries s) = Some r"
  shows "i \<in> set (due_deliveries c s) \<longleftrightarrow> dl_status r = DeliveryPending \<and> dl_next r \<le> now c"
proof -
  let ?due = "filter (\<lambda>r. dl_status r = DeliveryPending \<and> dl_next r \<le> now c) (deliveries s)"
  have "length ?due \<le> 20" using assms(1) by (rule order_trans [OF length_filter_le])
  then have "due_deliveries c s = map dl_id (sort_key dl_next ?due)" by (simp add: due_deliveries_def claimBatch_def)
  then have "set (due_deliveries c s) = dl_id ` set ?due" by simp
  moreover have "r \<in> set (deliveries s)" "dl_id r = i" using assms(3) by (auto dest: find_row_Some)
  ultimately show ?thesis using assms(2) by (auto simp: distinct_map inj_on_def)
qed

text \<open>The rounds of one worker, with the receiver's answers, the time of the claim and the times of the records.\<close>

type_synonym round = "(uuid \<Rightarrow> http_request \<Rightarrow> string + nat) \<times> ctx \<times> (uuid \<Rightarrow> ctx)"

fun rounds :: "crypto \<Rightarrow> (payload \<Rightarrow> byte list) \<Rightarrow> round list \<Rightarrow> 'z webhook_db_scheme \<Rightarrow> 'z webhook_db_scheme" where
  "rounds cr render [] s = s"
| "rounds cr render ((http, c, cs) # ts) s = rounds cr render ts (DeliverPending cr render http c cs s)"

text \<open>Each round comes two hours after the previous one dealt with the delivery \<open>i\<close>.\<close>

fun spaced :: "uuid \<Rightarrow> int \<Rightarrow> round list \<Rightarrow> bool" where
  "spaced i t [] \<longleftrightarrow> True"
| "spaced i t ((http, c, cs) # ts) \<longleftrightarrow> t \<le> now c \<and> spaced i (now (cs i) + 2 * hour) ts"

lemma DeliverPending_ids: "map dl_id (deliveries (DeliverPending cr render http c cs s)) = map dl_id (deliveries s)"
    "length (deliveries (DeliverPending cr render http c cs s)) = length (deliveries s)"
proof -
  show "map dl_id (deliveries (DeliverPending cr render http c cs s)) = map dl_id (deliveries s)"
    by (simp add: DeliverPending_def claim_deliveries_eq comp_def if_distrib cong: if_cong)
  from arg_cong [OF this, of length] show "length (deliveries (DeliverPending cr render http c cs s)) = length (deliveries s)" by simp
qed

lemma settled_stays:
  assumes "length (deliveries s) \<le> 20" and "distinct (map dl_id (deliveries s))" and "find_row dl_id i (deliveries s) = Some r"
    and "dl_status r \<noteq> DeliveryPending"
  shows "find_row dl_id i (deliveries (rounds cr render ts s)) = Some r"
  using assms(1-3)
proof (induction ts arbitrary: s)
  case (Cons t ts)
  obtain http c cs where t: "t = (http, c, cs)" by (cases t)
  let ?s = "DeliverPending cr render http c cs s"
  have "length (deliveries ?s) \<le> 20" "distinct (map dl_id (deliveries ?s))"
    using Cons.prems(1,2) by (simp_all add: DeliverPending_ids)
  moreover have "find_row dl_id i (deliveries ?s) = Some r"
    using due_all [OF Cons.prems] assms(4) Cons.prems(3) by (simp add: DeliverPending_find [OF Cons.prems(2)])
  ultimately show ?case using Cons.IH by (simp add: t)
qed simp

lemma outcome_progress:
  assumes "dl_status r = DeliveryPending" and "0 \<le> dl_attempts r" and "dl_attempts r \<le> 4"
    and r': "r' = outcome_row c (claimed_of_delivery r) err (r\<lparr>dl_next := t\<rparr>)"
  shows "dl_status r' \<noteq> DeliveryPending \<or>
    (dl_status r' = DeliveryPending \<and> dl_attempts r' = dl_attempts r + 1 \<and> dl_attempts r' \<le> 4 \<and> dl_next r' \<le> now c + 2 * hour)"
proof -
  have "dl_attempts r \<in> {0, 1, 2, 3, 4}" using assms(2,3) by auto
  then show ?thesis using assms(1)
    by (auto simp: r' outcome_row_def claimed_of_delivery_def maxDeliveryAttempts_def backoff_def minute_def hour_def second_def split: option.split)
qed


subsection \<open>Two workers\<close>

text \<open>
  C40. A failure recorded late.  A worker claims a due delivery that failed four times, is slow, and after the minute of
  the lease a second worker claims it too.  One of them delivers it and records the success; then the other's failure
  makes the delivered delivery \<open>failed\<close>, because neither record looks at the status it overwrites.
\<close>

theorem late_failure_overwrites:
  fixes c c2 c3 :: ctx
  assumes ids: "distinct (map dl_id (deliveries s))" and room: "length (deliveries s) \<le> 20"
    and r: "find_row dl_id i (deliveries s) = Some r"
    and due: "dl_status r = DeliveryPending" "dl_attempts r = 4" "dl_next r \<le> now c" "now c + minute \<le> now c2"
  shows "\<exists>s' fl r'. wh_step\<^sup>*\<^sup>* (s, []) (s', fl) \<and> find_row dl_id i (deliveries s') = Some r'
     \<and> dl_status r' = DeliveryFailed \<and> dl_delivered r' = Some (now c3) \<and> dl_attempts r' = 5 \<and> dl_error r' = Some msg"
proof -
  let ?d = "claimed_of_delivery r"
  obtain ds1 s1 where c1: "claim_deliveries c s = (ds1, s1)" by (cases "claim_deliveries c s")
  obtain ds2 s2 where c2: "claim_deliveries c2 s1 = (ds2, s2)" by (cases "claim_deliveries c2 s1")
  have s1: "s1 = s\<lparr>deliveries := map (\<lambda>r. if dl_id r \<in> set (due_deliveries c s) then r\<lparr>dl_next := now c + claimLease\<rparr> else r) (deliveries s)\<rparr>"
    "ds1 = map claimed_of_delivery (filter (\<lambda>r. dl_id r \<in> set (due_deliveries c s)) (deliveries s))"
    using c1 by (simp_all add: claim_deliveries_eq)
  have i: "dl_id r = i" "r \<in> set (deliveries s)" using r by (auto dest: find_row_Some)
  have in1: "i \<in> set (due_deliveries c s)" using due_all [OF room ids r] due by simp
  have r1: "find_row dl_id i (deliveries s1) = Some (r\<lparr>dl_next := now c + claimLease\<rparr>)" (is "_ = Some ?r1")
    using in1 i by (simp add: s1 find_row_map_same r)
  have k1: "map dl_id (deliveries s1) = map dl_id (deliveries s)" by (simp add: s1)
  have ids1: "distinct (map dl_id (deliveries s1))" "length (deliveries s1) \<le> 20"
    using ids room unfolding k1 by (simp_all add: s1)
  have in2: "i \<in> set (due_deliveries c2 s1)" using due_all [OF ids1(2,1) r1] due by (simp add: claimLease_def)
  have s2: "s2 = s1\<lparr>deliveries := map (\<lambda>r. if dl_id r \<in> set (due_deliveries c2 s1) then r\<lparr>dl_next := now c2 + claimLease\<rparr> else r) (deliveries s1)\<rparr>"
    "ds2 = map claimed_of_delivery (filter (\<lambda>r. dl_id r \<in> set (due_deliveries c2 s1)) (deliveries s1))"
    using c2 by (simp_all add: claim_deliveries_eq)
  have r2: "find_row dl_id i (deliveries s2) = Some (r\<lparr>dl_next := now c2 + claimLease\<rparr>)" (is "_ = Some ?r2")
    using in2 i by (simp add: s2 find_row_map_same r1)
  have d1: "?d \<in> set ds1" using in1 i by (auto simp: s1)
  have "?r1 \<in> set (deliveries s1)" using r1 by (auto dest: find_row_Some)
  then have "claimed_of_delivery ?r1 \<in> set ds2" using in2 i unfolding s2(2) set_map by (intro imageI) simp
  then have d2: "?d \<in> set ds2" by (simp add: claimed_of_delivery_def)
  let ?s3 = "record_outcome c3 ?d None s2" and ?s4 = "record_outcome c3 ?d (Some msg) (record_outcome c3 ?d None s2)"
  let ?fl = "ds1 @ ds2"
  have still: "?d \<in> set (remove1 ?d ?fl)" using d1 d2 by (simp add: remove1_append)
  have "wh_step\<^sup>*\<^sup>* (s, []) (s1, [] @ ds1)" using wh_claim [OF c1] by (rule r_into_rtranclp)
  also have "wh_step\<^sup>*\<^sup>* \<dots> (s2, ?fl)" using wh_claim [OF c2, of "[] @ ds1"] by auto
  also have "wh_step\<^sup>*\<^sup>* \<dots> (?s3, remove1 ?d ?fl)" using d1 by (intro r_into_rtranclp wh_record) simp
  also have "wh_step\<^sup>*\<^sup>* \<dots> (?s4, remove1 ?d (remove1 ?d ?fl))" using still by (intro r_into_rtranclp wh_record)
  finally have steps: "wh_step\<^sup>*\<^sup>* (s, []) (?s4, remove1 ?d (remove1 ?d ?fl))" .
  moreover have "find_row dl_id i (deliveries ?s4) = Some (outcome_row c3 ?d (Some msg) (outcome_row c3 ?d None ?r2))"
    by (simp add: record_outcome_find i r2)
  ultimately show ?thesis using due
    by (intro exI conjI) (assumption | simp add: outcome_row_def claimed_of_delivery_def maxDeliveryAttempts_def)+
qed

end
