(* ===== verification/WebhookEvents.thy ===== *)
theory WebhookEvents
  imports WebhookProps MerchantProps
begin

section \<open>Webhook events\<close>

text \<open>Every ended charge and payout is told once: what \<open>NotifyTerminal\<close> inserts and marks, and the witnesses.\<close>

definition item_event :: "(uuid \<Rightarrow> ctx) \<Rightarrow> source_table \<Rightarrow> terminal_item \<Rightarrow> webhook_event" where
  "item_event cs tab it = \<lparr>ev_id = gen (cs (ti_id it)) 29, ev_merchant = ti_merchant it, ev_mode = ti_mode it,
     ev_type = event_type tab it,
     ev_payload = \<lparr>pl_id = ti_id it, pl_minor = ti_minor it, pl_currency = ti_currency it,
                   pl_status = (if ti_succeeded it then ''succeeded'' else ''failed'')\<rparr>, ev_created = now (cs (ti_id it))\<rparr>"

definition item_deliveries :: "(uuid \<Rightarrow> ctx) \<Rightarrow> endpoint_row list \<Rightarrow> terminal_item \<Rightarrow> delivery list" where
  "item_deliveries cs eps it = map (new_delivery (cs (ti_id it)) (gen (cs (ti_id it)) 29))
     (enumerate 0 (map we_id (filter (serves (ti_merchant it) (ti_mode it)) eps)))"

definition mark_charges :: "(uuid \<Rightarrow> ctx) \<Rightarrow> uuid set \<Rightarrow> charge_row list \<Rightarrow> charge_row list" where
  "mark_charges cs A = map (\<lambda>r. if ch_id r \<in> A then r\<lparr>ch_notified := Some (now (cs (ch_id r)))\<rparr> else r)"

definition mark_payouts :: "(uuid \<Rightarrow> ctx) \<Rightarrow> uuid set \<Rightarrow> payout_row list \<Rightarrow> payout_row list" where
  "mark_payouts cs A = map (\<lambda>r. if po_id r \<in> A then r\<lparr>po_notified := Some (now (cs (po_id r)))\<rparr> else r)"

lemma mark_one:
  "mark_charges cs (insert i A) rs = mark_charges cs A (update_row ch_id i (\<lambda>r. r\<lparr>ch_notified := Some (now (cs i))\<rparr>) rs)"
  "mark_payouts cs (insert i A) ps = mark_payouts cs A (update_row po_id i (\<lambda>r. r\<lparr>po_notified := Some (now (cs i))\<rparr>) ps)"
  by (auto simp: mark_charges_def mark_payouts_def update_row_def)

lemma mark_none [simp]: "mark_charges cs {} rs = rs" "mark_payouts cs {} ps = ps"
  by (simp_all add: mark_charges_def mark_payouts_def)

lemma enqueueEvent_result:
  assumes "enqueueEvent (cs (ti_id it)) it (event_type tab it) tab s = (Inr (), s')"
  shows "events s' = events s @ [item_event cs tab it]"
    and "deliveries s' = deliveries s @ item_deliveries cs (endpoints s) it"
    and "endpoints s' = endpoints s" and "ext_transfers s' = ext_transfers s"
    and "charges s' = mark_charges cs (if tab = SourceCharges then {ti_id it} else {}) (charges s)"
    and "payouts s' = mark_payouts cs (if tab = SourcePayouts then {ti_id it} else {}) (payouts s)"
proof -
  let ?c = "cs (ti_id it)"
  from assms have tx: "enqueue_tx ?c it (event_type tab it) tab (activeEndpointIDs (ti_merchant it) (ti_mode it) s) s = (Inr (), s')"
    by (simp add: enqueueEvent_def)
  from tx obtain s1 where s': "s' = mark_notified ?c tab (ti_id it) s1"
    and s1: "insert_deliveries ?c (gen ?c 29) 0 (activeEndpointIDs (ti_merchant it) (ti_mode it) s)
       (s\<lparr>events := events s @ [item_event cs tab it]\<rparr>) = Inr s1"
    by (cases rule: enqueue_tx_cases) (simp_all add: item_event_def)
  note s1' = insert_deliveries_result [OF s1]
  show "events s' = events s @ [item_event cs tab it]" by (simp add: s' s1')
  show "deliveries s' = deliveries s @ item_deliveries cs (endpoints s) it"
    by (simp add: s' s1' item_deliveries_def activeEndpointIDs_def)
  show "endpoints s' = endpoints s" "ext_transfers s' = ext_transfers s" by (simp_all add: s' s1')
  show "charges s' = mark_charges cs (if tab = SourceCharges then {ti_id it} else {}) (charges s)"
    by (cases tab) (simp_all add: s' s1' mark_notified_def mark_one)
  show "payouts s' = mark_payouts cs (if tab = SourcePayouts then {ti_id it} else {}) (payouts s)"
    by (cases tab) (simp_all add: s' s1' mark_notified_def mark_one)
qed

lemma mark_union: "mark_charges cs (A \<union> B) rs = mark_charges cs B (mark_charges cs A rs)"
  "mark_payouts cs (A \<union> B) ps = mark_payouts cs B (mark_payouts cs A ps)"
  by (auto simp: mark_charges_def mark_payouts_def)

lemma enqueue_all_result:
  "enqueue_all cs tab items s = (Inr (), s') \<Longrightarrow>
     events s' = events s @ map (item_event cs tab) items
   \<and> deliveries s' = deliveries s @ concat (map (item_deliveries cs (endpoints s)) items)
   \<and> endpoints s' = endpoints s \<and> ext_transfers s' = ext_transfers s
   \<and> charges s' = mark_charges cs (if tab = SourceCharges then ti_id ` set items else {}) (charges s)
   \<and> payouts s' = mark_payouts cs (if tab = SourcePayouts then ti_id ` set items else {}) (payouts s)"
proof (induction items arbitrary: s)
  case (Cons it items)
  then obtain s1 where e: "enqueueEvent (cs (ti_id it)) it (event_type tab it) tab s = (Inr (), s1)"
    and rest: "enqueue_all cs tab items s1 = (Inr (), s')" by (auto split: prod.splits sum.splits)
  from enqueueEvent_result [where cs = cs and it = it and tab = tab, OF e] Cons.IH [OF rest] show ?case
    by (simp add: mark_union [symmetric])
qed simp

subsection \<open>Once for each\<close>

lemma terminal_charge_marked:
  "ext_transfers s' = ext_transfers s \<Longrightarrow>
    List.map_filter (terminal_charge s') (mark_charges cs A rs) = filter (\<lambda>it. ti_id it \<notin> A) (List.map_filter (terminal_charge s) rs)"
  by (induction rs) (auto simp: List.map_filter_simps mark_charges_def terminal_charge_def split: option.split)

lemma terminal_payout_marked:
  "ext_transfers s' = ext_transfers s \<Longrightarrow>
    List.map_filter (terminal_payout s') (mark_payouts cs A rs) = filter (\<lambda>it. ti_id it \<notin> A) (List.map_filter (terminal_payout s) rs)"
  by (induction rs) (auto simp: List.map_filter_simps mark_payouts_def terminal_payout_def split: option.split)

lemma pick_items_ids:
  assumes "limit_ok pick" and "distinct (map ti_id items)"
  shows "map ti_id (pick_items pick items) = pick claimBatch (map ti_id items)" and "set (pick_items pick items) \<subseteq> set items"
proof -
  have "set (pick claimBatch (map ti_id items)) \<subseteq> set (map ti_id items)" using assms by (rule limit_okD)
  then have "map ti_id (List.map_filter (\<lambda>i. find_row ti_id i items) is) = is" if "set is \<subseteq> set (map ti_id items)" for "is"
    using that by (induction "is") (auto simp: List.map_filter_simps find_row_distinct [OF assms(2)])
  with limit_okD(2) [OF assms] show "map ti_id (pick_items pick items) = pick claimBatch (map ti_id items)"
    unfolding pick_items_def by blast
  show "set (pick_items pick items) \<subseteq> set items"
    by (auto simp: pick_items_def List.map_filter_def dest: find_row_Some)
qed

text \<open>
  C38. Every ended charge and payout is told once.  A \<open>NotifyTerminal\<close> that returns without an error inserts, for at
  most twenty ended charges and twenty ended payouts nobody was told of, one event each with one pending delivery for each active
  endpoint of the merchant and mode, and marks them; so the next call is left with exactly the others, and with none
  when there were no more than twenty.
\<close>

theorem ended_told_once:
  assumes run: "NotifyTerminal pick cs s = (Inr (), s')" and pick: "limit_ok pick"
    and cd: "distinct (map ti_id (List.map_filter (terminal_charge s) (charges s)))"
    and pd: "distinct (map ti_id (List.map_filter (terminal_payout s) (payouts s)))"
  shows "\<exists>cis pis. events s' = events s @ map (item_event cs SourceCharges) cis @ map (item_event cs SourcePayouts) pis
    \<and> deliveries s' = deliveries s @ concat (map (item_deliveries cs (endpoints s)) (cis @ pis))
    \<and> distinct (map ti_id cis) \<and> set cis \<subseteq> set (List.map_filter (terminal_charge s) (charges s))
    \<and> distinct (map ti_id pis) \<and> set pis \<subseteq> set (List.map_filter (terminal_payout s) (payouts s))
    \<and> length cis = min 20 (length (List.map_filter (terminal_charge s) (charges s)))
    \<and> length pis = min 20 (length (List.map_filter (terminal_payout s) (payouts s)))
    \<and> List.map_filter (terminal_charge s') (charges s') =
        filter (\<lambda>it. ti_id it \<notin> ti_id ` set cis) (List.map_filter (terminal_charge s) (charges s))
    \<and> List.map_filter (terminal_payout s') (payouts s') =
        filter (\<lambda>it. ti_id it \<notin> ti_id ` set pis) (List.map_filter (terminal_payout s) (payouts s))"
proof -
  let ?ci = "List.map_filter (terminal_charge s) (charges s)" and ?pi = "List.map_filter (terminal_payout s) (payouts s)"
  obtain s1 where s1: "enqueue_all cs SourceCharges (pick_items pick ?ci) s = (Inr (), s1)"
    and s2: "enqueue_all cs SourcePayouts (pick_items pick (List.map_filter (terminal_payout s1) (payouts s1))) s1 = (Inr (), s')"
    using run by (auto simp: NotifyTerminal_def notifyTerminalCharges_def notifyTerminalPayouts_def split: prod.splits sum.splits)
  note r1 = enqueue_all_result [OF s1]
  have "terminal_payout s1 = terminal_payout s" using r1 by (simp add: terminal_payout_def fun_eq_iff)
  then have pi: "List.map_filter (terminal_payout s1) (payouts s1) = ?pi" using r1 by simp
  note r2 = enqueue_all_result [OF s2, unfolded pi]
  have len: "length (pick claimBatch (map ti_id xs)) = min 20 (length xs)" "distinct (pick claimBatch (map ti_id xs))"
    if "distinct (map ti_id xs)" for xs
    using pick that by (simp_all add: limit_ok_def claimBatch_def)
  have lens: "length (pick_items pick ?ci) = min 20 (length ?ci)" "length (pick_items pick ?pi) = min 20 (length ?pi)"
    using pick_items_ids(1) [OF pick cd] pick_items_ids(1) [OF pick pd] len(1) [OF cd] len(1) [OF pd] by (metis length_map)+
  have ext: "ext_transfers s' = ext_transfers s" using r1 r2 by simp
  show ?thesis
  proof (rule exI [of _ "pick_items pick ?ci"], rule exI [of _ "pick_items pick ?pi"], intro conjI)
    show "events s' = events s @ map (item_event cs SourceCharges) (pick_items pick ?ci) @ map (item_event cs SourcePayouts) (pick_items pick ?pi)"
      using r1 r2 by simp
    show "deliveries s' = deliveries s @ concat (map (item_deliveries cs (endpoints s)) (pick_items pick ?ci @ pick_items pick ?pi))"
      using r1 r2 by simp
    show "distinct (map ti_id (pick_items pick ?ci))" "distinct (map ti_id (pick_items pick ?pi))"
      unfolding pick_items_ids(1) [OF pick cd] pick_items_ids(1) [OF pick pd] by (rule len(2) [OF cd], rule len(2) [OF pd])
    show "set (pick_items pick ?ci) \<subseteq> set ?ci" "set (pick_items pick ?pi) \<subseteq> set ?pi"
      by (rule pick_items_ids(2) [OF pick cd], rule pick_items_ids(2) [OF pick pd])
    show "List.map_filter (terminal_charge s') (charges s') = filter (\<lambda>it. ti_id it \<notin> ti_id ` set (pick_items pick ?ci)) ?ci"
      using r1 r2 terminal_charge_marked [OF ext] by simp
    show "List.map_filter (terminal_payout s') (payouts s') = filter (\<lambda>it. ti_id it \<notin> ti_id ` set (pick_items pick ?pi)) ?pi"
      using r1 r2 terminal_payout_marked [OF ext] by simp
  qed (use lens in simp_all)
qed


subsection \<open>The bound on attempts\<close>

lemma enqueue_all_steps: "enqueue_all cs tab items s = (out, s') \<Longrightarrow> wh_step\<^sup>*\<^sup>* (s, fl) (s', fl)"
proof (induction items arbitrary: s)
  case (Cons it items)
  obtain o1 s1 where e: "enqueueEvent (cs (ti_id it)) it (event_type tab it) tab s = (o1, s1)" by fastforce
  then have "wh_step (s, fl) (s1, fl)" unfolding enqueueEvent_def by (rule wh_enqueue)
  with Cons e show ?case by (auto split: sum.splits intro: converse_rtranclp_into_rtranclp)
qed simp

lemma NotifyTerminal_steps: "NotifyTerminal pick cs s = (out, s') \<Longrightarrow> wh_step\<^sup>*\<^sup>* (s, fl) (s', fl)"
  unfolding NotifyTerminal_def notifyTerminalCharges_def notifyTerminalPayouts_def
  by (auto split: prod.splits sum.splits dest!: enqueue_all_steps [where fl = fl] intro: rtranclp_trans)

text \<open>
  C0. The attempts are bounded.  In every state that any number of workers, slow or crashed ones too, merchants and
  \<open>NotifyTerminal\<close> reach from a database without deliveries, no delivery has more than five attempts, one that is
  still pending has at most four, and so has every delivery a worker holds, so that \<open>backoff\<close> is never read outside its
  table.
\<close>

theorem delivery_attempts_bounded:
  assumes "deliveries s = []" and "wh_step\<^sup>*\<^sup>* (s, []) (s', fl)"
  shows "(\<forall>r\<in>set (deliveries s'). 0 \<le> dl_attempts r \<and> dl_attempts r \<le> 5 \<and> (dl_status r = DeliveryPending \<longrightarrow> dl_attempts r \<le> 4))
    \<and> (\<forall>d\<in>set fl. 0 \<le> cv_attempts d \<and> cv_attempts d \<le> 4) \<and> distinct (map dl_id (deliveries s'))"
proof -
  have "attempts_ok (s, [])" using assms(1) by (simp add: attempts_ok_def)
  from attempts_ok_steps [OF assms(2) this] show ?thesis by (simp add: attempts_ok_def)
qed

subsection \<open>Witnesses\<close>

text \<open>The charge of \<open>A\<close> has succeeded, \<open>A\<close> registers an endpoint, and is told.\<close>

definition wh_seed :: webhook_db where
  "wh_seed = merchant_db.extend (merch_first\<lparr>ext_transfers := map (et_status_update (\<lambda>_. StatusCompleted)) (ext_transfers merch_first)\<rparr>)
     (webhook_db.fields [] [] [])"

definition wh_open :: webhook_db where
  "wh_open = snd (CreateEndpoint toy_crypto (call 5) [1, 2] (replicate 12 0) ''A'' ModeLive ''https://a'' wh_seed)"

definition wh_told :: webhook_db where
  "wh_told = snd (NotifyTerminal take (\<lambda>_. call 6) wh_open)"

definition wh_late :: webhook_db where
  "wh_late = wh_told\<lparr>deliveries := map (dl_attempts_update (\<lambda>_. 4)) (deliveries wh_told)\<rparr>"


lemma wh_open_created: "CreateEndpoint toy_crypto (call 5) [1, 2] (replicate 12 0) ''A'' ModeLive ''https://a'' wh_seed =
    (Inr (''whsec_0102'', \<lparr>we_id = ''F}'', we_merchant = ''A'', we_mode = ModeLive, we_url = ''https://a'', we_active = True,
      we_created = 5000\<rparr>), wh_open)"
proof -
  have "fst (CreateEndpoint toy_crypto (call 5) [1, 2] (replicate 12 0) ''A'' ModeLive ''https://a'' wh_seed) =
    Inr (''whsec_0102'', \<lparr>we_id = ''F}'', we_merchant = ''A'', we_mode = ModeLive, we_url = ''https://a'', we_active = True,
      we_created = 5000\<rparr>)"
    unfolding wh_seed_def merch_first_def merch_tokens_def by code_simp
  then show ?thesis unfolding wh_open_def by (metis prod.collapse)
qed

lemma wh_told_run: "NotifyTerminal take (\<lambda>_. call 6) wh_open = (Inr (), wh_told)"
proof -
  have "isl (fst (NotifyTerminal take (\<lambda>_. call 6) wh_open)) = False"
    unfolding wh_open_def wh_seed_def merch_first_def merch_tokens_def by code_simp
  then have "fst (NotifyTerminal take (\<lambda>_. call 6) wh_open) = Inr ()" by (metis isl_def old.sum.exhaust old.unit.exhaust)
  then show ?thesis unfolding wh_told_def by (metis prod.collapse)
qed

lemmas wh_eval = wh_told_def wh_open_def wh_seed_def merch_first_def merch_tokens_def

definition wh_delivery :: delivery where
  "wh_delivery = \<lparr>dl_id = ''G'' @ [CHR 0x7F], dl_event = ''G~'', dl_endpoint = ''F}'', dl_status = DeliveryPending, dl_attempts = 0,
     dl_next = 6000, dl_error = None, dl_created = 6000, dl_delivered = None\<rparr>"

lemma wh_told_deliveries: "deliveries wh_told = [wh_delivery]"
  unfolding wh_eval wh_delivery_def by code_simp

lemma wh_told_event: "find_row ev_id ''G~'' (events wh_told) = Some \<lparr>ev_id = ''G~'', ev_merchant = ''A'', ev_mode = ModeLive,
    ev_type = ''charge.succeeded'', ev_payload = \<lparr>pl_id = ''Dm'', pl_minor = 60, pl_currency = ''NGN'', pl_status = ''succeeded''\<rparr>,
    ev_created = 6000\<rparr>"
  unfolding wh_eval by code_simp

theorem webhook_signed_witness:
  "delivery_request toy_crypto (\<lambda>p. [1]) (claimed_of_delivery wh_delivery) wh_told = Inr \<lparr>hq_url = ''https://a'', hq_event = ''charge.succeeded'',
      hq_signature = ''sha256='' @ hex_encode (replicate 32 0), hq_body = [1]\<rparr>"
proof -
  have e: "cv_event (claimed_of_delivery wh_delivery) = ''G~''" "cv_endpoint (claimed_of_delivery wh_delivery) = ''F}''"
    by (simp_all add: claimed_of_delivery_def wh_delivery_def)
  have "hmac_sha256 toy_crypto k x = replicate 32 0" for k x by (simp add: toy_crypto_def)
  with webhook_signed [OF wh_open_created _ _ NotifyTerminal_steps [OF wh_told_run, of "[]"],
      where d = "claimed_of_delivery wh_delivery" and render = "\<lambda>p. [1]", unfolded e, OF _ _ _ wh_told_event]
  show ?thesis by (simp add: toy_crypto_def)
qed

theorem delivery_round_witness:
  "\<exists>r'. find_row dl_id (dl_id wh_delivery) (deliveries (DeliverPending toy_crypto (\<lambda>p. [1]) (\<lambda>_ _. Inr 500) (call 7) (\<lambda>_. call 8) wh_told)) = Some r'
     \<and> (dl_status r' = DeliverySucceeded \<or> dl_status r' = DeliveryPending \<and> dl_next r' = 60008000)"
proof -
  have due: "wh_delivery \<in> set (take 20 (sort_key dl_next (filter (\<lambda>r. dl_status r = DeliveryPending \<and> dl_next r \<le> now (call 7)) (deliveries wh_told))))"
    by (simp add: wh_told_deliveries wh_delivery_def call_def)
  have r: "find_row dl_id (dl_id wh_delivery) (deliveries wh_told) = Some wh_delivery" by (simp add: wh_told_deliveries find_row_Cons)
  have a: "dl_attempts wh_delivery = 0" by (simp add: wh_delivery_def)
  have ids: "distinct (map dl_id (deliveries wh_told))" by (simp add: wh_told_deliveries)
  from delivery_round [OF ids r, where cr = toy_crypto and render = "\<lambda>p. [1]" and http = "\<lambda>_ _. Inr 500" and c = "call 7" and cs = "\<lambda>_. call 8"]
  obtain r' where r': "find_row dl_id (dl_id wh_delivery) (deliveries (DeliverPending toy_crypto (\<lambda>p. [1]) (\<lambda>_ _. Inr 500) (call 7) (\<lambda>_. call 8) wh_told)) = Some r'"
    and i: "dl_id wh_delivery \<in> set (due_deliveries (call 7) wh_told)"
    and fate: "dl_status r' \<noteq> DeliverySucceeded \<longrightarrow> dl_status r' = DeliveryPending
       \<and> dl_next r' = now (call 8) + [minute, 5 * minute, 30 * minute, 2 * hour] ! nat (dl_attempts wh_delivery)"
    using due a by auto
  with a show ?thesis by (auto simp: call_def minute_def second_def)
qed


theorem late_failure_overwrites_witness:
  "\<exists>s' fl r'. wh_step\<^sup>*\<^sup>* (wh_late, []) (s', fl) \<and> find_row dl_id (dl_id wh_delivery) (deliveries s') = Some r'
     \<and> dl_status r' = DeliveryFailed \<and> dl_delivered r' = Some 100000 \<and> dl_attempts r' = 5 \<and> dl_error r' = Some ''timeout''"
proof -
  have l: "deliveries wh_late = [wh_delivery\<lparr>dl_attempts := 4\<rparr>]" by (simp add: wh_late_def wh_told_deliveries)
  have "now (call 100) = 100000" by (simp add: call_def)
  with late_failure_overwrites [where s = wh_late and i = "dl_id wh_delivery" and r = "wh_delivery\<lparr>dl_attempts := 4\<rparr>" and c = "call 7"
      and ?c2.0 = "call 70000" and ?c3.0 = "call 100" and msg = "''timeout''"]
  show ?thesis by (simp add: l find_row_Cons wh_delivery_def call_def minute_def second_def)
qed

theorem delivery_attempts_bounded_witness: "\<forall>r\<in>set (deliveries wh_told). dl_attempts r \<le> 5"
proof -
  have "wh_step\<^sup>*\<^sup>* (wh_seed, []) (wh_told, [])"
    using wh_create [OF wh_open_created] NotifyTerminal_steps [OF wh_told_run] by (rule converse_rtranclp_into_rtranclp)
  moreover have "deliveries wh_seed = []" unfolding wh_eval by code_simp
  ultimately show ?thesis using delivery_attempts_bounded by blast
qed

theorem ended_told_once_witness:
  "map (pl_id \<circ> ev_payload) (events wh_told) = [''Dm''] \<and> List.map_filter (terminal_charge wh_told) (charges wh_told) = []"
proof -
  have d: "map ti_id (List.map_filter (terminal_charge wh_open) (charges wh_open)) = [''Dm'']"
    "List.map_filter (terminal_payout wh_open) (payouts wh_open) = []" "events wh_open = []"
    unfolding wh_eval by code_simp+
  from ended_told_once [OF wh_told_run limit_ok_take] d
  obtain cis pis where r: "events wh_told = map (item_event (\<lambda>_. call 6) SourceCharges) cis @ map (item_event (\<lambda>_. call 6) SourcePayouts) pis"
    "set pis \<subseteq> {}" "set cis \<subseteq> set (List.map_filter (terminal_charge wh_open) (charges wh_open))"
    "length cis = min 20 (length (List.map_filter (terminal_charge wh_open) (charges wh_open)))"
    "List.map_filter (terminal_charge wh_told) (charges wh_told) =
       filter (\<lambda>it. ti_id it \<notin> ti_id ` set cis) (List.map_filter (terminal_charge wh_open) (charges wh_open))"
    by auto
  from d(1) obtain it where it: "List.map_filter (terminal_charge wh_open) (charges wh_open) = [it]" "ti_id it = ''Dm''" by auto
  then have "cis = [it]" using r(3,4) by (cases cis) auto
  with r it show ?thesis by (simp add: item_event_def)
qed

end
