(* ===== verification/Spec2Isabelle.thy ===== *)
theory Spec2Isabelle
  imports RiskProps CardProps CoolingProps Disputes Reconciliation SettlementProps SchedulerProps
    ApiKeys Consent Checkout AuthProps Recovery Bills WebhookEvents
begin

text \<open>
  A verification development of the Kolo bank server, a Go service over PostgreSQL.

  \<^bold>\<open>The program.\<close>  Every service of \<open>internal/\<close> keeps its state in tables of one database and calls
  the services below it.  At the bottom is the double-entry ledger (\<open>internal/ledger\<close>), whose every
  posting runs under an idempotency key (\<open>internal/idempotency\<close>) and whose invariants are triggers
  of the migrations.  Above it stand payments between customers with their limits
  (\<open>internal/payments\<close>), cooling-off (\<open>internal/coolingoff\<close>), cards (\<open>internal/cards\<close>) and external
  transfers over simulated rails (\<open>internal/externalpayments\<close>, \<open>internal/rails\<close>, \<open>internal/risk\<close>);
  above those the merchant side: tokens, charges, payouts, fees and their settlement, checkout sessions, consent, API
  keys and the webhooks that tell a merchant how a charge ended (\<open>internal/webhooks\<close>); above payments the
  scheduler of standing orders (\<open>internal/scheduler\<close>), above external transfers bills (\<open>internal/bills\<close>);
  passwords, second factors and sessions (\<open>internal/auth\<close>, \<open>internal/secrets\<close>) and the recovery of an account
  (\<open>internal/recovery\<close>); and beside them onboarding
  (\<open>internal/onboarding\<close>, \<open>internal/kyc\<close>, \<open>internal/compliance\<close>, \<open>internal/identity\<close>,
  \<open>internal/audit\<close>), payee checks (\<open>internal/payee\<close>), kill switches (\<open>internal/resilience\<close>),
  disputes and reconciliation.

  \<^bold>\<open>How the state is modelled.\<close>  A table is a list of records in the order of insertion, a component's
  database a record that extends those of the components it calls: \<open>idem_db\<close>, \<open>ledger_db\<close>,
  \<open>resil_db\<close>, \<open>ext_db\<close>, \<open>card_db\<close>, \<open>cooling_db\<close>, \<open>dispute_db\<close>, \<open>recon_db\<close>, \<open>merchant_db\<close>, \<open>fee_db\<close>,
  \<open>settle_db\<close>, \<open>sched_db\<close>, \<open>identity_db\<close>, \<open>auth_db\<close>, \<open>recovery_db\<close>, \<open>key_db\<close>, \<open>consent_db\<close>, \<open>checkout_db\<close>,
  \<open>bill_db\<close>, \<open>webhook_db\<close>.
  An operation is a function from the state to a result and a state; the result is a sum, its left
  side the error, \<open>gerror\<close>, which names the sentinel errors of the packages and the classes of SQL
  errors (\<open>SqlUnique\<close>, \<open>SqlForeignKey\<close>, \<open>SqlCheck\<close>, \<open>SqlRange\<close>) that constraints raise.  A transaction
  that fails returns the state it started from.  Where the code uses several transactions or
  statements, each is a definition of its own, and the step relations of the components interleave
  other calls between them.  \<open>int64\<close> arithmetic in Go wraps and is written with \<open>wrap64\<close>; SQL's
  \<open>BIGINT\<close> and the scan of a \<open>SUM\<close> raise, written with \<open>in64\<close> and \<open>scan64\<close>.  A call gets a context
  \<open>ctx\<close>: the clock, the ids that \<open>gen_random_uuid\<close> will draw (\<open>gen c n\<close>, one index for each table)
  and the functions of the standard library the hashes use.

  \<^bold>\<open>The theories.\<close>
  \<^item> \<open>Prelude\<close>: errors, contexts, rows of tables, machine integers, strings.
  \<^item> \<open>Kyc\<close>, \<open>Identity\<close>, \<open>Onboarding\<close>: \<open>kyc.go\<close>, \<open>compliance.go\<close>, \<open>identity.go\<close>, \<open>audit.go\<close>,
    \<open>onboarding.go\<close>; the outcome of a registration with the shipped providers.
  \<^item> \<open>Idempotency\<close>: \<open>Execute\<close>; a completed key is replayed, a failed body leaves nothing.
  \<^item> \<open>Ledger\<close>: the tables, triggers and operations of \<open>internal/ledger\<close> and migrations 1 to 9.
    \<open>LedgerInv\<close>, \<open>LedgerPost\<close>, \<open>LedgerOps\<close>: the invariant (every transaction balances, no account
    under its limit, keys unique) and that each operation keeps it.  \<open>LedgerEffect\<close>,
    \<open>LedgerHolds\<close>: what each operation does on each branch.  \<open>LedgerProps\<close>: the properties.
  \<^item> \<open>HoldKeys\<close>, \<open>HoldOwners\<close>: which keys capture which holds, and the interface \<open>lien_table\<close> by which
    a table of another component owns holds of the ledger; cards, cooling-off and external
    transfers interpret it.
  \<^item> \<open>Resilience\<close>, \<open>Payments\<close>: \<open>internal/resilience\<close> with its in-process cache, \<open>internal/payments\<close>.
  \<^item> \<open>Payee\<close>: \<open>internal/payee\<close>; the two-row programme computes the edit distance.
  \<^item> \<open>Risk\<close>, \<open>External\<close>: \<open>internal/rails\<close>, \<open>internal/risk\<close>, \<open>internal/externalpayments\<close>.  \<open>ExternalInv\<close>,
    \<open>ExternalProps\<close>, \<open>ExternalClaims\<close>, \<open>ExternalLife\<close>, \<open>RiskProps\<close>: the step relation of the workers,
    investigators and senders, its invariant, claims, agreement with the rail, the life of a row.
  \<^item> \<open>Cards\<close>, \<open>CardInv\<close>, \<open>CardProps\<close>: \<open>internal/cards\<close>.
  \<^item> \<open>CoolingOff\<close>, \<open>CoolingInv\<close>, \<open>CoolingProps\<close>: \<open>internal/coolingoff\<close>.
  \<^item> \<open>Disputes\<close>: \<open>internal/disputes\<close>.
  \<^item> \<open>Reconciliation\<close>: \<open>internal/reconciliation\<close>.
  \<^item> \<open>Merchants\<close>, \<open>MerchantProps\<close>: \<open>internal/tokens\<close>, \<open>internal/charges\<close>, \<open>internal/payouts\<close>.
  \<^item> \<open>Fees\<close>, \<open>FeeProps\<close>: \<open>internal/fees\<close>; which rule decides, and that a fee is taken once.
  \<^item> \<open>Calendar\<close>: \<open>Time.AddDate\<close>, with the round trip between days and civil dates.
  \<^item> \<open>Settlement\<close>, \<open>SettlementProps\<close>: \<open>internal/settlement\<close>; what a cycle's totals stand for.
  \<^item> \<open>LedgerKeys\<close>: what one idempotency key can post, for components that make their own keys.
  \<^item> \<open>Scheduler\<close>, \<open>SchedulerProps\<close>: \<open>internal/scheduler\<close>; an occurrence moves its money at most
    once, and a scheduler that fell behind catches up.
  \<^item> \<open>Credentials\<close>, \<open>ApiKeys\<close>: bearer values that are kept as hashes, the interface \<open>bearer\<close> which keys and sessions
    interpret; \<open>internal/apikeys\<close>.
  \<^item> \<open>Consent\<close>: \<open>internal/consent\<close> refines a map from customers and merchants to scopes.
  \<^item> \<open>Checkout\<close>: \<open>internal/checkout\<close>.
  \<^item> \<open>Encoding\<close>: base32 and base64 as Go's packages do them, with their round trips, and the scanning of numbers.
  \<^item> \<open>AuthCrypto\<close>, \<open>Auth\<close>, \<open>AuthProps\<close>: \<open>internal/secrets/local.go\<close> and \<open>internal/auth\<close>: passwords, one-time
    codes, devices, challenges, logins and sessions.
  \<^item> \<open>Recovery\<close>: \<open>internal/recovery\<close>; who can reset whose password.
  \<^item> \<open>Bills\<close>: \<open>internal/bills\<close>; a bill is paid once, and the worker moves on whatever happens.
  \<^item> \<open>Webhooks\<close>, \<open>WebhookProps\<close>, \<open>WebhookEvents\<close>: \<open>internal/webhooks\<close>; signatures, the bound on attempts, what a slow
    worker overwrites, and that every ended charge and payout is told once.

  \<^bold>\<open>Bounds.\<close>  No operation needs fuel: the loops run over the rows a query returned and are
  recursion on that list, the Levenshtein programme is two nested loops over the lengths.  A
  \<open>LIMIT\<close> without an \<open>ORDER BY\<close> takes rows of Postgres's choice: a parameter \<open>pick\<close>, of which only
  \<open>limit_ok\<close> is assumed (as many as there are, up to the limit, none twice).  Whether the deadline of a
  rail call expires is a parameter of the call.  A delivery of a webhook is given up at the fifth failure
  (\<open>maxDeliveryAttempts\<close>); one-time codes count steps in \<open>64 word\<close>.

  \<^bold>\<open>What is assumed.\<close>  Ids are canonical lower-case strings, so that comparing them as text and as
  \<open>UUID\<close> agree; names are ASCII; the time zone of the sessions and of the process is UTC; one process holds the cache of
  \<open>resilience\<close>.  A connection that fails is an abort before or after a transaction: the interleaved
  step relations contain the states it leaves.  Cryptography is a parameter: the record \<open>crypto\<close> holds argon2, the two HMACs, the
  sealing and opening of AES-GCM and the environment, and SHA-256 is a field of \<open>ctx\<close>; what a theorem needs of them (opening
  what was sealed, no collision of a hash) is a hypothesis of it.  Random bytes and nonces are arguments.  The
  receiver of webhooks is a function from requests to responses, and \<open>render\<close> the text of a stored
  \<open>JSONB\<close> value.

  \<^bold>\<open>Not modelled.\<close>  The HTTP layer and the wiring (\<open>internal/publicapi\<close>, \<open>internal/httpserver\<close>,
  \<open>cmd\<close>), configuration, logging, the connection pool and test support, which decode input and call the
  services modelled here.
\<close>

end
